(* ===== verification/PyFloat.thy ===== *)
theory PyFloat
  imports Prelude Complex_Main "HOL-Library.Log_Nat" "HOL-Library.Product_Lexorder"
begin

text \<open>
  Python's \<open>float\<close>: IEEE 754 binary64 with round-to-nearest-even, computed exactly on
  rationals. \<open>Fin q\<close> is the finite value \<open>q\<close> (\<open>Fin 0\<close> is positive zero), \<open>NegZero\<close> is
  \<open>-0.0\<close>. Addition, multiplication and division round the exact result once
  (\<open>mk_float\<close>); a result of magnitude at least \<open>2 ^ 1024\<close> after rounding is an infinity.
  Comparisons are the ones Python uses, so every comparison with a NaN is false.
\<close>

datatype pyfloat = Fin rat | NegZero | PInf | NInf | NaN

subsection \<open>Rounding\<close>

text \<open>\<open>flog2 q\<close> is the binary exponent of a positive \<open>q\<close>: \<open>2 powi flog2 q \<le> q < 2 powi (flog2 q + 1)\<close>.\<close>

definition flog2 :: "rat \<Rightarrow> int" where
  "flog2 q = (case quotient_of q of (n, d) \<Rightarrow>
     let k = bitlen n - bitlen d in if 2 powi k \<le> q then k else k - 1)"

definition ulp_exp :: "rat \<Rightarrow> int" where
  "ulp_exp q = max (flog2 q - 52) (- 1074)"

definition round_half_even :: "rat \<Rightarrow> int" where
  "round_half_even x = (let f = \<lfloor>x\<rfloor>; r = x - of_int f in
     if r < 1 / 2 then f else if 1 / 2 < r then f + 1 else if even f then f else f + 1)"

definition rnd_pos :: "rat \<Rightarrow> rat" where
  "rnd_pos q = of_int (round_half_even (q / 2 powi ulp_exp q)) * 2 powi ulp_exp q"

definition rnd :: "rat \<Rightarrow> rat" where
  "rnd q = (if q = 0 then 0 else if 0 < q then rnd_pos q else - rnd_pos (- q))"

definition float_limit :: rat where
  "float_limit = 2 ^ 1024"

text \<open>The sign argument decides the sign of an exact zero.\<close>

definition mk_float :: "bool \<Rightarrow> rat \<Rightarrow> pyfloat" where
  "mk_float s q = (let r = rnd q in
     if r = 0 then (if q < 0 \<or> (q = 0 \<and> s) then NegZero else Fin 0)
     else if float_limit \<le> r then PInf
     else if r \<le> - float_limit then NInf
     else Fin r)"

subsection \<open>Arithmetic\<close>

fun fval :: "pyfloat \<Rightarrow> rat" where
  "fval (Fin q) = q"
| "fval _ = 0"

fun sign_bit :: "pyfloat \<Rightarrow> bool" where
  "sign_bit (Fin q) = (q < 0)"
| "sign_bit NegZero = True"
| "sign_bit NInf = True"
| "sign_bit _ = False"

fun is_finite :: "pyfloat \<Rightarrow> bool" where
  "is_finite (Fin _) = True"
| "is_finite NegZero = True"
| "is_finite _ = False"

fun fneg :: "pyfloat \<Rightarrow> pyfloat" where
  "fneg (Fin q) = (if q = 0 then NegZero else Fin (- q))"
| "fneg NegZero = Fin 0"
| "fneg PInf = NInf"
| "fneg NInf = PInf"
| "fneg NaN = NaN"

fun fabs :: "pyfloat \<Rightarrow> pyfloat" where
  "fabs (Fin q) = Fin \<bar>q\<bar>"
| "fabs NegZero = Fin 0"
| "fabs NaN = NaN"
| "fabs _ = PInf"

definition inf_of :: "bool \<Rightarrow> pyfloat" where
  "inf_of s = (if s then NInf else PInf)"

definition fadd :: "pyfloat \<Rightarrow> pyfloat \<Rightarrow> pyfloat" where
  "fadd a b =
     (if a = NaN \<or> b = NaN then NaN
      else if is_finite a \<and> is_finite b
        then mk_float (sign_bit a \<and> sign_bit b) (fval a + fval b)
      else if is_finite a then b
      else if is_finite b then a
      else if a = b then a else NaN)"

definition fsub :: "pyfloat \<Rightarrow> pyfloat \<Rightarrow> pyfloat" where
  "fsub a b = fadd a (fneg b)"

definition fmul :: "pyfloat \<Rightarrow> pyfloat \<Rightarrow> pyfloat" where
  "fmul a b =
     (if a = NaN \<or> b = NaN then NaN
      else if is_finite a \<and> is_finite b
        then mk_float (sign_bit a \<noteq> sign_bit b) (fval a * fval b)
      else if (is_finite a \<and> fval a = 0) \<or> (is_finite b \<and> fval b = 0) then NaN
      else inf_of (sign_bit a \<noteq> sign_bit b))"

text \<open>Python raises on a zero divisor, whatever the dividend.\<close>

definition fdiv :: "pyfloat \<Rightarrow> pyfloat \<Rightarrow> pyfloat res" where
  "fdiv a b =
     (if is_finite b \<and> fval b = 0 then Inl ZeroDivisionError
      else if a = NaN \<or> b = NaN then Inr NaN
      else if is_finite a \<and> is_finite b then Inr (mk_float (sign_bit a \<noteq> sign_bit b) (fval a / fval b))
      else if is_finite a then Inr (if sign_bit a \<noteq> sign_bit b then NegZero else Fin 0)
      else if is_finite b then Inr (inf_of (sign_bit a \<noteq> sign_bit b))
      else Inr NaN)"

subsection \<open>Comparison\<close>

fun fkey :: "pyfloat \<Rightarrow> int \<times> rat" where
  "fkey NInf = (- 1, 0)"
| "fkey (Fin q) = (0, q)"
| "fkey NegZero = (0, 0)"
| "fkey PInf = (1, 0)"
| "fkey NaN = (2, 0)"

definition flt :: "pyfloat \<Rightarrow> pyfloat \<Rightarrow> bool" where
  "flt a b = (a \<noteq> NaN \<and> b \<noteq> NaN \<and> fkey a < fkey b)"

definition fle :: "pyfloat \<Rightarrow> pyfloat \<Rightarrow> bool" where
  "fle a b = (a \<noteq> NaN \<and> b \<noteq> NaN \<and> fkey a \<le> fkey b)"

definition feq :: "pyfloat \<Rightarrow> pyfloat \<Rightarrow> bool" where
  "feq a b = (a \<noteq> NaN \<and> b \<noteq> NaN \<and> fkey a = fkey b)"

text \<open>\<open>max(a, b)\<close> and \<open>min(a, b)\<close> keep the first argument unless the second is strictly better.\<close>

definition py_max :: "pyfloat \<Rightarrow> pyfloat \<Rightarrow> pyfloat" where
  "py_max a b = (if flt a b then b else a)"

definition py_min :: "pyfloat \<Rightarrow> pyfloat \<Rightarrow> pyfloat" where
  "py_min a b = (if flt b a then b else a)"

text \<open>
  \<open>float(i)\<close> of an integer: rounded to nearest even, an \<open>OverflowError\<close> when the
  rounded value leaves the finite range.
\<close>

definition float_of_int :: "int \<Rightarrow> pyfloat res" where
  "float_of_int i = (let f = mk_float False (of_int i) in
     if is_finite f then Inr f else Inl (OverflowError ''int too large to convert to float''))"

text \<open>\<open>int(x)\<close> and \<open>round(x)\<close> of a finite float, \<open>x.is_integer()\<close>.\<close>

definition trunc_rat :: "rat \<Rightarrow> int" where
  "trunc_rat q = (if 0 \<le> q then \<lfloor>q\<rfloor> else \<lceil>q\<rceil>)"

fun int_of_float :: "pyfloat \<Rightarrow> int res" where
  "int_of_float NaN = Inl (ValueError ''cannot convert float NaN to integer'')"
| "int_of_float PInf = Inl (OverflowError ''cannot convert float infinity to integer'')"
| "int_of_float NInf = Inl (OverflowError ''cannot convert float infinity to integer'')"
| "int_of_float x = Inr (trunc_rat (fval x))"

fun round_float :: "pyfloat \<Rightarrow> int res" where
  "round_float NaN = Inl (ValueError ''cannot convert float NaN to integer'')"
| "round_float PInf = Inl (OverflowError ''cannot convert float infinity to integer'')"
| "round_float NInf = Inl (OverflowError ''cannot convert float infinity to integer'')"
| "round_float x = Inr (round_half_even (fval x))"

definition float_is_integer :: "pyfloat \<Rightarrow> bool" where
  "float_is_integer x = (is_finite x \<and> fval x = of_int \<lfloor>fval x\<rfloor>)"

text \<open>
  \<open>sum(xs)\<close> over floats starts at the integer 0, which adds like \<open>0.0\<close>. The plain fold is the
  \<open>sum\<close> of CPython 3.11; from 3.12 on the rounding errors of the fold are compensated.
\<close>

definition fsum :: "pyfloat list \<Rightarrow> pyfloat" where
  "fsum xs = foldl fadd (Fin 0) xs"

subsection \<open>Facts on rounding\<close>

lemma quotient_of_pos: "quotient_of q = (n, d) \<Longrightarrow> 0 < q \<Longrightarrow> 0 < n \<and> 0 < d"
  using quotient_of_denom_pos [of q n d] quotient_of_div [of q n d]
  by (auto simp: zero_less_divide_iff)

lemma bitlen_rat_bounds:
  assumes "0 < n"
  shows "2 powi (bitlen n - 1) \<le> (of_int n :: rat)" "(of_int n :: rat) < 2 powi (bitlen n)"
proof -
  have b: "bitlen n \<ge> 1" using assms bitlen_eq_zero_iff [of n] bitlen_nonneg [of n] by linarith
  have "(2 :: int) ^ nat (bitlen n - 1) \<le> n" "n < 2 ^ nat (bitlen n)"
    using bitlen_bounds [OF assms] by auto
  then have "(of_int (2 ^ nat (bitlen n - 1)) :: rat) \<le> of_int n" "(of_int n :: rat) < of_int (2 ^ nat (bitlen n))"
    by (simp_all only: of_int_le_iff of_int_less_iff)
  then show "2 powi (bitlen n - 1) \<le> (of_int n :: rat)" "(of_int n :: rat) < 2 powi (bitlen n)"
    using b by (simp_all add: power_int_nonneg_exp)
qed

lemma flog2_bounds:
  assumes "0 < q"
  shows "2 powi flog2 q \<le> q" "q < 2 powi (flog2 q + 1)"
proof -
  obtain n d where nd: "quotient_of q = (n, d)" by (cases "quotient_of q")
  then have pos: "0 < n" "0 < d" using quotient_of_pos assms by blast+
  have q: "q = of_int n / of_int d" using quotient_of_div [OF nd] .
  let ?k = "bitlen n - bitlen d"
  note bn = bitlen_rat_bounds [OF pos(1)] and bd = bitlen_rat_bounds [OF pos(2)]
  have dpos: "(0 :: rat) < of_int d" using pos by simp
  have hi: "q < 2 powi (?k + 1)"
  proof -
    have "(of_int n :: rat) < 2 powi (?k + 1) * 2 powi (bitlen d - 1)"
      using bn(2) by (simp flip: power_int_add)
    also have "\<dots> \<le> 2 powi (?k + 1) * of_int d"
      using bd(1) by (intro mult_left_mono) auto
    finally show ?thesis using dpos by (simp add: q pos_divide_less_eq)
  qed
  have lo: "2 powi (?k - 1) \<le> q"
  proof -
    have "(2 :: rat) powi (?k - 1) * of_int d \<le> 2 powi (?k - 1) * 2 powi (bitlen d)"
      using bd(2) by (intro mult_left_mono) auto
    also have "\<dots> = 2 powi (bitlen n - 1)" by (simp flip: power_int_add)
    also have "\<dots> \<le> of_int n" by (rule bn(1))
    finally show ?thesis using dpos by (simp add: q pos_le_divide_eq)
  qed
  have def: "flog2 q = (if 2 powi ?k \<le> q then ?k else ?k - 1)"
    by (simp add: flog2_def nd Let_def)
  show "2 powi flog2 q \<le> q" using lo by (simp add: def)
  show "q < 2 powi (flog2 q + 1)" using hi by (auto simp: def)
qed

lemma pow2_less_D: "(2 :: rat) powi m < 2 powi n \<Longrightarrow> m < n"
  by (rule ccontr) (use power_int_increasing [of n m "2 :: rat"] in auto)

lemma round_half_even_ge: "of_int n \<le> x \<Longrightarrow> n \<le> round_half_even x"
  by (auto simp: round_half_even_def Let_def le_floor_iff) (simp_all add: le_floor_iff add.commute add_increasing)

lemma round_half_even_le:
  assumes "x \<le> of_int n"
  shows "round_half_even x \<le> n"
proof (cases "x = of_int n")
  case True
  then show ?thesis by (simp add: round_half_even_def)
next
  case False
  with assms have "x < of_int n" by simp
  then have "\<lfloor>x\<rfloor> < n" by (simp add: floor_less_iff)
  then show ?thesis by (auto simp: round_half_even_def Let_def)
qed

lemma round_half_even_of_int [simp]: "round_half_even (of_int n) = n"
  by (simp add: round_half_even_def)

lemma round_half_even_mono:
  assumes "x \<le> y"
  shows "round_half_even x \<le> round_half_even y"
proof (cases "\<lfloor>x\<rfloor> = \<lfloor>y\<rfloor>")
  case True
  with assms show ?thesis by (auto simp: round_half_even_def Let_def)
next
  case False
  with assms have "\<lfloor>x\<rfloor> + 1 \<le> \<lfloor>y\<rfloor>" using floor_mono [OF assms] by linarith
  moreover have "round_half_even x \<le> \<lfloor>x\<rfloor> + 1" by (auto simp: round_half_even_def Let_def)
  moreover have "\<lfloor>y\<rfloor> \<le> round_half_even y" by (auto simp: round_half_even_def Let_def)
  ultimately show ?thesis by linarith
qed

lemma pow_multiple:
  assumes "e \<le> (k :: int)"
  shows "(2 :: rat) powi k = of_int (2 ^ nat (k - e)) * 2 powi e"
proof -
  have "(2 :: rat) powi k = 2 powi (k - e) * 2 powi e" by (simp flip: power_int_add)
  also have "(2 :: rat) powi (k - e) = of_int (2 ^ nat (k - e))"
    using assms by (simp add: power_int_nonneg_exp)
  finally show ?thesis .
qed

lemma rnd_pos_nonneg: "0 < q \<Longrightarrow> 0 \<le> rnd_pos q"
  using round_half_even_ge [of 0 "q / 2 powi ulp_exp q"] by (simp add: rnd_pos_def)

lemma rnd_pos_pow_le:
  assumes "0 < q" "q \<le> 2 powi k" "ulp_exp q \<le> k"
  shows "rnd_pos q \<le> 2 powi k"
proof -
  let ?e = "ulp_exp q"
  have "q / 2 powi ?e \<le> of_int (2 ^ nat (k - ?e))"
    using assms(2) pow_multiple [OF assms(3)] by (simp add: pos_divide_le_eq)
  then have "round_half_even (q / 2 powi ?e) \<le> 2 ^ nat (k - ?e)" by (rule round_half_even_le)
  then have "(of_int (round_half_even (q / 2 powi ?e)) :: rat) \<le> of_int (2 ^ nat (k - ?e))"
    by (simp only: of_int_le_iff)
  then show ?thesis unfolding rnd_pos_def pow_multiple [OF assms(3)]
    by (intro mult_right_mono) auto
qed

lemma rnd_pos_pow_ge:
  assumes "0 < q" "2 powi k \<le> q" "ulp_exp q \<le> k"
  shows "2 powi k \<le> rnd_pos q"
proof -
  let ?e = "ulp_exp q"
  have "of_int (2 ^ nat (k - ?e)) \<le> q / 2 powi ?e"
    using assms(2) pow_multiple [OF assms(3)] by (simp add: pos_le_divide_eq)
  then have "2 ^ nat (k - ?e) \<le> round_half_even (q / 2 powi ?e)" by (rule round_half_even_ge)
  then have "(of_int (2 ^ nat (k - ?e)) :: rat) \<le> of_int (round_half_even (q / 2 powi ?e))"
    by (simp only: of_int_le_iff)
  then show ?thesis unfolding rnd_pos_def pow_multiple [OF assms(3)]
    by (intro mult_right_mono) auto
qed

lemma flog2_mono:
  assumes "0 < p" "p \<le> q"
  shows "flog2 p \<le> flog2 q"
proof -
  have "(2 :: rat) powi flog2 p < 2 powi (flog2 q + 1)"
    using flog2_bounds(1) [of p] flog2_bounds(2) [of q] assms by linarith
  then have "flog2 p < flog2 q + 1"
    by (rule pow2_less_D)
  then show ?thesis by simp
qed

lemma rnd_pos_mono:
  assumes "0 < p" "p \<le> q"
  shows "rnd_pos p \<le> rnd_pos q"
proof (cases "ulp_exp p = ulp_exp q")
  case True
  have "p / 2 powi ulp_exp q \<le> q / 2 powi ulp_exp q"
    using assms by (intro divide_right_mono) auto
  then have "round_half_even (p / 2 powi ulp_exp q) \<le> round_half_even (q / 2 powi ulp_exp q)"
    by (rule round_half_even_mono)
  then show ?thesis by (simp add: rnd_pos_def True)
next
  case False
  have q: "0 < q" using assms by simp
  have mono: "flog2 p \<le> flog2 q" by (rule flog2_mono [OF assms])
  let ?k = "flog2 q"
  have e: "ulp_exp q = ?k - 52" "flog2 p < ?k" "ulp_exp p \<le> ?k"
    using False mono by (auto simp: ulp_exp_def max_def split: if_splits)
  have "p \<le> 2 powi (flog2 p + 1)" using flog2_bounds(2) [OF assms(1)] by simp
  also have "\<dots> \<le> 2 powi ?k" using e by (intro power_int_increasing) auto
  finally have "rnd_pos p \<le> 2 powi ?k" by (intro rnd_pos_pow_le assms e)
  also have "\<dots> \<le> rnd_pos q"
    using flog2_bounds(1) [OF q] e by (intro rnd_pos_pow_ge q) auto
  finally show ?thesis .
qed

lemma rnd_nonneg: "0 \<le> q \<Longrightarrow> 0 \<le> rnd q"
  by (auto simp: rnd_def rnd_pos_nonneg)

lemma rnd_neg [simp]: "rnd (- q) = - rnd q"
  by (auto simp: rnd_def)

lemma rnd_zero [simp]: "rnd 0 = 0"
  by (simp add: rnd_def)

lemma rnd_mono:
  assumes "p \<le> q"
  shows "rnd p \<le> rnd q"
proof -
  consider "0 < p" | "q < 0" | "p \<le> 0" "0 \<le> q" using assms by linarith
  then show ?thesis
  proof cases
    case 1
    with assms show ?thesis by (simp add: rnd_def rnd_pos_mono)
  next
    case 2
    with assms rnd_pos_mono [of "- q" "- p"] show ?thesis by (simp add: rnd_def)
  next
    case 3
    have "rnd p \<le> 0" using rnd_nonneg [of "- p"] 3 by simp
    with 3 rnd_nonneg [of q] show ?thesis by linarith
  qed
qed

text \<open>Integers of at most 53 bits are exact.\<close>

lemma rnd_of_int:
  assumes "\<bar>i\<bar> < 2 ^ 53"
  shows "rnd (of_int i) = of_int i"
proof -
  have pos: "rnd_pos (of_int i) = of_int i" if i: "0 < i" "i < 2 ^ 53" for i :: int
  proof -
    let ?q = "of_int i :: rat" and ?e = "ulp_exp (of_int i)"
    have "(of_int i :: rat) < of_int (2 ^ 53)" using i(2) by (simp only: of_int_less_iff)
    then have "(2 :: rat) powi flog2 ?q < 2 powi 53"
      using flog2_bounds(1) [of ?q] i by simp
    then have "flog2 ?q < 53" by (rule pow2_less_D)
    then have e: "?e \<le> 0" by (simp add: ulp_exp_def)
    have "?q = of_int (i * 2 ^ nat (- ?e)) * 2 powi ?e"
      using pow_multiple [OF e] by simp
    then have "?q / 2 powi ?e = of_int (i * 2 ^ nat (- ?e))" by (simp add: field_simps)
    then have "round_half_even (?q / 2 powi ?e) = i * 2 ^ nat (- ?e)"
      by (simp only: round_half_even_of_int)
    then show ?thesis unfolding rnd_pos_def using \<open>?q = _\<close> by simp
  qed
  show ?thesis using assms pos [of i] pos [of "- i"] by (auto simp: rnd_def)
qed

subsection \<open>Facts on comparison and arithmetic\<close>

lemma flt_irrefl [simp]: "\<not> flt a a"
  by (simp add: flt_def)

lemma flt_trans: "flt a b \<Longrightarrow> flt b c \<Longrightarrow> flt a c"
  by (auto simp: flt_def)

lemma fle_trans: "fle a b \<Longrightarrow> fle b c \<Longrightarrow> fle a c"
  by (auto simp: fle_def)

lemma flt_NaN [simp]: "\<not> flt NaN a" "\<not> flt a NaN" "\<not> fle NaN a" "\<not> fle a NaN"
  by (simp_all add: flt_def fle_def)

lemma fle_refl: "a \<noteq> NaN \<Longrightarrow> fle a a"
  by (simp add: fle_def)

lemma not_flt: "a \<noteq> NaN \<Longrightarrow> b \<noteq> NaN \<Longrightarrow> \<not> flt a b \<longleftrightarrow> fle b a"
  by (auto simp: flt_def fle_def)

lemma flt_imp_fle: "flt a b \<Longrightarrow> fle a b"
  by (auto simp: flt_def fle_def)

lemma fle_flt_trans: "fle a b \<Longrightarrow> flt b c \<Longrightarrow> flt a c"
  by (auto simp: flt_def fle_def)

lemma flt_fle_trans: "flt a b \<Longrightarrow> fle b c \<Longrightarrow> flt a c"
  by (auto simp: flt_def fle_def)

lemma fle_antisym_feq: "fle a b \<Longrightarrow> fle b a \<Longrightarrow> feq a b"
  by (auto simp: feq_def fle_def)

interpretation float_order: key_order flt "\<lambda>x. x \<noteq> NaN"
  by unfold_locales (auto simp: flt_def)

lemma finite_not_NaN [simp]: "is_finite a \<Longrightarrow> a \<noteq> NaN"
  by auto

lemma fkey_finite: "is_finite a \<Longrightarrow> fkey a = (0, fval a)"
  by (cases a) auto

lemma fneg_simps [simp]:
  "is_finite (fneg a) = is_finite a" "fneg a = NaN \<longleftrightarrow> a = NaN" "fval (fneg a) = - fval a"
  by (cases a; simp)+

lemma fneg_fneg [simp]: "fneg (fneg a) = a"
  by (cases a) auto

lemma fneg_flt: "flt (fneg a) (fneg b) = flt b a"
  by (cases a; cases b) (auto simp: flt_def)

lemma fneg_fle: "fle (fneg a) (fneg b) = fle b a"
  by (cases a; cases b) (auto simp: fle_def)

lemma mk_float_not_NaN [simp]: "mk_float s q \<noteq> NaN"
  by (simp add: mk_float_def Let_def)

lemma fkey_mk_float:
  "fkey (mk_float s q) =
     (if float_limit \<le> rnd q then (1, 0) else if rnd q \<le> - float_limit then (- 1, 0) else (0, rnd q))"
  by (auto simp: mk_float_def Let_def float_limit_def)

lemma float_limit_pos: "0 < float_limit"
  by (simp add: float_limit_def)

lemma mk_float_mono: "p \<le> q \<Longrightarrow> fle (mk_float s p) (mk_float t q)"
  using rnd_mono [of p q] float_limit_pos by (auto simp: fle_def fkey_mk_float)

lemma mk_float_nonneg: "0 \<le> q \<Longrightarrow> fle (Fin 0) (mk_float s q)"
  using rnd_nonneg [of q] float_limit_pos by (auto simp: fle_def fkey_mk_float)

lemma mk_float_of_int:
  assumes "\<bar>i\<bar> < 2 ^ 53"
  shows "mk_float False (of_int i) = Fin (of_int i)"
proof -
  have "\<bar>of_int i :: rat\<bar> < of_int (2 ^ 53)" using assms by (simp only: of_int_less_iff flip: of_int_abs)
  also have "\<dots> \<le> float_limit" unfolding float_limit_def of_int_power of_int_numeral
    by (rule power_increasing) auto
  finally have "\<not> float_limit \<le> of_int i" "\<not> of_int i \<le> - float_limit" by (auto simp: abs_less_iff)
  then show ?thesis using rnd_of_int [OF assms] by (simp add: mk_float_def Let_def)
qed

lemma float_of_int_small: "\<bar>i\<bar> < 2 ^ 53 \<Longrightarrow> float_of_int i = Inr (Fin (of_int i))"
  by (simp add: float_of_int_def mk_float_of_int)

lemma float_of_int_finite: "float_of_int i = Inr f \<Longrightarrow> is_finite f"
  by (auto simp: float_of_int_def Let_def split: if_splits)

lemma fadd_NaN_iff:
  "fadd a b = NaN \<longleftrightarrow> a = NaN \<or> b = NaN \<or> (a = PInf \<and> b = NInf) \<or> (a = NInf \<and> b = PInf)"
  by (cases a; cases b) (auto simp: fadd_def)

lemma fsub_NaN_iff:
  "fsub a b = NaN \<longleftrightarrow> a = NaN \<or> b = NaN \<or> (a = PInf \<and> b = PInf) \<or> (a = NInf \<and> b = NInf)"
  by (cases a; cases b) (auto simp: fsub_def fadd_def)

lemma fmul_finite_not_NaN: "is_finite a \<Longrightarrow> is_finite b \<Longrightarrow> fmul a b \<noteq> NaN"
  by (auto simp: fmul_def)

lemma fadd_finite: "is_finite a \<Longrightarrow> is_finite b \<Longrightarrow> fadd a b = mk_float (sign_bit a \<and> sign_bit b) (fval a + fval b)"
  by (auto simp: fadd_def)

lemma fsub_finite:
  "is_finite a \<Longrightarrow> is_finite b \<Longrightarrow> fsub a b = mk_float (sign_bit a \<and> sign_bit (fneg b)) (fval a - fval b)"
  by (simp add: fsub_def fadd_finite)

lemma fmul_finite:
  "is_finite a \<Longrightarrow> is_finite b \<Longrightarrow> fmul a b = mk_float (sign_bit a \<noteq> sign_bit b) (fval a * fval b)"
  by (auto simp: fmul_def)

lemma fadd_nonneg:
  assumes "fle (Fin 0) a" "fle (Fin 0) b"
  shows "fle (Fin 0) (fadd a b)"
  using assms by (cases a; cases b) (auto simp: fadd_def fle_def intro: mk_float_nonneg [unfolded fle_def, simplified])

lemma foldl_fadd_nonneg:
  "fle (Fin 0) a \<Longrightarrow> (\<And>x. x \<in> set xs \<Longrightarrow> fle (Fin 0) x) \<Longrightarrow> fle (Fin 0) (foldl fadd a xs)"
  by (induction xs arbitrary: a) (auto intro: fadd_nonneg)

lemma fsum_nonneg: "(\<And>x. x \<in> set xs \<Longrightarrow> fle (Fin 0) x) \<Longrightarrow> fle (Fin 0) (fsum xs)"
  unfolding fsum_def by (rule foldl_fadd_nonneg) (auto simp: fle_def)

lemma fabs_nonneg: "a \<noteq> NaN \<Longrightarrow> fle (Fin 0) (fabs a)"
  by (cases a) (auto simp: fle_def)

text \<open>Clamping to an interval, as \<open>min(hi, max(lo, x))\<close>.\<close>

lemma py_clamp_range:
  assumes "fle lo hi" "x \<noteq> NaN"
  shows "fle lo (py_min hi (py_max lo x)) \<and> fle (py_min hi (py_max lo x)) hi"
  using assms by (auto simp: py_min_def py_max_def flt_def fle_def)

subsection \<open>Representable values\<close>

text \<open>
  \<open>fwf x\<close>: the value is one a binary64 float can hold. Every operation above returns
  such a value, because rounding is idempotent.
\<close>

fun fwf :: "pyfloat \<Rightarrow> bool" where
  "fwf (Fin q) = (rnd q = q \<and> \<bar>q\<bar> < float_limit)"
| "fwf _ = True"

lemma rnd_pos_exact:
  assumes m: "0 < m" "m \<le> 2 ^ 53" and e: "- 1074 \<le> (e :: int)"
  shows "rnd_pos (of_int m * 2 powi e) = of_int m * 2 powi e"
proof -
  let ?q = "(of_int m :: rat) * 2 powi e"
  have pos: "0 < ?q" using m by simp
  have "\<exists>k. ulp_exp ?q = k \<and> k \<le> e \<or> (m = 2 ^ 53 \<and> ulp_exp ?q \<le> e + 1)"
  proof (cases "m = 2 ^ 53")
    case True
    have "?q = 2 powi (e + 53)" by (simp add: True power_int_add)
    moreover have "(2 :: rat) powi (e + 53) < 2 powi (e + 54)" by (intro power_int_strict_increasing) auto
    ultimately have "(2 :: rat) powi flog2 ?q < 2 powi (e + 54)"
      using flog2_bounds(1) [OF pos] by linarith
    then have "flog2 ?q < e + 54" by (rule pow2_less_D)
    with True e show ?thesis by (auto simp: ulp_exp_def)
  next
    case False
    with m have "(of_int m :: rat) < of_int (2 ^ 53)" by (simp only: of_int_less_iff)
    then have "?q < of_int (2 ^ 53) * 2 powi e" by (intro mult_strict_right_mono) auto
    also have "\<dots> = 2 powi (53 + e)" by (simp add: power_int_add)
    finally have "(2 :: rat) powi flog2 ?q < 2 powi (53 + e)"
      using flog2_bounds(1) [OF pos] by linarith
    then have "flog2 ?q < 53 + e" by (rule pow2_less_D)
    with e show ?thesis by (auto simp: ulp_exp_def)
  qed
  then have "\<exists>n. ?q = of_int n * 2 powi ulp_exp ?q"
  proof (elim exE disjE conjE)
    fix k assume "ulp_exp ?q = k" "k \<le> e"
    then have "?q = of_int (m * 2 ^ nat (e - k)) * 2 powi ulp_exp ?q"
      using pow_multiple [of k e] by simp
    then show ?thesis by blast
  next
    assume "m = 2 ^ 53" and le: "ulp_exp ?q \<le> e + 1"
    then have "?q = of_int (2 ^ 52) * 2 powi (e + 1)" by (simp add: power_int_add)
    also have "\<dots> = of_int (2 ^ 52 * 2 ^ nat (e + 1 - ulp_exp ?q)) * 2 powi ulp_exp ?q"
      using pow_multiple [OF le] by simp
    finally show ?thesis by blast
  qed
  then obtain n where n: "?q = of_int n * 2 powi ulp_exp ?q" by blast
  then have "?q / 2 powi ulp_exp ?q = of_int n" by (metis nonzero_mult_div_cancel_right power_int_not_zero zero_neq_numeral)
  then show ?thesis unfolding rnd_pos_def using n by (simp only: round_half_even_of_int)
qed

lemma rnd_pos_idem:
  assumes "0 < q" "rnd_pos q \<noteq> 0"
  shows "rnd_pos (rnd_pos q) = rnd_pos q"
proof -
  let ?e = "ulp_exp q" and ?m = "round_half_even (q / 2 powi ulp_exp q)"
  have "q < 2 powi (flog2 q + 1)" by (rule flog2_bounds(2) [OF assms(1)])
  also have "\<dots> \<le> 2 powi (53 + ?e)" by (intro power_int_increasing) (auto simp: ulp_exp_def)
  also have "\<dots> = of_int (2 ^ 53) * 2 powi ?e" by (simp add: power_int_add)
  finally have "q / 2 powi ?e \<le> of_int (2 ^ 53)" by (simp add: pos_divide_le_eq)
  then have "?m \<le> 2 ^ 53" by (rule round_half_even_le)
  moreover have "0 \<le> ?m" using assms(1) by (intro round_half_even_ge) simp
  then have "0 < ?m" using assms(2) by (auto simp: rnd_pos_def order_less_le)
  moreover have "- 1074 \<le> ?e" by (simp add: ulp_exp_def)
  ultimately have "rnd_pos (of_int ?m * 2 powi ?e) = of_int ?m * 2 powi ?e"
    by (intro rnd_pos_exact)
  then show ?thesis by (simp only: rnd_pos_def [of q])
qed

lemma rnd_idem [simp]: "rnd (rnd q) = rnd q"
proof -
  have pos: "rnd (rnd_pos p) = rnd_pos p" if "0 < p" for p
    using that rnd_pos_nonneg [of p] rnd_pos_idem [of p] by (auto simp: rnd_def)
  show ?thesis using pos [of q] pos [of "- q"] by (auto simp: rnd_def [of q])
qed

lemma fwf_mk_float [simp]: "fwf (mk_float s q)"
  using float_limit_pos by (auto simp: mk_float_def Let_def)

lemma fwf_fneg [simp]: "fwf (fneg a) = fwf a"
  by (cases a) (auto simp: float_limit_pos)

lemma fwf_ops [simp]: "fwf a \<Longrightarrow> fwf b \<Longrightarrow> fwf (fadd a b)" "fwf a \<Longrightarrow> fwf b \<Longrightarrow> fwf (fmul a b)"
  by (auto simp: fadd_def fmul_def inf_of_def)

lemma float_of_int_fwf: "float_of_int i = Inr f \<Longrightarrow> fwf f"
  by (auto simp: float_of_int_def Let_def split: if_splits)

lemma fwf_fabs_less: "fwf a \<Longrightarrow> is_finite a \<Longrightarrow> \<bar>fval a\<bar> < float_limit \<and> rnd (fval a) = fval a"
  by (cases a) (auto simp: float_limit_pos)

lemma is_finite_mk_float: "is_finite (mk_float s q) \<longleftrightarrow> \<bar>rnd q\<bar> < float_limit"
  using float_limit_pos by (auto simp: mk_float_def Let_def)

lemma fval_mk_float: "is_finite (mk_float s q) \<Longrightarrow> fval (mk_float s q) = rnd q"
  using float_limit_pos by (auto simp: mk_float_def Let_def split: if_splits)

text \<open>Scaling a value by a factor of \<open>[0, 1]\<close> stays finite.\<close>

lemma fmul_unit_finite:
  assumes "is_finite w" "0 \<le> fval w" "fval w \<le> 1" "is_finite t" "fwf t"
  shows "is_finite (fmul w t)"
proof -
  have "\<bar>fval w * fval t\<bar> \<le> \<bar>fval t\<bar>"
    using assms(2,3) by (simp add: abs_mult mult_left_le_one_le)
  then have a: "fval w * fval t \<le> \<bar>fval t\<bar>" "- (fval w * fval t) \<le> \<bar>fval t\<bar>" by linarith+
  have "rnd \<bar>fval t\<bar> = \<bar>fval t\<bar>" using fwf_fabs_less [OF assms(5,4)] by (simp add: abs_if)
  with rnd_mono [OF a(1)] rnd_mono [OF a(2)] have "\<bar>rnd (fval w * fval t)\<bar> \<le> \<bar>fval t\<bar>" by simp
  with fwf_fabs_less [OF assms(5,4)] show ?thesis
    by (simp add: fmul_finite assms(1,4) is_finite_mk_float)
qed

lemma mk_float_self: "fwf a \<Longrightarrow> is_finite a \<Longrightarrow> feq (mk_float s (fval a)) a"
  using float_limit_pos by (cases a) (auto simp: feq_def fkey_mk_float)

lemma feq_fle: "feq a b \<Longrightarrow> fle a b \<and> fle b a"
  by (auto simp: feq_def fle_def)

lemma fadd_ge_left:
  assumes "fwf a" "fle (Fin 0) a" "fle (Fin 0) b"
  shows "fle a (fadd a b)"
proof (cases "is_finite a \<and> is_finite b")
  case True
  then have "0 \<le> fval b" using assms(3) by (simp add: fle_def fkey_finite)
  then have "fle (mk_float (sign_bit a \<and> sign_bit b) (fval a)) (fadd a b)"
    using True by (auto simp: fadd_finite intro: mk_float_mono)
  then show ?thesis using mk_float_self [OF assms(1)] True feq_fle fle_trans by blast
next
  case False
  with assms show ?thesis by (cases a; cases b) (auto simp: fle_def fadd_def)
qed

lemma fadd_ge_right:
  assumes "fwf b" "fle (Fin 0) a" "fle (Fin 0) b"
  shows "fle b (fadd a b)"
proof -
  have "fadd a b = fadd b a" by (auto simp: fadd_def add.commute conj_commute)
  with fadd_ge_left [OF assms(1,3,2)] show ?thesis by simp
qed

lemma rnd_one [simp]: "rnd 1 = 1"
  using rnd_of_int [of 1] by simp

lemma fdiv_unit:
  assumes "is_finite v" "flt (Fin 0) v" "fle v t" "fdiv v t = Inr w"
  shows "is_finite w \<and> 0 \<le> fval w \<and> fval w \<le> 1 \<and> fwf w"
proof (cases "is_finite t")
  case True
  have "0 < fval v" "fval v \<le> fval t" using assms True by (auto simp: flt_def fle_def fkey_finite)
  then have q: "0 \<le> fval v / fval t" "fval v / fval t \<le> 1" by auto
  have r: "0 \<le> rnd (fval v / fval t)" "rnd (fval v / fval t) \<le> 1"
    using rnd_nonneg [OF q(1)] rnd_mono [OF q(2)] by auto
  have "1 < float_limit" by (simp add: float_limit_def)
  with r have "\<bar>rnd (fval v / fval t)\<bar> < float_limit" by linarith
  then have fin: "is_finite (mk_float s (fval v / fval t))" for s by (simp add: is_finite_mk_float)
  have "w = mk_float (sign_bit v \<noteq> sign_bit t) (fval v / fval t)"
    using assms(4) True assms(1) by (auto simp: fdiv_def split: if_splits)
  then show ?thesis using r fin by (simp add: fval_mk_float)
next
  case False
  with assms float_limit_pos show ?thesis by (cases t; cases v) (auto simp: fdiv_def fle_def flt_def split: if_splits)
qed

text \<open>Adding finitely many values that are not NaN and never \<open>-inf\<close> gives no NaN.\<close>

lemma foldl_fadd_finite_not_NaN:
  "a \<noteq> NaN \<Longrightarrow> (\<And>x. x \<in> set xs \<Longrightarrow> is_finite x) \<Longrightarrow> foldl fadd a xs \<noteq> NaN"
proof (induction xs arbitrary: a)
  case (Cons x xs)
  then have "is_finite x" by simp
  with Cons.prems(1) have "fadd a x \<noteq> NaN" by (auto simp: fadd_NaN_iff)
  with Cons show ?case by simp
qed simp

lemma fsum_finite_not_NaN: "(\<And>x. x \<in> set xs \<Longrightarrow> is_finite x) \<Longrightarrow> fsum xs \<noteq> NaN"
  unfolding fsum_def by (rule foldl_fadd_finite_not_NaN) auto

text \<open>The instances the witnesses evaluate with.\<close>

lemma mk_float_numeral:
  assumes "(numeral n :: int) < 2 ^ 53"
  shows "mk_float s (numeral n) = Fin (numeral n)" "mk_float s (- numeral n) = Fin (- numeral n)"
proof -
  have c: "(of_int (numeral n) :: rat) = numeral n" by simp
  have "mk_float False (of_int (numeral n)) = Fin (of_int (numeral n))"
    "mk_float False (of_int (- numeral n)) = Fin (of_int (- numeral n))"
    using assms by (auto intro!: mk_float_of_int simp del: of_int_numeral of_int_minus)
  moreover have "mk_float s q = mk_float False q" if "q \<noteq> 0" for q
    using that by (simp add: mk_float_def Let_def)
  ultimately show "mk_float s (numeral n) = Fin (numeral n)" "mk_float s (- numeral n) = Fin (- numeral n)"
    by simp_all
qed

lemma mk_float_one [simp]: "mk_float s 1 = Fin 1" "mk_float s (- 1) = Fin (- 1)"
  using mk_float_of_int [of 1] mk_float_of_int [of "- 1"] by (simp_all add: mk_float_def Let_def)

lemma mk_float_zero [simp]: "mk_float s 0 = (if s then NegZero else Fin 0)"
  by (simp add: mk_float_def)

lemmas mk_float_simps = mk_float_numeral mk_float_one mk_float_zero

lemma fwf_small: "\<bar>i\<bar> < 2 ^ 53 \<Longrightarrow> fwf (Fin (of_int i))"
  using mk_float_of_int [of i] fwf_mk_float [of False "of_int i"] by simp

text \<open>
  A code equation for evaluation: a fraction with a small numerator over a small power of two
  is exact, so the general rounding is not computed.
\<close>

lemma rnd_exact:
  assumes "\<bar>n\<bar> \<le> 2 ^ 53" "- 1074 \<le> e"
  shows "rnd (of_int n * 2 powi e) = of_int n * 2 powi e"
proof -
  consider "n = 0" | "0 < n" | "n < 0" by linarith
  then show ?thesis
  proof cases
    case 2
    with assms rnd_pos_exact [of n e] show ?thesis by (simp add: rnd_def)
  next
    case 3
    then have neg: "(of_int n :: rat) * 2 powi e < 0" by (simp add: mult_neg_pos)
    have "rnd_pos (of_int (- n) * 2 powi e) = of_int (- n) * 2 powi e"
      using assms 3 by (intro rnd_pos_exact) auto
    with neg show ?thesis by (simp add: rnd_def)
  qed simp
qed

definition small_pow2 :: "int \<Rightarrow> bool" where
  "small_pow2 d = List.member (map (\<lambda>k. 2 ^ k) [0..<11]) d"

lemma small_pow2_D: "small_pow2 d \<Longrightarrow> \<exists>k. k \<le> 10 \<and> d = 2 ^ k"
  by (auto simp: small_pow2_def simp del: upt_conv_Cons)

lemma pow53_less_limit: "(2 :: rat) ^ 53 < float_limit"
  unfolding float_limit_def by (rule power_strict_increasing) auto

lemma mk_float_code [code]:
  "mk_float s q = (case quotient_of q of (n, d) \<Rightarrow>
     if \<bar>n\<bar> \<le> 9007199254740992 \<and> small_pow2 d
     then (if n = 0 then (if s then NegZero else Fin 0) else Fin q)
     else (let r = rnd q in
       if r = 0 then (if q < 0 \<or> (q = 0 \<and> s) then NegZero else Fin 0)
       else if float_limit \<le> r then PInf
       else if r \<le> - float_limit then NInf
       else Fin r))"
proof -
  obtain n d where nd: "quotient_of q = (n, d)" by (cases "quotient_of q")
  have dpos: "0 < d" using quotient_of_denom_pos [OF nd] .
  have q: "q = of_int n / of_int d" using quotient_of_div [OF nd] .
  show ?thesis
  proof (cases "\<bar>n\<bar> \<le> 9007199254740992 \<and> small_pow2 d")
    case True
    then obtain k where k: "k \<le> 10" "d = 2 ^ k" using small_pow2_D by blast
    have q2: "q = of_int n * 2 powi (- int k)" by (simp add: q k power_int_minus divide_inverse)
    have r: "rnd q = q" unfolding q2 using True k by (intro rnd_exact) auto
    have "\<bar>q\<bar> \<le> \<bar>of_int n\<bar>"
      using dpos mult_left_mono [of 1 "of_int d" "\<bar>of_int n :: rat\<bar>"] by (simp add: q abs_divide divide_le_eq)
    also have "\<bar>of_int n :: rat\<bar> \<le> of_int (2 ^ 53)"
      using True by (simp only: of_int_le_iff flip: of_int_abs) simp
    also have "(of_int (2 ^ 53) :: rat) = 2 ^ 53" by simp
    finally have "\<bar>q\<bar> < float_limit" using pow53_less_limit by linarith
    then have "\<not> float_limit \<le> q" "\<not> q \<le> - float_limit" by (auto simp: abs_less_iff)
    moreover have "n = 0 \<longleftrightarrow> q = 0" using dpos by (simp add: q)
    ultimately show ?thesis using True r by (auto simp: nd mk_float_def)
  next
    case False
    show ?thesis unfolding nd prod.case mk_float_def if_not_P [OF False] ..
  qed
qed

lemma fwf_code [code]:
  "fwf (Fin q) = (mk_float False q = Fin q)"
  "fwf NegZero = True" "fwf PInf = True" "fwf NInf = True" "fwf NaN = True"
proof -
  show "fwf (Fin q) = (mk_float False q = Fin q)"
    using float_limit_pos by (auto simp: mk_float_def Let_def abs_less_iff split: if_splits)
qed simp_all

end
