(* ===== verification/FloatRanges.thy ===== *)
theory FloatRanges
  imports PyFloat
begin

text \<open>
  Scaling into an interval of floats. \<open>random.uniform\<close> and the decoding of a vector entry both
  compute \<open>lo + unit * (hi - lo)\<close> with three roundings. The lemmas below bound the result: with a
  unit below 1 it stays inside \<open>[lo, hi]\<close>, with the unit 1 it is the rounding of
  \<open>lo + (hi - lo)\<close>; the error of one rounding is bounded by the size of the value.
\<close>

subsection \<open>The grid of a binade\<close>

lemma ulp_exp_binade:
  assumes "2 powi (52 + e) \<le> q" "q < 2 powi (53 + e)" "- 1074 \<le> (e :: int)"
  shows "ulp_exp q = e"
proof -
  have "(0 :: rat) < 2 powi (52 + e)" by simp
  with assms(1) have pos: "0 < q" by linarith
  have "(2 :: rat) powi (52 + e) < 2 powi (flog2 q + 1)" "(2 :: rat) powi flog2 q < 2 powi (53 + e)"
    using flog2_bounds [OF pos] assms by linarith+
  then have "52 + e < flog2 q + 1" "flog2 q < 53 + e" by (auto dest: pow2_less_D)
  with assms(3) show ?thesis by (simp add: ulp_exp_def)
qed

lemma ulp_exp_le: "0 < q \<Longrightarrow> q < 2 powi (53 + e) \<Longrightarrow> - 1074 \<le> e \<Longrightarrow> ulp_exp q \<le> e"
  using flog2_bounds(1) [of q] pow2_less_D [of "flog2 q" "53 + e"] by (auto simp: ulp_exp_def)

lemma below_next_binade:
  assumes "0 < q"
  shows "q < 2 powi (53 + ulp_exp q)"
proof -
  have "(2 :: rat) powi (flog2 q + 1) \<le> 2 powi (53 + ulp_exp q)"
    by (intro power_int_increasing) (auto simp: ulp_exp_def)
  with flog2_bounds(2) [OF assms] show ?thesis by linarith
qed

lemma round_half_even_close: "\<bar>of_int (round_half_even x) - x\<bar> \<le> 1 / 2"
proof -
  have "of_int \<lfloor>x\<rfloor> \<le> x" "x < of_int \<lfloor>x\<rfloor> + 1" by linarith+
  then show ?thesis by (auto simp: round_half_even_def Let_def abs_le_iff)
qed

lemma round_half_even_unique: "\<bar>x - of_int n\<bar> < 1 / 2 \<Longrightarrow> round_half_even x = n"
proof -
  assume a: "\<bar>x - of_int n\<bar> < 1 / 2"
  have "\<bar>of_int (round_half_even x) - of_int n :: rat\<bar> < 1"
    using a round_half_even_close [of x] by linarith
  then have "\<bar>of_int (round_half_even x - n) :: rat\<bar> < of_int 1" by simp
  then have "\<bar>round_half_even x - n\<bar> < 1" by (simp only: of_int_less_iff flip: of_int_abs)
  then show ?thesis by simp
qed

text \<open>The error of a rounding is at most half a unit of the binade.\<close>

lemma rnd_pos_error:
  assumes "0 < q"
  shows "\<bar>rnd_pos q - q\<bar> \<le> 2 powi ulp_exp q / 2"
proof -
  let ?w = "2 powi ulp_exp q :: rat"
  have w: "0 < ?w" by simp
  have "rnd_pos q - q = (of_int (round_half_even (q / ?w)) - q / ?w) * ?w"
    by (simp add: rnd_pos_def left_diff_distrib)
  then have "\<bar>rnd_pos q - q\<bar> = \<bar>of_int (round_half_even (q / ?w)) - q / ?w\<bar> * ?w"
    using w by (simp add: abs_mult)
  also have "\<dots> \<le> 1 / 2 * ?w" by (intro mult_right_mono round_half_even_close) simp
  finally show ?thesis by simp
qed

lemma rnd_error:
  assumes "\<bar>q\<bar> < 2 powi (53 + e)" "- 1074 \<le> (e :: int)"
  shows "\<bar>rnd q - q\<bar> \<le> 2 powi e / 2"
proof -
  have pos: "\<bar>rnd_pos p - p\<bar> \<le> 2 powi e / 2" if p: "0 < p" "p < 2 powi (53 + e)" for p
  proof -
    have "(2 :: rat) powi ulp_exp p \<le> 2 powi e" using ulp_exp_le [OF p assms(2)] by (intro power_int_increasing) auto
    with rnd_pos_error [OF p(1)] show ?thesis by linarith
  qed
  consider "q = 0" | "0 < q" | "q < 0" by linarith
  then show ?thesis
  proof cases
    case 2
    with pos [of q] assms(1) show ?thesis by (simp add: rnd_def)
  next
    case 3
    with pos [of "- q"] assms(1) show ?thesis by (simp add: rnd_def abs_minus_commute add.commute)
  qed simp
qed

text \<open>Every float is an integer on the finest grid; a small integer on it is a float.\<close>

lemma float_on_grid: "\<exists>n. rnd q = of_int n * 2 powi (- 1074)"
proof -
  have pos: "\<exists>n. rnd_pos p = of_int n * 2 powi (- 1074)" for p
  proof -
    have "rnd_pos p = of_int (round_half_even (p / 2 powi ulp_exp p) * 2 ^ nat (ulp_exp p + 1074)) * 2 powi (- 1074)"
      using pow_multiple [of "- 1074" "ulp_exp p"] by (simp add: rnd_pos_def ulp_exp_def)
    then show ?thesis by blast
  qed
  obtain a b where "rnd_pos q = of_int a * 2 powi (- 1074)" "rnd_pos (- q) = of_int b * 2 powi (- 1074)"
    using pos by metis
  then have "rnd q \<in> {0, of_int a * 2 powi (- 1074), of_int (- b) * 2 powi (- 1074)}" by (simp add: rnd_def)
  moreover have "(0 :: rat) = of_int 0 * 2 powi (- 1074)" by simp
  ultimately show ?thesis by (metis insertE singletonD)
qed

lemma grid_difference_exact:
  assumes "a = of_int i * 2 powi e" "b = of_int j * 2 powi e" "\<bar>b - a\<bar> \<le> 2 powi (53 + e)" "- 1074 \<le> (e :: int)"
  shows "rnd (b - a) = b - a"
proof -
  have d: "b - a = of_int (j - i) * 2 powi e" by (simp add: assms(1,2) left_diff_distrib)
  have "(2 :: rat) powi (53 + e) = of_int (2 ^ 53) * 2 powi e" by (simp add: power_int_add)
  with assms(3) have "\<bar>of_int (j - i) :: rat\<bar> * 2 powi e \<le> of_int (2 ^ 53) * 2 powi e" by (simp only: d abs_mult) simp
  then have "\<bar>of_int (j - i) :: rat\<bar> \<le> of_int (2 ^ 53)" by (rule mult_right_le_imp_le) simp
  then have "\<bar>j - i\<bar> \<le> 2 ^ 53" by (simp only: of_int_le_iff flip: of_int_abs)
  then show ?thesis unfolding d by (intro rnd_exact assms(4))
qed

lemma small_difference_exact:
  assumes "rnd a = a" "rnd b = b" "\<bar>b - a\<bar> \<le> 2 powi (53 + - 1074)"
  shows "rnd (b - a) = b - a"
proof -
  obtain i j where "rnd a = of_int i * 2 powi (- 1074)" "rnd b = of_int j * 2 powi (- 1074)"
    using float_on_grid by blast
  then have "a = of_int i * 2 powi (- 1074)" "b = of_int j * 2 powi (- 1074)" by (simp_all only: assms(1,2))
  from grid_difference_exact [OF this assms(3) order_refl] show ?thesis .
qed

lemma unit_float_gap:
  assumes "rnd u = u" "u < 1"
  shows "u \<le> 1 - 1 / 2 ^ 53"
proof (cases "u \<le> 1 / 2")
  case False
  have w: "(2 :: rat) powi (- 53) = 1 / 2 ^ 53" by (simp add: power_int_minus field_simps)
  have "ulp_exp u = - 53" using False assms(2) by (intro ulp_exp_binade) (auto simp: power_int_minus)
  then have u: "u = of_int (round_half_even (u / 2 powi (- 53))) * 2 powi (- 53)" (is "u = of_int ?n * _")
    using assms(1) False by (simp add: rnd_def rnd_pos_def split: if_splits)
  then have "(of_int ?n :: rat) * 2 powi (- 53) < 1" using assms(2) by simp
  then have "(of_int ?n :: rat) < of_int (2 ^ 53)" by (simp add: w)
  then have "?n < 2 ^ 53" by (simp only: of_int_less_iff)
  then have "(of_int ?n :: rat) \<le> of_int (2 ^ 53 - 1)" by (simp only: of_int_le_iff)
  then have "(of_int ?n :: rat) * (1 / 2 ^ 53) \<le> of_int (2 ^ 53 - 1) * (1 / 2 ^ 53)" by (intro mult_right_mono) auto
  with u show ?thesis by (simp add: w)
qed (simp add: field_simps)

subsection \<open>Scaling a width by a unit\<close>

text \<open>
  The width \<open>hi - lo\<close> may round up, but scaled by a float below 1 it does not exceed the exact
  width: it falls at least half a unit below the rounded width.
\<close>

lemma rnd_le_grid:
  assumes "q < (of_int n + 1 / 2) * 2 powi e" "2 ^ 52 \<le> n" "n < 2 ^ 53" "- 1074 \<le> (e :: int)"
  shows "rnd q \<le> of_int n * 2 powi e"
proof (cases "q \<le> of_int n * 2 powi e")
  case True
  have "rnd (of_int n * 2 powi e) = of_int n * 2 powi e" using assms by (intro rnd_exact) auto
  with rnd_mono [OF True] show ?thesis by simp
next
  case False
  have "(2 :: rat) powi (52 + e) = of_int (2 ^ 52) * 2 powi e" "(2 :: rat) powi (53 + e) = of_int (2 ^ 53) * 2 powi e"
    by (simp_all add: power_int_add)
  moreover have "(of_int (2 ^ 52) :: rat) * 2 powi e \<le> of_int n * 2 powi e"
    using assms(2) by (intro mult_right_mono) (simp_all only: of_int_le_iff, simp)
  moreover have "(of_int n + 1 / 2 :: rat) \<le> of_int (2 ^ 53)"
  proof -
    have "(of_int n :: rat) \<le> of_int (2 ^ 53 - 1)" using assms(3) by (simp only: of_int_le_iff)
    then show ?thesis by simp
  qed
  then have "(of_int n + 1 / 2 :: rat) * 2 powi e \<le> of_int (2 ^ 53) * 2 powi e" by (intro mult_right_mono) auto
  ultimately have e: "ulp_exp q = e" using False assms(1,4) by (intro ulp_exp_binade) linarith+
  have n: "0 < n" using assms(2) by simp
  then have "(0 :: rat) < of_int n * 2 powi e" by simp
  then have pos: "0 < q" using False by linarith
  have "q / 2 powi e < of_int n + 1 / 2" using assms(1) by (simp add: pos_divide_less_eq)
  moreover have "of_int n < q / 2 powi e" using False by (simp add: pos_less_divide_eq)
  ultimately have "round_half_even (q / 2 powi e) = n" by (intro round_half_even_unique) linarith
  then show ?thesis using pos by (simp add: rnd_def rnd_pos_def e)
qed

lemma scaled_width_le:
  assumes "rnd a = a" "rnd b = b" "a \<le> b" "rnd u = u" "0 \<le> u" "u < 1"
  shows "rnd (rnd (b - a) * u) \<le> b - a"
proof (cases "rnd (b - a) \<le> b - a")
  case True
  have "rnd (b - a) * u \<le> rnd (b - a)" using rnd_nonneg [of "b - a"] assms by (simp add: mult_left_le)
  then have "rnd (rnd (b - a) * u) \<le> rnd (rnd (b - a))" by (rule rnd_mono)
  with True show ?thesis by simp
next
  case False
  let ?s = "b - a"
  define e where "e = ulp_exp ?s"
  define n where "n = \<lfloor>?s / 2 powi e\<rfloor>"
  have w: "(0 :: rat) < 2 powi e" by simp
  have "\<not> \<bar>?s\<bar> \<le> 2 powi (53 + - 1074)" using small_difference_exact [OF assms(1,2)] False by (metis order_refl)
  then have big: "2 powi (53 + - 1074) < ?s" using assms(3) by (simp only: not_le abs_of_nonneg diff_ge_0_iff_ge)
  have "(0 :: rat) < 2 powi (53 + - 1074)" by (rule zero_less_power_int) simp
  then have pos: "0 < ?s" using big by (rule less_trans)
  have "(2 :: rat) powi (53 + - 1074) < 2 powi (flog2 ?s + 1)" using big flog2_bounds(2) [OF pos] by (rule less_trans)
  then have "53 + - 1074 < flog2 ?s + 1" by (rule pow2_less_D)
  then have e: "e = flog2 ?s - 52" "- 1074 \<le> e" by (auto simp: e_def ulp_exp_def)
  have floor: "of_int n \<le> ?s / 2 powi e" by (simp add: n_def)
  have low: "of_int n * 2 powi e \<le> ?s" using floor by (simp add: pos_le_divide_eq)
  have rnd: "rnd ?s = of_int (round_half_even (?s / 2 powi e)) * 2 powi e" using pos by (simp add: rnd_def rnd_pos_def e_def)
  have r: "round_half_even (?s / 2 powi e) = n + 1"
  proof (rule ccontr)
    assume "round_half_even (?s / 2 powi e) \<noteq> n + 1"
    then have "round_half_even (?s / 2 powi e) = n" by (auto simp: round_half_even_def Let_def n_def split: if_splits)
    with rnd low False show False by simp
  qed
  have "of_int (2 ^ 52) * 2 powi e = (2 :: rat) powi (52 + e)" by (simp add: power_int_add)
  also have "\<dots> \<le> ?s" using flog2_bounds(1) [OF pos] e(1) by simp
  finally have "of_int (2 ^ 52) \<le> ?s / 2 powi e" by (simp add: pos_le_divide_eq)
  then have n1: "2 ^ 52 \<le> n" unfolding n_def by (simp only: le_floor_iff)
  have "?s < of_int (2 ^ 53) * 2 powi e" using below_next_binade [OF pos] by (simp add: e_def power_int_add)
  then have "?s / 2 powi e < of_int (2 ^ 53)" by (simp add: pos_divide_less_eq)
  then have n2: "n < 2 ^ 53" unfolding n_def by (simp only: floor_less_iff)
  have "(of_int (2 ^ 52) :: rat) \<le> of_int n" using n1 by (simp only: of_int_le_iff)
  then have "(1 / 2 :: rat) < (of_int n + 1) / 2 ^ 53" by simp
  moreover have "(of_int n + 1) * (1 - 1 / 2 ^ 53) = of_int n + 1 - (of_int n + 1) / (2 ^ 53 :: rat)"
    by (simp only: right_diff_distrib mult_1_right times_divide_eq_right)
  ultimately have half: "(of_int n + 1) * (1 - 1 / 2 ^ 53) < of_int n + (1 / 2 :: rat)" by linarith
  have "rnd ?s * u \<le> rnd ?s * (1 - 1 / 2 ^ 53)"
    using unit_float_gap [OF assms(4,6)] rnd_nonneg [of ?s] pos by (intro mult_left_mono) auto
  also have "\<dots> = (of_int n + 1) * (1 - 1 / 2 ^ 53) * 2 powi e" by (simp add: rnd r)
  also have "\<dots> < (of_int n + 1 / 2) * 2 powi e" using half by (intro mult_strict_right_mono) auto
  finally have "rnd (rnd ?s * u) \<le> of_int n * 2 powi e" by (intro rnd_le_grid n1 n2 e)
  with low show ?thesis by linarith
qed

subsection \<open>Values between two bounds\<close>

lemma fmul_commute: "fmul a b = fmul b a"
  by (auto simp: fmul_def mult.commute)

lemma fle_finite: "is_finite a \<Longrightarrow> is_finite b \<Longrightarrow> fle a b \<longleftrightarrow> fval a \<le> fval b"
  by (simp add: fle_def fkey_finite)

lemma fle_mk_float:
  assumes "fwf a" "is_finite a" "fval a \<le> q"
  shows "fle a (mk_float s q)"
  using mk_float_mono [OF assms(3), of s s] mk_float_self [OF assms(1,2), of s] feq_fle fle_trans by blast

lemma mk_float_fle:
  assumes "fwf b" "is_finite b" "q \<le> fval b"
  shows "fle (mk_float s q) b"
  using mk_float_mono [OF assms(3), of s s] mk_float_self [OF assms(1,2), of s] feq_fle fle_trans by blast

lemma mk_float_same: "fwf a \<Longrightarrow> is_finite a \<Longrightarrow> mk_float (sign_bit a) (fval a) = a"
  by (cases a) (auto simp: mk_float_def Let_def abs_less_iff)

lemma mk_float_small:
  assumes "\<bar>q\<bar> \<le> 2 ^ 53"
  shows "is_finite (mk_float s q)" "fval (mk_float s q) = rnd q"
proof -
  have r: "rnd (2 ^ 53) = 2 ^ 53" using rnd_exact [of 1 53] by (simp add: power_int_numeral)
  have "q \<le> 2 ^ 53" "- q \<le> 2 ^ 53" using assms by linarith+
  then have "\<bar>rnd q\<bar> \<le> 2 ^ 53" using rnd_mono [of q "2 ^ 53"] rnd_mono [of "- q" "2 ^ 53"]
    unfolding r rnd_neg by linarith
  then show fin: "is_finite (mk_float s q)" using pow53_less_limit by (simp add: is_finite_mk_float)
  show "fval (mk_float s q) = rnd q" by (rule fval_mk_float [OF fin])
qed

text \<open>
  \<open>lo + unit * (hi - lo)\<close>: never below \<open>lo\<close>, never above \<open>hi\<close> for a unit below 1, and for the
  unit 1 the rounding of \<open>lo + (hi - lo)\<close>, which can be the float above \<open>hi\<close>.
\<close>

lemma scaled_between:
  assumes "fwf lo" "fwf hi" "is_finite lo" "is_finite hi" "fle lo hi" "is_finite (fsub hi lo)"
    and "fwf u" "is_finite u" "0 \<le> fval u" "fval u \<le> 1"
  defines "x \<equiv> fadd lo (fmul (fsub hi lo) u)"
  shows "fle lo x" "fval u < 1 \<Longrightarrow> fle x hi" "fle x hi \<or> x = fadd lo (fsub hi lo)"
proof -
  have le: "fval lo \<le> fval hi" using assms(3-5) by (simp add: fle_finite)
  define D where "D = rnd (fval hi - fval lo)"
  have D: "fval (fsub hi lo) = D" "0 \<le> D" "fwf (fsub hi lo)"
    using assms(3,4,6) le by (auto simp: fsub_finite fval_mk_float D_def rnd_nonneg)
  have fin: "is_finite (fmul (fsub hi lo) u)"
    using fmul_unit_finite [OF assms(8-10) assms(6) D(3)] by (simp add: fmul_commute)
  have p: "fval (fmul (fsub hi lo) u) = rnd (D * fval u)"
    using fin by (simp add: fmul_finite assms(6,8) fval_mk_float D(1))
  have x: "x = mk_float (sign_bit lo \<and> sign_bit (fmul (fsub hi lo) u)) (fval lo + rnd (D * fval u))"
    unfolding x_def fadd_finite [OF assms(3) fin] p ..
  show "fle lo x" unfolding x using D(2) assms(9) by (intro fle_mk_float assms(1,3)) (simp add: rnd_nonneg)
  show strict: "fle x hi" if "fval u < 1"
  proof -
    have "rnd (D * fval u) \<le> fval hi - fval lo"
      unfolding D_def using fwf_fabs_less assms(1-4,7,8,9) le that by (intro scaled_width_le) auto
    then show ?thesis unfolding x by (intro mk_float_fle assms(2,4)) simp
  qed
  show "fle x hi \<or> x = fadd lo (fsub hi lo)"
  proof (cases "fval u < 1")
    case False
    then have "fval u = 1" using assms(10) by simp
    then have u: "u = Fin 1" using assms(8) by (cases u) auto
    have "fmul (fsub hi lo) u = fsub hi lo"
      using mk_float_same [OF D(3) assms(6)] by (simp add: fmul_finite assms(6) u)
    then show ?thesis by (simp add: x_def)
  qed (use strict in blast)
qed

subsection \<open>The round trip of a small integer\<close>

text \<open>
  An integer between bounds of magnitude at most \<open>2 ^ 49\<close> is scaled to a unit and back with four
  roundings, whose errors together stay below one half.
\<close>

lemma integer_scaling_error:
  fixes lo hi n :: int
  assumes "\<bar>lo\<bar> \<le> 2 ^ 49" "\<bar>hi\<bar> \<le> 2 ^ 49" "lo \<le> n" "n \<le> hi" "lo < hi"
  defines "w \<equiv> of_int (hi - lo) :: rat"
  defines "u \<equiv> rnd (of_int (n - lo) / w)"
  shows "0 \<le> u" "u \<le> 1" "\<bar>u * w\<bar> \<le> 2 ^ 50" "\<bar>of_int lo + rnd (u * w)\<bar> < 2 ^ 50"
    "round_half_even (rnd (of_int lo + rnd (u * w))) = n"
proof -
  have "hi - lo \<le> 2 ^ 50" using assms(1,2) by simp
  then have w: "0 < w" "w \<le> of_int (2 ^ 50)" unfolding w_def using assms(5) by (simp_all only: of_int_le_iff of_int_0_less_iff)
  have nl: "(0 :: rat) \<le> of_int (n - lo)" "of_int (n - lo) \<le> w" using assms(3,4) by (simp_all only: w_def of_int_le_iff of_int_0_le_iff)
  have t: "0 \<le> of_int (n - lo) / w" "of_int (n - lo) / w \<le> 1" using nl w by simp_all
  show u: "0 \<le> u" "u \<le> 1" using rnd_nonneg [OF t(1)] rnd_mono [OF t(2)] by (simp_all add: u_def)
  have e1: "\<bar>u - of_int (n - lo) / w\<bar> \<le> 2 powi (- 52) / 2"
    unfolding u_def using t by (intro rnd_error) auto
  have "u * w - of_int (n - lo) = (u - of_int (n - lo) / w) * w"
    using w(1) by (simp add: left_diff_distrib del: of_int_diff)
  then have "\<bar>u * w - of_int (n - lo)\<bar> = \<bar>u - of_int (n - lo) / w\<bar> * w" using w(1) by (simp only: abs_mult abs_of_pos)
  also have "\<dots> \<le> 2 powi (- 52) / 2 * of_int (2 ^ 50)" using e1 w by (intro mult_mono) auto
  finally have e2: "\<bar>u * w - of_int (n - lo)\<bar> \<le> 1 / 8" by (simp add: power_int_minus)
  have uw: "0 \<le> u * w" "u * w \<le> w" using u w(1) by (simp_all add: mult_left_le_one_le)
  then show b: "\<bar>u * w\<bar> \<le> 2 ^ 50" using w(2) by simp
  have e3: "\<bar>rnd (u * w) - u * w\<bar> \<le> 2 powi (- 2) / 2" using b by (intro rnd_error) (auto simp: power_int_numeral)
  then have "\<bar>rnd (u * w) - u * w\<bar> \<le> 1 / 8" by (simp add: power_int_minus)
  with e2 have e4: "\<bar>of_int lo + rnd (u * w) - of_int n\<bar> \<le> 1 / 4" unfolding of_int_diff by linarith
  have "\<bar>n\<bar> \<le> 2 ^ 49" using assms by linarith
  then have "(of_int \<bar>n\<bar> :: rat) \<le> of_int (2 ^ 49)" by (simp only: of_int_le_iff)
  then have "\<bar>of_int n :: rat\<bar> \<le> 2 ^ 49" by simp
  moreover have "(2 :: rat) ^ 49 + 1 / 4 < 2 ^ 50" by simp
  ultimately show c: "\<bar>of_int lo + rnd (u * w)\<bar> < 2 ^ 50" using e4 by linarith
  have "\<bar>rnd (of_int lo + rnd (u * w)) - (of_int lo + rnd (u * w))\<bar> \<le> 2 powi (- 3) / 2"
    using c by (intro rnd_error) (auto simp: power_int_numeral)
  then have "\<bar>rnd (of_int lo + rnd (u * w)) - (of_int lo + rnd (u * w))\<bar> \<le> 1 / 16" by (simp add: power_int_minus)
  with e4 have "\<bar>rnd (of_int lo + rnd (u * w)) - of_int n\<bar> < 1 / 2" by linarith
  then show "round_half_even (rnd (of_int lo + rnd (u * w))) = n" by (rule round_half_even_unique)
qed

end
