(* ===== verification/Json.thy ===== *)
theory Json
  imports PyFloat
begin

text \<open>
  JSON documents as \<open>json.loads\<close> returns them, and the questions the controllers ask of
  them: \<open>isinstance\<close> tests, Python equality (where \<open>True == 1 == 1.0\<close>), truth value,
  \<open>float()\<close> and \<open>int()\<close>. Two scalars have the same \<open>json.dumps\<close> text exactly when they
  are equal as values of the type \<open>json\<close> (\<open>1\<close>, \<open>1.0\<close> and \<open>true\<close> differ, and so do
  \<open>0.0\<close> and \<open>-0.0\<close>), so the rendered keys of the sources are HOL equality here.
\<close>

datatype json =
    JNull
  | JBool bool
  | JInt int
  | JFloat pyfloat
  | JStr string
  | JArr "json list"
  | JObj "(string \<times> json) list"

type_synonym jdict = "(string, json) dict"

subsection \<open>Type tests\<close>

fun is_dict :: "json \<Rightarrow> bool" where "is_dict (JObj _) = True" | "is_dict _ = False"
fun is_list :: "json \<Rightarrow> bool" where "is_list (JArr _) = True" | "is_list _ = False"
fun is_str :: "json \<Rightarrow> bool" where "is_str (JStr _) = True" | "is_str _ = False"
fun is_bool :: "json \<Rightarrow> bool" where "is_bool (JBool _) = True" | "is_bool _ = False"

text \<open>\<open>isinstance(v, int)\<close> holds for booleans too; \<open>strict_int\<close> excludes them.\<close>

fun inst_int :: "json \<Rightarrow> bool" where
  "inst_int (JBool _) = True" | "inst_int (JInt _) = True" | "inst_int _ = False"

fun strict_int :: "json \<Rightarrow> bool" where "strict_int (JInt _) = True" | "strict_int _ = False"

text \<open>\<open>isinstance(v, (int, float)) and not isinstance(v, bool)\<close>\<close>

fun strict_num :: "json \<Rightarrow> bool" where
  "strict_num (JInt _) = True" | "strict_num (JFloat _) = True" | "strict_num _ = False"

definition inst_num :: "json \<Rightarrow> bool" where
  "inst_num v = (strict_num v \<or> is_bool v)"

subsection \<open>Numbers\<close>

text \<open>The exact numeric value: integers and floats compare without rounding.\<close>

fun num_value :: "json \<Rightarrow> pyfloat option" where
  "num_value (JBool b) = Some (Fin (of_bool b))"
| "num_value (JInt i) = Some (Fin (of_int i))"
| "num_value (JFloat f) = Some f"
| "num_value _ = None"

text \<open>\<open>float(v)\<close>; text is not parsed (the modelled callers exclude strings first).\<close>

fun py_float :: "json \<Rightarrow> pyfloat res" where
  "py_float (JBool b) = Inr (Fin (of_bool b))"
| "py_float (JInt i) = float_of_int i"
| "py_float (JFloat f) = Inr f"
| "py_float (JStr _) = Inl (ValueError ''could not convert string to float'')"
| "py_float _ = Inl (TypeError ''float() argument'')"

text \<open>\<open>int(v)\<close>; text is not parsed.\<close>

fun py_int :: "json \<Rightarrow> int res" where
  "py_int (JBool b) = Inr (of_bool b)"
| "py_int (JInt i) = Inr i"
| "py_int (JFloat f) = int_of_float f"
| "py_int (JStr _) = Inl (ValueError ''invalid literal for int()'')"
| "py_int _ = Inl (TypeError ''int() argument'')"

text \<open>\<open>float(v).is_integer()\<close> of a number; a huge integer overflows in \<open>float\<close>.\<close>

definition is_integral :: "json \<Rightarrow> bool res" where
  "is_integral v = bindE (py_float v) (\<lambda>f. Inr (float_is_integer f))"

subsection \<open>Equality\<close>

definition opt_feq :: "pyfloat option \<Rightarrow> pyfloat option \<Rightarrow> bool" where
  "opt_feq a b = (case (a, b) of (Some x, Some y) \<Rightarrow> feq x y | _ \<Rightarrow> False)"

text \<open>
  \<open>a == b\<close>. Objects are equal when they have the same keys with equal values, in any
  order. The sizes are compared first, as the interpreter does.
\<close>

fun py_eq :: "json \<Rightarrow> json \<Rightarrow> bool"
  and py_eq_list :: "json list \<Rightarrow> json list \<Rightarrow> bool"
  and py_eq_dict :: "(string \<times> json) list \<Rightarrow> (string \<times> json) list \<Rightarrow> bool" where
  "py_eq JNull b = (b = JNull)"
| "py_eq (JStr s) b = (b = JStr s)"
| "py_eq (JArr xs) b = (case b of JArr ys \<Rightarrow> py_eq_list xs ys | _ \<Rightarrow> False)"
| "py_eq (JObj d) b = (case b of JObj e \<Rightarrow> length d = length e \<and> py_eq_dict d e | _ \<Rightarrow> False)"
| "py_eq a b = opt_feq (num_value a) (num_value b)"
| "py_eq_list [] ys = (ys = [])"
| "py_eq_list (x # xs) ys = (case ys of [] \<Rightarrow> False | y # ys' \<Rightarrow> py_eq x y \<and> py_eq_list xs ys')"
| "py_eq_dict [] e = True"
| "py_eq_dict ((k, v) # d) e =
     ((case map_of e k of None \<Rightarrow> False | Some w \<Rightarrow> py_eq v w) \<and> py_eq_dict d e)"

text \<open>Truth value.\<close>

fun truthy :: "json \<Rightarrow> bool" where
  "truthy JNull = False"
| "truthy (JBool b) = b"
| "truthy (JInt i) = (i \<noteq> 0)"
| "truthy (JFloat f) = (\<not> feq f (Fin 0))"
| "truthy (JStr s) = (s \<noteq> [])"
| "truthy (JArr xs) = (xs \<noteq> [])"
| "truthy (JObj d) = (d \<noteq> [])"

text \<open>\<open>d.get(k)\<close> of a JSON object: absent keys read as null.\<close>

definition jget :: "jdict \<Rightarrow> string \<Rightarrow> json" where
  "jget d k = (case map_of d k of None \<Rightarrow> JNull | Some v \<Rightarrow> v)"

text \<open>\<open>d[k]\<close>\<close>

definition jitem :: "jdict \<Rightarrow> string \<Rightarrow> json res" where
  "jitem d k = (case map_of d k of None \<Rightarrow> Inl (KeyError k) | Some v \<Rightarrow> Inr v)"

text \<open>\<open>math.isfinite(v)\<close> of a number converts a huge integer and overflows.\<close>

definition is_finite_number :: "json \<Rightarrow> bool res" where
  "is_finite_number v =
     (if strict_num v then bindE (py_float v) (\<lambda>f. Inr (is_finite f)) else Inr False)"

text \<open>\<open>str(v)\<close> of a scalar; the text of a float or a container is not modelled.\<close>

fun py_str :: "json \<Rightarrow> string" where
  "py_str (JStr s) = s"
| "py_str JNull = ''None''"
| "py_str (JBool b) = (if b then ''True'' else ''False'')"
| "py_str (JInt i) = int_str i"
| "py_str _ = ''?''"

text \<open>\<open>None\<close> or a value, as JSON.\<close>

fun jopt :: "json option \<Rightarrow> json" where
  "jopt None = JNull" | "jopt (Some v) = v"

definition jfloat_opt :: "pyfloat option \<Rightarrow> json" where
  "jfloat_opt f = jopt (map_option JFloat f)"

lemma jget_simps [simp]: "map_of d k = Some v \<Longrightarrow> jget d k = v" "map_of d k = None \<Longrightarrow> jget d k = JNull"
  by (simp_all add: jget_def)

lemma jitem_Inr [return_iff]: "jitem d k = Inr v \<longleftrightarrow> map_of d k = Some v"
  by (simp add: jitem_def split: option.splits)

lemma is_finite_number_True [return_iff]:
  "is_finite_number v = Inr True \<longleftrightarrow> strict_num v \<and> (\<exists>f. py_float v = Inr f \<and> is_finite f)"
  by (auto simp: is_finite_number_def bindE_def split: sum.splits)

lemma py_float_strict_num: "strict_num v \<Longrightarrow> py_float v = Inr f \<Longrightarrow> f = NaN \<longleftrightarrow> v = JFloat NaN"
  by (cases v) (auto dest: float_of_int_finite)

lemma feq_refl: "a \<noteq> NaN \<Longrightarrow> feq a a"
  by (simp add: feq_def)

lemma feq_sym: "feq a b = feq b a"
  by (auto simp: feq_def)

text \<open>A document without a NaN equals itself; keys of every object are distinct.\<close>

fun json_wf :: "json \<Rightarrow> bool" where
  "json_wf (JFloat f) = (f \<noteq> NaN)"
| "json_wf (JArr xs) = list_all json_wf xs"
| "json_wf (JObj d) = (distinct (map fst d) \<and> list_all (\<lambda>(k, v). json_wf v) d)"
| "json_wf _ = True"

lemma py_eq_list_iff: "py_eq_list xs ys = list_all2 py_eq xs ys"
  by (induction xs arbitrary: ys) (auto split: list.splits)

lemma py_eq_dict_iff:
  "py_eq_dict d e = (\<forall>(k, v)\<in>set d. \<exists>w. map_of e k = Some w \<and> py_eq v w)"
  by (induction d) (auto split: option.splits)

lemma py_eq_refl: "json_wf v \<Longrightarrow> py_eq v v"
proof (induction v)
  case (JArr xs)
  then show ?case by (auto simp: py_eq_list_iff list_all2_same list_all_iff)
next
  case (JObj d)
  then have "py_eq v v" if "(k, v) \<in> set d" for k v
    using that by (force simp: list_all_iff)
  with JObj.prems show ?case by (auto simp: py_eq_dict_iff)
qed (auto simp: opt_feq_def feq_def)

subsection \<open>Well-formed objects\<close>

lemma json_wf_dset: "json_wf v \<Longrightarrow> json_wf (JObj d) \<Longrightarrow> json_wf (JObj (dset k v d))"
  by (induction d) (auto simp: list_all_iff image_iff split: if_splits)

lemma json_wf_dpop: "json_wf (JObj d) \<Longrightarrow> json_wf (JObj (dpop k d))"
  by (auto simp: list_all_iff AList.delete_eq distinct_map_filter)

lemma json_wf_fold_dpop: "json_wf (JObj d) \<Longrightarrow> json_wf (JObj (fold dpop ks d))"
  by (induction ks arbitrary: d) (simp_all add: json_wf_dpop del: json_wf.simps)

lemma json_wf_dict_update: "json_wf (JObj d) \<Longrightarrow> list_all (\<lambda>(_, v). json_wf v) e \<Longrightarrow> json_wf (JObj (dict_update d e))"
  by (induction d e rule: dict_update.induct) (auto simp del: json_wf.simps simp: json_wf_dset)

end
