(* ===== verification/Measurements.thy ===== *)
theory Measurements
  imports Json
begin

text \<open>
  The configuration records of objectives and measured outcomes, and
  \<open>templates/_shared/ax_contract.py\<close>: outcome configuration, measurement fields of a
  payload, noise coverage over a history and the campaign format guard. A normalized
  objective configuration is a record; the sources keep the same data in a dictionary.
\<close>

datatype direction = Minimize | Maximize

record objective =
  obj_name :: string
  obj_direction :: direction
  obj_tolerance :: pyfloat
  obj_failure :: string

datatype scalarization =
    PrimaryOnly
  | WeightedSum "(string, pyfloat) dict"
  | WeightedTchebycheff "(string, pyfloat) dict" "(string, pyfloat) dict option"
  | Lexicographic

datatype cmp_op = OpLe | OpGe

record outcome_constraint =
  oc_metric :: string
  oc_op :: cmp_op
  oc_bound :: pyfloat

record outcome_config =
  measurement_metrics :: "string list"
  outcome_constraints :: "outcome_constraint list"
  pareto_reference :: "(string, pyfloat) dict option"

datatype acquisition = ScalarAcq | ParetoAcq

record objective_cfg =
  primary_objective :: objective
  secondary_objectives :: "objective list"
  scalarization_of :: scalarization
  ax_contract_version :: int
  acquisition_of :: acquisition
  outcome :: outcome_config

text \<open>\<open>objectives\<close> and \<open>objective_names\<close> of the normalized configuration.\<close>

definition objectives_of :: "objective_cfg \<Rightarrow> objective list" where
  "objectives_of cfg = primary_objective cfg # secondary_objectives cfg"

definition objective_names :: "objective_cfg \<Rightarrow> string list" where
  "objective_names cfg = map obj_name (objectives_of cfg)"

definition is_weighted :: "scalarization \<Rightarrow> bool" where
  "is_weighted s = (case s of WeightedSum _ \<Rightarrow> True | WeightedTchebycheff _ _ \<Rightarrow> True | _ \<Rightarrow> False)"

subsection \<open>Outcome configuration\<close>

text \<open>\<open>finite_number\<close>: an overflowing integer is a \<open>ValueError\<close> here.\<close>

definition finite_number :: "json \<Rightarrow> string \<Rightarrow> bool \<Rightarrow> pyfloat res" where
  "finite_number v field nonnegative =
     (if \<not> strict_num v then Inl (ValueError field)
      else case py_float v of
        Inl _ \<Rightarrow> Inl (ValueError field)
      | Inr r \<Rightarrow> if \<not> is_finite r \<or> (nonnegative \<and> flt r (Fin 0)) then Inl (ValueError field) else Inr r)"

fun metric_name_ok :: "json \<Rightarrow> bool" where
  "metric_name_ok (JStr s) = (py_strip s \<noteq> [])"
| "metric_name_ok _ = False"

fun str_of :: "json \<Rightarrow> string" where
  "str_of (JStr s) = s"
| "str_of _ = []"

text \<open>\<open>set(a) == set(b)\<close> and \<open>set(a) & set(b)\<close> on lists\<close>

definition same_set :: "'a list \<Rightarrow> 'a list \<Rightarrow> bool" where
  "same_set xs ys = (list_all (\<lambda>x. List.member ys x) xs \<and> list_all (\<lambda>y. List.member xs y) ys)"

type_synonym limits = "(string, pyfloat \<times> pyfloat) dict"

definition normalize_outcome_constraint ::
  "string list \<Rightarrow> string list \<Rightarrow> json \<Rightarrow> outcome_constraint list \<times> limits \<Rightarrow> (outcome_constraint list \<times> limits) res" where
  "normalize_outcome_constraint metrics names c st = (case c of
     JObj d \<Rightarrow>
       if \<not> same_set (map fst d) [''metric'', ''op'', ''bound''] then Inl (ValueError ''outcome_constraints keys'')
       else (case jget d ''metric'' of
         JStr metric \<Rightarrow>
           if List.member names metric then Inl (ValueError ''outcome_constraints objective threshold'')
           else if \<not> List.member metrics metric then Inl (ValueError ''outcome_constraints metric'')
           else (case (jget d ''op'') of
             JStr op \<Rightarrow>
               if op \<noteq> ''<='' \<and> op \<noteq> ''>='' then Inl (ValueError ''outcome_constraints metric'')
               else bindE (finite_number (jget d ''bound'') ''outcome_constraints.bound'' False) (\<lambda>bound.
                 let (lo, hi) = dict_get (snd st) metric (NInf, PInf);
                     (lo', hi') = (if op = ''>='' then (py_max lo bound, hi) else (lo, py_min hi bound))
                 in if flt hi' lo' then Inl (ValueError ''contradictory outcome constraints'')
                    else Inr (fst st @ [\<lparr>oc_metric = metric, oc_op = (if op = ''<='' then OpLe else OpGe), oc_bound = bound\<rparr>],
                              dset metric (lo', hi') (snd st)))
           | _ \<Rightarrow> Inl (ValueError ''outcome_constraints metric''))
       | _ \<Rightarrow> Inl (ValueError ''outcome_constraints metric''))
   | _ \<Rightarrow> Inl (ValueError ''outcome_constraints keys''))"

definition normalize_reference :: "json \<Rightarrow> string list \<Rightarrow> (string, pyfloat) dict res" where
  "normalize_reference raw names = (case raw of
     JObj d \<Rightarrow>
       if \<not> same_set (map fst d) names then Inl (ValueError ''pareto_reference'')
       else mapE (\<lambda>n. bindE (finite_number (jget d n) (''pareto_reference.'' @ n) False) (\<lambda>f. Inr (n, f))) names
   | _ \<Rightarrow> Inl (ValueError ''pareto_reference''))"

definition normalize_outcome_config :: "jdict \<Rightarrow> string list \<Rightarrow> outcome_config res" where
  "normalize_outcome_config raw names =
     (case dict_get raw ''measurement_metrics'' (JArr []) of
       JArr ms \<Rightarrow>
         if \<not> list_all metric_name_ok ms then Inl (ValueError ''measurement_metrics'')
         else (let metrics = map (\<lambda>m. py_strip (str_of m)) ms in
           if \<not> distinct metrics \<or> list_ex (\<lambda>m. List.member names m) metrics
             then Inl (ValueError ''measurement_metrics unique and disjoint'')
           else (case dict_get raw ''outcome_constraints'' (JArr []) of
             JArr cs \<Rightarrow>
               bindE (foldE (normalize_outcome_constraint metrics names) cs ([], [])) (\<lambda>st.
               bindE (case map_of raw ''pareto_reference'' of
                        None \<Rightarrow> Inr None
                      | Some r \<Rightarrow> bindE (normalize_reference r names) (\<lambda>d. Inr (Some d))) (\<lambda>ref.
               Inr \<lparr>measurement_metrics = metrics, outcome_constraints = fst st, pareto_reference = ref\<rparr>))
           | _ \<Rightarrow> Inl (ValueError ''outcome_constraints'')))
     | _ \<Rightarrow> Inl (ValueError ''measurement_metrics''))"

text \<open>The configuration is empty when the source's dictionary \<open>extra\<close> is.\<close>

definition outcome_empty :: "outcome_config \<Rightarrow> bool" where
  "outcome_empty oc = (measurement_metrics oc = [] \<and> outcome_constraints oc = [] \<and> pareto_reference oc = None)"

subsection \<open>Measurement fields\<close>

definition measurement_fields :: "string list" where
  "measurement_fields = [''objective_sems'', ''measurements'', ''measurement_sems'', ''scalarized_sem'']"

record measured =
  ms_objective_sems :: "(string, pyfloat) dict"
  ms_measurements :: "(string, pyfloat) dict"
  ms_measurement_sems :: "(string, pyfloat) dict"
  ms_scalarized_sem :: "pyfloat option"

definition no_measured :: measured where
  "no_measured = \<lparr>ms_objective_sems = [], ms_measurements = [], ms_measurement_sems = [], ms_scalarized_sem = None\<rparr>"

text \<open>The dictionary \<open>normalize_measurements\<close> returns: empty maps and an absent scalar are left out.\<close>

definition measured_json :: "measured \<Rightarrow> jdict" where
  "measured_json m =
     concat (map (\<lambda>(k, d). if d = [] then [] else [(k, JObj (map (\<lambda>(n, f). (n, JFloat f)) d))])
       [(''objective_sems'', ms_objective_sems m), (''measurements'', ms_measurements m),
        (''measurement_sems'', ms_measurement_sems m)]) @
     (case ms_scalarized_sem m of None \<Rightarrow> [] | Some f \<Rightarrow> [(''scalarized_sem'', JFloat f)])"

definition metric_map :: "jdict \<Rightarrow> string \<Rightarrow> string list \<Rightarrow> bool \<Rightarrow> (string, pyfloat) dict res" where
  "metric_map payload key allowed sem = (case dict_get payload key (JObj []) of
     JObj d \<Rightarrow>
       if \<not> list_all (\<lambda>k. List.member allowed k) (map fst d) then Inl (ValueError key)
       else mapE (\<lambda>(n, v). bindE (finite_number v (key @ ''.'' @ n) sem) (\<lambda>f. Inr (n, f))) d
   | _ \<Rightarrow> Inl (ValueError key))"

text \<open>\<open>payload.get("status", "ok") != "ok"\<close>\<close>

definition status_is_ok :: "jdict \<Rightarrow> bool" where
  "status_is_ok d = (dict_get d ''status'' (JStr ''ok'') = JStr ''ok'')"

definition normalize_measurements :: "jdict \<Rightarrow> objective_cfg \<Rightarrow> measured res" where
  "normalize_measurements payload cfg =
     (if ax_contract_version cfg \<noteq> 2 then
        (if list_ex (\<lambda>k. has_key payload k) measurement_fields
         then Inl (ValueError ''measurement fields require contract_version=2'') else Inr no_measured)
      else
        let names = objective_names cfg; metrics = measurement_metrics (outcome cfg) in
        bindE (metric_map payload ''objective_sems'' names True) (\<lambda>osems.
        bindE (metric_map payload ''measurements'' metrics False) (\<lambda>ms.
        bindE (metric_map payload ''measurement_sems'' metrics True) (\<lambda>msems.
        bindE (case map_of payload ''scalarized_sem'' of
                 None \<Rightarrow> Inr None
               | Some v \<Rightarrow> bindE (finite_number v ''scalarized_sem'' True) (\<lambda>f. Inr (Some f))) (\<lambda>ssem.
        if \<not> status_is_ok payload then
          (if osems \<noteq> [] \<or> ms \<noteq> [] \<or> msems \<noteq> [] \<or> ssem \<noteq> None
           then Inl (ValueError ''non-ok outcomes cannot carry measurements'') else Inr no_measured)
        else if \<not> same_set (map fst ms) metrics then Inl (ValueError ''measurements incomplete'')
        else
        bindE (case dict_get payload ''objectives'' (JObj []) of
                 JObj objs \<Rightarrow> mapE (\<lambda>(n, _). finite_number (jget objs n) (''objectives.'' @ n) False) osems
               | _ \<Rightarrow> if osems = [] then Inr [] else Inl (AttributeError ''objectives.get'')) (\<lambda>_.
        if \<not> list_all (\<lambda>(n, _). List.member (map fst ms) n) msems then Inl (ValueError ''measurement_sems'')
        else
        let weighted = is_weighted (scalarization_of cfg); pareto = (acquisition_of cfg = ParetoAcq) in
        if ssem \<noteq> None \<and> (\<not> weighted \<or> pareto) then Inl (ValueError ''scalarized_sem unused'')
        else if weighted \<and> \<not> pareto \<and> osems \<noteq> [] \<and> ssem = None then Inl (ValueError ''scalarized_sem required'')
        else Inr \<lparr>ms_objective_sems = osems, ms_measurements = ms, ms_measurement_sems = msems,
                  ms_scalarized_sem = ssem\<rparr>))))))"

subsection \<open>Noise coverage of a history\<close>

text \<open>\<open>modeled_sems\<close>: for every modelled metric, the standard error if one is known.\<close>

definition modeled_sems :: "measured \<Rightarrow> objective_cfg \<Rightarrow> (string \<times> pyfloat option) list" where
  "modeled_sems m cfg =
     dict_of
     ((if acquisition_of cfg = ParetoAcq
        then map (\<lambda>n. (''objective:'' @ n, map_of (ms_objective_sems m) n)) (objective_names cfg)
        else [(''scalar_score'',
               case scalarization_of cfg of
                 PrimaryOnly \<Rightarrow> map_of (ms_objective_sems m) (obj_name (primary_objective cfg))
               | _ \<Rightarrow> ms_scalarized_sem m)]) @
      map (\<lambda>c. (''measurement:'' @ oc_metric c, map_of (ms_measurement_sems m) (oc_metric c)))
        (outcome_constraints (outcome cfg)))"

definition cover_metric :: "string \<times> pyfloat option \<Rightarrow> (string, bool) dict \<Rightarrow> (string, bool) dict res" where
  "cover_metric p coverage = (let known = (snd p \<noteq> None) in
     case map_of coverage (fst p) of
       Some k \<Rightarrow> if k \<noteq> known then Inl (ValueError ''inconsistent SEM coverage'') else Inr (dset (fst p) known coverage)
     | None \<Rightarrow> Inr (dset (fst p) known coverage))"

definition cover_row :: "objective_cfg \<Rightarrow> jdict \<Rightarrow> (string, bool) dict \<Rightarrow> (string, bool) dict res" where
  "cover_row cfg row coverage =
     (if \<not> status_is_ok row then Inr coverage
      else bindE (normalize_measurements row cfg) (\<lambda>m. foldE cover_metric (modeled_sems m cfg) coverage))"

definition validate_measurement_coverage :: "jdict list \<Rightarrow> objective_cfg \<Rightarrow> unit res" where
  "validate_measurement_coverage rows cfg =
     (if ax_contract_version cfg \<noteq> 2 then Inr ()
      else bindE (foldE (cover_row cfg) rows []) (\<lambda>_. Inr ()))"

end
