(* ===== verification/Objectives.thy ===== *)
theory Objectives
  imports Measurements "HOL-Library.List_Lexorder"
begin

text \<open>
  \<open>templates/_shared/objectives.py\<close>: normalization of the objective schema, objective
  vectors, scalarization, ranking, the Pareto front, the hypervolume and the outcome
  summary.
\<close>

subsection \<open>Normalization of the objective schema\<close>

definition obj_require_object :: "json \<Rightarrow> string \<Rightarrow> jdict res" where
  "obj_require_object v field = (case v of JObj d \<Rightarrow> Inr d | _ \<Rightarrow> Inl (ValueError field))"

definition obj_require_string :: "json \<Rightarrow> string \<Rightarrow> string res" where
  "obj_require_string v field = (case v of
     JStr s \<Rightarrow> (let out = py_strip s in if out = [] then Inl (ValueError field) else Inr out)
   | _ \<Rightarrow> Inl (ValueError field))"

text \<open>\<open>float(value)\<close> of a huge integer raises \<open>OverflowError\<close> before the finiteness test.\<close>

definition obj_require_finite :: "json \<Rightarrow> string \<Rightarrow> pyfloat res" where
  "obj_require_finite v field =
     (if \<not> strict_num v then Inl (ValueError field)
      else bindE (py_float v) (\<lambda>out. if is_finite out then Inr out else Inl (ValueError field)))"

definition parse_direction :: "string \<Rightarrow> direction option" where
  "parse_direction s = (if s = ''minimize'' then Some Minimize else if s = ''maximize'' then Some Maximize else None)"

definition normalize_objective :: "json \<Rightarrow> string \<Rightarrow> objective res" where
  "normalize_objective raw field =
     bindE (obj_require_object raw field) (\<lambda>d.
     bindE (obj_require_string (jget d ''name'') (field @ ''.name'')) (\<lambda>name.
     bindE (obj_require_string (jget d ''direction'') (field @ ''.direction'')) (\<lambda>dir.
     case parse_direction (py_lower dir) of
       None \<Rightarrow> Inl (ValueError (field @ ''.direction''))
     | Some direction \<Rightarrow>
         bindE (obj_require_finite (dict_get d ''tolerance'' (JFloat (Fin 0))) (field @ ''.tolerance'')) (\<lambda>tol.
         bindE (obj_require_string (dict_get d ''failure_handling'' (JStr ''record_and_continue''))
                  (field @ ''.failure_handling'')) (\<lambda>fh.
         Inr \<lparr>obj_name = name, obj_direction = direction, obj_tolerance = tol, obj_failure = fh\<rparr>)))))"

text \<open>The weights are validated in the order of the objectives, then divided by their sum.\<close>

definition collect_weight :: "jdict \<Rightarrow> string \<Rightarrow> string \<Rightarrow> (string, pyfloat) dict \<times> pyfloat \<Rightarrow> ((string, pyfloat) dict \<times> pyfloat) res" where
  "collect_weight weights field name st =
     bindE (obj_require_finite (jget weights name) (field @ ''.'' @ name)) (\<lambda>v.
     if fle v (Fin 0) then Inl (ValueError (field @ ''.'' @ name))
     else Inr (dset name v (fst st), fadd (snd st) v))"

definition normalize_weights :: "json \<Rightarrow> string list \<Rightarrow> string \<Rightarrow> (string, pyfloat) dict res" where
  "normalize_weights raw names field =
     bindE (obj_require_object raw field) (\<lambda>weights.
     if \<not> same_set (map fst weights) names then Inl (ValueError field)
     else bindE (foldE (collect_weight weights field) names ([], Fin 0)) (\<lambda>st.
       mapE (\<lambda>name. bindE (fdiv (dict_get (fst st) name (Fin 0)) (snd st)) (\<lambda>w. Inr (name, w))) names))"

definition normalize_reference_point :: "json \<Rightarrow> string list \<Rightarrow> string \<Rightarrow> (string, pyfloat) dict res" where
  "normalize_reference_point raw names field =
     bindE (obj_require_object raw field) (\<lambda>reference.
     if \<not> same_set (map fst reference) names then Inl (ValueError field)
     else mapE (\<lambda>name. bindE (obj_require_finite (jget reference name) (field @ ''.'' @ name))
                        (\<lambda>v. Inr (name, v))) names)"

abbreviation scal_field :: string where
  "scal_field \<equiv> ''objective_schema.scalarization''"

definition normalize_scalarization :: "json \<Rightarrow> objective list \<Rightarrow> scalarization res" where
  "normalize_scalarization raw objectives =
     (if raw = JNull then Inr PrimaryOnly
      else bindE (obj_require_object raw scal_field) (\<lambda>scal.
        bindE (obj_require_string (jget scal ''policy'') (scal_field @ ''.policy'')) (\<lambda>p0.
        let policy = py_lower p0; names = map obj_name objectives; ref = jget scal ''reference_point'' in
        if \<not> List.member [''weighted_sum'', ''weighted_tchebycheff'', ''lexicographic''] policy
          then Inl (ValueError (scal_field @ ''.policy''))
        else if policy \<noteq> ''lexicographic'' then
          bindE (normalize_weights (jget scal ''weights'') names (scal_field @ ''.weights'')) (\<lambda>weights.
          if policy = ''weighted_tchebycheff'' \<and> ref \<noteq> JNull then
            bindE (normalize_reference_point ref names (scal_field @ ''.reference_point''))
              (\<lambda>r. Inr (WeightedTchebycheff weights (Some r)))
          else if ref \<noteq> JNull then Inl (ValueError (scal_field @ ''.reference_point''))
          else Inr (if policy = ''weighted_sum'' then WeightedSum weights else WeightedTchebycheff weights None))
        else if has_key scal ''weights'' then Inl (ValueError (scal_field @ ''.weights''))
        else if has_key scal ''reference_point'' then Inl (ValueError (scal_field @ ''.reference_point''))
        else Inr Lexicographic)))"

text \<open>
  The contract version and acquisition come from the optimizer configuration. With
  version 1 any measured-outcome key is refused; Pareto acquisition needs two
  objectives and a reference point.
\<close>

definition secondary_field :: "nat \<Rightarrow> string" where
  "secondary_field i = ''objective_schema.secondary_objectives['' @ int_str (int i) @ '']''"

definition normalize_objective_schema :: "json \<Rightarrow> json \<Rightarrow> json \<Rightarrow> objective_cfg res" where
  "normalize_objective_schema raw contract_version acquisition =
     bindE (obj_require_object raw ''objective_schema'') (\<lambda>cfg.
     bindE (normalize_objective (jget cfg ''primary_objective'') ''objective_schema.primary_objective'') (\<lambda>primary.
     case dict_get cfg ''secondary_objectives'' (JArr []) of
       JArr items \<Rightarrow>
         bindE (mapE (\<lambda>(i, item). normalize_objective item (secondary_field i)) (enum items)) (\<lambda>secondary.
         let objectives = primary # secondary; names = map obj_name objectives in
         if \<not> distinct names then Inl (ValueError ''objective_schema duplicates'')
         else
         bindE (normalize_scalarization (jget cfg ''scalarization'') objectives) (\<lambda>scal.
         bindE (normalize_outcome_config cfg names) (\<lambda>extra.
         if contract_version \<noteq> JInt 1 \<and> contract_version \<noteq> JInt 2 then Inl (ValueError ''Ax contract version'')
         else if acquisition \<noteq> JStr ''scalar'' \<and> acquisition \<noteq> JStr ''pareto'' then Inl (ValueError ''Ax acquisition'')
         else let acq = (if acquisition = JStr ''pareto'' then ParetoAcq else ScalarAcq);
                  version = (if contract_version = JInt 1 then 1 else 2 :: int) in
         if version = 1 \<and> (\<not> outcome_empty extra \<or> acq \<noteq> ScalarAcq)
           then Inl (ValueError ''contract_version=2 required'')
         else if version = 2 \<and> acq = ParetoAcq \<and> (length names < 2 \<or> pareto_reference extra = None)
           then Inl (ValueError ''Pareto acquisition'')
         else Inr \<lparr>primary_objective = primary, secondary_objectives = secondary, scalarization_of = scal,
                   ax_contract_version = version, acquisition_of = acq, outcome = extra\<rparr>)))
     | _ \<Rightarrow> Inl (ValueError ''objective_schema.secondary_objectives'')))"

subsection \<open>Accessors\<close>

definition primary_objective_name :: "objective_cfg \<Rightarrow> string" where
  "primary_objective_name cfg = obj_name (primary_objective cfg)"

definition primary_objective_direction :: "objective_cfg \<Rightarrow> direction" where
  "primary_objective_direction cfg = obj_direction (primary_objective cfg)"

fun policy_name :: "scalarization \<Rightarrow> string" where
  "policy_name PrimaryOnly = ''primary_only''"
| "policy_name (WeightedSum _) = ''weighted_sum''"
| "policy_name (WeightedTchebycheff _ _) = ''weighted_tchebycheff''"
| "policy_name Lexicographic = ''lexicographic''"

definition scalarization_policy :: "objective_cfg \<Rightarrow> string" where
  "scalarization_policy cfg = policy_name (scalarization_of cfg)"

definition scalarized_direction :: "objective_cfg \<Rightarrow> direction" where
  "scalarized_direction cfg =
     (if is_weighted (scalarization_of cfg) then Minimize else primary_objective_direction cfg)"

definition best_objective_name :: "objective_cfg \<Rightarrow> string" where
  "best_objective_name cfg =
     (if is_weighted (scalarization_of cfg) then ''scalarized'' else primary_objective_name cfg)"

subsection \<open>Vectors\<close>

type_synonym vector = "(string, pyfloat) dict"

definition canonical_objective_vector :: "json \<Rightarrow> objective_cfg \<Rightarrow> vector res" where
  "canonical_objective_vector raw cfg =
     bindE (obj_require_object raw ''objectives'') (\<lambda>objectives.
     let names = objective_names cfg in
     if \<not> list_all (\<lambda>n. has_key objectives n) names then Inl (ValueError ''objectives missing'')
     else if \<not> list_all (\<lambda>k. List.member names k) (map fst objectives) then Inl (ValueError ''objectives unknown'')
     else mapE (\<lambda>n. bindE (obj_require_finite (jget objectives n) (''objectives.'' @ n)) (\<lambda>v. Inr (n, v))) names)"

definition nullable_objective_vector :: "json \<Rightarrow> objective_cfg \<Rightarrow> (string, pyfloat option) dict res" where
  "nullable_objective_vector raw cfg =
     (let names = objective_names cfg in
      if raw = JNull then Inr (map (\<lambda>n. (n, None)) names)
      else bindE (obj_require_object raw ''objectives'') (\<lambda>objectives.
        if \<not> list_all (\<lambda>n. has_key objectives n) names then Inl (ValueError ''objectives missing'')
        else if \<not> list_all (\<lambda>k. List.member names k) (map fst objectives) then Inl (ValueError ''objectives unknown'')
        else mapE (\<lambda>n. if jget objectives n = JNull then Inr (n, None)
                       else bindE (obj_require_finite (jget objectives n) (''objectives.'' @ n))
                              (\<lambda>v. Inr (n, Some v))) names))"

text \<open>A vector as the JSON object the sources pass on.\<close>

definition vector_json :: "vector \<Rightarrow> json" where
  "vector_json v = JObj (map (\<lambda>(n, f). (n, JFloat f)) v)"

fun transformed_value :: "direction \<Rightarrow> pyfloat \<Rightarrow> pyfloat" where
  "transformed_value Minimize v = v"
| "transformed_value Maximize v = fneg v"

definition vget :: "vector \<Rightarrow> string \<Rightarrow> pyfloat" where
  "vget v n = dict_get v n (Fin 0)"

text \<open>The transformed components in the order of the objectives.\<close>

definition transformed :: "vector \<Rightarrow> objective_cfg \<Rightarrow> pyfloat list" where
  "transformed v cfg = map (\<lambda>ob. transformed_value (obj_direction ob) (vget v (obj_name ob))) (objectives_of cfg)"

definition lexicographic_key :: "vector \<Rightarrow> objective_cfg \<Rightarrow> pyfloat list" where
  "lexicographic_key v cfg = transformed v cfg"

subsection \<open>Scalarization\<close>

definition weighted_sum :: "vector \<Rightarrow> vector \<Rightarrow> objective_cfg \<Rightarrow> pyfloat" where
  "weighted_sum weights v cfg =
     fsum (map (\<lambda>ob. fmul (vget weights (obj_name ob))
                          (transformed_value (obj_direction ob) (vget v (obj_name ob)))) (objectives_of cfg))"

definition tchebycheff_distance :: "vector \<Rightarrow> vector option \<Rightarrow> vector \<Rightarrow> objective \<Rightarrow> pyfloat" where
  "tchebycheff_distance weights reference v ob =
     (let n = obj_name ob; ref = (case reference of None \<Rightarrow> Fin 0 | Some r \<Rightarrow> vget r n) in
      fmul (vget weights n)
        (fabs (fsub (transformed_value (obj_direction ob) (vget v n)) (transformed_value (obj_direction ob) ref))))"

text \<open>\<open>max(xs)\<close> of a nonempty list keeps the first of the largest elements.\<close>

fun list_max :: "pyfloat list \<Rightarrow> pyfloat" where
  "list_max [] = Fin 0"
| "list_max (x # xs) = foldl py_max x xs"

definition scalarize_objectives :: "vector \<Rightarrow> objective_cfg \<Rightarrow> pyfloat" where
  "scalarize_objectives v cfg = (case scalarization_of cfg of
     WeightedSum w \<Rightarrow> weighted_sum w v cfg
   | WeightedTchebycheff w ref \<Rightarrow> list_max (map (tchebycheff_distance w ref v) (objectives_of cfg))
   | _ \<Rightarrow> vget v (primary_objective_name cfg))"

subsection \<open>Ranking\<close>

text \<open>
  Tuples compare component by component; the first unequal pair decides. The rank key is
  the scalar, the lexicographic key and the trial id.
\<close>

fun tuple_lt :: "pyfloat list \<Rightarrow> pyfloat list \<Rightarrow> bool" where
  "tuple_lt (a # as) (b # bs) = (if feq a b then tuple_lt as bs else flt a b)"
| "tuple_lt [] (_ # _) = True"
| "tuple_lt _ _ = False"

definition tuple_eq :: "pyfloat list \<Rightarrow> pyfloat list \<Rightarrow> bool" where
  "tuple_eq as bs = list_all2 feq as bs"

record rank_key =
  rk_scalar :: pyfloat
  rk_lex :: "pyfloat list"
  rk_id :: int

definition best_rank_key :: "vector \<Rightarrow> objective_cfg \<Rightarrow> int \<Rightarrow> rank_key" where
  "best_rank_key v cfg tid =
     (let s = scalarize_objectives v cfg in
      \<lparr>rk_scalar = (if scalarized_direction cfg = Minimize then s else fneg s),
       rk_lex = lexicographic_key v cfg, rk_id = tid\<rparr>)"

definition rank_lt :: "rank_key \<Rightarrow> rank_key \<Rightarrow> bool" where
  "rank_lt a b =
     (if feq (rk_scalar a) (rk_scalar b) then
        (if tuple_eq (rk_lex a) (rk_lex b) then rk_id a < rk_id b else tuple_lt (rk_lex a) (rk_lex b))
      else flt (rk_scalar a) (rk_scalar b))"

subsection \<open>Best record and objective metadata\<close>

text \<open>
  \<open>multi_view\<close>: more than one objective, or a policy other than \<open>primary_only\<close>; then
  records carry the policy and the vector.
\<close>

definition multi_view :: "objective_cfg \<Rightarrow> bool" where
  "multi_view cfg = (1 < length (objective_names cfg) \<or> scalarization_of cfg \<noteq> PrimaryOnly)"

record best_record =
  br_trial_id :: int
  br_objective_name :: string
  br_objective_value :: pyfloat
  br_updated_at :: pyfloat
  br_view :: "(string \<times> vector) option"

definition build_best_record :: "jdict \<Rightarrow> objective_cfg \<Rightarrow> pyfloat \<Rightarrow> best_record res" where
  "build_best_record observation cfg updated_at =
     bindE (canonical_objective_vector (dict_get observation ''objectives'' (JObj [])) cfg) (\<lambda>v.
     bindE (jitem observation ''trial_id'') (\<lambda>t.
     bindE (py_int t) (\<lambda>tid.
     Inr \<lparr>br_trial_id = tid, br_objective_name = best_objective_name cfg,
          br_objective_value = scalarize_objectives v cfg, br_updated_at = updated_at,
          br_view = (if multi_view cfg then Some (scalarization_policy cfg, v) else None)\<rparr>)))"

definition best_json :: "best_record \<Rightarrow> json" where
  "best_json b = JObj ([(''trial_id'', JInt (br_trial_id b)), (''objective_name'', JStr (br_objective_name b)),
     (''objective_value'', JFloat (br_objective_value b)), (''updated_at'', JFloat (br_updated_at b))] @
     (case br_view b of None \<Rightarrow> []
      | Some (policy, v) \<Rightarrow> [(''scalarization_policy'', JStr policy), (''objective_vector'', vector_json v)]))"

definition nullable_json :: "(string, pyfloat option) dict \<Rightarrow> json" where
  "nullable_json v = JObj (map (\<lambda>(n, f). (n, jfloat_opt f)) v)"

record objective_metadata =
  om_name :: string
  om_value :: "pyfloat option"
  om_vector :: "(string, pyfloat option) dict"
  om_scalarized :: "pyfloat option"
  om_policy :: "string option"

definition build_objective_metadata :: "json \<Rightarrow> objective_cfg \<Rightarrow> objective_metadata res" where
  "build_objective_metadata raw cfg =
     bindE (nullable_objective_vector raw cfg) (\<lambda>vector.
     let primary = primary_objective_name cfg in
     Inr \<lparr>om_name = primary,
          om_value = dict_get vector primary None,
          om_vector = vector,
          om_scalarized =
            (if list_all (\<lambda>(_, v). v \<noteq> None) vector
             then Some (scalarize_objectives (map (\<lambda>(n, v). (n, the v)) vector) cfg) else None),
          om_policy = (if multi_view cfg then Some (scalarization_policy cfg) else None)\<rparr>)"

subsection \<open>Well-formed configurations\<close>

text \<open>
  What \<open>normalize_objective_schema\<close> establishes: distinct objective names, and weights
  that cover exactly those names with finite values in \<open>[0, 1]\<close>.
\<close>

definition unit_float :: "pyfloat \<Rightarrow> bool" where
  "unit_float w = (is_finite w \<and> 0 \<le> fval w \<and> fval w \<le> 1 \<and> fwf w)"

definition weights_wf :: "string list \<Rightarrow> vector \<Rightarrow> bool" where
  "weights_wf names w = (map fst w = names \<and> list_all (\<lambda>(_, f). unit_float f) w)"

definition finite_vector :: "string list \<Rightarrow> vector \<Rightarrow> bool" where
  "finite_vector names v = (map fst v = names \<and> list_all (\<lambda>(_, f). is_finite f) v)"

fun scal_wf :: "string list \<Rightarrow> scalarization \<Rightarrow> bool" where
  "scal_wf names (WeightedSum w) = weights_wf names w"
| "scal_wf names (WeightedTchebycheff w None) = weights_wf names w"
| "scal_wf names (WeightedTchebycheff w (Some r)) = (weights_wf names w \<and> finite_vector names r)"
| "scal_wf names _ = True"

definition cfg_wf :: "objective_cfg \<Rightarrow> bool" where
  "cfg_wf cfg = (distinct (objective_names cfg) \<and> scal_wf (objective_names cfg) (scalarization_of cfg))"

text \<open>The numbers of a document that a binary64 float can hold.\<close>

fun json_fwf :: "json \<Rightarrow> bool" where
  "json_fwf (JFloat f) = fwf f"
| "json_fwf (JArr xs) = list_all json_fwf xs"
| "json_fwf (JObj d) = list_all (\<lambda>(_, v). json_fwf v) d"
| "json_fwf _ = True"

lemma json_fwf_get: "list_all (\<lambda>(_, v). json_fwf v) d \<Longrightarrow> json_fwf (jget d k)"
  by (auto simp: jget_def list_all_iff dest: map_of_SomeD split: option.splits)

lemma obj_require_finite_Inr [return_iff]:
  "obj_require_finite v field = Inr f \<longleftrightarrow> strict_num v \<and> py_float v = Inr f \<and> is_finite f"
  by (auto simp: obj_require_finite_def return_iff)

lemma py_float_fwf: "json_fwf v \<Longrightarrow> py_float v = Inr f \<Longrightarrow> fwf f"
  by (cases v) (auto dest: float_of_int_fwf simp: float_limit_def)

lemma vget_simps: "map_of v n = Some f \<Longrightarrow> vget v n = f"
  by (simp add: vget_def dict_get_def)

lemma vget_member:
  "n \<in> set (map fst v) \<Longrightarrow> list_all (\<lambda>(_, f). P f) v \<Longrightarrow> P (vget v n)"
  by (cases "map_of v n")
     (auto simp: vget_simps map_of_eq_None_iff list_all_iff dest!: map_of_SomeD)

lemma unit_vget: "weights_wf names w \<Longrightarrow> n \<in> set names \<Longrightarrow> unit_float (vget w n)"
  using vget_member [of n w unit_float] by (auto simp: weights_wf_def)

lemma finite_vget: "finite_vector names v \<Longrightarrow> n \<in> set names \<Longrightarrow> is_finite (vget v n)"
  using vget_member [of n v is_finite] by (auto simp: finite_vector_def)

lemma mapE_pairs:
  assumes "mapE (\<lambda>n. bindE (f n) (\<lambda>x. Inr (n, x))) ns = Inr ps"
  shows "map fst ps = ns" "(n, x) \<in> set ps \<Longrightarrow> f n = Inr x"
proof -
  show "map fst ps = ns" using assms
    by (induction ns arbitrary: ps) (auto simp: return_iff)
  show "(n, x) \<in> set ps \<Longrightarrow> f n = Inr x"
    using mapE_Inr_set [OF assms] by (auto simp: return_iff)
qed

lemma normalize_weights_wf:
  assumes "normalize_weights raw names field = Inr w" "json_fwf raw"
  shows "weights_wf names w"
proof -
  obtain d st where raw: "raw = JObj d"
    and fold: "foldE (collect_weight d field) names ([], Fin 0) = Inr st"
    and div: "mapE (\<lambda>name. bindE (fdiv (dict_get (fst st) name (Fin 0)) (snd st)) (\<lambda>x. Inr (name, x))) names = Inr w"
    using assms(1) by (auto simp: normalize_weights_def obj_require_object_def return_iff split: json.splits)
  define Q where "Q = (\<lambda>s :: (string, pyfloat) dict \<times> pyfloat. fle (Fin 0) (snd s) \<and> fwf (snd s) \<and>
      (\<forall>n f. map_of (fst s) n = Some f \<longrightarrow> is_finite f \<and> flt (Fin 0) f \<and> fle f (snd s)))"
  have step: "Q v" if Q: "Q u" and cw: "collect_weight d field x u = Inr v" for x u v
  proof -
    obtain f where f: "py_float (jget d x) = Inr f" "is_finite f" "\<not> fle f (Fin 0)"
      and v: "v = (dset x f (fst u), fadd (snd u) f)"
      using cw by (auto simp: collect_weight_def return_iff)
    have pos: "flt (Fin 0) f" using f(2,3) by (cases f) (auto simp: fle_def flt_def)
    have fw: "fwf f" using py_float_fwf [OF json_fwf_get f(1)] assms(2) raw by simp
    have t: "fle (Fin 0) (snd u)" "fwf (snd u)" using Q by (simp_all add: Q_def)
    have ge: "fle (snd u) (fadd (snd u) f)" "fle f (fadd (snd u) f)"
      using fadd_ge_left [OF t(2,1)] fadd_ge_right [OF fw t(1)] flt_imp_fle [OF pos] by auto
    show ?thesis
      using Q f(2) pos fw t ge fle_trans [OF _ ge(1)] by (auto simp: Q_def v)
  qed
  have "Q ([], Fin 0)" by (auto simp: Q_def fle_def float_limit_def)
  then have "Q st" using foldE_inv [OF fold, of Q] step by blast
  have keys: "set names \<subseteq> fst ` set (fst st)"
  proof -
    have "fst ` set (fst t) = set ns \<union> fst ` set (fst s)"
      if "foldE (collect_weight d field) ns s = Inr t" for ns s t
      using that
    proof (induction ns arbitrary: s)
      case (Cons n ns)
      then obtain u where u: "collect_weight d field n s = Inr u" "foldE (collect_weight d field) ns u = Inr t"
        by (auto simp: return_iff)
      from u(1) obtain x where "fst u = dset n x (fst s)"
        by (auto simp: collect_weight_def return_iff)
      then have "fst ` set (fst u) = insert n (fst ` set (fst s))" by simp
      with Cons.IH [OF u(2)] show ?case by auto
    qed simp
    from this [OF fold] show ?thesis by simp
  qed
  have "unit_float x" if "(n, x) \<in> set w" for n x
  proof -
    have fd: "fdiv (dict_get (fst st) n (Fin 0)) (snd st) = Inr x"
      using mapE_pairs(2) [OF div that] .
    have "n \<in> set names" using mapE_pairs(1) [OF div] that by force
    with keys obtain f where "map_of (fst st) n = Some f"
      by (metis (no_types) has_key_iff not_None_eq subsetD)
    with fd \<open>Q st\<close> fdiv_unit [of f "snd st" x] show ?thesis
      by (simp add: Q_def dict_get_def unit_float_def)
  qed
  with mapE_pairs(1) [OF div] show ?thesis by (auto simp: weights_wf_def list_all_iff)
qed

lemma normalize_scalarization_wf:
  assumes "normalize_scalarization raw objs = Inr s" "json_fwf raw"
  shows "scal_wf (map obj_name objs) s"
proof -
  have ref: "finite_vector names r" if "normalize_reference_point v names fld = Inr r" for v names fld r
    using that mapE_pairs [of "\<lambda>name. obj_require_finite (jget d name) (fld @ ''.'' @ name)" for d]
    by (auto simp: normalize_reference_point_def finite_vector_def list_all_iff return_iff split: prod.splits)
  have w: "json_fwf (jget d k)" if "raw = JObj d" for d k
    using assms(2) that json_fwf_get by simp
  show ?thesis
    using assms(1) ref w normalize_weights_wf
    by (auto simp: normalize_scalarization_def obj_require_object_def return_iff Let_def
             simp del: jget_simps split: json.splits if_splits)
qed

text \<open>C33: a schema that normalizes gives a well-formed configuration: the objective names
  are distinct and the normalized weights cover exactly those names, each a finite value
  in [0, 1].\<close>

theorem normalize_schema_wf:
  assumes "normalize_objective_schema raw version acq = Inr cfg" "json_fwf raw"
  shows "cfg_wf cfg"
proof -
  obtain d where raw: "raw = JObj d"
    using assms(1) by (auto simp: normalize_objective_schema_def obj_require_object_def return_iff split: json.splits)
  have fw: "json_fwf (jget d k)" for k using assms(2) json_fwf_get by (simp add: raw)
  show ?thesis
  proof (cases "dict_get d ''secondary_objectives'' (JArr [])")
    case (JArr items)
    from assms(1) obtain primary secondary scal where
      "distinct (map obj_name (primary # secondary))"
      and scal: "normalize_scalarization (jget d ''scalarization'') (primary # secondary) = Inr scal"
      and cfg: "primary_objective cfg = primary" "secondary_objectives cfg = secondary" "scalarization_of cfg = scal"
      by (auto simp: normalize_objective_schema_def raw obj_require_object_def return_iff Let_def JArr)
    with normalize_scalarization_wf [OF scal fw] show ?thesis
      by (simp add: cfg_wf_def objective_names_def objectives_of_def)
  qed (use assms(1) in \<open>simp_all add: normalize_objective_schema_def raw obj_require_object_def return_iff\<close>)
qed

subsection \<open>Facts on scalarization\<close>

lemma objectives_names: "ob \<in> set (objectives_of cfg) \<Longrightarrow> obj_name ob \<in> set (objective_names cfg)"
  by (simp add: objective_names_def)

lemma primary_name_in: "primary_objective_name cfg \<in> set (objective_names cfg)"
  by (simp add: primary_objective_name_def objective_names_def objectives_of_def)

lemma transformed_value_facts [simp]:
  "is_finite (transformed_value d x) = is_finite x"
  "fwf (transformed_value d x) = fwf x"
  "transformed_value d x = NaN \<longleftrightarrow> x = NaN"
  by (cases d; simp)+

lemma list_max_not_NaN:
  assumes "\<And>x. x \<in> set xs \<Longrightarrow> x \<noteq> NaN"
  shows "list_max xs \<noteq> NaN"
proof -
  have "foldl py_max a ys \<noteq> NaN" if "a \<noteq> NaN" "\<And>x. x \<in> set ys \<Longrightarrow> x \<noteq> NaN" for a and ys :: "pyfloat list"
    using that by (induction ys arbitrary: a) (auto simp: py_max_def)
  with assms show ?thesis by (cases xs) auto
qed

definition exact_vector :: "string list \<Rightarrow> vector \<Rightarrow> bool" where
  "exact_vector names v = (finite_vector names v \<and> list_all (\<lambda>(_, f). fwf f) v)"

lemma exact_vget: "exact_vector names v \<Longrightarrow> n \<in> set names \<Longrightarrow> is_finite (vget v n) \<and> fwf (vget v n)"
  using finite_vget [of names v n] vget_member [of n v fwf]
  by (auto simp: exact_vector_def finite_vector_def)

text \<open>No difference to the reference point leaves the finite range.\<close>

definition distances_finite :: "vector option \<Rightarrow> vector \<Rightarrow> objective_cfg \<Rightarrow> bool" where
  "distances_finite ref v cfg = list_all (\<lambda>ob. is_finite (fsub (transformed_value (obj_direction ob) (vget v (obj_name ob)))
     (transformed_value (obj_direction ob) (case ref of None \<Rightarrow> Fin 0 | Some r \<Rightarrow> vget r (obj_name ob))))) (objectives_of cfg)"

fun scal_in_range :: "scalarization \<Rightarrow> vector \<Rightarrow> objective_cfg \<Rightarrow> bool" where
  "scal_in_range (WeightedTchebycheff w ref) v cfg = distances_finite ref v cfg"
| "scal_in_range _ v cfg = True"

lemma weighted_sum_not_NaN:
  assumes "weights_wf (objective_names cfg) w" "exact_vector (objective_names cfg) v"
  shows "weighted_sum w v cfg \<noteq> NaN"
  unfolding weighted_sum_def
proof (rule fsum_finite_not_NaN, clarsimp)
  fix ob assume ob: "ob \<in> set (objectives_of cfg)"
  have "unit_float (vget w (obj_name ob))" by (rule unit_vget [OF assms(1) objectives_names [OF ob]])
  with exact_vget [OF assms(2) objectives_names [OF ob]]
  show "is_finite (fmul (vget w (obj_name ob)) (transformed_value (obj_direction ob) (vget v (obj_name ob))))"
    by (intro fmul_unit_finite) (auto simp: unit_float_def)
qed

lemma fabs_finite [simp]: "is_finite (fabs a) = is_finite a"
  by (cases a) auto

text \<open>Scalarizing a vector of finite binary64 values never yields a NaN.\<close>

lemma scalarize_not_NaN:
  assumes "cfg_wf cfg" "exact_vector (objective_names cfg) v" "scal_in_range (scalarization_of cfg) v cfg"
  shows "scalarize_objectives v cfg \<noteq> NaN"
proof (cases "scalarization_of cfg")
  case (WeightedSum w)
  with assms show ?thesis by (simp add: scalarize_objectives_def cfg_wf_def weighted_sum_not_NaN)
next
  case (WeightedTchebycheff w ref)
  have w: "weights_wf (objective_names cfg) w"
    using assms(1) WeightedTchebycheff by (cases ref) (auto simp: cfg_wf_def)
  have "tchebycheff_distance w ref v ob \<noteq> NaN" if ob: "ob \<in> set (objectives_of cfg)" for ob
  proof -
    have "is_finite (fsub (transformed_value (obj_direction ob) (vget v (obj_name ob)))
       (transformed_value (obj_direction ob) (case ref of None \<Rightarrow> Fin 0 | Some r \<Rightarrow> vget r (obj_name ob))))"
      using assms(3) ob WeightedTchebycheff by (simp add: distances_finite_def list_all_iff)
    moreover have "is_finite (vget w (obj_name ob))"
      using unit_vget [OF w objectives_names [OF ob]] by (simp add: unit_float_def)
    ultimately show ?thesis
      unfolding tchebycheff_distance_def Let_def by (intro fmul_finite_not_NaN) simp_all
  qed
  then show ?thesis
    by (auto simp: scalarize_objectives_def WeightedTchebycheff eq_commute [of NaN] intro!: list_max_not_NaN)
qed (use exact_vget [OF assms(2) primary_name_in] in \<open>auto simp: scalarize_objectives_def\<close>)

subsection \<open>Facts on ranking\<close>

text \<open>
  On values that are not NaN the comparisons are those of the linear order of \<open>fkey\<close>, so
  a rank key compares like its image in a linear order of tuples.
\<close>

lemma feq_key: "a \<noteq> NaN \<Longrightarrow> b \<noteq> NaN \<Longrightarrow> feq a b \<longleftrightarrow> fkey a = fkey b"
  by (simp add: feq_def)

lemma flt_key: "a \<noteq> NaN \<Longrightarrow> b \<noteq> NaN \<Longrightarrow> flt a b \<longleftrightarrow> fkey a < fkey b"
  by (simp add: flt_def)

lemma fle_key: "a \<noteq> NaN \<Longrightarrow> b \<noteq> NaN \<Longrightarrow> fle a b \<longleftrightarrow> fkey a \<le> fkey b"
  by (simp add: fle_def)

lemma tuple_lt_key:
  "NaN \<notin> set as \<Longrightarrow> NaN \<notin> set bs \<Longrightarrow> tuple_lt as bs \<longleftrightarrow> map fkey as < map fkey bs"
  by (induction as bs rule: tuple_lt.induct) (auto simp: feq_key flt_key)

lemma tuple_eq_key:
  "NaN \<notin> set as \<Longrightarrow> NaN \<notin> set bs \<Longrightarrow> tuple_eq as bs \<longleftrightarrow> map fkey as = map fkey bs"
proof (induction as arbitrary: bs)
  case (Cons a as)
  then show ?case by (cases bs) (auto simp: tuple_eq_def feq_key)
qed (simp add: tuple_eq_def)

text \<open>A key fit for ranking: no NaN, a lexicographic part of \<open>n\<close> components.\<close>

definition rank_ok :: "nat \<Rightarrow> rank_key \<Rightarrow> bool" where
  "rank_ok n k = (rk_scalar k \<noteq> NaN \<and> length (rk_lex k) = n \<and> NaN \<notin> set (rk_lex k))"

definition rank_ord :: "rank_key \<Rightarrow> (int \<times> rat) \<times> (int \<times> rat) list \<times> int" where
  "rank_ord k = (fkey (rk_scalar k), map fkey (rk_lex k), rk_id k)"

lemma rank_lt_ord: "rank_ok n a \<Longrightarrow> rank_ok n b \<Longrightarrow> rank_lt a b \<longleftrightarrow> rank_ord a < rank_ord b"
  by (auto simp: rank_lt_def rank_ok_def rank_ord_def feq_key flt_key tuple_eq_key tuple_lt_key)

interpretation rank_order: key_order rank_lt "rank_ok n" for n
  by unfold_locales (auto simp: rank_lt_ord)

lemma best_rank_key_ok:
  assumes "cfg_wf cfg" "exact_vector (objective_names cfg) v" "scal_in_range (scalarization_of cfg) v cfg"
  shows "rank_ok (length (objective_names cfg)) (best_rank_key v cfg tid)"
proof -
  have "transformed_value (obj_direction ob) (vget v (obj_name ob)) \<noteq> NaN" if "ob \<in> set (objectives_of cfg)" for ob
    using exact_vget [OF assms(2) objectives_names [OF that]] by auto
  with scalarize_not_NaN [OF assms] show ?thesis
    by (auto simp: rank_ok_def best_rank_key_def Let_def lexicographic_key_def transformed_def objective_names_def
          eq_commute [of NaN])
qed

text \<open>C34: two trials with different ids are never tied. Under a well-formed configuration the
  rank keys of two vectors of finite binary64 values are strictly ordered in exactly one
  direction, whatever the policy, so the best trial of a campaign is determined (for the
  Tchebycheff policy the differences to the reference point must not overflow).\<close>

theorem rank_strict_total:
  assumes "cfg_wf cfg"
    and "exact_vector (objective_names cfg) v" "scal_in_range (scalarization_of cfg) v cfg"
    and "exact_vector (objective_names cfg) w" "scal_in_range (scalarization_of cfg) w cfg"
    and "i \<noteq> j"
  shows "rank_lt (best_rank_key v cfg i) (best_rank_key w cfg j) \<noteq>
         rank_lt (best_rank_key w cfg j) (best_rank_key v cfg i)"
proof -
  have "rk_id (best_rank_key u cfg t) = t" for u t by (simp add: best_rank_key_def Let_def)
  with assms(6) have "rank_ord (best_rank_key v cfg i) \<noteq> rank_ord (best_rank_key w cfg j)"
    by (auto simp: rank_ord_def)
  then show ?thesis
    using best_rank_key_ok [OF assms(1,2,3), of i] best_rank_key_ok [OF assms(1,4,5), of j]
    by (auto simp: rank_lt_ord neq_iff)
qed

subsection \<open>Concrete instances\<close>

definition example_schema :: json where
  "example_schema = JObj
     [(''primary_objective'', JObj [(''name'', JStr ''loss''), (''direction'', JStr ''minimize'')]),
      (''secondary_objectives'', JArr [JObj [(''name'', JStr ''gain''), (''direction'', JStr '' Maximize '')]]),
      (''scalarization'', JObj [(''policy'', JStr ''weighted_sum''),
         (''weights'', JObj [(''gain'', JInt 3), (''loss'', JInt 1)])])]"

definition no_outcome :: outcome_config where
  "no_outcome = \<lparr>measurement_metrics = [], outcome_constraints = [], pareto_reference = None\<rparr>"

definition example_cfg :: objective_cfg where
  "example_cfg = \<lparr>
     primary_objective = \<lparr>obj_name = ''loss'', obj_direction = Minimize, obj_tolerance = Fin 0, obj_failure = ''record_and_continue''\<rparr>,
     secondary_objectives = [\<lparr>obj_name = ''gain'', obj_direction = Maximize, obj_tolerance = Fin 0, obj_failure = ''record_and_continue''\<rparr>],
     scalarization_of = WeightedSum [(''loss'', Fin (1 / 4)), (''gain'', Fin (3 / 4))],
     ax_contract_version = 1, acquisition_of = ScalarAcq, outcome = no_outcome\<rparr>"

lemma example_schema_ok: "normalize_objective_schema example_schema (JInt 1) (JStr ''scalar'') = Inr example_cfg"
proof -
  have "case normalize_objective_schema example_schema (JInt 1) (JStr ''scalar'') of
      Inl _ \<Rightarrow> False
    | Inr c \<Rightarrow> objectives_of c = objectives_of example_cfg \<and> scalarization_of c = scalarization_of example_cfg
        \<and> ax_contract_version c = 1 \<and> acquisition_of c = ScalarAcq
        \<and> measurement_metrics (outcome c) = [] \<and> outcome_constraints (outcome c) = [] \<and> pareto_reference (outcome c) = None"
    by code_simp
  then show ?thesis
    by (auto simp: objectives_of_def example_cfg_def no_outcome_def split: sum.splits)
qed

theorem normalize_schema_wf_witness:
  "normalize_objective_schema example_schema (JInt 1) (JStr ''scalar'') = Inr example_cfg \<and> cfg_wf example_cfg"
proof -
  have "json_fwf example_schema" by code_simp
  with normalize_schema_wf [OF example_schema_ok] example_schema_ok show ?thesis by simp
qed

theorem rank_strict_total_witness:
  "rank_lt (best_rank_key [(''loss'', Fin 1), (''gain'', Fin 2)] example_cfg 1)
           (best_rank_key [(''loss'', Fin 5), (''gain'', Fin 2)] example_cfg 2) \<noteq>
   rank_lt (best_rank_key [(''loss'', Fin 5), (''gain'', Fin 2)] example_cfg 2)
           (best_rank_key [(''loss'', Fin 1), (''gain'', Fin 2)] example_cfg 1)"
proof (rule rank_strict_total)
  show "cfg_wf example_cfg" by code_simp
  show "exact_vector (objective_names example_cfg) [(''loss'', Fin 1), (''gain'', Fin 2)]"
    "exact_vector (objective_names example_cfg) [(''loss'', Fin 5), (''gain'', Fin 2)]"
    by code_simp+
qed (simp_all add: example_cfg_def)

end
