(* ===== verification/Pareto.thy ===== *)
theory Pareto
  imports Objectives
begin

text \<open>
  The part of \<open>templates/_shared/objectives.py\<close> that works on a set of results: the
  Pareto front, the hypervolume of the feasible front and the outcome summary.
\<close>

subsection \<open>Pareto front\<close>

definition dominates :: "vector \<Rightarrow> vector \<Rightarrow> objective_cfg \<Rightarrow> bool" where
  "dominates left right cfg =
     (list_all2 fle (transformed left cfg) (transformed right cfg) \<and>
      list_ex (\<lambda>(a, b). flt a b) (zip (transformed left cfg) (transformed right cfg)))"

type_synonym prepared = "jdict \<times> int \<times> vector"

definition prepare_record :: "objective_cfg \<Rightarrow> json \<Rightarrow> prepared res" where
  "prepare_record cfg rec = (case rec of
     JObj d \<Rightarrow>
       if \<not> inst_int (jget d ''trial_id'') then Inl (ValueError ''records.trial_id'')
       else bindE (canonical_objective_vector (jget d ''objectives'') cfg) (\<lambda>v.
            bindE (py_int (jget d ''trial_id'')) (\<lambda>tid. Inr (d, tid, v)))
   | _ \<Rightarrow> Inl (ValueError ''records''))"

definition prepared_vector :: "prepared \<Rightarrow> vector" where
  "prepared_vector p = snd (snd p)"

definition prepared_key :: "objective_cfg \<Rightarrow> prepared \<Rightarrow> rank_key" where
  "prepared_key cfg p = best_rank_key (prepared_vector p) cfg (fst (snd p))"

definition dominated_at :: "objective_cfg \<Rightarrow> prepared list \<Rightarrow> nat \<Rightarrow> prepared \<Rightarrow> bool" where
  "dominated_at cfg prepared i p =
     list_ex (\<lambda>(j, q). j \<noteq> i \<and> dominates (prepared_vector q) (prepared_vector p) cfg) (enum prepared)"

definition pareto_frontier :: "objective_cfg \<Rightarrow> prepared list \<Rightarrow> prepared list" where
  "pareto_frontier cfg prepared =
     sort_by (\<lambda>p q. rank_lt (prepared_key cfg p) (prepared_key cfg q))
       (map snd (filter (\<lambda>(i, p). \<not> dominated_at cfg prepared i p) (enum prepared)))"

definition pareto_front_records :: "json list \<Rightarrow> objective_cfg \<Rightarrow> jdict list res" where
  "pareto_front_records records cfg =
     bindE (mapE (prepare_record cfg) records) (\<lambda>prepared. Inr (map fst (pareto_frontier cfg prepared)))"

subsection \<open>Hypervolume\<close>

definition box_width :: "vector \<Rightarrow> vector \<Rightarrow> objective \<Rightarrow> pyfloat" where
  "box_width reference v ob = (case obj_direction ob of
     Minimize \<Rightarrow> fsub (vget reference (obj_name ob)) (vget v (obj_name ob))
   | Maximize \<Rightarrow> fsub (vget v (obj_name ob)) (vget reference (obj_name ob)))"

fun hv_union :: "nat \<Rightarrow> pyfloat list list \<Rightarrow> pyfloat" where
  "hv_union 0 boxes = Fin 0"
| "hv_union (Suc n) boxes =
     (if boxes = [] then Fin 0
      else if n = 0 then list_max (map hd boxes)
      else let levels = sort_by flt (remdups (Fin 0 # map last boxes)) in
        fsum (map (\<lambda>(lower, upper). fmul (fsub upper lower)
                     (hv_union n (remdups (map butlast (filter (\<lambda>b. fle upper (last b)) boxes)))))
                  (zip levels (tl levels))))"

definition feasible_hypervolume :: "jdict list \<Rightarrow> objective_cfg \<Rightarrow> pyfloat option res" where
  "feasible_hypervolume records cfg = (case pareto_reference (outcome cfg) of
     None \<Rightarrow> Inr None
   | Some reference \<Rightarrow>
       bindE (mapE (\<lambda>row. bindE (jitem row ''objectives'') (\<lambda>o'. bindE (canonical_objective_vector o' cfg) (\<lambda>v.
                let widths = map (box_width reference v) (objectives_of cfg) in
                if \<not> list_all is_finite widths then Inl (ValueError ''Hypervolume arithmetic overflow'')
                else Inr widths))) records) (\<lambda>ws.
       let volume = hv_union (length (objective_names cfg)) (remdups (filter (list_all (\<lambda>w. flt (Fin 0) w)) ws)) in
       if is_finite volume then Inr (Some volume) else Inl (ValueError ''Hypervolume arithmetic overflow'')))"

subsection \<open>Outcome summary\<close>

record outcome_check =
  ck_constraint :: outcome_constraint
  ck_value :: "json option"
  ck_satisfied :: "bool option"
  ck_violation :: "pyfloat option"

record outcome_row =
  or_trial_id :: json
  or_status :: json
  or_feasible :: "bool option"
  or_checks :: "outcome_check list"

definition cmp_num :: "cmp_op \<Rightarrow> json \<Rightarrow> pyfloat \<Rightarrow> bool" where
  "cmp_num op v bound = (case num_value v of None \<Rightarrow> False
     | Some x \<Rightarrow> (case op of OpLe \<Rightarrow> fle x bound | OpGe \<Rightarrow> fle bound x))"

definition outcome_check_of :: "jdict \<Rightarrow> bool \<Rightarrow> outcome_constraint \<Rightarrow> outcome_check res" where
  "outcome_check_of row known c =
     bindE (if known then (case dict_get row ''measurements'' (JObj []) of
               JObj ms \<Rightarrow> Inr (case jget ms (oc_metric c) of JNull \<Rightarrow> None | v \<Rightarrow> Some v)
             | _ \<Rightarrow> Inl (AttributeError ''measurements.get'')) else Inr None) (\<lambda>value.
     case value of
       None \<Rightarrow> Inr \<lparr>ck_constraint = c, ck_value = None, ck_satisfied = None, ck_violation = None\<rparr>
     | Some v \<Rightarrow> bindE (py_float v) (\<lambda>f.
         Inr \<lparr>ck_constraint = c, ck_value = Some v,
              ck_satisfied = Some (cmp_num (oc_op c) v (oc_bound c)),
              ck_violation = Some (py_max (Fin 0)
                (case oc_op c of OpLe \<Rightarrow> fsub f (oc_bound c) | OpGe \<Rightarrow> fsub (oc_bound c) f))\<rparr>))"

text \<open>
  A row is known when it is ok, its measurements normalize and its objectives form a
  vector; \<open>except (ValueError, TypeError)\<close> turns a failure of those into unknown.
\<close>

fun caught_outcome :: "exn \<Rightarrow> bool" where
  "caught_outcome (TypeError _) = True"
| "caught_outcome e = is_value_error e"

definition row_known :: "objective_cfg \<Rightarrow> jdict \<Rightarrow> bool res" where
  "row_known cfg row =
     (if \<not> status_is_ok row then Inr False
      else case bindE (normalize_measurements row cfg)
                  (\<lambda>_. canonical_objective_vector (jget row ''objectives'') cfg) of
        Inr _ \<Rightarrow> Inr True
      | Inl e \<Rightarrow> if caught_outcome e then Inr False else Inl e)"

definition outcome_row_of :: "objective_cfg \<Rightarrow> jdict \<Rightarrow> outcome_row res" where
  "outcome_row_of cfg row =
     bindE (row_known cfg row) (\<lambda>known.
     bindE (mapE (outcome_check_of row known) (outcome_constraints (outcome cfg))) (\<lambda>checks.
     bindE (jitem row ''trial_id'') (\<lambda>tid.
     Inr \<lparr>or_trial_id = tid, or_status = dict_get row ''status'' (JStr ''ok''),
          or_feasible = (if known then Some (list_all (\<lambda>c. ck_satisfied c = Some True) checks) else None),
          or_checks = checks\<rparr>)))"

record outcome_report =
  op_feasible :: nat
  op_infeasible :: nat
  op_unknown :: nat
  op_rows :: "outcome_row list"
  op_best :: "(jdict \<times> pyfloat) option"
  op_front :: "jdict list"
  op_hypervolume :: "pyfloat option"

definition count_feasible :: "bool option \<Rightarrow> outcome_row list \<Rightarrow> nat" where
  "count_feasible b rows = length (filter (\<lambda>r. or_feasible r = b) rows)"

text \<open>\<open>eligible\<close>: the rows whose outcome is feasible.\<close>

definition eligible_rows :: "jdict list \<Rightarrow> outcome_row list \<Rightarrow> jdict list" where
  "eligible_rows records outcomes = map fst (filter (\<lambda>(_, o'). or_feasible o' = Some True) (zip records outcomes))"

definition keyed_row :: "objective_cfg \<Rightarrow> jdict \<Rightarrow> prepared res" where
  "keyed_row cfg row =
     bindE (jitem row ''objectives'') (\<lambda>o'.
     bindE (canonical_objective_vector o' cfg) (\<lambda>v.
     bindE (jitem row ''trial_id'') (\<lambda>t.
     bindE (py_int t) (\<lambda>tid. Inr (row, tid, v)))))"

definition best_keyed :: "objective_cfg \<Rightarrow> prepared list \<Rightarrow> (jdict \<times> pyfloat) option" where
  "best_keyed cfg keyed = (case keyed of
     [] \<Rightarrow> None
   | k # ks \<Rightarrow> let w = min_by (\<lambda>p q. rank_lt (prepared_key cfg p) (prepared_key cfg q)) k ks
               in Some (fst w, scalarize_objectives (prepared_vector w) cfg))"

definition outcome_summary :: "jdict list \<Rightarrow> objective_cfg \<Rightarrow> outcome_report option res" where
  "outcome_summary records cfg =
     (if ax_contract_version cfg \<noteq> 2 then Inr None
      else
      bindE (mapE (outcome_row_of cfg) records) (\<lambda>outcomes.
      bindE (mapE (keyed_row cfg) (eligible_rows records outcomes)) (\<lambda>keyed.
      bindE (pareto_front_records (map JObj (eligible_rows records outcomes)) cfg) (\<lambda>front.
      bindE (feasible_hypervolume front cfg) (\<lambda>hv.
      Inr (Some \<lparr>op_feasible = count_feasible (Some True) outcomes,
                 op_infeasible = count_feasible (Some False) outcomes,
                 op_unknown = count_feasible None outcomes,
                 op_rows = outcomes, op_best = best_keyed cfg keyed, op_front = front, op_hypervolume = hv\<rparr>))))))"

subsection \<open>Dominance\<close>

text \<open>
  The contract a dominance relation offers to a front: a strict partial order. Every
  element of a list is then undominated or below an undominated one.
\<close>

locale strict_dominance =
  fixes dom :: "'a \<Rightarrow> 'a \<Rightarrow> bool"
  assumes dom_irrefl: "\<not> dom x x"
    and dom_trans: "dom x y \<Longrightarrow> dom y z \<Longrightarrow> dom x z"
begin

lemma undominated_above:
  "x \<in> set xs \<Longrightarrow> \<exists>y\<in>set xs. (y = x \<or> dom y x) \<and> (\<forall>z\<in>set xs. \<not> dom z y)"
proof (induction "card {z \<in> set xs. dom z x}" arbitrary: x rule: less_induct)
  case less
  show ?case
  proof (cases "\<exists>y\<in>set xs. dom y x")
    case True
    then obtain y where y: "y \<in> set xs" "dom y x" by blast
    have "{z \<in> set xs. dom z y} \<subseteq> {z \<in> set xs. dom z x}" using y dom_trans by blast
    moreover have "y \<in> {z \<in> set xs. dom z x}" "y \<notin> {z \<in> set xs. dom z y}" using y dom_irrefl by auto
    ultimately have "card {z \<in> set xs. dom z y} < card {z \<in> set xs. dom z x}"
      by (intro psubset_card_mono) auto
    from less(1) [OF this y(1)] y(2) show ?thesis using dom_trans by blast
  next
    case False
    with less.prems show ?thesis by blast
  qed
qed

end

definition vcomp :: "vector \<Rightarrow> objective \<Rightarrow> pyfloat" where
  "vcomp v ob = transformed_value (obj_direction ob) (vget v (obj_name ob))"

lemma dominates_iff:
  "dominates l r cfg \<longleftrightarrow>
     (\<forall>ob\<in>set (objectives_of cfg). fle (vcomp l ob) (vcomp r ob)) \<and>
     (\<exists>ob\<in>set (objectives_of cfg). flt (vcomp l ob) (vcomp r ob))"
  by (auto simp: dominates_def transformed_def vcomp_def list_all2_map1 list_all2_map2 list_all2_same
        zip_map1 zip_map2 zip_same_conv_map list_ex_iff)

interpretation dominance: strict_dominance "\<lambda>l r. dominates l r cfg" for cfg
proof
  fix x y z
  show "\<not> dominates x x cfg" by (simp add: dominates_iff)
  show "dominates x y cfg \<Longrightarrow> dominates y z cfg \<Longrightarrow> dominates x z cfg"
    unfolding dominates_iff by (meson fle_trans flt_fle_trans)
qed

interpretation prepared_dominance: strict_dominance
  "\<lambda>p q. dominates (prepared_vector p) (prepared_vector q) cfg" for cfg
  by unfold_locales (auto intro: dominance.dom_irrefl [THEN notE] dominance.dom_trans)

text \<open>The index test of the source only skips a record itself, which never dominates itself.\<close>

definition undominated :: "objective_cfg \<Rightarrow> prepared list \<Rightarrow> prepared \<Rightarrow> bool" where
  "undominated cfg prepared p = (\<forall>q\<in>set prepared. \<not> dominates (prepared_vector q) (prepared_vector p) cfg)"

lemma dominated_at_iff:
  assumes "(i, p) \<in> set (enum prepared)"
  shows "dominated_at cfg prepared i p \<longleftrightarrow> \<not> undominated cfg prepared p"
proof -
  have i: "i < length prepared" "prepared ! i = p" using set_enum_snd [OF assms] by auto
  have "dominated_at cfg prepared i p \<longleftrightarrow>
      (\<exists>j < length prepared. j \<noteq> i \<and> dominates (prepared_vector (prepared ! j)) (prepared_vector p) cfg)"
  proof -
    have "dominated_at cfg prepared i p \<longleftrightarrow> (\<exists>j q. (j, q) \<in> set (enum prepared) \<and> j \<noteq> i \<and>
        dominates (prepared_vector q) (prepared_vector p) cfg)"
      by (auto simp: dominated_at_def list_ex_iff)
    then show ?thesis by (auto simp: set_enum_iff)
  qed
  also have "\<dots> \<longleftrightarrow> \<not> undominated cfg prepared p"
    using i dominance.dom_irrefl unfolding undominated_def by (metis in_set_conv_nth)
  finally show ?thesis .
qed

lemma mset_frontier: "mset (pareto_frontier cfg prepared) = mset (filter (undominated cfg prepared) prepared)"
proof -
  have "map snd (filter (\<lambda>(i, p). \<not> dominated_at cfg prepared i p) (enum prepared)) =
        map snd (filter (\<lambda>(i, p). undominated cfg prepared p) (enum prepared))"
    by (intro arg_cong [where f = "map snd"] filter_cong) (auto simp: dominated_at_iff)
  also have "\<dots> = filter (undominated cfg prepared) prepared" by (rule filter_enum)
  finally show ?thesis by (simp add: pareto_frontier_def)
qed

lemma set_frontier: "set (pareto_frontier cfg prepared) = {p \<in> set prepared. undominated cfg prepared p}"
  using arg_cong [OF mset_frontier, of set_mset cfg prepared] by simp

text \<open>Prepared records are ordered by their rank keys.\<close>

interpretation prepared_order: key_order
  "\<lambda>p q. rank_lt (prepared_key cfg p) (prepared_key cfg q)" "\<lambda>p. rank_ok n (prepared_key cfg p)" for cfg n
  by unfold_locales (auto intro: rank_order.lt_irrefl [THEN notE] rank_order.lt_trans rank_order.nlt_trans [THEN notE])

lemma frontier_sorted:
  assumes "\<And>p. p \<in> set prepared \<Longrightarrow> rank_ok n (prepared_key cfg p)"
  shows "sorted_wrt (\<lambda>p q. \<not> rank_lt (prepared_key cfg q) (prepared_key cfg p)) (pareto_frontier cfg prepared)"
  unfolding pareto_frontier_def
  by (rule prepared_order.sort_by_sorted) (auto dest!: set_enum_snd intro: assms)

lemma prepare_record_Inr:
  "prepare_record cfg rec = Inr p \<longleftrightarrow>
     (\<exists>d v t. rec = JObj d \<and> p = (d, t, v) \<and> inst_int (jget d ''trial_id'') \<and> py_int (jget d ''trial_id'') = Inr t \<and>
        canonical_objective_vector (jget d ''objectives'') cfg = Inr v)"
  by (auto simp: prepare_record_def return_iff split: json.splits)

definition record_vector :: "objective_cfg \<Rightarrow> jdict \<Rightarrow> vector res" where
  "record_vector cfg d = canonical_objective_vector (jget d ''objectives'') cfg"

text \<open>C35: the Pareto front consists of input records, and no input record dominates a member
  of it.\<close>

theorem pareto_front_nondominated:
  assumes "pareto_front_records records cfg = Inr front" "d \<in> set front" "JObj e \<in> set records"
    "record_vector cfg d = Inr v" "record_vector cfg e = Inr w"
  shows "JObj d \<in> set records \<and> \<not> dominates w v cfg"
proof -
  obtain prepared where prep: "mapE (prepare_record cfg) records = Inr prepared"
    and front: "front = map fst (pareto_frontier cfg prepared)"
    using assms(1) by (auto simp: pareto_front_records_def return_iff)
  obtain p where p: "p \<in> set prepared" "undominated cfg prepared p" "fst p = d"
    using assms(2) by (auto simp: front set_frontier)
  obtain r where r: "r \<in> set records" "prepare_record cfg r = Inr p" using mapE_Inr_set [OF prep p(1)] by blast
  have q: "\<exists>q\<in>set prepared. prepare_record cfg (JObj e) = Inr q"
    using prep assms(3) by (fastforce simp: mapE_Inr_iff list_all2_conv_all_nth in_set_conv_nth)
  have "JObj d \<in> set records" "prepared_vector p = v"
    using r p(3) assms(4) by (auto simp: prepare_record_Inr record_vector_def prepared_vector_def)
  moreover have "\<exists>q\<in>set prepared. prepared_vector q = w"
    using q assms(5) by (force simp: prepare_record_Inr record_vector_def prepared_vector_def)
  ultimately show ?thesis using p(2) by (auto simp: undominated_def)
qed

text \<open>Every input record is on the front or dominated by a record on the front, so the
  front of a nonempty set of results is never empty.\<close>

theorem pareto_front_covers:
  assumes "pareto_front_records records cfg = Inr front" "JObj e \<in> set records" "record_vector cfg e = Inr w"
  shows "e \<in> set front \<or> (\<exists>d\<in>set front. \<exists>v. record_vector cfg d = Inr v \<and> dominates v w cfg)"
proof -
  obtain prepared where prep: "mapE (prepare_record cfg) records = Inr prepared"
    and front: "front = map fst (pareto_frontier cfg prepared)"
    using assms(1) by (auto simp: pareto_front_records_def return_iff)
  have vec: "record_vector cfg (fst p) = Inr (prepared_vector p)" if "p \<in> set prepared" for p
    using mapE_Inr_set [OF prep that] by (auto simp: prepare_record_Inr record_vector_def prepared_vector_def)
  obtain q where q: "q \<in> set prepared" "fst q = e" "prepared_vector q = w"
    using prep assms(2,3)
    by (fastforce simp: mapE_Inr_iff list_all2_conv_all_nth in_set_conv_nth prepare_record_Inr
          record_vector_def prepared_vector_def)
  obtain p where p: "p \<in> set prepared" "p = q \<or> dominates (prepared_vector p) (prepared_vector q) cfg"
    "undominated cfg prepared p"
    using prepared_dominance.undominated_above [OF q(1), of cfg] by (auto simp: undominated_def)
  then have "fst p \<in> set front" by (auto simp: front set_frontier)
  with p vec [OF p(1)] q show ?thesis by auto
qed

text \<open>The front is returned in rank order: no later member ranks strictly before an
  earlier one. The records' vectors must be fit for ranking.\<close>

theorem pareto_front_ranked:
  assumes "pareto_front_records records cfg = Inr front"
    and "\<And>d v. JObj d \<in> set records \<Longrightarrow> record_vector cfg d = Inr v \<Longrightarrow>
           exact_vector (objective_names cfg) v \<and> scal_in_range (scalarization_of cfg) v cfg"
    and "cfg_wf cfg"
    and "i < j" "j < length front"
    and "record_vector cfg (front ! i) = Inr v" "py_int (jget (front ! i) ''trial_id'') = Inr s"
    and "record_vector cfg (front ! j) = Inr w" "py_int (jget (front ! j) ''trial_id'') = Inr t"
  shows "\<not> rank_lt (best_rank_key w cfg t) (best_rank_key v cfg s)"
proof -
  obtain prepared where prep: "mapE (prepare_record cfg) records = Inr prepared"
    and front: "front = map fst (pareto_frontier cfg prepared)"
    using assms(1) by (auto simp: pareto_front_records_def return_iff)
  have info: "JObj (fst p) \<in> set records \<and> record_vector cfg (fst p) = Inr (prepared_vector p) \<and>
      py_int (jget (fst p) ''trial_id'') = Inr (fst (snd p))" if "p \<in> set prepared" for p
    using mapE_Inr_set [OF prep that] by (auto simp: prepare_record_Inr record_vector_def prepared_vector_def)
  let ?n = "length (objective_names cfg)"
  have ok: "rank_ok ?n (prepared_key cfg p)" if "p \<in> set prepared" for p
    using info [OF that] assms(2) [of "fst p" "prepared_vector p"] assms(3)
    by (auto simp: prepared_key_def intro!: best_rank_key_ok)
  have srt: "sorted_wrt (\<lambda>p q. \<not> rank_lt (prepared_key cfg q) (prepared_key cfg p)) (pareto_frontier cfg prepared)"
    using ok by (rule frontier_sorted)
  have mem: "k < length front \<Longrightarrow> pareto_frontier cfg prepared ! k \<in> set prepared" for k
    using nth_mem [of k "pareto_frontier cfg prepared"] by (auto simp: front set_frontier)
  let ?p = "pareto_frontier cfg prepared ! i" and ?q = "pareto_frontier cfg prepared ! j"
  have "\<not> rank_lt (prepared_key cfg ?q) (prepared_key cfg ?p)"
    using sorted_wrt_nth_less [OF srt, of i j] assms(4,5) by (simp add: front)
  moreover have "prepared_key cfg ?p = best_rank_key v cfg s" "prepared_key cfg ?q = best_rank_key w cfg t"
    using info [OF mem, of i] info [OF mem, of j] assms(4-9) by (simp_all add: front prepared_key_def)
  ultimately show ?thesis by simp
qed

subsection \<open>Hypervolume is nonnegative\<close>

text \<open>A value that is not negative, or the NaN an overflow can leave behind.\<close>

definition nonneg_or_nan :: "pyfloat \<Rightarrow> bool" where
  "nonneg_or_nan x = (x = NaN \<or> fle (Fin 0) x)"

lemma nn_fadd: "nonneg_or_nan a \<Longrightarrow> nonneg_or_nan b \<Longrightarrow> nonneg_or_nan (fadd a b)"
  using fadd_nonneg [of a b] by (cases "a = NaN \<or> b = NaN") (auto simp: nonneg_or_nan_def fadd_def)

lemma nn_fval: "nonneg_or_nan a \<Longrightarrow> is_finite a \<Longrightarrow> 0 \<le> fval a"
  by (cases a) (auto simp: nonneg_or_nan_def fle_def)

lemma nn_fmul: "nonneg_or_nan a \<Longrightarrow> nonneg_or_nan b \<Longrightarrow> nonneg_or_nan (fmul a b)"
proof (cases "is_finite a \<and> is_finite b")
  case True
  moreover assume "nonneg_or_nan a" "nonneg_or_nan b"
  ultimately show ?thesis using nn_fval [of a] nn_fval [of b]
    by (simp add: fmul_finite nonneg_or_nan_def mk_float_nonneg)
next
  case False
  assume "nonneg_or_nan a" "nonneg_or_nan b"
  with False show ?thesis
    by (cases a; cases b) (auto simp: nonneg_or_nan_def fmul_def inf_of_def fle_def)
qed

lemma nn_fsub: "fle l u \<Longrightarrow> nonneg_or_nan (fsub u l)"
proof (cases "is_finite l \<and> is_finite u")
  case True
  moreover assume "fle l u"
  ultimately have "fval l \<le> fval u" using fkey_finite [of l] fkey_finite [of u] by (simp add: fle_def)
  with True show ?thesis by (simp add: fsub_finite nonneg_or_nan_def mk_float_nonneg)
next
  case False
  assume "fle l u"
  with False show ?thesis
    by (cases l; cases u) (auto simp: nonneg_or_nan_def fsub_def fadd_def fle_def)
qed

lemma nn_fsum: "(\<And>x. x \<in> set xs \<Longrightarrow> nonneg_or_nan x) \<Longrightarrow> nonneg_or_nan (fsum xs)"
proof -
  have "nonneg_or_nan (foldl fadd a xs)" if "nonneg_or_nan a" "\<And>x. x \<in> set xs \<Longrightarrow> nonneg_or_nan x" for a
    using that by (induction xs arbitrary: a) (auto intro: nn_fadd)
  moreover have "nonneg_or_nan (Fin 0)" by (simp add: nonneg_or_nan_def fle_def)
  ultimately show "(\<And>x. x \<in> set xs \<Longrightarrow> nonneg_or_nan x) \<Longrightarrow> nonneg_or_nan (fsum xs)"
    by (simp add: fsum_def)
qed

lemma nn_list_max: "(\<And>x. x \<in> set xs \<Longrightarrow> nonneg_or_nan x) \<Longrightarrow> nonneg_or_nan (list_max xs)"
proof -
  have "nonneg_or_nan (foldl py_max a ys)" if "nonneg_or_nan a" "\<And>x. x \<in> set ys \<Longrightarrow> nonneg_or_nan x" for a ys
    using that by (induction ys arbitrary: a) (auto simp: py_max_def)
  moreover have "nonneg_or_nan (Fin 0)" by (simp add: nonneg_or_nan_def fle_def)
  ultimately show "(\<And>x. x \<in> set xs \<Longrightarrow> nonneg_or_nan x) \<Longrightarrow> nonneg_or_nan (list_max xs)"
    by (cases xs) auto
qed

lemma zip_tl_sorted: "sorted_wrt P xs \<Longrightarrow> (a, b) \<in> set (zip xs (tl xs)) \<Longrightarrow> P a b \<and> a \<in> set xs \<and> b \<in> set xs"
proof (induction xs)
  case (Cons x xs)
  then show ?case by (cases xs) auto
qed simp

definition box_ok :: "nat \<Rightarrow> pyfloat list \<Rightarrow> bool" where
  "box_ok n b = (length b = n \<and> (\<forall>w\<in>set b. flt (Fin 0) w))"

lemma hv_union_nn: "(\<And>b. b \<in> set boxes \<Longrightarrow> box_ok n b) \<Longrightarrow> nonneg_or_nan (hv_union n boxes)"
proof (induction n boxes rule: hv_union.induct)
  case (1 boxes)
  then show ?case by (simp add: nonneg_or_nan_def fle_def)
next
  case (2 n boxes)
  have ne: "b \<noteq> [] \<and> flt (Fin 0) (last b) \<and> flt (Fin 0) (hd b)" if "b \<in> set boxes" for b
    using 2(2) [OF that] by (cases b rule: rev_cases) (auto simp: box_ok_def hd_append)
  consider "boxes = []" | "boxes \<noteq> []" "n = 0" | "boxes \<noteq> []" "n \<noteq> 0" by blast
  then show ?case
  proof cases
    case 1
    then show ?thesis by (simp add: nonneg_or_nan_def fle_def)
  next
    case 2
    have "nonneg_or_nan (list_max (map hd boxes))"
      using ne by (intro nn_list_max) (auto simp: nonneg_or_nan_def flt_imp_fle)
    with 2 show ?thesis by simp
  next
    case 3
    define levels where "levels = sort_by flt (remdups (Fin 0 # map last boxes))"
    have okl: "x \<noteq> NaN" if "x \<in> set (remdups (Fin 0 # map last boxes))" for x
      using that ne unfolding set_remdups by fastforce
    have srt: "sorted_wrt (\<lambda>a b. \<not> flt b a) levels"
      unfolding levels_def using okl by (rule float_order.sort_by_sorted)
    have "nonneg_or_nan (fmul (fsub u l) (hv_union n (remdups (map butlast (filter (\<lambda>b. fle u (last b)) boxes)))))"
      if mem: "(l, u) \<in> set (zip levels (tl levels))" for l u
    proof (rule nn_fmul)
      have "\<not> flt u l" "l \<noteq> NaN" "u \<noteq> NaN"
        using zip_tl_sorted [OF srt mem] okl by (auto simp: levels_def simp del: set_remdups)
      then show "nonneg_or_nan (fsub u l)" by (intro nn_fsub) (simp add: not_flt)
      have "box_ok n b" if "b \<in> set (remdups (map butlast (filter (\<lambda>b. fle u (last b)) boxes)))" for b
        using that 2(2) by (auto simp: box_ok_def dest: in_set_butlastD)
      then show "nonneg_or_nan (hv_union n (remdups (map butlast (filter (\<lambda>b. fle u (last b)) boxes))))"
        by (rule "2.IH" [OF 3 levels_def mem refl])
    qed
    then have "nonneg_or_nan (fsum (map (\<lambda>(l, u). fmul (fsub u l)
        (hv_union n (remdups (map butlast (filter (\<lambda>b. fle u (last b)) boxes))))) (zip levels (tl levels))))"
      by (intro nn_fsum) auto
    then show ?thesis using 3 by (simp only: hv_union.simps Let_def levels_def if_False)
  qed
qed

text \<open>A hypervolume that is returned is a finite number and not negative; without a reference point
  none is returned.\<close>

lemma feasible_hypervolume_nonneg:
  assumes "feasible_hypervolume records cfg = Inr hv"
  shows "case hv of None \<Rightarrow> pareto_reference (outcome cfg) = None | Some v \<Rightarrow> is_finite v \<and> fle (Fin 0) v"
proof (cases "pareto_reference (outcome cfg)")
  case None
  with assms show ?thesis by (auto simp: feasible_hypervolume_def)
next
  case (Some reference)
  with assms obtain ws where ws: "mapE (\<lambda>row. bindE (jitem row ''objectives'') (\<lambda>o'. bindE (canonical_objective_vector o' cfg) (\<lambda>v.
                let widths = map (box_width reference v) (objectives_of cfg) in
                if \<not> list_all is_finite widths then Inl (ValueError ''Hypervolume arithmetic overflow'')
                else Inr widths))) records = Inr ws"
    and hv: "hv = Some (hv_union (length (objective_names cfg)) (remdups (filter (list_all (\<lambda>w. flt (Fin 0) w)) ws)))"
      "is_finite (the hv)"
    by (auto simp: feasible_hypervolume_def return_iff Let_def)
  have "length w = length (objective_names cfg)" if "w \<in> set ws" for w
    using mapE_Inr_set [OF ws that] by (auto simp: return_iff Let_def objective_names_def)
  then have "nonneg_or_nan (hv_union (length (objective_names cfg)) (remdups (filter (list_all (\<lambda>w. flt (Fin 0) w)) ws)))"
    by (intro hv_union_nn) (auto simp: box_ok_def list_all_iff)
  with hv show ?thesis by (auto simp: nonneg_or_nan_def)
qed

subsection \<open>Outcome summary\<close>

lemma count_feasible_total:
  "length rows = count_feasible (Some True) rows + count_feasible (Some False) rows + count_feasible None rows"
proof (induction rows)
  case (Cons r rows)
  then show ?case by (cases "or_feasible r" rule: option.exhaust) (auto simp: count_feasible_def)
qed (simp add: count_feasible_def)

lemma outcome_summary_Inr:
  assumes "outcome_summary records cfg = Inr (Some r)"
  shows "mapE (outcome_row_of cfg) records = Inr (op_rows r)"
    and "op_feasible r = count_feasible (Some True) (op_rows r)"
    and "op_infeasible r = count_feasible (Some False) (op_rows r)"
    and "op_unknown r = count_feasible None (op_rows r)"
    and "pareto_front_records (map JObj (eligible_rows records (op_rows r))) cfg = Inr (op_front r)"
  using assms by (auto simp: outcome_summary_def return_iff split: if_split_asm)

text \<open>The outcome summary accounts for every result exactly once as feasible, infeasible or
  unknown, and a result is counted feasible only when it is ok and every configured outcome
  constraint is satisfied by its measurement.\<close>

theorem outcome_summary_counts:
  assumes "outcome_summary records cfg = Inr (Some r)"
  shows "op_feasible r + op_infeasible r + op_unknown r = length records \<and>
         (\<forall>i < length records. or_feasible (op_rows r ! i) = Some True \<longrightarrow>
            status_is_ok (records ! i) \<and>
            map ck_constraint (or_checks (op_rows r ! i)) = outcome_constraints (outcome cfg) \<and>
            list_all (\<lambda>c. ck_satisfied c = Some True) (or_checks (op_rows r ! i)))"
proof -
  note sm = outcome_summary_Inr [OF assms]
  have len: "length (op_rows r) = length records" using mapE_Inr_length [OF sm(1)] .
  have row: "status_is_ok (records ! i) \<and>
      map ck_constraint (or_checks (op_rows r ! i)) = outcome_constraints (outcome cfg) \<and>
      list_all (\<lambda>c. ck_satisfied c = Some True) (or_checks (op_rows r ! i))"
    if i: "i < length records" and f: "or_feasible (op_rows r ! i) = Some True" for i
  proof -
    have "outcome_row_of cfg (records ! i) = Inr (op_rows r ! i)"
      using sm(1) i by (simp add: mapE_Inr_iff list_all2_conv_all_nth)
    then obtain known checks tid where k: "row_known cfg (records ! i) = Inr known"
      and c: "mapE (outcome_check_of (records ! i) known) (outcome_constraints (outcome cfg)) = Inr checks"
      and op: "op_rows r ! i = \<lparr>or_trial_id = tid, or_status = dict_get (records ! i) ''status'' (JStr ''ok''),
         or_feasible = (if known then Some (list_all (\<lambda>c. ck_satisfied c = Some True) checks) else None),
         or_checks = checks\<rparr>"
      unfolding outcome_row_of_def return_iff by (metis sum.inject(2))
    then have o: "or_checks (op_rows r ! i) = checks"
        "or_feasible (op_rows r ! i) = (if known then Some (list_all (\<lambda>c. ck_satisfied c = Some True) checks) else None)"
      by simp_all
    have known: "known" using o(2) f by (auto split: if_splits)
    have "ck_constraint c = oc" if "outcome_check_of (records ! i) known oc = Inr c" for oc c
      using that by (auto simp: outcome_check_of_def return_iff split: option.splits)
    then have "map ck_constraint checks = outcome_constraints (outcome cfg)"
      using c by (auto simp: mapE_Inr_iff list_all2_conv_all_nth intro!: nth_equalityI)
    moreover have "status_is_ok (records ! i)" using k known by (auto simp: row_known_def split: if_splits)
    ultimately show ?thesis using o f known by auto
  qed
  show ?thesis using row count_feasible_total [of "op_rows r"] len sm(2-4) by auto
qed

text \<open>The front and the best trial of the summary come from feasible results only.\<close>

theorem outcome_summary_front_feasible:
  assumes "outcome_summary records cfg = Inr (Some r)" "d \<in> set (op_front r)"
  shows "\<exists>i < length records. records ! i = d \<and> or_feasible (op_rows r ! i) = Some True"
proof -
  obtain prepared where prep: "mapE (prepare_record cfg) (map JObj (eligible_rows records (op_rows r))) = Inr prepared"
    and front: "op_front r = map fst (pareto_frontier cfg prepared)"
    using outcome_summary_Inr(5) [OF assms(1)] by (auto simp: pareto_front_records_def return_iff)
  obtain p where p: "p \<in> set prepared" "fst p = d" using assms(2) by (auto simp: front set_frontier)
  obtain x where "x \<in> set (map JObj (eligible_rows records (op_rows r)))"
    and "prepare_record cfg x = Inr p" using mapE_Inr_set [OF prep p(1)] by blast
  moreover from this(2) have "x = JObj d" using p(2) by (auto simp: prepare_record_Inr)
  ultimately show ?thesis by (auto simp: eligible_rows_def in_set_zip)
qed

subsection \<open>Concrete instances\<close>

definition example_records :: "jdict list" where
  "example_records = map (\<lambda>(t, l, g). [(''trial_id'', JInt t),
       (''objectives'', JObj [(''loss'', JInt l), (''gain'', JInt g)])])
     [(1, 4, 1), (2, 1, 1), (3, 2, 5)]"

lemma example_front: "pareto_front_records (map JObj example_records) example_cfg =
    Inr [example_records ! 2, example_records ! 1]"
  by code_simp

theorem pareto_front_nondominated_witness:
  "JObj (example_records ! 2) \<in> set (map JObj example_records) \<and>
   \<not> dominates [(''loss'', Fin 4), (''gain'', Fin 1)] [(''loss'', Fin 2), (''gain'', Fin 5)] example_cfg"
  by (rule pareto_front_nondominated [OF example_front, of _ "example_records ! 0"]; code_simp)

theorem pareto_front_covers_witness:
  "example_records ! 0 \<in> set [example_records ! 2, example_records ! 1] \<or>
   (\<exists>d\<in>set [example_records ! 2, example_records ! 1]. \<exists>v. record_vector example_cfg d = Inr v \<and>
      dominates v [(''loss'', Fin 4), (''gain'', Fin 1)] example_cfg)"
  by (rule pareto_front_covers [OF example_front]; code_simp)

theorem pareto_front_ranked_witness:
  "\<not> rank_lt (best_rank_key [(''loss'', Fin 1), (''gain'', Fin 1)] example_cfg 2)
             (best_rank_key [(''loss'', Fin 2), (''gain'', Fin 5)] example_cfg 3)"
proof (rule pareto_front_ranked [OF example_front, of 0 1])
  show "cfg_wf example_cfg" by code_simp
  have all: "list_all (\<lambda>d. case record_vector example_cfg d of Inl _ \<Rightarrow> True
      | Inr v \<Rightarrow> exact_vector (objective_names example_cfg) v) example_records" by code_simp
  fix d v assume "JObj d \<in> set (map JObj example_records)" "record_vector example_cfg d = Inr v"
  with all show "exact_vector (objective_names example_cfg) v \<and> scal_in_range (scalarization_of example_cfg) v example_cfg"
    by (auto simp: list_all_iff example_cfg_def)
qed code_simp+

definition example_cfg2 :: objective_cfg where
  "example_cfg2 = example_cfg\<lparr>ax_contract_version := 2, outcome := \<lparr>measurement_metrics = [''temp''],
     outcome_constraints = [\<lparr>oc_metric = ''temp'', oc_op = OpLe, oc_bound = Fin 10\<rparr>],
     pareto_reference = Some [(''loss'', Fin 8), (''gain'', Fin 0)]\<rparr>\<rparr>"

definition example_measured :: "int \<Rightarrow> int \<Rightarrow> jdict" where
  "example_measured i temp = example_records ! nat i @
     [(''status'', JStr ''ok''), (''measurements'', JObj [(''temp'', JInt temp)]), (''scalarized_sem'', JInt 0)]"

definition example_history :: "jdict list" where
  "example_history = [example_measured 0 4, example_measured 1 12, example_measured 2 9,
     [(''trial_id'', JInt 9), (''status'', JStr ''failed'')]]"

lemma feasible_hypervolume_example:
  "feasible_hypervolume [example_measured 0 4, example_measured 2 9] example_cfg2 = Inr (Some (Fin 30))"
  by code_simp

lemma example_summary:
  "\<exists>r. outcome_summary example_history example_cfg2 = Inr (Some r) \<and> example_measured 2 9 \<in> set (op_front r)"
proof -
  have "case mapE (outcome_row_of example_cfg2) example_history of
      Inr rs \<Rightarrow> map or_feasible rs = [Some True, Some False, Some True, None] | _ \<Rightarrow> False"
    by code_simp
  then obtain rs where rs: "mapE (outcome_row_of example_cfg2) example_history = Inr rs"
    and feas: "map or_feasible rs = [Some True, Some False, Some True, None]"
    by (auto split: sum.splits)
  have elig: "eligible_rows example_history rs = [example_measured 0 4, example_measured 2 9]"
    using feas by (auto simp: eligible_rows_def example_history_def map_eq_Cons_conv)
  obtain ks where ks: "mapE (keyed_row example_cfg2) [example_measured 0 4, example_measured 2 9] = Inr ks"
  proof (rule res_okE)
    show "res_ok (mapE (keyed_row example_cfg2) [example_measured 0 4, example_measured 2 9])" by code_simp
  qed
  have front: "pareto_front_records (map JObj [example_measured 0 4, example_measured 2 9]) example_cfg2
      = Inr [example_measured 2 9]" by code_simp
  obtain hv where hv: "feasible_hypervolume [example_measured 2 9] example_cfg2 = Inr hv"
  proof (rule res_okE)
    show "res_ok (feasible_hypervolume [example_measured 2 9] example_cfg2)" by code_simp
  qed
  have v: "ax_contract_version example_cfg2 = 2" by (simp add: example_cfg2_def)
  show ?thesis
    unfolding outcome_summary_def using v by (simp only: rs elig ks front hv bindE_simps) simp
qed

theorem outcome_summary_counts_witness:
  "\<exists>r. outcome_summary example_history example_cfg2 = Inr (Some r) \<and>
       op_feasible r + op_infeasible r + op_unknown r = 4"
proof -
  obtain r where r: "outcome_summary example_history example_cfg2 = Inr (Some r)" using example_summary by blast
  moreover have "length example_history = 4" by (simp add: example_history_def)
  ultimately show ?thesis using outcome_summary_counts [OF r] by auto
qed

theorem outcome_summary_front_feasible_witness:
  "\<exists>r. outcome_summary example_history example_cfg2 = Inr (Some r) \<and>
       (\<exists>i < 4. example_history ! i = example_measured 2 9 \<and> or_feasible (op_rows r ! i) = Some True)"
proof -
  obtain r where r: "outcome_summary example_history example_cfg2 = Inr (Some r)" "example_measured 2 9 \<in> set (op_front r)"
    using example_summary by blast
  moreover have "length example_history = 4" by (simp add: example_history_def)
  ultimately show ?thesis using outcome_summary_front_feasible [OF r] by auto
qed

end
