(* ===== verification/Hypervolume.thy ===== *)
theory Hypervolume
  imports Pareto
begin

text \<open>
  The hypervolume counts what it should. For objectives with integer values the volume of the
  union of boxes is the number of unit cells between the reference point and some record, and the
  slab recursion of \<open>feasible_hypervolume\<close> computes that number without rounding while it is below
  \<open>2 ^ 53\<close>.
\<close>

subsection \<open>Cells of a union of boxes\<close>

text \<open>A box is the list of its widths; a cell is named by its lower corner.\<close>

definition in_box :: "int list \<Rightarrow> int list \<Rightarrow> bool" where
  "in_box q b = list_all2 (\<lambda>c w. 0 \<le> c \<and> c < w) q b"

definition box_cells :: "int list set \<Rightarrow> int list set" where
  "box_cells S = {q. \<exists>b\<in>S. in_box q b}"

definition boxes_within :: "nat \<Rightarrow> int \<Rightarrow> int list set \<Rightarrow> bool" where
  "boxes_within n M S = (finite S \<and> (\<forall>b\<in>S. length b = n \<and> (\<forall>w\<in>set b. 0 < w \<and> w \<le> M)))"

lemma in_box_snoc:
  assumes "b \<noteq> []"
  shows "in_box q b \<longleftrightarrow> q \<noteq> [] \<and> in_box (butlast q) (butlast b) \<and> 0 \<le> last q \<and> last q < last b"
proof (cases q rule: rev_cases)
  case Nil
  with assms show ?thesis by (auto simp: in_box_def)
next
  case (snoc p c)
  obtain b' w where b: "b = b' @ [w]" using assms by (cases b rule: rev_cases) auto
  show ?thesis
  proof (cases "length p = length b'")
    case False
    then show ?thesis by (auto simp: in_box_def snoc b dest: list_all2_lengthD)
  qed (auto simp: in_box_def snoc b list_all2_append)
qed

lemma box_cells_bounded:
  assumes "boxes_within n M S"
  shows "finite (box_cells S)" "card (box_cells S) \<le> nat M ^ n"
proof -
  have sub: "box_cells S \<subseteq> {q. set q \<subseteq> {0..<M} \<and> length q = n}"
  proof
    fix q assume "q \<in> box_cells S"
    then obtain b where b: "b \<in> S" "in_box q b" by (auto simp: box_cells_def)
    then have len: "length q = length b" "length b = n" using assms by (auto simp: in_box_def boxes_within_def dest: list_all2_lengthD)
    have "0 \<le> q ! i \<and> q ! i < M" if "i < n" for i
    proof -
      have "0 \<le> q ! i" "q ! i < b ! i" using b(2) that len by (auto simp: in_box_def list_all2_conv_all_nth)
      moreover have "b ! i \<in> set b" using that len by simp
      ultimately show ?thesis using assms b(1) by (force simp: boxes_within_def)
    qed
    then show "q \<in> {q. set q \<subseteq> {0..<M} \<and> length q = n}" using len by (auto simp: in_set_conv_nth)
  qed
  then show "finite (box_cells S)" by (rule finite_subset) (simp add: finite_lists_length_eq)
  have "card (box_cells S) \<le> card {q. set q \<subseteq> {0..<M} \<and> length q = n}"
    using sub by (intro card_mono) (simp_all add: finite_lists_length_eq)
  also have "\<dots> = nat M ^ n" by (subst card_lists_length_eq) auto
  finally show "card (box_cells S) \<le> nat M ^ n" .
qed

text \<open>The cells of a slab between two neighbouring levels are those of the boxes that reach its top.\<close>

definition reaching :: "int \<Rightarrow> int list set \<Rightarrow> int list set" where
  "reaching u S = butlast ` {b \<in> S. u \<le> last b}"

lemma slab_card:
  assumes "0 \<le> l" "l \<le> u" "\<forall>b\<in>S. b \<noteq> [] \<and> (last b \<le> l \<or> u \<le> last b)"
  shows "card {q \<in> box_cells S. l \<le> last q \<and> last q < u} = card (box_cells (reaching u S)) * nat (u - l)"
proof -
  have "{q \<in> box_cells S. l \<le> last q \<and> last q < u} = (\<lambda>(p, c). p @ [c]) ` (box_cells (reaching u S) \<times> {l..<u})" (is "?A = ?f ` ?B")
  proof (intro set_eqI iffI)
    fix q assume "q \<in> ?A"
    then obtain b where b: "b \<in> S" "in_box q b" "l \<le> last q" "last q < u" by (auto simp: box_cells_def)
    have ne: "b \<noteq> []" using assms(3) b(1) by blast
    note q = b(2) [unfolded in_box_snoc [OF ne]]
    have "u \<le> last b" using assms(3) b q by fastforce
    then have "butlast q \<in> box_cells (reaching u S)" using b(1) q by (auto simp: box_cells_def reaching_def)
    moreover have "q = ?f (butlast q, last q)" using q by simp
    ultimately show "q \<in> ?f ` ?B" using b(3,4) by (intro image_eqI [of _ _ "(butlast q, last q)"]) auto
  next
    fix q assume "q \<in> ?f ` ?B"
    then obtain p c b where q: "q = p @ [c]" "l \<le> c" "c < u" "b \<in> S" "u \<le> last b" "in_box p (butlast b)"
      by (auto simp: box_cells_def reaching_def)
    then have "in_box q b" using assms(1,3) by (subst in_box_snoc) auto
    then show "q \<in> ?A" using q by (auto simp: box_cells_def)
  qed
  moreover have "inj_on ?f ?B" by (auto simp: inj_on_def)
  ultimately show ?thesis by (simp add: card_image card_cartesian_product)
qed

lemma slab_sum:
  assumes "sorted_wrt (<) ls" "ls \<noteq> []" "0 \<le> hd ls" "boxes_within n M S" "0 < n"
    and "\<forall>b\<in>S. last b \<le> hd ls \<or> last b \<in> set ls"
  shows "(\<Sum>(l, u)\<leftarrow>zip ls (tl ls). (u - l) * int (card (box_cells (reaching u S)))) =
    int (card {q \<in> box_cells S. hd ls \<le> last q})"
  using assms
proof (induction ls rule: induct_list012)
  case (2 l)
  have e: "{q \<in> box_cells S. l \<le> last q} = {}"
  proof (intro equals0I)
    fix q assume "q \<in> {q \<in> box_cells S. l \<le> last q}"
    then obtain b where b: "b \<in> S" "in_box q b" "l \<le> last q" by (auto simp: box_cells_def)
    have "b \<noteq> []" using 2 b(1) by (auto simp: boxes_within_def)
    with b(2) have "last q < last b" by (simp add: in_box_snoc)
    with 2 b show False by fastforce
  qed
  have "card {q \<in> box_cells S. l \<le> last q} = 0" unfolding e by simp
  then show ?case by (simp only: list.sel zip.simps zip_Nil list.map sum_list.Nil of_nat_0)
next
  case (3 l u ls)
  let ?A = "{q \<in> box_cells S. l \<le> last q \<and> last q < u}" and ?B = "{q \<in> box_cells S. u \<le> last q}"
  have ne: "b \<noteq> []" if "b \<in> S" for b using 3 that by (auto simp: boxes_within_def)
  have lu: "l < u" using 3(3) by simp
  have above: "\<forall>x\<in>set ls. u < x" using 3(3) by simp
  have side: "last b \<le> l \<or> u \<le> last b" if "b \<in> S" for b using 3(8) that above by fastforce
  have slab: "int (card ?A) = (u - l) * int (card (box_cells (reaching u S)))"
    using slab_card [of l u S] 3(5) lu side ne by auto
  have rest: "(\<Sum>(l, u)\<leftarrow>zip (u # ls) (tl (u # ls)). (u - l) * int (card (box_cells (reaching u S)))) = int (card ?B)"
    using 3(2) [OF _ _ _ 3(6,7)] 3(3,5,8) lu by fastforce
  have fin: "finite (box_cells S)" by (rule box_cells_bounded [OF 3(6)])
  have "{q \<in> box_cells S. l \<le> last q} = ?A \<union> ?B" using lu by auto
  moreover have "card (?A \<union> ?B) = card ?A + card ?B" using fin by (intro card_Un_disjoint) auto
  ultimately show ?case using slab rest by simp
qed simp

subsection \<open>Integer floats\<close>

abbreviation int_float :: "int \<Rightarrow> pyfloat" where
  "int_float i \<equiv> Fin (of_int i)"

lemma int_float_less [simp]: "flt (int_float a) (int_float b) \<longleftrightarrow> a < b"
  by (simp add: flt_def)

lemma int_float_le [simp]: "fle (int_float a) (int_float b) \<longleftrightarrow> a \<le> b"
  by (simp add: fle_def)

lemma inj_int_float: "inj int_float"
  by (simp add: inj_def)

lemma int_float_ops:
  assumes "0 \<le> a" "0 \<le> b"
  shows "a + b < 2 ^ 53 \<Longrightarrow> fadd (int_float a) (int_float b) = int_float (a + b)"
    "a * b < 2 ^ 53 \<Longrightarrow> fmul (int_float a) (int_float b) = int_float (a * b)"
proof -
  show "fadd (int_float a) (int_float b) = int_float (a + b)" if "a + b < 2 ^ 53"
    using assms that mk_float_of_int [of "a + b"] by (simp add: fadd_finite)
  show "fmul (int_float a) (int_float b) = int_float (a * b)" if "a * b < 2 ^ 53"
    using assms that mk_float_of_int [of "a * b"] by (simp add: fmul_finite)
qed

lemma int_float_diff:
  assumes "l < u" "u - l < 2 ^ 53"
  shows "fsub (int_float u) (int_float l) = int_float (u - l)"
proof -
  have "mk_float s (of_int (u - l)) = mk_float False (of_int (u - l))" for s
    using assms(1) by (simp add: mk_float_def Let_def)
  with mk_float_of_int [of "u - l"] assms show ?thesis by (simp add: fsub_finite)
qed

lemma int_float_sum:
  "(\<forall>x\<in>set xs. 0 \<le> x) \<Longrightarrow> 0 \<le> a \<Longrightarrow> a + sum_list xs < 2 ^ 53 \<Longrightarrow>
   foldl fadd (int_float a) (map int_float xs) = int_float (a + sum_list xs)"
proof (induction xs arbitrary: a)
  case (Cons x xs)
  have x: "0 \<le> x" "\<forall>y\<in>set xs. 0 \<le> y" using Cons.prems(1) by simp_all
  have s: "0 \<le> sum_list xs" using x(2) by (intro sum_list_nonneg) auto
  have all: "(a + x) + sum_list xs < 2 ^ 53" using Cons.prems(3) by (simp only: sum_list.Cons add.assoc)
  then have "a + x < 2 ^ 53" using s by linarith
  then have "fadd (int_float a) (int_float x) = int_float (a + x)" using Cons.prems(2) x(1) by (intro int_float_ops)
  moreover have "foldl fadd (int_float (a + x)) (map int_float xs) = int_float ((a + x) + sum_list xs)"
    using Cons.prems(2) x by (intro Cons.IH all) auto
  ultimately show ?case by (simp only: list.map foldl.simps sum_list.Cons add.assoc)
qed simp

lemma int_float_max: "list_max (map int_float (x # xs)) = int_float (Max (set (x # xs)))"
proof -
  have step: "py_max (int_float a) (int_float b) = int_float (max a b)" for a b
    by (simp add: py_max_def max_def)
  have "foldl py_max (int_float a) (map int_float xs) = int_float (foldl max a xs)" for a
    by (induction xs arbitrary: a) (auto simp: step simp del: of_int_max)
  moreover have "foldl max a xs = Max (set (a # xs))" for a
  proof (induction xs arbitrary: a)
    case (Cons y ys)
    then show ?case by (cases "ys = []") (simp_all add: max.assoc)
  qed simp
  ultimately show ?thesis by simp
qed

subsection \<open>The levels of the slabs\<close>

interpretation int_order: key_order "(<) :: int \<Rightarrow> int \<Rightarrow> bool" "\<lambda>_. True"
  by unfold_locales auto

lemma remdups_map_inj: "inj f \<Longrightarrow> remdups (map f xs) = map f (remdups xs)"
  by (induction xs) (auto dest: injD)

lemma sort_int_floats: "sort_by flt (map int_float xs) = map int_float (sort_by (<) xs)"
proof -
  have "insert_by flt (int_float x) (map int_float ys) = map int_float (insert_by (<) x ys)" for x ys
    by (induction ys) auto
  then show ?thesis by (induction xs) (auto simp: sort_by_def)
qed

lemma sorted_distinct: "distinct xs \<Longrightarrow> sorted_wrt (<) (sort_by (<) (xs :: int list))"
proof -
  assume "distinct xs"
  then have "distinct (sort_by (<) xs)" by (metis mset_eq_imp_distinct_iff mset_sort_by)
  moreover have "sorted_wrt (\<lambda>a b. \<not> b < a) (sort_by (<) xs)" by (rule int_order.sort_by_sorted) simp
  ultimately show ?thesis by (simp add: strict_sorted_iff not_less)
qed

subsection \<open>The slab recursion\<close>

abbreviation float_boxes :: "int list list \<Rightarrow> pyfloat list list" where
  "float_boxes bs \<equiv> map (map int_float) bs"

lemma inj_float_box: "inj (map int_float)"
  using inj_int_float by (rule inj_mapI)

lemma float_levels:
  assumes "\<forall>b\<in>set bs. b \<noteq> []"
  shows "sort_by flt (remdups (Fin 0 # map last (float_boxes bs))) = map int_float (sort_by (<) (remdups (0 # map last bs)))"
proof -
  have "Fin 0 # map last (float_boxes bs) = map int_float (0 # map last bs)" using assms by (simp add: last_map)
  then show ?thesis by (simp only: remdups_map_inj [OF inj_int_float] sort_int_floats)
qed

lemma float_reaching:
  assumes "\<forall>b\<in>set bs. b \<noteq> []"
  shows "remdups (map butlast (filter (\<lambda>b. fle (int_float u) (last b)) (float_boxes bs))) =
    float_boxes (remdups (map butlast (filter (\<lambda>b. u \<le> last b) bs)))"
proof -
  have "filter (\<lambda>b. fle (int_float u) (last b)) (float_boxes bs) = float_boxes (filter (\<lambda>b. u \<le> last b) bs)"
    unfolding filter_map comp_def using assms by (intro arg_cong [of _ _ float_boxes] filter_cong) (auto simp: last_map)
  then have "map butlast (filter (\<lambda>b. fle (int_float u) (last b)) (float_boxes bs)) =
      float_boxes (map butlast (filter (\<lambda>b. u \<le> last b) bs))"
    by (simp add: map_butlast)
  then show ?thesis by (simp only: remdups_map_inj [OF inj_float_box])
qed

lemma card_single_boxes:
  assumes "boxes_within 1 M (set (b # bs))"
  shows "int (card (box_cells (set (b # bs)))) = Max (set (map hd (b # bs)))"
proof -
  let ?m = "Max (set (map hd (b # bs)))"
  have one: "x = [hd x] \<and> 0 < hd x" if "x \<in> set (b # bs)" for x
    using assms that by (cases x) (auto simp: boxes_within_def)
  have cells: "box_cells (set (b # bs)) = (\<lambda>c. [c]) ` {0..<?m}"
  proof (intro set_eqI iffI)
    fix q assume "q \<in> box_cells (set (b # bs))"
    then obtain x where x: "x \<in> set (b # bs)" "in_box q x" by (auto simp: box_cells_def)
    then have "in_box q [hd x]" using one [OF x(1)] by simp
    then obtain c where "q = [c]" "0 \<le> c" "c < hd x" by (auto simp: in_box_def list_all2_Cons2)
    moreover have "hd x \<le> ?m" using x(1) by (intro Max_ge) auto
    ultimately show "q \<in> (\<lambda>c. [c]) ` {0..<?m}" by auto
  next
    fix q assume "q \<in> (\<lambda>c. [c]) ` {0..<?m}"
    then obtain c where c: "q = [c]" "0 \<le> c" "c < ?m" by auto
    have "?m \<in> set (map hd (b # bs))" by (intro Max_in) auto
    then obtain x where x: "x \<in> set (b # bs)" "?m = hd x" by (metis imageE list.set_map)
    then have "in_box q [hd x]" using c by (simp add: in_box_def)
    then have "in_box q x" using one [OF x(1)] by simp
    then show "q \<in> box_cells (set (b # bs))" using x(1) unfolding box_cells_def by blast
  qed
  have "hd b \<le> ?m" by (intro Max_ge) auto
  moreover have "0 < hd b" using one [of b] by simp
  ultimately have "0 \<le> ?m" by linarith
  then show ?thesis unfolding cells by (simp add: card_image inj_on_def del: list.set_map)
qed

lemma reaching_within:
  assumes "boxes_within (Suc n) M S"
  shows "boxes_within n M (reaching u S)"
  using assms by (auto simp: boxes_within_def reaching_def dest: in_set_butlastD)

lemma hv_union_cells:
  assumes "0 < n" "boxes_within n M (set bs)" "M ^ n < 2 ^ 53"
  shows "hv_union n (float_boxes bs) = int_float (int (card (box_cells (set bs))))"
  using assms
proof (induction n arbitrary: bs)
  case (Suc n)
  show ?case
  proof (cases bs)
    case Nil
    then show ?thesis by (simp add: box_cells_def)
  next
    case (Cons b bs')
    have ne: "\<forall>x\<in>set bs. x \<noteq> []" using Suc.prems(2) by (auto simp: boxes_within_def)
    have "b \<noteq> []" "\<forall>w\<in>set b. 0 < w \<and> w \<le> M" using Suc.prems(2) by (auto simp: Cons boxes_within_def)
    then have "0 < hd b \<and> hd b \<le> M" using hd_in_set by blast
    then have M: "1 \<le> M" by linarith
    have "M ^ n \<le> M ^ Suc n" "M ^ 1 \<le> M ^ Suc n" using M by (intro power_increasing; simp)+
    then have pow: "M ^ n < 2 ^ 53" "M < 2 ^ 53" using Suc.prems(3) unfolding power_one_right by linarith+
    have "int (card (box_cells (set bs))) \<le> int (nat M ^ Suc n)"
      using box_cells_bounded(2) [OF Suc.prems(2)] by (simp only: of_nat_le_iff)
    then have card_small: "int (card (box_cells (set bs))) < 2 ^ 53" using Suc.prems(3) M by simp
    show ?thesis
    proof (cases "n = 0")
      case True
      have "map hd (float_boxes bs) = map int_float (hd b # map hd bs')" using ne by (simp add: hd_map Cons)
      then have "hv_union (Suc n) (float_boxes bs) = list_max (map int_float (hd b # map hd bs'))"
        unfolding hv_union.simps using True by (simp only: if_True) (simp add: Cons)
      also have "\<dots> = int_float (Max (set (hd b # map hd bs')))" by (rule int_float_max)
      also have "\<dots> = int_float (int (card (box_cells (set bs))))"
      proof -
        have "boxes_within 1 M (set (b # bs'))" using Suc.prems(2) by (simp add: Cons True)
        from card_single_boxes [OF this] show ?thesis by (simp only: Cons list.map)
      qed
      finally show ?thesis .
    next
      case False
      define ls where "ls = sort_by (<) (remdups (0 # map last bs))"
      have ls: "sorted_wrt (<) ls" "set ls = insert 0 (last ` set bs)" "ls \<noteq> []"
        using sorted_distinct [of "remdups (0 # map last bs)"] by (auto simp: ls_def simp flip: set_empty)
      have lastb: "0 < last x \<and> last x \<le> M" if "x \<in> set bs" for x
        using Suc.prems(2) ne that by (auto simp: boxes_within_def)
      have hd0: "hd ls = 0"
      proof -
        obtain h hs where h: "ls = h # hs" using ls(3) by (cases ls) auto
        have "h = 0 \<or> h \<in> last ` set bs" using ls(2) h by auto
        then have "0 \<le> h" using lastb by (auto simp: less_imp_le)
        moreover have "0 = h \<or> 0 \<in> set hs" using ls(2) h by (metis insertI1 set_ConsD)
        then have "h \<le> 0" using ls(1) h by auto
        ultimately show ?thesis by (simp add: h)
      qed
      have term_value: "fmul (fsub (int_float u) (int_float l))
          (hv_union n (remdups (map butlast (filter (\<lambda>b. fle (int_float u) (last b)) (float_boxes bs))))) =
          int_float ((u - l) * int (card (box_cells (reaching u (set bs))))) \<and>
          0 \<le> (u - l) * int (card (box_cells (reaching u (set bs))))"
        if lu: "(l, u) \<in> set (zip ls (tl ls))" for l u
      proof -
        have lu: "l < u" "l \<in> set ls" "u \<in> set ls" using zip_tl_sorted [OF ls(1) lu] by auto
        then have b: "0 \<le> l" "u \<le> M" using ls(2) lastb M by fastforce+
        have w: "boxes_within n M (reaching u (set bs))" by (rule reaching_within [OF Suc.prems(2)])
        have "set (remdups (map butlast (filter (\<lambda>b. u \<le> last b) bs))) = reaching u (set bs)" by (auto simp: reaching_def)
        then have hv: "hv_union n (remdups (map butlast (filter (\<lambda>b. fle (int_float u) (last b)) (float_boxes bs)))) =
            int_float (int (card (box_cells (reaching u (set bs)))))"
          using Suc.IH [of "remdups (map butlast (filter (\<lambda>b. u \<le> last b) bs))"] False w pow(1) float_reaching [OF ne, of u] by simp
        have "int (card (box_cells (reaching u (set bs)))) \<le> int (nat M ^ n)"
          using box_cells_bounded(2) [OF w] by (simp only: of_nat_le_iff)
        then have c: "int (card (box_cells (reaching u (set bs)))) \<le> M ^ n" using M by simp
        have "(u - l) * int (card (box_cells (reaching u (set bs)))) \<le> M * M ^ n"
          using b lu(1) M c by (intro mult_mono) auto
        then have small: "(u - l) * int (card (box_cells (reaching u (set bs)))) < 2 ^ 53" using Suc.prems(3) by simp
        have d: "fsub (int_float u) (int_float l) = int_float (u - l)" using lu(1) b pow(2) by (intro int_float_diff) auto
        have p: "fmul (int_float (u - l)) (int_float (int (card (box_cells (reaching u (set bs)))))) =
            int_float ((u - l) * int (card (box_cells (reaching u (set bs)))))"
          using lu(1) small by (intro int_float_ops) auto
        show ?thesis unfolding hv d p using lu(1) by simp
      qed
      define ts where "ts = map (\<lambda>(l, u). (u - l) * int (card (box_cells (reaching u (set bs))))) (zip ls (tl ls))"
      have S: "sum_list ts = int (card (box_cells (set bs)))"
      proof -
        have "\<forall>x\<in>set bs. last x \<le> hd ls \<or> last x \<in> set ls" by (simp add: ls(2))
        from slab_sum [OF ls(1,3) _ Suc.prems(2) _ this] have "sum_list ts = int (card {q \<in> box_cells (set bs). 0 \<le> last q})"
          by (simp add: ts_def hd0)
        moreover have "{q \<in> box_cells (set bs). 0 \<le> last q} = box_cells (set bs)"
          using ne in_box_snoc by (auto simp: box_cells_def)
        ultimately show ?thesis by simp
      qed
      have "zip (map int_float ls) (tl (map int_float ls)) = map (\<lambda>(l, u). (int_float l, int_float u)) (zip ls (tl ls))"
        by (simp only: map_tl [symmetric] zip_map_map)
      then have "hv_union (Suc n) (float_boxes bs) = fsum (map int_float ts)"
        unfolding hv_union.simps Let_def float_levels [OF ne] ls_def [symmetric] ts_def
        using False term_value by (auto simp: Cons intro!: arg_cong [of _ _ fsum])
      also have "\<dots> = int_float (0 + sum_list ts)"
      proof -
        have nn: "\<forall>x\<in>set ts. 0 \<le> x" using term_value by (auto simp: ts_def)
        have "Fin 0 = int_float 0" by simp
        then show ?thesis unfolding fsum_def using int_float_sum [OF nn, of 0] card_small S by simp
      qed
      finally show ?thesis by (simp add: S)
    qed
  qed
qed simp

subsection \<open>Records and the reference point\<close>

text \<open>
  The unit cell with lower corner \<open>c\<close> in the range of one objective lies between a value and the
  reference, on the side its direction says.
\<close>

definition in_cell :: "vector \<Rightarrow> vector \<Rightarrow> objective \<Rightarrow> int \<Rightarrow> bool" where
  "in_cell reference v ob c = (case obj_direction ob of
     Minimize \<Rightarrow> fval (vget v (obj_name ob)) \<le> of_int c \<and> of_int c < fval (vget reference (obj_name ob))
   | Maximize \<Rightarrow> fval (vget reference (obj_name ob)) \<le> of_int c \<and> of_int c < fval (vget v (obj_name ob)))"

text \<open>The cells that some record covers in every objective.\<close>

definition dominated_cells :: "objective list \<Rightarrow> vector \<Rightarrow> vector list \<Rightarrow> int list set" where
  "dominated_cells obs reference vs = {q. \<exists>v\<in>set vs. list_all2 (in_cell reference v) obs q}"

definition whole :: "vector \<Rightarrow> objective \<Rightarrow> int" where
  "whole v ob = \<lfloor>fval (vget v (obj_name ob))\<rfloor>"

definition int_width :: "vector \<Rightarrow> vector \<Rightarrow> objective \<Rightarrow> int" where
  "int_width reference v ob = (case obj_direction ob of
     Minimize \<Rightarrow> whole reference ob - whole v ob | Maximize \<Rightarrow> whole v ob - whole reference ob)"

definition cell_of :: "vector \<Rightarrow> objective \<Rightarrow> int \<Rightarrow> int" where
  "cell_of reference ob c = (case obj_direction ob of
     Minimize \<Rightarrow> whole reference ob - 1 - c | Maximize \<Rightarrow> whole reference ob + c)"

abbreviation int_valued :: "vector \<Rightarrow> objective \<Rightarrow> bool" where
  "int_valued v ob \<equiv> float_is_integer (vget v (obj_name ob))"

lemma int_valued_fval: "int_valued v ob \<Longrightarrow> fval (vget v (obj_name ob)) = of_int (whole v ob)"
  by (simp add: float_is_integer_def whole_def)

lemma int_valued_diff:
  assumes "float_is_integer a" "float_is_integer b" "\<bar>\<lfloor>fval a\<rfloor> - \<lfloor>fval b\<rfloor>\<bar> < 2 ^ 53"
  shows "is_finite (fsub a b)" "flt (Fin 0) (fsub a b) \<longleftrightarrow> 0 < \<lfloor>fval a\<rfloor> - \<lfloor>fval b\<rfloor>"
    "0 < \<lfloor>fval a\<rfloor> - \<lfloor>fval b\<rfloor> \<Longrightarrow> fsub a b = int_float (\<lfloor>fval a\<rfloor> - \<lfloor>fval b\<rfloor>)"
proof -
  let ?d = "\<lfloor>fval a\<rfloor> - \<lfloor>fval b\<rfloor>"
  have "fval a - fval b = of_int ?d" using assms(1,2) by (simp add: float_is_integer_def)
  then have f: "fsub a b = mk_float (sign_bit a \<and> sign_bit (fneg b)) (of_int ?d)"
    using assms(1,2) by (simp add: fsub_finite float_is_integer_def)
  have m: "mk_float False (of_int ?d) = int_float ?d" by (rule mk_float_of_int [OF assms(3)])
  have s: "mk_float s (of_int ?d) = (if ?d = 0 \<and> s then NegZero else int_float ?d)" for s
    using m by (cases s) (auto simp: mk_float_def Let_def split: if_splits)
  show "is_finite (fsub a b)" "flt (Fin 0) (fsub a b) \<longleftrightarrow> 0 < ?d" "0 < ?d \<Longrightarrow> fsub a b = int_float ?d"
    unfolding f s by (auto simp: flt_def)
qed

lemma int_box_width:
  assumes "int_valued reference ob" "int_valued v ob" "\<bar>whole reference ob - whole v ob\<bar> < 2 ^ 53"
  shows "is_finite (box_width reference v ob)" "flt (Fin 0) (box_width reference v ob) \<longleftrightarrow> 0 < int_width reference v ob"
    "0 < int_width reference v ob \<Longrightarrow> box_width reference v ob = int_float (int_width reference v ob)"
proof -
  have r: "\<bar>whole v ob - whole reference ob\<bar> < 2 ^ 53" using assms(3) by (simp only: abs_minus_commute)
  note d = int_valued_diff [OF assms(1,2) assms(3) [unfolded whole_def]] int_valued_diff [OF assms(2,1) r [unfolded whole_def]]
  show "is_finite (box_width reference v ob)" using d(1,4) by (simp add: box_width_def split: direction.split)
  show "flt (Fin 0) (box_width reference v ob) \<longleftrightarrow> 0 < int_width reference v ob"
    using d(2,5) by (simp add: box_width_def int_width_def whole_def split: direction.split)
  show "0 < int_width reference v ob \<Longrightarrow> box_width reference v ob = int_float (int_width reference v ob)"
    using d(3,6) by (simp add: box_width_def int_width_def whole_def split: direction.splits)
qed

lemma in_cell_width:
  assumes "int_valued reference ob" "int_valued v ob"
  shows "in_cell reference v ob (cell_of reference ob c) \<longleftrightarrow> 0 \<le> c \<and> c < int_width reference v ob"
    "\<exists>c. q = cell_of reference ob c" "cell_of reference ob c = cell_of reference ob c' \<longleftrightarrow> c = c'"
proof -
  show "\<exists>c. q = cell_of reference ob c"
    by (cases "obj_direction ob") (auto simp: cell_of_def intro: exI [of _ "whole reference ob - 1 - q"] exI [of _ "q - whole reference ob"])
  show "in_cell reference v ob (cell_of reference ob c) \<longleftrightarrow> 0 \<le> c \<and> c < int_width reference v ob"
    unfolding in_cell_def int_valued_fval [OF assms(1)] int_valued_fval [OF assms(2)] of_int_le_iff of_int_less_iff
    by (cases "obj_direction ob") (auto simp: cell_of_def int_width_def)
  show "cell_of reference ob c = cell_of reference ob c' \<longleftrightarrow> c = c'" by (simp add: cell_of_def split: direction.split)
qed

lemma cells_of_boxes:
  assumes "\<forall>ob\<in>set obs. int_valued reference ob" "\<forall>ob\<in>set obs. \<forall>v\<in>set vs. int_valued v ob"
  shows "card (dominated_cells obs reference vs) = card (box_cells (set (map (\<lambda>v. map (int_width reference v) obs) vs)))"
proof -
  let ?f = "map2 (cell_of reference) obs" and ?B = "box_cells (set (map (\<lambda>v. map (int_width reference v) obs) vs))"
  have nth: "list_all2 (in_cell reference v) obs (?f c) \<longleftrightarrow> in_box c (map (int_width reference v) obs)"
    if "v \<in> set vs" "length c = length obs" for v c
    using that in_cell_width(1) assms by (auto simp: list_all2_conv_all_nth in_box_def)
  have len: "length c = length obs" if "c \<in> ?B" for c
    using that by (auto simp: box_cells_def in_box_def dest: list_all2_lengthD)
  have "dominated_cells obs reference vs = ?f ` ?B"
  proof (intro set_eqI iffI)
    fix q assume "q \<in> dominated_cells obs reference vs"
    then obtain v where v: "v \<in> set vs" "list_all2 (in_cell reference v) obs q" by (auto simp: dominated_cells_def)
    then have lq: "length q = length obs" by (auto dest: list_all2_lengthD)
    have "\<forall>i. \<exists>c. i < length obs \<longrightarrow> q ! i = cell_of reference (obs ! i) c"
      using in_cell_width(2) assms v(1) by (meson nth_mem)
    then obtain c where c: "\<forall>i < length obs. q ! i = cell_of reference (obs ! i) (c i)" by metis
    then have q: "q = ?f (map c [0..<length obs])" using lq by (intro nth_equalityI) auto
    then have "in_box (map c [0..<length obs]) (map (int_width reference v) obs)" using v nth [of v "map c [0..<length obs]"] by simp
    then have "map c [0..<length obs] \<in> ?B" using v(1) unfolding box_cells_def by auto
    then show "q \<in> ?f ` ?B" by (subst q) (rule imageI)
  next
    fix q assume "q \<in> ?f ` ?B"
    then obtain c v where c: "q = ?f c" "v \<in> set vs" "in_box c (map (int_width reference v) obs)" by (auto simp: box_cells_def)
    then have "length c = length obs" by (auto simp: in_box_def dest: list_all2_lengthD)
    with c nth show "q \<in> dominated_cells obs reference vs" by (auto simp: dominated_cells_def)
  qed
  moreover have "inj_on ?f ?B"
  proof (rule inj_onI)
    fix c c' assume c: "c \<in> ?B" "c' \<in> ?B" "?f c = ?f c'"
    have "c ! i = c' ! i" if "i < length obs" for i
    proof -
      have "?f c ! i = ?f c' ! i" using c(3) by simp
      then have "cell_of reference (obs ! i) (c ! i) = cell_of reference (obs ! i) (c' ! i)"
        using that len c(1,2) by simp
      then show ?thesis by (simp add: cell_of_def split: direction.splits)
    qed
    then show "c = c'" using len c(1,2) by (intro nth_equalityI) auto
  qed
  ultimately show ?thesis by (simp add: card_image)
qed

lemma box_cells_positive:
  "box_cells (set bs) = box_cells (set (remdups (filter (list_all (\<lambda>w. 0 < w)) bs)))"
proof -
  have "list_all (\<lambda>w. 0 < w) b" if "in_box q b" for q b
    using that by (fastforce simp: in_box_def list_all2_conv_all_nth list_all_length)
  then show ?thesis by (auto simp: box_cells_def)
qed

lemma record_vector_item:
  "record_vector cfg row = Inr v \<Longrightarrow> \<exists>j. jitem row ''objectives'' = Inr j \<and> canonical_objective_vector j cfg = Inr v"
  by (auto simp: record_vector_def jget_def jitem_def canonical_objective_vector_def obj_require_object_def split: option.splits)

lemma record_widths:
  assumes "mapE (record_vector cfg) records = Inr vs" "\<forall>v\<in>set vs. list_all is_finite (map (box_width reference v) (objectives_of cfg))"
  shows "mapE (\<lambda>row. bindE (jitem row ''objectives'') (\<lambda>o'. bindE (canonical_objective_vector o' cfg) (\<lambda>v.
      let widths = map (box_width reference v) (objectives_of cfg) in
      if \<not> list_all is_finite widths then Inl (ValueError ''Hypervolume arithmetic overflow'')
      else Inr widths))) records = Inr (map (\<lambda>v. map (box_width reference v) (objectives_of cfg)) vs)"
  using assms
proof (induction records arbitrary: vs)
  case (Cons row records)
  then obtain v vs' where v: "record_vector cfg row = Inr v" "mapE (record_vector cfg) records = Inr vs'" "vs = v # vs'"
    by (auto simp: return_iff)
  from record_vector_item [OF v(1)] obtain j where "jitem row ''objectives'' = Inr j" "canonical_objective_vector j cfg = Inr v"
    by blast
  with Cons v show ?case by (simp add: Let_def)
qed simp

lemma positive_float_boxes:
  assumes "\<And>v ob. v \<in> set vs \<Longrightarrow> ob \<in> set obs \<Longrightarrow> (flt (Fin 0) (bw v ob) \<longleftrightarrow> 0 < iw v ob) \<and> (0 < iw v ob \<longrightarrow> bw v ob = int_float (iw v ob))"
  shows "filter (list_all (\<lambda>w. flt (Fin 0) w)) (map (\<lambda>v. map (bw v) obs) vs) =
    float_boxes (filter (list_all (\<lambda>w. 0 < w)) (map (\<lambda>v. map (iw v) obs) vs))"
  using assms
proof (induction vs)
  case (Cons v vs)
  have "list_all (\<lambda>w. flt (Fin 0) w) (map (bw v) obs) \<longleftrightarrow> list_all (\<lambda>w. 0 < w) (map (iw v) obs)"
    using Cons.prems [of v] by (auto simp: list_all_iff)
  moreover have "list_all (\<lambda>w. 0 < w) (map (iw v) obs) \<Longrightarrow> map (bw v) obs = map int_float (map (iw v) obs)"
    using Cons.prems [of v] by (auto simp: list_all_iff)
  moreover have "filter (list_all (\<lambda>w. flt (Fin 0) w)) (map (\<lambda>v. map (bw v) obs) vs) =
      float_boxes (filter (list_all (\<lambda>w. 0 < w)) (map (\<lambda>v. map (iw v) obs) vs))"
    using Cons.prems by (intro Cons.IH) simp
  ultimately show ?case by simp
qed simp

text \<open>C36: the feasible hypervolume is exact for objectives with integer values: it is the number of unit
  cells between the reference point and some record, each objective counted in its own direction,
  as long as the box of the largest widths has fewer than \<open>2 ^ 53\<close> cells.\<close>

theorem feasible_hypervolume_exact:
  assumes "pareto_reference (outcome cfg) = Some reference" "mapE (record_vector cfg) records = Inr vs"
    and "\<forall>ob\<in>set (objectives_of cfg). float_is_integer (vget reference (obj_name ob)) \<and>
      (\<forall>v\<in>set vs. float_is_integer (vget v (obj_name ob)) \<and>
         \<bar>fval (vget reference (obj_name ob)) - fval (vget v (obj_name ob))\<bar> \<le> of_int M)"
    and "M ^ length (objectives_of cfg) < 2 ^ 53"
  shows "feasible_hypervolume records cfg =
    Inr (Some (Fin (of_nat (card (dominated_cells (objectives_of cfg) reference vs)))))"
proof -
  let ?obs = "objectives_of cfg"
  have whole: "\<bar>whole reference ob - whole v ob\<bar> \<le> M" if "v \<in> set vs" "ob \<in> set ?obs" for v ob
  proof -
    have "\<bar>of_int (whole reference ob) - of_int (whole v ob) :: rat\<bar> \<le> of_int M"
      using assms(3) that int_valued_fval by metis
    then show ?thesis by (simp only: of_int_le_iff flip: of_int_abs of_int_diff)
  qed
  have big: "M < 2 ^ 53"
  proof (cases "1 \<le> M")
    case True
    then have "M ^ 1 \<le> M ^ length ?obs" by (intro power_increasing) (auto simp: objectives_of_def)
    then show ?thesis using assms(4) unfolding power_one_right by linarith
  qed simp
  have width: "is_finite (box_width reference v ob)" "flt (Fin 0) (box_width reference v ob) \<longleftrightarrow> 0 < int_width reference v ob"
    "0 < int_width reference v ob \<Longrightarrow> box_width reference v ob = int_float (int_width reference v ob)"
    if "v \<in> set vs" "ob \<in> set ?obs" for v ob
    using int_box_width [of reference ob v] assms(3) whole [OF that] big that by (fastforce, fastforce, fastforce)
  define bs where "bs = remdups (filter (list_all (\<lambda>w. 0 < w)) (map (\<lambda>v. map (int_width reference v) ?obs) vs))"
  have boxes: "remdups (filter (list_all (\<lambda>w. flt (Fin 0) w)) (map (\<lambda>v. map (box_width reference v) ?obs) vs)) = float_boxes bs"
    unfolding bs_def using positive_float_boxes [of vs ?obs "box_width reference" "int_width reference"] width
    by (simp add: remdups_map_inj [OF inj_float_box])
  have "boxes_within (length ?obs) M (set bs)"
    using whole by (fastforce simp: boxes_within_def bs_def list_all_iff int_width_def split: direction.splits)
  then have "hv_union (length (objective_names cfg)) (float_boxes bs) = int_float (int (card (box_cells (set bs))))"
    using assms(4) by (intro hv_union_cells) (auto simp: objective_names_def objectives_of_def)
  moreover have "card (box_cells (set bs)) = card (dominated_cells ?obs reference vs)"
    unfolding bs_def box_cells_positive [symmetric] using assms(3) by (intro cells_of_boxes [symmetric]) auto
  moreover have "\<forall>v\<in>set vs. list_all is_finite (map (box_width reference v) ?obs)" using width(1) by (simp add: list_all_iff)
  ultimately show ?thesis
    unfolding feasible_hypervolume_def assms(1) option.case record_widths [OF assms(2)] bindE_simps Let_def
    by (simp add: boxes record_widths [OF assms(2), unfolded Let_def])
qed

subsection \<open>A concrete front\<close>

text \<open>Two boxes that overlap: 6 by 1 and 4 by 3 share 4 cells.\<close>

definition staircase :: "jdict list" where
  "staircase = map (\<lambda>(l, g). [(''objectives'', JObj [(''loss'', JInt l), (''gain'', JInt g)])]) [(2, 1), (4, 3)]"

definition staircase_vectors :: "vector list" where
  "staircase_vectors = [[(''loss'', Fin 2), (''gain'', Fin 1)], [(''loss'', Fin 4), (''gain'', Fin 3)]]"

theorem feasible_hypervolume_exact_witness:
  "feasible_hypervolume staircase example_cfg2 = Inr (Some (Fin 14)) \<and>
   card (dominated_cells (objectives_of example_cfg2) [(''loss'', Fin 8), (''gain'', Fin 0)] staircase_vectors) = 14"
proof -
  let ?r = "[(''loss'', Fin 8), (''gain'', Fin 0)]"
  have r: "pareto_reference (outcome example_cfg2) = Some ?r" by (simp add: example_cfg2_def)
  have v: "mapE (record_vector example_cfg2) staircase = Inr staircase_vectors" by code_simp
  have b: "\<forall>ob\<in>set (objectives_of example_cfg2). float_is_integer (vget ?r (obj_name ob)) \<and>
      (\<forall>v\<in>set staircase_vectors. float_is_integer (vget v (obj_name ob)) \<and>
         \<bar>fval (vget ?r (obj_name ob)) - fval (vget v (obj_name ob))\<bar> \<le> of_int 6)" by code_simp
  have m: "6 ^ length (objectives_of example_cfg2) < (2 ^ 53 :: int)" by code_simp
  have h: "feasible_hypervolume staircase example_cfg2 = Inr (Some (Fin 14))" by code_simp
  from h feasible_hypervolume_exact [OF r v b m] show ?thesis by simp
qed

end
