(* ===== verification/SearchSpace.thy ===== *)
theory SearchSpace
  imports Json
begin

text \<open>
  \<open>templates/_shared/search_space.py\<close>: normalization of the parameter space, conditional
  parameters, sampling, and the encoding of a point as a vector of unit floats.

  A normalized parameter is a record; its \<open>type\<close>, \<open>encoding\<close> and \<open>encoded_size\<close> entries are
  determined by the domain. The generator (\<open>random.Random\<close>) and the transcendental
  functions of \<open>math\<close> are arguments: \<open>rng_ok\<close> and \<open>math_ok\<close> state what is documented of them.
\<close>

datatype scale = Linear | Log

datatype pdomain =
    IntDom int int scale
  | FloatDom pyfloat pyfloat scale
  | BoolDom
  | CatDom "json list"

type_synonym condition = "(string, json list) dict"

record param =
  p_name :: string
  p_dom :: pdomain
  p_when :: "condition option"
  p_description :: "string option"

fun encoded_size_of :: "pdomain \<Rightarrow> nat" where
  "encoded_size_of (CatDom cs) = length cs"
| "encoded_size_of _ = 1"

abbreviation encoded_size :: "param \<Rightarrow> nat" where
  "encoded_size p \<equiv> encoded_size_of (p_dom p)"

subsection \<open>Random numbers and libm\<close>

text \<open>
  \<open>unit_draw\<close> is \<open>Random.random()\<close>, \<open>below_draw n\<close> is the integer below \<open>n\<close> that
  \<open>randrange\<close> draws. \<open>uniform\<close>, \<open>randint\<close> and \<open>randrange\<close> are the library's own code over them.
\<close>

record 'r rng_ops =
  unit_draw :: "'r \<Rightarrow> pyfloat \<times> 'r"
  below_draw :: "nat \<Rightarrow> 'r \<Rightarrow> nat \<times> 'r"

definition rng_ok :: "'r rng_ops \<Rightarrow> bool" where
  "rng_ok g = ((\<forall>r. fwf (fst (unit_draw g r)) \<and> is_finite (fst (unit_draw g r)) \<and> 0 \<le> fval (fst (unit_draw g r)) \<and> fval (fst (unit_draw g r)) < 1) \<and>
               (\<forall>n r. 0 < n \<longrightarrow> fst (below_draw g n r) < n))"

definition uniform :: "'r rng_ops \<Rightarrow> pyfloat \<Rightarrow> pyfloat \<Rightarrow> 'r \<Rightarrow> pyfloat \<times> 'r" where
  "uniform g a b r = (let (u, r') = unit_draw g r in (fadd a (fmul (fsub b a) u), r'))"

definition randint :: "'r rng_ops \<Rightarrow> int \<Rightarrow> int \<Rightarrow> 'r \<Rightarrow> (int \<times> 'r) res" where
  "randint g a b r =
     (if b < a then Inl (ValueError ''empty range for randrange()'')
      else let (k, r') = below_draw g (nat (b + 1 - a)) r in Inr (a + int k, r'))"

definition randrange :: "'r rng_ops \<Rightarrow> nat \<Rightarrow> 'r \<Rightarrow> (nat \<times> 'r) res" where
  "randrange g n r =
     (if n = 0 then Inl (ValueError ''empty range for randrange()'') else Inr (below_draw g n r))"

record math_ops =
  m_log :: "pyfloat \<Rightarrow> pyfloat"
  m_exp :: "pyfloat \<Rightarrow> pyfloat"
  m_sqrt :: "pyfloat \<Rightarrow> pyfloat"

definition py_log :: "math_ops \<Rightarrow> pyfloat \<Rightarrow> pyfloat res" where
  "py_log m x = (if fle x (Fin 0) then Inl (ValueError ''math domain error'') else Inr (m_log m x))"

definition py_exp :: "math_ops \<Rightarrow> pyfloat \<Rightarrow> pyfloat res" where
  "py_exp m x = (if is_finite x \<and> \<not> is_finite (m_exp m x) then Inl (OverflowError ''math range error'') else Inr (m_exp m x))"

definition py_sqrt :: "math_ops \<Rightarrow> pyfloat \<Rightarrow> pyfloat res" where
  "py_sqrt m x = (if flt x (Fin 0) then Inl (ValueError ''math domain error'') else Inr (m_sqrt m x))"

text \<open>The literal \<open>1e-12\<close>.\<close>

definition eps12 :: pyfloat where
  "eps12 = Fin (4951760157141521 / 2 ^ 92)"

definition clamp_unit_interval :: "pyfloat \<Rightarrow> pyfloat" where
  "clamp_unit_interval v = py_min (Fin 1) (py_max (Fin 0) v)"

text \<open>\<open>min(int(hi), max(int(lo), n))\<close>\<close>

definition clamp_int :: "int \<Rightarrow> int \<Rightarrow> int \<Rightarrow> int" where
  "clamp_int lo hi n = min hi (max lo n)"

subsection \<open>Normalization of one parameter\<close>

abbreviation par_err :: "string \<Rightarrow> 'a res" where
  "par_err s \<equiv> Inl (ValueError s)"

definition normalize_description :: "jdict \<Rightarrow> string option res" where
  "normalize_description p = (case jget p ''description'' of
     JNull \<Rightarrow> Inr None
   | JStr s \<Rightarrow> Inr (Some s)
   | _ \<Rightarrow> par_err ''description'')"

definition normalize_condition_scalar :: "json \<Rightarrow> json res" where
  "normalize_condition_scalar v =
     (if is_bool v \<or> is_str v then Inr v
      else bindE (is_finite_number v) (\<lambda>ok. if ok then Inr v else par_err ''when values''))"

text \<open>The rendered key (\<open>json.dumps\<close>) of a scalar is the scalar itself.\<close>

definition add_distinct :: "string \<Rightarrow> (json \<Rightarrow> json res) \<Rightarrow> json \<Rightarrow> json list \<Rightarrow> json list res" where
  "add_distinct msg canon v acc =
     bindE (canon v) (\<lambda>w. if List.member acc w then par_err msg else Inr (acc @ [w]))"

definition normalize_when :: "jdict \<Rightarrow> condition option res" where
  "normalize_when p = (case jget p ''when'' of
     JNull \<Rightarrow> Inr None
   | JObj d \<Rightarrow>
       if d = [] then par_err ''when''
       else bindE (mapE (\<lambda>(c, raw).
              if c = [] then par_err ''when keys''
              else let values = (case raw of JArr vs \<Rightarrow> vs | v \<Rightarrow> [v]) in
                if values = [] then par_err ''when empty''
                else bindE (foldE (add_distinct ''when duplicates'' normalize_condition_scalar) values [])
                       (\<lambda>vs. Inr (c, vs))) d) (\<lambda>w. Inr (Some w))
   | _ \<Rightarrow> par_err ''when'')"

definition parse_scale :: "jdict \<Rightarrow> scale res" where
  "parse_scale p = (case dict_get p ''scale'' (JStr ''linear'') of
     JStr s \<Rightarrow> if s = ''linear'' then Inr Linear else if s = ''log'' then Inr Log else par_err ''scale''
   | _ \<Rightarrow> par_err ''scale'')"

text \<open>\<open>float(lo) <= 0.0 or float(hi) <= 0.0\<close>, evaluated from the left.\<close>

definition some_not_positive :: "json \<Rightarrow> json \<Rightarrow> bool res" where
  "some_not_positive lo hi =
     bindE (py_float lo) (\<lambda>l. if fle l (Fin 0) then Inr True
       else bindE (py_float hi) (\<lambda>h. Inr (fle h (Fin 0))))"

definition normalize_numeric_param :: "jdict \<Rightarrow> bool \<Rightarrow> pdomain res" where
  "normalize_numeric_param p integer =
     (if has_key p ''choices'' then par_err ''choices''
      else case jget p ''bounds'' of
        JArr [lo, hi] \<Rightarrow>
          bindE (if integer then (if strict_int lo \<and> strict_int hi then Inr (lo, hi) else par_err ''integer bounds'')
                 else bindE (is_finite_number lo) (\<lambda>okl. if \<not> okl then par_err ''finite bounds'' else
                      bindE (is_finite_number hi) (\<lambda>okh. if \<not> okh then par_err ''finite bounds'' else
                      bindE (py_float lo) (\<lambda>l. bindE (py_float hi) (\<lambda>h. Inr (JFloat l, JFloat h)))))) (\<lambda>(lo, hi).
          let ordered = (case (lo, hi) of (JInt a, JInt b) \<Rightarrow> a \<le> b | (JFloat a, JFloat b) \<Rightarrow> \<not> flt b a | _ \<Rightarrow> False) in
          if \<not> ordered then par_err ''bounds order''
          else bindE (parse_scale p) (\<lambda>scale.
               bindE (if scale = Log then some_not_positive lo hi else Inr False) (\<lambda>bad.
               if bad then par_err ''log bounds''
               else case (lo, hi) of
                 (JInt a, JInt b) \<Rightarrow> Inr (IntDom a b scale)
               | (JFloat a, JFloat b) \<Rightarrow> Inr (FloatDom a b scale)
               | _ \<Rightarrow> par_err ''bounds'')))
      | _ \<Rightarrow> par_err ''bounds'')"

definition normalize_bool_param :: "jdict \<Rightarrow> pdomain res" where
  "normalize_bool_param p =
     (if has_key p ''bounds'' then par_err ''bounds''
      else if has_key p ''choices'' then par_err ''choices''
      else if has_key p ''scale'' then par_err ''scale''
      else Inr BoolDom)"

definition choice_scalar :: "json \<Rightarrow> json res" where
  "choice_scalar v =
     (if is_str v then Inr v
      else bindE (is_finite_number v) (\<lambda>ok. if ok then Inr v else par_err ''choices''))"

definition normalize_categorical_param :: "jdict \<Rightarrow> pdomain res" where
  "normalize_categorical_param p =
     (if has_key p ''bounds'' then par_err ''bounds''
      else if has_key p ''scale'' then par_err ''scale''
      else case jget p ''choices'' of
        JArr cs \<Rightarrow> if cs = [] then par_err ''choices''
          else bindE (foldE (add_distinct ''duplicate choices'' choice_scalar) cs []) (\<lambda>vs. Inr (CatDom vs))
      | _ \<Rightarrow> par_err ''choices'')"

definition normalize_domain :: "jdict \<Rightarrow> string \<Rightarrow> pdomain res" where
  "normalize_domain p t =
     (if t = ''int'' then normalize_numeric_param p True
      else if t = ''float'' then normalize_numeric_param p False
      else if t = ''bool'' then normalize_bool_param p
      else normalize_categorical_param p)"

definition normalize_param :: "json \<Rightarrow> param list \<Rightarrow> param list res" where
  "normalize_param raw out = (case raw of
     JObj p \<Rightarrow> (case jget p ''name'' of
       JStr name \<Rightarrow>
         if name = [] then par_err ''name''
         else if List.member (map p_name out) name then par_err ''duplicate name''
         else (case jget p ''type'' of
           JStr t \<Rightarrow>
             if \<not> List.member [''float'', ''int'', ''bool'', ''categorical''] t then par_err ''type''
             else
             bindE (normalize_description p) (\<lambda>description.
             bindE (normalize_domain p t) (\<lambda>dm.
             bindE (normalize_when p) (\<lambda>when.
             Inr (out @ [\<lparr>p_name = name, p_dom = dm, p_when = when, p_description = description\<rparr>]))))
         | _ \<Rightarrow> par_err ''type'')
     | _ \<Rightarrow> par_err ''name'')
   | _ \<Rightarrow> par_err ''parameter'')"

subsection \<open>Conditional dependencies\<close>

definition by_name :: "param list \<Rightarrow> (string, param) dict" where
  "by_name params = dict_of (map (\<lambda>p. (p_name p, p)) params)"

definition canonicalize_when_value :: "param \<Rightarrow> json \<Rightarrow> json res" where
  "canonicalize_when_value controller v = (case p_dom controller of
     BoolDom \<Rightarrow> if is_bool v then Inr v else par_err ''when boolean''
   | IntDom lo hi _ \<Rightarrow>
       if \<not> strict_num v then par_err ''when integer''
       else bindE (is_integral v) (\<lambda>ok. if \<not> ok then par_err ''when integer''
            else bindE (py_int v) (\<lambda>n. if n < lo \<or> hi < n then par_err ''when bounds'' else Inr (JInt n)))
   | CatDom cs \<Rightarrow> if List.member cs v then Inr v else par_err ''when choices''
   | FloatDom _ _ _ \<Rightarrow> par_err ''float controller'')"

definition canonicalize_when :: "param list \<Rightarrow> param \<Rightarrow> param res" where
  "canonicalize_when params p = (case p_when p of
     None \<Rightarrow> Inr p
   | Some w \<Rightarrow>
       bindE (mapE (\<lambda>(c, raw). case map_of (by_name params) c of
           None \<Rightarrow> par_err ''unknown controller''
         | Some controller \<Rightarrow>
             if c = p_name p then par_err ''self dependency''
             else bindE (foldE (add_distinct ''when duplicates'' (canonicalize_when_value controller)) raw [])
                    (\<lambda>vs. Inr (c, vs))) w) (\<lambda>w'. Inr (p\<lparr>p_when := Some w'\<rparr>)))"

definition controllers :: "param \<Rightarrow> string list" where
  "controllers p = (case p_when p of None \<Rightarrow> [] | Some w \<Rightarrow> map fst w)"

text \<open>
  Both \<open>visit\<close> functions of the source: \<open>order\<close> holds the names in state 2 in the order
  they finished, \<open>stack\<close> the names in state 1. The fuel bounds the depth of the recursion;
  it is one more than the number of names.
\<close>

fun dfs_visit :: "(string \<Rightarrow> string list res) \<Rightarrow> nat \<Rightarrow> string list \<Rightarrow> string \<Rightarrow> string list \<Rightarrow> string list res" where
  "dfs_visit deps 0 stack n order = Inl (OverflowError ''recursion depth'')"
| "dfs_visit deps (Suc fuel) stack n order =
     (if List.member order n then Inr order
      else if List.member stack n then par_err ''dependency cycle''
      else bindE (deps n) (\<lambda>ds.
           bindE (foldE (dfs_visit deps fuel (n # stack)) ds order) (\<lambda>order'. Inr (order' @ [n]))))"

definition dependencies :: "param list \<Rightarrow> string \<Rightarrow> string list res" where
  "dependencies params n = (case map_of (by_name params) n of
     None \<Rightarrow> Inl (KeyError n)
   | Some p \<Rightarrow> Inr (controllers p))"

definition visit_all :: "param list \<Rightarrow> string list res" where
  "visit_all params = foldE (dfs_visit (dependencies params) (Suc (length params)) []) (map p_name params) []"

definition validate_when_dependencies :: "param list \<Rightarrow> param list res" where
  "validate_when_dependencies params =
     bindE (mapE (canonicalize_when params) params) (\<lambda>ps.
     bindE (visit_all ps) (\<lambda>_. Inr ps))"

definition ordered_parameters :: "param list \<Rightarrow> param list res" where
  "ordered_parameters params =
     bindE (visit_all params) (\<lambda>names.
     mapE (\<lambda>n. case map_of (by_name params) n of None \<Rightarrow> Inl (KeyError n) | Some p \<Rightarrow> Inr p) names)"

definition normalize_search_space :: "jdict \<Rightarrow> param list res" where
  "normalize_search_space cfg = (case dict_get cfg ''parameters'' (JArr []) of
     JArr [] \<Rightarrow> par_err ''parameters missing''
   | JArr ps \<Rightarrow> bindE (foldE normalize_param ps []) validate_when_dependencies
   | v \<Rightarrow> par_err (if truthy v then ''parameters list'' else ''parameters missing''))"

subsection \<open>Active parameters\<close>

definition is_parameter_active :: "param \<Rightarrow> jdict \<Rightarrow> bool" where
  "is_parameter_active p values = (case p_when p of
     None \<Rightarrow> True
   | Some w \<Rightarrow> list_all (\<lambda>(c, allowed). case map_of values c of
        None \<Rightarrow> False
      | Some v \<Rightarrow> List.member allowed v) w)"

definition active_parameters :: "param list \<Rightarrow> jdict \<Rightarrow> param list res" where
  "active_parameters params values =
     bindE (ordered_parameters params) (\<lambda>ps. Inr (filter (\<lambda>p. is_parameter_active p values) ps))"

definition keep_active :: "jdict \<Rightarrow> param \<Rightarrow> jdict \<Rightarrow> jdict" where
  "keep_active values p out = (case map_of values (p_name p) of
     None \<Rightarrow> out
   | Some v \<Rightarrow> if is_parameter_active p values then dset (p_name p) v out else out)"

definition omit_inactive_params :: "jdict \<Rightarrow> param list \<Rightarrow> jdict res" where
  "omit_inactive_params values params =
     bindE (ordered_parameters params) (\<lambda>ps. Inr (fold (keep_active values) ps []))"

definition canonicalize_conditional_params :: "jdict \<Rightarrow> param list \<Rightarrow> jdict res" where
  "canonicalize_conditional_params values params =
     bindE (omit_inactive_params values params) (\<lambda>out.
     Inr (fold (\<lambda>(k, v) out. if List.member (map p_name params) k then out else dset k v out) values out))"

subsection \<open>Sampling\<close>

definition sample_log_scaled :: "'r rng_ops \<Rightarrow> math_ops \<Rightarrow> pyfloat \<Rightarrow> pyfloat \<Rightarrow> 'r \<Rightarrow> (pyfloat \<times> 'r) res" where
  "sample_log_scaled g m lo hi r =
     bindE (py_log m lo) (\<lambda>a. bindE (py_log m hi) (\<lambda>b.
     let (u, r') = uniform g a b r in bindE (py_exp m u) (\<lambda>x. Inr (x, r'))))"

definition sample_domain :: "'r rng_ops \<Rightarrow> math_ops \<Rightarrow> pdomain \<Rightarrow> 'r \<Rightarrow> (json \<times> 'r) res" where
  "sample_domain g m dm r = (case dm of
     FloatDom lo hi Linear \<Rightarrow> (let (x, r') = uniform g lo hi r in Inr (JFloat x, r'))
   | IntDom lo hi Linear \<Rightarrow> bindE (randint g lo hi r) (\<lambda>(n, r'). Inr (JInt n, r'))
   | FloatDom lo hi Log \<Rightarrow> bindE (sample_log_scaled g m lo hi r) (\<lambda>(x, r'). Inr (JFloat x, r'))
   | IntDom lo hi Log \<Rightarrow>
       bindE (float_of_int lo) (\<lambda>a. bindE (float_of_int hi) (\<lambda>b.
       bindE (sample_log_scaled g m a b r) (\<lambda>(x, r').
       bindE (round_float x) (\<lambda>n. Inr (JInt (clamp_int lo hi n), r')))))
   | BoolDom \<Rightarrow> bindE (randint g 0 1 r) (\<lambda>(n, r'). Inr (JBool (n \<noteq> 0), r'))
   | CatDom cs \<Rightarrow> bindE (randrange g (length cs) r) (\<lambda>(k, r'). Inr (cs ! k, r')))"

definition sample_param :: "'r rng_ops \<Rightarrow> math_ops \<Rightarrow> param \<Rightarrow> jdict \<times> 'r \<Rightarrow> (jdict \<times> 'r) res" where
  "sample_param g m p st =
     (if \<not> is_parameter_active p (fst st) then Inr st
      else bindE (sample_domain g m (p_dom p) (snd st)) (\<lambda>(v, r'). Inr (dset (p_name p) v (fst st), r')))"

definition sample_random_point :: "'r rng_ops \<Rightarrow> math_ops \<Rightarrow> param list \<Rightarrow> 'r \<Rightarrow> (jdict \<times> 'r) res" where
  "sample_random_point g m params r =
     bindE (ordered_parameters params) (\<lambda>ps. foldE (sample_param g m) ps ([], r))"

subsection \<open>Encoding a point\<close>

definition normalize_scaled :: "math_ops \<Rightarrow> pyfloat \<Rightarrow> pyfloat \<Rightarrow> scale \<Rightarrow> pyfloat \<Rightarrow> pyfloat res" where
  "normalize_scaled m lo hi scale x = (case scale of
     Linear \<Rightarrow> (let span = fsub hi lo in
       if flt (fabs span) eps12 then Inr (Fin 0)
       else bindE (fdiv (fsub x lo) span) (\<lambda>u. Inr (clamp_unit_interval u)))
   | Log \<Rightarrow>
       if fle x (Fin 0) then par_err ''log value''
       else bindE (py_log m lo) (\<lambda>a. bindE (py_log m hi) (\<lambda>b. let span = fsub b a in
         if flt (fabs span) eps12 then Inr (Fin 0)
         else bindE (py_log m x) (\<lambda>c. bindE (fdiv (fsub c a) span) (\<lambda>u. Inr (clamp_unit_interval u))))))"

definition normalize_numeric_value :: "math_ops \<Rightarrow> pdomain \<Rightarrow> json \<Rightarrow> pyfloat res" where
  "normalize_numeric_value m dm v = (case dm of
     IntDom lo hi scale \<Rightarrow>
       if \<not> strict_num v then par_err ''integer value''
       else bindE (is_integral v) (\<lambda>ok. if \<not> ok then par_err ''integer value''
            else bindE (py_float v) (\<lambda>x. bindE (float_of_int lo) (\<lambda>a. bindE (float_of_int hi) (\<lambda>b.
                 normalize_scaled m a b scale x))))
   | FloatDom lo hi scale \<Rightarrow>
       bindE (is_finite_number v) (\<lambda>ok. if \<not> ok then par_err ''finite value''
         else bindE (py_float v) (normalize_scaled m lo hi scale))
   | _ \<Rightarrow> par_err ''Unsupported numeric parameter type'')"

definition denormalize_scaled :: "math_ops \<Rightarrow> pyfloat \<Rightarrow> pyfloat \<Rightarrow> scale \<Rightarrow> pyfloat \<Rightarrow> pyfloat res" where
  "denormalize_scaled m lo hi scale unit = (case scale of
     Linear \<Rightarrow> Inr (if flt (fabs (fsub hi lo)) eps12 then lo else fadd lo (fmul unit (fsub hi lo)))
   | Log \<Rightarrow> bindE (py_log m lo) (\<lambda>a. bindE (py_log m hi) (\<lambda>b.
       if flt (fabs (fsub b a)) eps12 then Inr lo else py_exp m (fadd a (fmul unit (fsub b a))))))"

definition denormalize_numeric_value :: "math_ops \<Rightarrow> pdomain \<Rightarrow> pyfloat \<Rightarrow> json res" where
  "denormalize_numeric_value m dm value = (let unit = clamp_unit_interval value in case dm of
     IntDom lo hi scale \<Rightarrow>
       bindE (float_of_int lo) (\<lambda>a. bindE (float_of_int hi) (\<lambda>b.
       bindE (denormalize_scaled m a b scale unit) (\<lambda>raw.
       bindE (round_float raw) (\<lambda>n. Inr (JInt (clamp_int lo hi n))))))
   | FloatDom lo hi scale \<Rightarrow> bindE (denormalize_scaled m lo hi scale unit) (\<lambda>raw. Inr (JFloat raw))
   | _ \<Rightarrow> par_err ''Unsupported numeric parameter type'')"

definition require_supported_choice :: "json \<Rightarrow> json res" where
  "require_supported_choice v =
     (if is_str v then Inr v
      else bindE (is_finite_number v) (\<lambda>ok. if ok then Inr v else par_err ''categorical value''))"

fun find_index :: "('a \<Rightarrow> bool) \<Rightarrow> 'a list \<Rightarrow> nat option" where
  "find_index P [] = None"
| "find_index P (x # xs) = (if P x then Some 0 else map_option Suc (find_index P xs))"

definition categorical_choice_index :: "json list \<Rightarrow> json \<Rightarrow> nat res" where
  "categorical_choice_index cs v =
     bindE (require_supported_choice v) (\<lambda>w. case find_index (\<lambda>c. c = w) cs of
       Some i \<Rightarrow> Inr i | None \<Rightarrow> par_err ''configured choices'')"

definition one_hot :: "nat \<Rightarrow> nat \<Rightarrow> pyfloat list" where
  "one_hot n i = map (\<lambda>j. if j = i then Fin 1 else Fin 0) [0..<n]"

definition encode_value :: "math_ops \<Rightarrow> pdomain \<Rightarrow> json \<Rightarrow> pyfloat list res" where
  "encode_value m dm v = (case dm of
     BoolDom \<Rightarrow> (case v of JBool b \<Rightarrow> Inr [if b then Fin 1 else Fin 0] | _ \<Rightarrow> par_err ''boolean value'')
   | CatDom cs \<Rightarrow> bindE (categorical_choice_index cs v) (\<lambda>i. Inr (one_hot (length cs) i))
   | _ \<Rightarrow> bindE (normalize_numeric_value m dm v) (\<lambda>x. Inr [x]))"

definition encode_param :: "math_ops \<Rightarrow> jdict \<Rightarrow> param \<Rightarrow> pyfloat list res" where
  "encode_param m vec p =
     (if \<not> is_parameter_active p vec then Inr (replicate (encoded_size p) (Fin 0))
      else bindE (jitem vec (p_name p)) (encode_value m (p_dom p)))"

definition normalize_numeric_point :: "math_ops \<Rightarrow> jdict \<Rightarrow> param list \<Rightarrow> pyfloat list res" where
  "normalize_numeric_point m vec params =
     bindE (ordered_parameters params) (\<lambda>ps. bindE (mapE (encode_param m vec) ps) (\<lambda>xs. Inr (concat xs)))"

text \<open>\<open>max(range(n), key=segment.__getitem__)\<close>: the first index of a largest element.\<close>

definition argmax :: "pyfloat list \<Rightarrow> nat res" where
  "argmax xs = (case [0..<length xs] of
     [] \<Rightarrow> Inl (ValueError ''max() arg is an empty sequence'')
   | i # is \<Rightarrow> Inr (min_by (\<lambda>a b. flt (xs ! b) (xs ! a)) i is))"

definition decode_value :: "math_ops \<Rightarrow> pdomain \<Rightarrow> pyfloat list \<Rightarrow> json res" where
  "decode_value m dm segment = (case dm of
     CatDom cs \<Rightarrow>
       if length segment \<noteq> length cs then par_err ''vector shorter than expected''
       else bindE (argmax segment) (\<lambda>i. Inr (cs ! i))
   | BoolDom \<Rightarrow> (case segment of [] \<Rightarrow> par_err ''vector shorter than expected''
       | x # _ \<Rightarrow> Inr (JBool (fle (Fin (1 / 2)) (clamp_unit_interval x))))
   | _ \<Rightarrow> (case segment of [] \<Rightarrow> par_err ''vector shorter than expected''
       | x # _ \<Rightarrow> denormalize_numeric_value m dm x))"

definition decode_param :: "math_ops \<Rightarrow> pyfloat list \<Rightarrow> param \<Rightarrow> jdict \<times> nat \<Rightarrow> (jdict \<times> nat) res" where
  "decode_param m vals p st =
     (let (out, offset) = st; size = encoded_size p in
      if \<not> is_parameter_active p out then Inr (out, offset + size)
      else bindE (decode_value m (p_dom p) (take size (drop offset vals)))
             (\<lambda>v. Inr (dset (p_name p) v out, offset + size)))"

definition denormalize_numeric_point :: "math_ops \<Rightarrow> pyfloat list \<Rightarrow> param list \<Rightarrow> jdict res" where
  "denormalize_numeric_point m vals params =
     bindE (ordered_parameters params) (\<lambda>ps.
     bindE (foldE (decode_param m vals) ps ([], 0)) (\<lambda>(out, offset).
     if offset \<noteq> length vals then par_err ''vector longer than expected'' else Inr out))"

definition normalized_numeric_distance :: "math_ops \<Rightarrow> jdict \<Rightarrow> jdict \<Rightarrow> param list \<Rightarrow> pyfloat res" where
  "normalized_numeric_distance m a b params =
     bindE (normalize_numeric_point m a params) (\<lambda>xs.
     bindE (normalize_numeric_point m b params) (\<lambda>ys.
     py_sqrt m (fsum (map (\<lambda>(x, y). let d = fsub x y in fmul d d) (zip xs ys)))))"

subsection \<open>Facts on the depth-first search\<close>

definition topo :: "(string \<Rightarrow> string list res) \<Rightarrow> string list \<Rightarrow> bool" where
  "topo deps ord = (distinct ord \<and>
     (\<forall>i < length ord. \<exists>ds. deps (ord ! i) = Inr ds \<and> set ds \<subseteq> set (take i ord)))"

lemma topo_Nil [simp]: "topo deps []"
  by (simp add: topo_def)

lemma topo_snoc:
  assumes "topo deps ord" "n \<notin> set ord" "deps n = Inr ds" "set ds \<subseteq> set ord"
  shows "topo deps (ord @ [n])"
  using assms by (auto simp: topo_def nth_append less_Suc_eq)

definition dfs_good :: "(string \<Rightarrow> string list res) \<Rightarrow> string list \<Rightarrow> string list \<Rightarrow> string list \<Rightarrow> string list \<Rightarrow> bool" where
  "dfs_good deps stack ds ord ord' =
     (topo deps ord' \<and> set ds \<subseteq> set ord' \<and> set ord \<subseteq> set ord' \<and> set ord' \<inter> set stack \<subseteq> set ord)"

lemma foldE_dfs_good:
  assumes "\<And>n ord ord'. f n ord = Inr ord' \<Longrightarrow> topo deps ord \<Longrightarrow> dfs_good deps stack [n] ord ord'"
    and "foldE f ds ord = Inr ord'" "topo deps ord"
  shows "dfs_good deps stack ds ord ord'"
  using assms(2,3)
proof (induction ds arbitrary: ord)
  case Nil
  then show ?case by (auto simp: dfs_good_def)
next
  case (Cons d ds)
  then obtain u where u: "f d ord = Inr u" "foldE f ds u = Inr ord'" by (auto simp: return_iff)
  have 1: "dfs_good deps stack [d] ord u" by (rule assms(1) [OF u(1) Cons.prems(2)])
  then have "dfs_good deps stack ds u ord'" by (intro Cons.IH u) (simp add: dfs_good_def)
  with 1 show ?case by (auto simp: dfs_good_def)
qed

lemma dfs_visit_good:
  "dfs_visit deps fuel stack n ord = Inr ord' \<Longrightarrow> topo deps ord \<Longrightarrow> dfs_good deps stack [n] ord ord'"
proof (induction fuel arbitrary: stack n ord ord')
  case (Suc fuel)
  show ?case
  proof (cases "n \<in> set ord")
    case True
    with Suc.prems show ?thesis by (auto simp: dfs_good_def)
  next
    case False
    with Suc.prems(1) obtain ds u where n: "n \<notin> set stack" and ds: "deps n = Inr ds"
      and u: "foldE (dfs_visit deps fuel (n # stack)) ds ord = Inr u" and ord': "ord' = u @ [n]"
      by (auto simp: return_iff)
    have g: "dfs_good deps (n # stack) ds ord u"
      by (rule foldE_dfs_good [OF Suc.IH u Suc.prems(2)])
    then have "topo deps ord'" using False ds by (auto simp: ord' dfs_good_def intro!: topo_snoc)
    with g n show ?thesis by (auto simp: dfs_good_def ord')
  qed
qed simp

definition dep_edges :: "(string \<Rightarrow> string list res) \<Rightarrow> (string \<times> string) set" where
  "dep_edges deps = {(a, b). \<exists>ds. deps a = Inr ds \<and> b \<in> set ds}"

lemma foldE_Inl_ex: "foldE f ds s = Inl e \<Longrightarrow> \<exists>d\<in>set ds. \<exists>t. f d t = Inl e"
  by (induction ds arbitrary: s) (auto simp: bindE_Inl_iff)

text \<open>The search only fails on a cycle: the fuel is never exhausted.\<close>

lemma dfs_visit_fails_cyclic:
  assumes closed: "\<And>a. a \<in> N \<Longrightarrow> \<exists>ds. deps a = Inr ds \<and> set ds \<subseteq> N" and fin: "finite N"
  shows "dfs_visit deps fuel stack n ord = Inl e \<Longrightarrow> n \<in> N \<Longrightarrow> set stack \<subseteq> N \<Longrightarrow> distinct stack \<Longrightarrow>
    (\<And>s. s \<in> set stack \<Longrightarrow> (s, n) \<in> (dep_edges deps)\<^sup>+) \<Longrightarrow> card N < fuel + length stack \<Longrightarrow>
    \<exists>c. (c, c) \<in> (dep_edges deps)\<^sup>+"
proof (induction fuel arbitrary: stack n ord)
  case 0
  have "length stack \<le> card N"
    using card_mono [OF fin 0(3)] distinct_card [OF 0(4)] by simp
  with 0(6) show ?case by simp
next
  case (Suc fuel)
  obtain ds where ds: "deps n = Inr ds" "set ds \<subseteq> N" using closed [OF Suc.prems(2)] by blast
  show ?case
  proof (cases "n \<in> set stack")
    case True
    then show ?thesis using Suc.prems(5) by blast
  next
    case False
    with Suc.prems(1) ds have "foldE (dfs_visit deps fuel (n # stack)) ds ord = Inl e"
      by (auto simp: bindE_Inl_iff split: if_splits)
    from foldE_Inl_ex [OF this] obtain d t where d: "d \<in> set ds" "dfs_visit deps fuel (n # stack) d t = Inl e"
      by blast
    have edge: "(n, d) \<in> dep_edges deps" using d(1) ds(1) by (auto simp: dep_edges_def)
    show ?thesis
    proof (rule Suc.IH [OF d(2)])
      show "d \<in> N" using d(1) ds(2) by blast
      show "set (n # stack) \<subseteq> N" "distinct (n # stack)" using Suc.prems(2-4) False by auto
      show "(s, d) \<in> (dep_edges deps)\<^sup>+" if "s \<in> set (n # stack)" for s
        using that edge Suc.prems(5) by (auto intro: trancl_into_trancl)
      show "card N < fuel + length (n # stack)" using Suc.prems(6) by simp
    qed
  qed
qed

lemma topo_step:
  assumes "topo deps ord" "(a, b) \<in> dep_edges deps" "i < length ord" "ord ! i = a"
  shows "\<exists>j < i. ord ! j = b"
proof -
  obtain ds where "deps a = Inr ds" "b \<in> set ds" using assms(2) by (auto simp: dep_edges_def)
  moreover obtain ds' where "deps a = Inr ds'" "set ds' \<subseteq> set (take i ord)"
    using assms(1,3,4) by (auto simp: topo_def)
  ultimately have "b \<in> set (take i ord)" by auto
  then show ?thesis by (auto simp: in_set_conv_nth)
qed

lemma topo_below:
  assumes "topo deps ord" "(a, b) \<in> (dep_edges deps)\<^sup>+" "i < length ord" "ord ! i = a"
  shows "\<exists>j < i. ord ! j = b"
  using assms(2-4)
proof (induction arbitrary: i rule: trancl_induct)
  case (base b)
  with topo_step [OF assms(1)] show ?case by blast
next
  case (step b c)
  then obtain j where j: "j < i" "ord ! j = b" by blast
  with topo_step [OF assms(1) step.hyps(2), of j] step.prems show ?case by (meson less_trans)
qed

lemma topo_acyclic:
  assumes "topo deps ord" "a \<in> set ord"
  shows "(a, a) \<notin> (dep_edges deps)\<^sup>+"
proof
  assume aa: "(a, a) \<in> (dep_edges deps)\<^sup>+"
  obtain i where i: "i < length ord" "ord ! i = a" using assms(2) by (auto simp: in_set_conv_nth)
  obtain j where j: "j < i" "ord ! j = a" using topo_below [OF assms(1) aa i] by blast
  have "distinct ord" using assms(1) by (simp add: topo_def)
  with i j nth_eq_iff_index_eq [of ord i j] show False by auto
qed

subsection \<open>Facts on ordered parameters\<close>

lemma by_name_distinct:
  assumes "distinct (map p_name params)"
  shows "by_name params = map (\<lambda>p. (p_name p, p)) params"
    and "map_of (by_name params) n = Some p \<longleftrightarrow> p \<in> set params \<and> p_name p = n"
proof -
  have d: "distinct (map fst (map (\<lambda>p. (p_name p, p)) params))" using assms by (simp add: comp_def)
  then show 1: "by_name params = map (\<lambda>p. (p_name p, p)) params" by (simp add: by_name_def dict_of_distinct)
  show "map_of (by_name params) n = Some p \<longleftrightarrow> p \<in> set params \<and> p_name p = n"
    unfolding 1 map_of_eq_Some_iff [OF d] by auto
qed

lemma dependencies_Inr:
  assumes "distinct (map p_name params)"
  shows "dependencies params n = Inr ds \<longleftrightarrow> (\<exists>p\<in>set params. p_name p = n \<and> ds = controllers p)"
proof (cases "map_of (by_name params) n")
  case None
  with by_name_distinct(2) [OF assms, of n] show ?thesis by (auto simp: dependencies_def)
next
  case (Some p)
  then have p: "p \<in> set params" "p_name p = n" using by_name_distinct(2) [OF assms] by auto
  have uniq: "q = p" if "q \<in> set params" "p_name q = n" for q
    using that p assms by (auto simp: distinct_map inj_on_def)
  have "dependencies params n = Inr (controllers p)" by (simp add: dependencies_def Some)
  then have "dependencies params n = Inr ds \<longleftrightarrow> ds = controllers p" by auto
  also have "\<dots> \<longleftrightarrow> (\<exists>q\<in>set params. p_name q = n \<and> ds = controllers q)" using uniq p by metis
  finally show ?thesis .
qed

lemma visit_all_topo:
  assumes "visit_all params = Inr ord"
  shows "topo (dependencies params) ord" "p_name ` set params \<subseteq> set ord"
proof -
  have "dfs_good (dependencies params) [] (map p_name params) [] ord"
    by (rule foldE_dfs_good [OF dfs_visit_good assms [unfolded visit_all_def] topo_Nil])
  then show "topo (dependencies params) ord" "p_name ` set params \<subseteq> set ord"
    by (auto simp: dfs_good_def)
qed

definition topological :: "param list \<Rightarrow> bool" where
  "topological ps = (\<forall>i < length ps. set (controllers (ps ! i)) \<subseteq> p_name ` set (take i ps))"

lemma ordered_parameters_topological:
  assumes "visit_all params = Inr ord" "distinct (map p_name params)"
  shows "\<exists>ps. ordered_parameters params = Inr ps \<and> map p_name ps = ord \<and> mset ps = mset params \<and> topological ps"
proof -
  note t = visit_all_topo [OF assms(1)]
  have look: "\<exists>p. map_of (by_name params) n = Some p \<and> p \<in> set params \<and> p_name p = n \<and>
      dependencies params n = Inr (controllers p)" if n: "n \<in> set ord" for n
  proof -
    obtain i where "i < length ord" "ord ! i = n" using n by (auto simp: in_set_conv_nth)
    then obtain ds where "dependencies params n = Inr ds" using t(1) by (auto simp: topo_def)
    then show ?thesis using by_name_distinct(2) [OF assms(2), of n]
      by (fastforce simp: dependencies_Inr [OF assms(2)])
  qed
  define f where "f = (\<lambda>n. the (map_of (by_name params) n))"
  have f: "f n \<in> set params" "p_name (f n) = n" "dependencies params n = Inr (controllers (f n))" if "n \<in> set ord" for n
    using look [OF that] by (auto simp: f_def)
  have res: "ordered_parameters params = Inr (map f ord)"
  proof -
    have "mapE (\<lambda>n. case map_of (by_name params) n of None \<Rightarrow> Inl (KeyError n) | Some p \<Rightarrow> Inr p) ord = Inr (map f ord)"
      using look by (intro mapE_total) (force simp: f_def)
    then show ?thesis by (simp add: ordered_parameters_def assms(1))
  qed
  have names: "map p_name (map f ord) = ord" using f by (simp add: map_idI)
  have set: "set (map f ord) = set params"
  proof
    show "set (map f ord) \<subseteq> set params" using f by auto
    show "set params \<subseteq> set (map f ord)"
    proof
      fix p assume p: "p \<in> set params"
      then have n: "p_name p \<in> set ord" using t(2) by blast
      from f(1,2) [OF n] p assms(2) have "f (p_name p) = p" by (auto simp: distinct_map inj_on_def)
      with n show "p \<in> set (map f ord)" by force
    qed
  qed
  have "distinct (map f ord)" using names t(1) by (metis distinct_map topo_def)
  moreover have "distinct params" using assms(2) by (simp add: distinct_map)
  ultimately have ms: "mset (map f ord) = mset params" using set by (simp only: set_eq_iff_mset_eq_distinct)
  have "topological (map f ord)"
    unfolding topological_def
  proof (intro allI impI)
    fix i assume i: "i < length (map f ord)"
    then obtain ds where "dependencies params (ord ! i) = Inr ds" "set ds \<subseteq> set (take i ord)"
      using t(1) by (auto simp: topo_def)
    moreover have "set (take i ord) = p_name ` set (take i (map f ord))"
      using names by (metis list.set_map take_map)
    ultimately show "set (controllers (map f ord ! i)) \<subseteq> p_name ` set (take i (map f ord))"
      using f(3) [of "ord ! i"] i by simp
  qed
  with res names ms show ?thesis by blast
qed

subsection \<open>Normalized spaces are well-formed\<close>

fun scalar_json :: "json \<Rightarrow> bool" where
  "scalar_json (JStr _) = True"
| "scalar_json v = (strict_num v \<and> v \<noteq> JFloat NaN)"

fun value_in_domain :: "pdomain \<Rightarrow> json \<Rightarrow> bool" where
  "value_in_domain (IntDom lo hi _) (JInt n) = (lo \<le> n \<and> n \<le> hi)"
| "value_in_domain (FloatDom lo hi _) (JFloat x) = (fle lo x \<and> fle x hi)"
| "value_in_domain BoolDom (JBool _) = True"
| "value_in_domain (CatDom cs) v = (v \<in> set cs)"
| "value_in_domain _ _ = False"

fun domain_wf :: "pdomain \<Rightarrow> bool" where
  "domain_wf (IntDom lo hi s) = (lo \<le> hi \<and> (s = Log \<longrightarrow> 0 < lo))"
| "domain_wf (FloatDom lo hi s) = (is_finite lo \<and> is_finite hi \<and> fle lo hi \<and> (s = Log \<longrightarrow> flt (Fin 0) lo))"
| "domain_wf BoolDom = True"
| "domain_wf (CatDom cs) = (cs \<noteq> [] \<and> distinct cs \<and> list_all scalar_json cs)"

fun is_float_domain :: "pdomain \<Rightarrow> bool" where
  "is_float_domain (FloatDom _ _ _) = True"
| "is_float_domain _ = False"

text \<open>What a condition may say about a controller: distinct values of its discrete domain.\<close>

definition condition_wf :: "param list \<Rightarrow> param \<Rightarrow> string \<times> json list \<Rightarrow> bool" where
  "condition_wf params p cv = (\<exists>q\<in>set params. p_name q = fst cv \<and> p_name q \<noteq> p_name p \<and> \<not> is_float_domain (p_dom q) \<and>
     snd cv \<noteq> [] \<and> distinct (snd cv) \<and> list_all (value_in_domain (p_dom q)) (snd cv))"

definition params_wf :: "param list \<Rightarrow> bool" where
  "params_wf params =
     (params \<noteq> [] \<and> distinct (map p_name params) \<and>
      (\<forall>p\<in>set params. p_name p \<noteq> [] \<and> domain_wf (p_dom p) \<and>
         (\<forall>w. p_when p = Some w \<longrightarrow> w \<noteq> [] \<and> list_all (condition_wf params p) w)) \<and>
      res_ok (visit_all params))"

lemma add_distinct_fold:
  assumes "foldE (add_distinct msg canon) vs acc = Inr out" "distinct acc" "list_all P acc"
    and "\<And>v w. v \<in> set vs \<Longrightarrow> canon v = Inr w \<Longrightarrow> P w"
  shows "distinct out \<and> list_all P out \<and> length out = length acc + length vs"
  using assms
proof (induction vs arbitrary: acc)
  case (Cons v vs)
  then obtain u where u: "add_distinct msg canon v acc = Inr u" "foldE (add_distinct msg canon) vs u = Inr out"
    by (auto simp: return_iff)
  from u(1) obtain w where "canon v = Inr w" "w \<notin> set acc" "u = acc @ [w]"
    by (auto simp: add_distinct_def return_iff)
  with u(2) have w: "canon v = Inr w" "w \<notin> set acc" "foldE (add_distinct msg canon) vs (acc @ [w]) = Inr out"
    by auto
  have "distinct out \<and> list_all P out \<and> length out = length (acc @ [w]) + length vs"
    by (rule Cons.IH [OF w(3)]) (use Cons.prems w in auto)
  then show ?case by simp
qed simp

lemma scalar_json_finite: "is_finite_number v = Inr True \<Longrightarrow> scalar_json v"
  by (cases v) (auto simp: return_iff)

lemma choice_scalar_Inr: "choice_scalar v = Inr w \<Longrightarrow> w = v \<and> scalar_json v"
  by (cases v) (auto simp: choice_scalar_def return_iff dest!: scalar_json_finite split: if_splits)

lemma flt_float_of_int:
  assumes "float_of_int i = Inr f" "\<not> fle f (Fin 0)"
  shows "0 < i"
proof (rule ccontr)
  assume "\<not> 0 < i"
  then have "fle (mk_float False (of_int i)) (mk_float False 0)" by (intro mk_float_mono) simp
  with assms show False by (auto simp: float_of_int_def Let_def split: if_splits)
qed

lemma normalize_numeric_wf:
  assumes "normalize_numeric_param d integer = Inr dm"
  shows "domain_wf dm"
proof -
  obtain lo hi where b: "jget d ''bounds'' = JArr [lo, hi]"
    using assms by (auto simp: normalize_numeric_param_def split: if_splits json.splits list.splits)
  show ?thesis
  proof (cases integer)
    case True
    then obtain a c where ac: "lo = JInt a" "hi = JInt c"
      using assms b by (cases lo; cases hi) (auto simp: normalize_numeric_param_def return_iff split: if_splits)
    with assms b True obtain s bad where "a \<le> c" "parse_scale d = Inr s" "dm = IntDom a c s"
      and "(if s = Log then some_not_positive (JInt a) (JInt c) else Inr False) = Inr False"
      by (auto simp: normalize_numeric_param_def return_iff Let_def split: if_splits)
    then show ?thesis using flt_float_of_int [of a]
      by (auto simp: some_not_positive_def return_iff split: if_splits)
  next
    case False
    with assms b obtain l h s where f: "py_float lo = Inr l" "py_float hi = Inr h" "is_finite l" "is_finite h"
      and "\<not> flt h l" "dm = FloatDom l h s"
      and bad: "(if s = Log then some_not_positive (JFloat l) (JFloat h) else Inr False) = Inr False"
      by (auto simp: normalize_numeric_param_def return_iff Let_def split: if_splits)
    moreover have "flt (Fin 0) l" if "s = Log"
      using bad that f(3) not_flt [of "Fin 0" l] by (auto simp: some_not_positive_def return_iff split: if_splits)
    ultimately show ?thesis by (auto simp: not_flt)
  qed
qed

lemma normalize_categorical_wf:
  assumes "normalize_categorical_param d = Inr dm"
  shows "domain_wf dm"
proof -
  obtain cs vs where cs: "cs \<noteq> []" and fold: "foldE (add_distinct ''duplicate choices'' choice_scalar) cs [] = Inr vs"
    and dm: "dm = CatDom vs"
    using assms by (auto simp: normalize_categorical_param_def return_iff split: if_splits json.splits)
  have "distinct vs \<and> list_all scalar_json vs \<and> length vs = length ([] :: json list) + length cs"
    using fold by (rule add_distinct_fold) (auto dest: choice_scalar_Inr)
  with cs show ?thesis by (auto simp: dm)
qed

lemma normalize_when_Inr:
  assumes "normalize_when d = Inr (Some w)"
  shows "w \<noteq> [] \<and> list_all (\<lambda>cv. snd cv \<noteq> []) w"
proof -
  obtain e where e: "e \<noteq> []" and m: "mapE (\<lambda>(c, raw).
              if c = [] then par_err ''when keys''
              else let values = (case raw of JArr vs \<Rightarrow> vs | v \<Rightarrow> [v]) in
                if values = [] then par_err ''when empty''
                else bindE (foldE (add_distinct ''when duplicates'' normalize_condition_scalar) values [])
                       (\<lambda>vs. Inr (c, vs))) e = Inr w"
    using assms by (auto simp: normalize_when_def return_iff split: json.splits if_splits)
  have "snd cv \<noteq> []" if cv: "cv \<in> set w" for cv
  proof -
    obtain raw where ne: "(case raw of JArr vs \<Rightarrow> vs | v \<Rightarrow> [v]) \<noteq> []"
      and fold: "foldE (add_distinct ''when duplicates'' normalize_condition_scalar)
          (case raw of JArr vs \<Rightarrow> vs | v \<Rightarrow> [v]) [] = Inr (snd cv)"
      using mapE_Inr_set [OF m cv] by (auto simp: Let_def return_iff split: if_splits)
    have "distinct (snd cv) \<and> list_all (\<lambda>_. True) (snd cv) \<and>
        length (snd cv) = length ([] :: json list) + length (case raw of JArr vs \<Rightarrow> vs | v \<Rightarrow> [v])"
      using fold by (rule add_distinct_fold) auto
    with ne show ?thesis by auto
  qed
  with e mapE_Inr_length [OF m] show ?thesis by (auto simp: list_all_iff)
qed

definition raw_param_wf :: "param \<Rightarrow> bool" where
  "raw_param_wf p = (p_name p \<noteq> [] \<and> domain_wf (p_dom p) \<and>
     (\<forall>w. p_when p = Some w \<longrightarrow> w \<noteq> [] \<and> list_all (\<lambda>cv. snd cv \<noteq> []) w))"

lemma normalize_param_Inr:
  assumes "normalize_param raw out = Inr out'"
  shows "\<exists>p. out' = out @ [p] \<and> raw_param_wf p \<and> p_name p \<notin> set (map p_name out)"
proof -
  obtain d name t desc dm wh where
    d: "raw = JObj d" "jget d ''name'' = JStr name" "name \<noteq> []" "name \<notin> set (map p_name out)"
    and dm: "normalize_domain d t = Inr dm"
    and wh: "normalize_when d = Inr wh"
    and out': "out' = out @ [\<lparr>p_name = name, p_dom = dm, p_when = wh, p_description = desc\<rparr>]"
    using assms by (auto simp: normalize_param_def return_iff split: json.splits)
  have "domain_wf dm"
    using dm by (auto simp: normalize_domain_def normalize_bool_param_def dest: normalize_numeric_wf normalize_categorical_wf split: if_splits)
  with d wh normalize_when_Inr [of d] show ?thesis by (auto simp: out' raw_param_wf_def)
qed

lemma normalize_params_fold:
  assumes "foldE normalize_param raws out = Inr ps" "distinct (map p_name out)" "\<forall>p\<in>set out. raw_param_wf p"
  shows "distinct (map p_name ps) \<and> (\<forall>p\<in>set ps. raw_param_wf p) \<and> length ps = length out + length raws"
  using assms
proof (induction raws arbitrary: out)
  case (Cons r raws)
  then obtain u where u: "normalize_param r out = Inr u" "foldE normalize_param raws u = Inr ps"
    by (auto simp: return_iff)
  obtain p where "u = out @ [p]" "raw_param_wf p" "p_name p \<notin> set (map p_name out)"
    using normalize_param_Inr [OF u(1)] by blast
  with Cons.IH [OF u(2)] Cons.prems show ?case by auto
qed simp

lemma canonicalize_when_value_Inr:
  "canonicalize_when_value q v = Inr w \<Longrightarrow> \<not> is_float_domain (p_dom q) \<and> value_in_domain (p_dom q) w"
  by (cases w) (auto simp: canonicalize_when_value_def return_iff split: pdomain.splits if_splits)

lemma canonicalize_when_Inr:
  assumes "canonicalize_when params p = Inr p'" "distinct (map p_name params)" "raw_param_wf p"
  shows "p_name p' = p_name p \<and> p_dom p' = p_dom p \<and>
         (\<forall>w. p_when p' = Some w \<longrightarrow> w \<noteq> [] \<and> list_all (condition_wf params p) w)"
proof (cases "p_when p")
  case None
  with assms show ?thesis by (auto simp: canonicalize_when_def)
next
  case (Some raw)
  with assms(1) obtain w where m: "mapE (\<lambda>(c, raw). case map_of (by_name params) c of
           None \<Rightarrow> par_err ''unknown controller''
         | Some controller \<Rightarrow>
             if c = p_name p then par_err ''self dependency''
             else bindE (foldE (add_distinct ''when duplicates'' (canonicalize_when_value controller)) raw [])
                    (\<lambda>vs. Inr (c, vs))) raw = Inr w" and p': "p' = p\<lparr>p_when := Some w\<rparr>"
    by (auto simp: canonicalize_when_def return_iff)
  have ne: "raw \<noteq> []" "\<forall>cv\<in>set raw. snd cv \<noteq> []" using assms(3) Some by (auto simp: raw_param_wf_def list_all_iff)
  have "condition_wf params p cv" if cv: "cv \<in> set w" for cv
  proof -
    obtain vs q where vs: "vs \<noteq> []" and q: "map_of (by_name params) (fst cv) = Some q" "fst cv \<noteq> p_name p"
      and fold: "foldE (add_distinct ''when duplicates'' (canonicalize_when_value q)) vs [] = Inr (snd cv)"
      using mapE_Inr_set [OF m cv] ne(2) by (fastforce simp: return_iff split: option.splits if_splits)
    have "distinct (snd cv) \<and> list_all (\<lambda>w. \<not> is_float_domain (p_dom q) \<and> value_in_domain (p_dom q) w) (snd cv)
        \<and> length (snd cv) = length ([] :: json list) + length vs"
      using fold by (rule add_distinct_fold) (auto dest: canonicalize_when_value_Inr)
    then have "distinct (snd cv)" "snd cv \<noteq> []" "\<not> is_float_domain (p_dom q)" "list_all (value_in_domain (p_dom q)) (snd cv)"
      using vs by (cases "snd cv"; auto simp: list_all_iff)+
    moreover have "q \<in> set params" "p_name q = fst cv"
      using q(1) by_name_distinct(2) [OF assms(2)] by auto
    ultimately show ?thesis using q(2) by (auto simp: condition_wf_def)
  qed
  moreover have "w \<noteq> []" using ne(1) mapE_Inr_length [OF m] by auto
  ultimately show ?thesis by (auto simp: p' list_all_iff)
qed

lemma condition_wf_cong:
  assumes "\<And>q. q \<in> set ps \<Longrightarrow> \<exists>q'\<in>set qs. p_name q' = p_name q \<and> p_dom q' = p_dom q" "p_name p' = p_name p"
  shows "condition_wf ps p cv \<Longrightarrow> condition_wf qs p' cv"
  using assms unfolding condition_wf_def by metis

lemma validate_when_wf:
  assumes "validate_when_dependencies ps = Inr qs" "distinct (map p_name ps)" "\<forall>p\<in>set ps. raw_param_wf p" "ps \<noteq> []"
  shows "params_wf qs \<and> map p_name qs = map p_name ps \<and> map p_dom qs = map p_dom ps"
proof -
  obtain ord where m: "mapE (canonicalize_when ps) ps = Inr qs" and v: "visit_all qs = Inr ord"
    using assms(1) by (auto simp: validate_when_dependencies_def return_iff)
  have len: "length qs = length ps" by (rule mapE_Inr_length [OF m])
  have pt: "canonicalize_when ps (ps ! i) = Inr (qs ! i)" if "i < length ps" for i
    using m that by (simp add: mapE_Inr_iff list_all2_conv_all_nth)
  have c: "p_name (qs ! i) = p_name (ps ! i) \<and> p_dom (qs ! i) = p_dom (ps ! i) \<and>
      (\<forall>w. p_when (qs ! i) = Some w \<longrightarrow> w \<noteq> [] \<and> list_all (condition_wf ps (ps ! i)) w)" if "i < length ps" for i
    using canonicalize_when_Inr [OF pt [OF that] assms(2)] assms(3) that by auto
  have names: "map p_name qs = map p_name ps" "map p_dom qs = map p_dom ps"
    using c by (auto intro!: nth_equalityI simp: len)
  have corr: "\<exists>q'\<in>set qs. p_name q' = p_name q \<and> p_dom q' = p_dom q" if "q \<in> set ps" for q
    using that c by (metis in_set_conv_nth len)
  have "p_name p \<noteq> [] \<and> domain_wf (p_dom p) \<and>
         (\<forall>w. p_when p = Some w \<longrightarrow> w \<noteq> [] \<and> list_all (condition_wf qs p) w)" if p: "p \<in> set qs" for p
  proof -
    obtain i where i: "i < length ps" "p = qs ! i" using p by (auto simp: in_set_conv_nth len)
    have "raw_param_wf (ps ! i)" using assms(3) i by simp
    moreover have "condition_wf qs p cv" if "condition_wf ps (ps ! i) cv" for cv
      using condition_wf_cong [OF corr _ that] c [OF i(1)] i(2) by simp
    ultimately show ?thesis using c [OF i(1)] by (auto simp: i(2) raw_param_wf_def list_all_iff)
  qed
  moreover have "qs \<noteq> []" using assms(4) len by auto
  ultimately show ?thesis using names assms(2) v by (simp add: params_wf_def res_ok_def)
qed

text \<open>C22: a parameter space that normalizes is well-formed: names are distinct and not empty,
  bounds are ordered (and positive on a log scale), choices are distinct scalars, and every
  condition names another discrete parameter with distinct values of its domain.\<close>

theorem normalize_search_space_wf:
  assumes "normalize_search_space cfg = Inr params"
  shows "params_wf params"
proof -
  obtain raws ps where "raws \<noteq> []" and f: "foldE normalize_param raws [] = Inr ps"
    and v: "validate_when_dependencies ps = Inr params"
    using assms by (auto simp: normalize_search_space_def return_iff simp del: foldE.simps split: json.splits list.splits)
  moreover from this normalize_params_fold [OF f] have "ps \<noteq> []" by auto
  ultimately show ?thesis using normalize_params_fold [OF f] validate_when_wf [OF v] by auto
qed

text \<open>The ordering of a well-formed space succeeds, keeps every parameter exactly once and
  puts each parameter after the controllers of its condition.\<close>

theorem ordered_parameters_complete:
  assumes "params_wf params"
  shows "\<exists>ps. ordered_parameters params = Inr ps \<and> mset ps = mset params \<and> topological ps"
proof -
  obtain ord where "visit_all params = Inr ord" using assms by (auto simp: params_wf_def elim: res_okE)
  from ordered_parameters_topological [OF this] assms show ?thesis by (auto simp: params_wf_def)
qed

lemma params_wf_ordered:
  assumes "params_wf params" "ordered_parameters params = Inr ps"
  shows "mset ps = mset params" "topological ps" "set ps = set params" "distinct (map p_name ps)"
proof -
  obtain ord where "visit_all params = Inr ord" using assms by (auto simp: params_wf_def elim: res_okE)
  from ordered_parameters_topological [OF this] assms
  show m: "mset ps = mset params" and "topological ps" by (auto simp: params_wf_def)
  from m show "set ps = set params" by (metis set_mset_mset)
  have "mset (map p_name ps) = mset (map p_name params)" using m by simp
  from mset_eq_imp_distinct_iff [OF this] show "distinct (map p_name ps)" using assms(1) by (simp add: params_wf_def)
qed

lemma params_wf_order_ok: "params_wf params \<Longrightarrow> \<exists>ps. ordered_parameters params = Inr ps"
  using ordered_parameters_topological [of params] by (auto simp: params_wf_def elim!: res_okE)

text \<open>C27: the dependency check is exact. When every controller is a parameter, the search finishes
  with an order exactly when no chain of conditions leads back to its start.\<close>

theorem dependency_check_exact:
  assumes "distinct (map p_name params)" "\<forall>p\<in>set params. set (controllers p) \<subseteq> p_name ` set params"
  shows "res_ok (visit_all params) \<longleftrightarrow> acyclic (dep_edges (dependencies params))"
proof
  assume "res_ok (visit_all params)"
  then obtain ord where "visit_all params = Inr ord" by (rule res_okE)
  note t = visit_all_topo [OF this]
  show "acyclic (dep_edges (dependencies params))"
    unfolding acyclic_def
  proof (intro allI notI)
    fix a assume a: "(a, a) \<in> (dep_edges (dependencies params))\<^sup>+"
    then obtain b where "(a, b) \<in> dep_edges (dependencies params)" by (meson tranclD)
    then have "a \<in> p_name ` set params" using dependencies_Inr [OF assms(1)] by (auto simp: dep_edges_def)
    with t a topo_acyclic show False by blast
  qed
next
  assume acyc: "acyclic (dep_edges (dependencies params))"
  show "res_ok (visit_all params)"
  proof (rule ccontr)
    assume "\<not> res_ok (visit_all params)"
    then obtain e where "foldE (dfs_visit (dependencies params) (Suc (length params)) []) (map p_name params) [] = Inl e"
      by (auto simp: res_ok_def visit_all_def split: sum.splits)
    from foldE_Inl_ex [OF this] obtain n ord where n: "n \<in> set (map p_name params)"
      "dfs_visit (dependencies params) (Suc (length params)) [] n ord = Inl e" by blast
    have "\<exists>c. (c, c) \<in> (dep_edges (dependencies params))\<^sup>+"
    proof (rule dfs_visit_fails_cyclic [OF _ _ n(2)])
      show "\<exists>ds. dependencies params a = Inr ds \<and> set ds \<subseteq> set (map p_name params)"
        if "a \<in> set (map p_name params)" for a
        using that assms(2) dependencies_Inr [OF assms(1)] by fastforce
      show "card (set (map p_name params)) < Suc (length params) + length ([] :: string list)"
        using card_length [of "map p_name params"] by simp
    qed (use n(1) in auto)
    with acyc show False by (simp add: acyclic_def)
  qed
qed

subsection \<open>Points that respect the conditions\<close>

lemma active_cong:
  assumes "\<And>c. c \<in> set (controllers p) \<Longrightarrow> map_of a c = map_of b c"
  shows "is_parameter_active p a = is_parameter_active p b"
proof (cases "p_when p")
  case (Some w)
  then have "map_of a c = map_of b c" if "(c, vs) \<in> set w" for c vs
    using assms that by (force simp: controllers_def)
  then show ?thesis by (auto simp: is_parameter_active_def Some list_all_iff split: option.splits)
qed (simp add: is_parameter_active_def)

text \<open>A point gives a value to exactly the active ones of the parameters handled so far.\<close>

definition consistent :: "param list \<Rightarrow> jdict \<Rightarrow> bool" where
  "consistent ps out = (fst ` set out \<subseteq> p_name ` set ps \<and>
     (\<forall>p\<in>set ps. has_key out (p_name p) \<longleftrightarrow> is_parameter_active p out))"

lemma topological_snoc:
  "topological (ps @ [p]) \<longleftrightarrow> topological ps \<and> set (controllers p) \<subseteq> p_name ` set ps"
  by (auto simp: topological_def nth_append less_Suc_eq)

lemma topological_prefix:
  assumes "topological (xs @ ys)"
  shows "topological xs"
  unfolding topological_def
proof (intro allI impI)
  fix i assume i: "i < length xs"
  then have "i < length (xs @ ys)" by simp
  with assms have "set (controllers ((xs @ ys) ! i)) \<subseteq> p_name ` set (take i (xs @ ys))"
    unfolding topological_def by blast
  with i show "set (controllers (xs ! i)) \<subseteq> p_name ` set (take i xs)" by (simp add: nth_append)
qed

lemma topological_member:
  assumes "topological ps" "q \<in> set ps"
  shows "set (controllers q) \<subseteq> p_name ` set ps"
proof -
  obtain i where "i < length ps" "ps ! i = q" using assms(2) by (auto simp: in_set_conv_nth)
  with assms(1) have "set (controllers q) \<subseteq> p_name ` set (take i ps)" by (auto simp: topological_def)
  then show ?thesis using set_take_subset [of i ps] by blast
qed

lemma consistent_snoc:
  assumes "consistent ps out" "topological (ps @ [p])" "p_name p \<notin> p_name ` set ps"
  shows "consistent (ps @ [p]) (if is_parameter_active p out then dset (p_name p) v out else out)"
    (is "consistent _ ?out")
proof -
  have fresh: "map_of out (p_name p) = None" using assms(1,3) by (auto simp: consistent_def map_of_eq_None_iff)
  have same: "is_parameter_active q ?out = is_parameter_active q out" if "q \<in> set (ps @ [p])" for q
  proof (rule active_cong)
    fix c assume "c \<in> set (controllers q)"
    then have "c \<in> p_name ` set ps"
      using that assms(2) topological_member [of ps q] by (auto simp: topological_snoc)
    with assms(3) have "c \<noteq> p_name p" by metis
    then show "map_of ?out c = map_of out c" by auto
  qed
  show ?thesis
    unfolding consistent_def
  proof (intro conjI ballI)
    show "fst ` set ?out \<subseteq> p_name ` set (ps @ [p])" using assms(1) by (auto simp: consistent_def)
    fix q assume q: "q \<in> set (ps @ [p])"
    show "has_key ?out (p_name q) \<longleftrightarrow> is_parameter_active q ?out"
    proof (cases "q = p")
      case True
      then show ?thesis using same [OF q] fresh by simp
    next
      case False
      then have "q \<in> set ps" using q by simp
      moreover from this have "p_name q \<noteq> p_name p" using assms(3) by (metis imageI)
      ultimately show ?thesis using assms(1) same [OF q] by (auto simp: consistent_def)
    qed
  qed
qed

text \<open>
  Sampling and decoding both run over the ordered parameters and add a value for the active
  ones; \<open>consistent_fold\<close> carries a property of the values through such a run.
\<close>

lemma consistent_fold:
  assumes "foldE step qs st = Inr st'" "consistent ps (fst st)" "topological (ps @ qs)" "distinct (map p_name (ps @ qs))"
    and "\<And>p u u'. p \<in> set qs \<Longrightarrow> step p u = Inr u' \<Longrightarrow>
           (if is_parameter_active p (fst u) then \<exists>v. fst u' = dset (p_name p) v (fst u) \<and> P p v else fst u' = fst u)"
    and "\<forall>p\<in>set ps. \<forall>v. map_of (fst st) (p_name p) = Some v \<longrightarrow> P p v"
  shows "consistent (ps @ qs) (fst st') \<and> (\<forall>p\<in>set (ps @ qs). \<forall>v. map_of (fst st') (p_name p) = Some v \<longrightarrow> P p v)"
  using assms
proof (induction qs arbitrary: ps st)
  case (Cons p qs)
  then obtain u where u: "step p st = Inr u" "foldE step qs u = Inr st'" by (auto simp: return_iff)
  have fresh: "p_name p \<notin> p_name ` set ps" using Cons.prems(4) by auto
  have top: "topological (ps @ [p])"
    using topological_prefix [of "ps @ [p]" qs] Cons.prems(3) by simp
  have dist: "p_name q \<noteq> p_name p" if "q \<in> set ps" for q using that fresh by (metis imageI)
  have st: "if is_parameter_active p (fst st) then \<exists>v. fst u = dset (p_name p) v (fst st) \<and> P p v else fst u = fst st"
    using Cons.prems(5) [OF _ u(1)] by simp
  obtain v where fu: "fst u = (if is_parameter_active p (fst st) then dset (p_name p) v (fst st) else fst st)"
    and Pv: "is_parameter_active p (fst st) \<Longrightarrow> P p v" using st by (auto split: if_splits)
  have cons: "consistent (ps @ [p]) (fst u)"
    using consistent_snoc [OF Cons.prems(2) top fresh, of v] by (simp only: fu)
  have none: "map_of (fst st) (p_name p) = None"
    using Cons.prems(2) fresh by (auto simp: consistent_def map_of_eq_None_iff)
  have "consistent ((ps @ [p]) @ qs) (fst st') \<and>
      (\<forall>q\<in>set ((ps @ [p]) @ qs). \<forall>v. map_of (fst st') (p_name q) = Some v \<longrightarrow> P q v)"
  proof (rule Cons.IH [OF u(2) cons])
    show "\<forall>q\<in>set (ps @ [p]). \<forall>v. map_of (fst u) (p_name q) = Some v \<longrightarrow> P q v"
      using Cons.prems(6) Pv none dist by (auto simp: fu)
    show "if is_parameter_active q (fst w) then \<exists>v. fst w' = dset (p_name q) v (fst w) \<and> P q v else fst w' = fst w"
      if "q \<in> set qs" "step q w = Inr w'" for q w w'
      using Cons.prems(5) [OF _ that(2)] that(1) by simp
  qed (use Cons.prems(3,4) in auto)
  then show ?case by simp
qed simp

lemma rng_unit: "rng_ok g \<Longrightarrow> unit_draw g r = (u, r') \<Longrightarrow> fwf u \<and> is_finite u \<and> 0 \<le> fval u \<and> fval u < 1"
  by (metis fst_conv rng_ok_def)

lemma randint_range:
  assumes "rng_ok g" "randint g a b r = Inr (n, r')"
  shows "a \<le> n \<and> n \<le> b"
proof -
  obtain k where "a \<le> b" "below_draw g (nat (b + 1 - a)) r = (k, r')" "n = a + int k"
    using assms(2) by (auto simp: randint_def split: prod.splits if_splits)
  moreover from this have "k < nat (b + 1 - a)"
    using assms(1) by (metis (no_types, lifting) fst_conv rng_ok_def zero_less_nat_eq diff_gt_0_iff_gt zle_add1_eq_le)
  ultimately show ?thesis by linarith
qed

lemma clamp_int_range: "lo \<le> hi \<Longrightarrow> lo \<le> clamp_int lo hi n \<and> clamp_int lo hi n \<le> hi"
  by (simp add: clamp_int_def)

fun linear_domain :: "pdomain \<Rightarrow> bool" where
  "linear_domain (IntDom _ _ s) = (s = Linear)"
| "linear_domain (FloatDom _ _ s) = (s = Linear)"
| "linear_domain _ = True"

lemma sample_domain_total:
  assumes "domain_wf dm" "linear_domain dm"
  shows "\<exists>v r'. sample_domain g m dm r = Inr (v, r')"
  using assms by (cases dm) (auto simp: sample_domain_def randint_def randrange_def uniform_def split: prod.splits)

lemma foldE_Inr_ex:
  assumes "\<And>x s. x \<in> set xs \<Longrightarrow> \<exists>t. f x s = Inr t"
  shows "\<exists>t. foldE f xs s = Inr t"
  using assms by (induction xs arbitrary: s) (auto, metis bindE_simps(2))


subsection \<open>Encoding\<close>

definition unit_value :: "pyfloat \<Rightarrow> bool" where
  "unit_value x = (is_finite x \<and> 0 \<le> fval x \<and> fval x \<le> 1)"

lemma clamp_unit_value: "unit_value (clamp_unit_interval x)"
  by (cases x) (auto simp: unit_value_def clamp_unit_interval_def py_min_def py_max_def flt_def)

lemma unit_value_simps [simp]: "unit_value (Fin 0)" "unit_value (Fin 1)"
  by (simp_all add: unit_value_def)

lemma one_hot_facts [simp]: "length (one_hot n i) = n" "list_all unit_value (one_hot n i)"
  by (auto simp: one_hot_def list_all_iff)

lemma normalize_scaled_unit: "normalize_scaled m a b s x = Inr u \<Longrightarrow> unit_value u"
  by (cases s) (auto simp: normalize_scaled_def return_iff Let_def clamp_unit_value split: if_splits)

lemma encode_value_shape:
  assumes "encode_value m dm v = Inr xs"
  shows "length xs = encoded_size_of dm \<and> list_all unit_value xs"
proof (cases dm)
  case (IntDom lo hi s)
  with assms show ?thesis
    by (auto simp: encode_value_def normalize_numeric_value_def return_iff dest: normalize_scaled_unit)
next
  case (FloatDom lo hi s)
  with assms show ?thesis
    by (auto simp: encode_value_def normalize_numeric_value_def return_iff dest: normalize_scaled_unit)
next
  case BoolDom
  with assms show ?thesis by (auto simp: encode_value_def split: json.splits)
next
  case (CatDom cs)
  with assms show ?thesis by (auto simp: encode_value_def return_iff)
qed

lemma encode_param_shape:
  "encode_param m vec p = Inr xs \<Longrightarrow> length xs = encoded_size p \<and> list_all unit_value xs"
  by (auto simp: encode_param_def return_iff list_all_iff dest: encode_value_shape split: if_splits)

text \<open>The encoding of a point is a vector of unit floats with one entry per boolean or numeric
  parameter and one per choice of a categorical parameter, so every point of a space has the
  same dimension.\<close>

theorem normalize_point_shape:
  assumes "params_wf params" "normalize_numeric_point m vec params = Inr xs"
  shows "length xs = sum_list (map encoded_size params) \<and> list_all unit_value xs"
proof -
  obtain ps xss where ps: "ordered_parameters params = Inr ps" and e: "mapE (encode_param m vec) ps = Inr xss"
    and xs: "xs = concat xss"
    using assms(2) by (auto simp: normalize_numeric_point_def return_iff)
  have "length (concat xss) = sum_list (map encoded_size ps) \<and> list_all unit_value (concat xss)"
    using e by (induction ps arbitrary: xss) (auto simp: return_iff dest!: encode_param_shape)
  moreover have "sum_list (map encoded_size ps) = sum_list (map encoded_size params)"
    using params_wf_ordered(1) [OF assms(1) ps] by (metis mset_map sum_mset_sum_list)
  ultimately show ?thesis by (simp add: xs)
qed

subsection \<open>One-hot segments\<close>

interpretation index_order: key_order "\<lambda>a b. flt (xs ! b) (xs ! a)" "\<lambda>a. xs ! a \<noteq> NaN" for xs
  by unfold_locales (auto simp: not_flt intro: flt_trans fle_trans)

lemma argmax_one_hot:
  assumes "i < n"
  shows "argmax (one_hot n i) = Inr i"
proof -
  obtain j js where js: "[0..<n] = j # js" using assms by (cases "[0..<n]") auto
  define k where "k = min_by (\<lambda>a b. flt (one_hot n i ! b) (one_hot n i ! a)) j js"
  have k: "argmax (one_hot n i) = Inr k" by (simp add: argmax_def js k_def)
  have mem: "insert j (set js) = {0..<n}" using js by (metis atLeastLessThan_upt list.simps(15))
  have nth: "one_hot n i ! a = (if a = i then Fin 1 else Fin 0)" if "a < n" for a
    using that by (simp add: one_hot_def)
  have kn: "k < n" using index_order.min_by_in [of "one_hot n i" j js] by (simp add: k_def mem)
  have "\<not> flt (one_hot n i ! k) (one_hot n i ! i)"
    unfolding k_def
  proof (rule index_order.min_by_least)
    have ok: "one_hot n i ! a \<noteq> NaN" if "a \<in> insert j (set js)" for a
    proof -
      have "a < n" using that unfolding mem by simp
      then show ?thesis by (simp add: nth)
    qed
    show "one_hot n i ! j \<noteq> NaN" by (rule ok) simp
    show "one_hot n i ! y \<noteq> NaN" if "y \<in> set js" for y by (rule ok) (simp add: that)
    show "i \<in> insert j (set js)" using assms by (simp add: mem)
  qed
  then have "k = i" using nth [OF kn] nth [OF assms] by (auto simp: flt_def split: if_splits)
  then show ?thesis using k by simp
qed

lemma find_index_nth: "distinct cs \<Longrightarrow> v \<in> set cs \<Longrightarrow> \<exists>i < length cs. find_index (\<lambda>c. c = v) cs = Some i \<and> cs ! i = v"
  by (induction cs) auto

lemma choice_scalar_supported: "scalar_json v \<Longrightarrow> require_supported_choice v = Inr w \<Longrightarrow> w = v"
  by (auto simp: require_supported_choice_def return_iff split: if_splits)

subsection \<open>Omitting inactive parameters\<close>

lemma fold_keep_active:
  assumes "distinct (map p_name ps)"
  shows "map_of (fold (keep_active values) ps out) c =
    (if \<exists>p\<in>set ps. p_name p = c \<and> is_parameter_active p values \<and> has_key values c then map_of values c else map_of out c)"
  using assms
proof (induction ps arbitrary: out)
  case (Cons p ps)
  then have "c \<in> p_name ` set ps \<Longrightarrow> p_name p \<noteq> c" by auto
  with Cons show ?case by (auto simp: keep_active_def split: option.splits)
qed simp

lemma canonicalize_map_of:
  assumes "params_wf params" "distinct (map fst values)" "canonicalize_conditional_params values params = Inr out"
  shows "map_of out c =
    (if c \<in> p_name ` set params \<and> \<not> (\<exists>p\<in>set params. p_name p = c \<and> is_parameter_active p values) then None
     else map_of values c)"
proof -
  obtain ps where ps: "ordered_parameters params = Inr ps"
    and out: "out = fold (\<lambda>(k, v) out. if List.member (map p_name params) k then out else dset k v out) values
        (fold (keep_active values) ps [])"
    using assms(3) by (auto simp: canonicalize_conditional_params_def omit_inactive_params_def return_iff)
  note o = params_wf_ordered [OF assms(1) ps]
  have ext: "map_of (fold (\<lambda>(k, v) out. if List.member (map p_name params) k then out else dset k v out) vs e) c =
      (if c \<in> p_name ` set params then map_of e c else case map_of vs c of None \<Rightarrow> map_of e c | Some v \<Rightarrow> Some v)"
    if "distinct (map fst vs)" for vs e
    using that
  proof (induction vs arbitrary: e)
    case (Cons kv vs)
    obtain k v where kv: "kv = (k, v)" by (cases kv)
    have "map_of vs k = None" using Cons.prems by (simp add: kv map_of_eq_None_iff)
    with Cons show ?case by (auto simp: kv split: option.splits)
  qed simp
  show ?thesis unfolding out ext [OF assms(2)] fold_keep_active [OF o(4)] o(3)
    by (auto split: option.splits)
qed

lemma canonicalize_again:
  assumes "params_wf params" "distinct (map fst values)"
    and "list_all (\<lambda>p. has_key values (p_name p) \<longrightarrow> is_parameter_active p values) params"
  shows "\<exists>out. canonicalize_conditional_params values params = Inr out \<and> map_of out = map_of values"
proof -
  obtain ps where "ordered_parameters params = Inr ps" using params_wf_order_ok [OF assms(1)] by blast
  then obtain out where out: "canonicalize_conditional_params values params = Inr out"
    by (auto simp: canonicalize_conditional_params_def omit_inactive_params_def)
  have "map_of out c = map_of values c" for c
    using assms(3) by (auto simp: canonicalize_map_of [OF assms(1,2) out] list_all_iff has_key_iff dest: bspec)
  with out show ?thesis by blast
qed

text \<open>C32: the canonical form of a point keeps the value of every parameter that is active in the
  point and of every unknown key, and nothing else.\<close>

theorem canonicalize_exact:
  assumes "params_wf params" "distinct (map fst values)" "canonicalize_conditional_params values params = Inr out"
  shows "map_of out c =
    (if c \<in> p_name ` set params \<and> \<not> (\<exists>p\<in>set params. p_name p = c \<and> is_parameter_active p values) then None
     else map_of values c)"
  by (rule canonicalize_map_of [OF assms])

subsection \<open>Concrete instances\<close>

definition example_space :: jdict where
  "example_space = [(''parameters'', JArr [
     JObj [(''name'', JStr ''depth''), (''type'', JStr ''int''), (''bounds'', JArr [JInt 1, JInt 8]),
           (''when'', JObj [(''kind'', JStr ''tree'')])],
     JObj [(''name'', JStr ''kind''), (''type'', JStr ''categorical''), (''choices'', JArr [JStr ''tree'', JStr ''net'']),
           (''when'', JObj [(''tuned'', JArr [JBool True])])],
     JObj [(''name'', JStr ''tuned''), (''type'', JStr ''bool'')]])]"

definition param_of :: "string \<Rightarrow> pdomain \<Rightarrow> condition option \<Rightarrow> param" where
  "param_of n dm w = \<lparr>p_name = n, p_dom = dm, p_when = w, p_description = None\<rparr>"

definition example_params :: "param list" where
  "example_params =
     [param_of ''depth'' (IntDom 1 8 Linear) (Some [(''kind'', [JStr ''tree''])]),
      param_of ''kind'' (CatDom [JStr ''tree'', JStr ''net'']) (Some [(''tuned'', [JBool True])]),
      param_of ''tuned'' BoolDom None]"

lemma example_space_normal: "normalize_search_space example_space = Inr example_params"
  by code_simp

lemma example_params_wf: "params_wf example_params"
  unfolding params_wf_def
proof (intro conjI)
  show "\<forall>p\<in>set example_params. p_name p \<noteq> [] \<and> domain_wf (p_dom p) \<and>
         (\<forall>w. p_when p = Some w \<longrightarrow> w \<noteq> [] \<and> list_all (condition_wf example_params p) w)"
    by (simp add: example_params_def param_of_def condition_wf_def)
qed code_simp+

theorem normalize_search_space_wf_witness:
  "normalize_search_space example_space = Inr example_params \<and> params_wf example_params"
  using normalize_search_space_wf [OF example_space_normal] example_space_normal by blast

theorem ordered_parameters_complete_witness:
  "\<exists>ps. ordered_parameters example_params = Inr ps \<and> mset ps = mset example_params \<and> topological ps"
  by (rule ordered_parameters_complete [OF example_params_wf])

theorem dependency_check_exact_witness:
  "\<not> res_ok (visit_all [param_of ''a'' BoolDom (Some [(''b'', [JBool True])]), param_of ''b'' BoolDom (Some [(''a'', [JBool True])])])
   \<and> \<not> acyclic (dep_edges (dependencies
       [param_of ''a'' BoolDom (Some [(''b'', [JBool True])]), param_of ''b'' BoolDom (Some [(''a'', [JBool True])])]))"
    (is "\<not> res_ok (visit_all ?ps) \<and> _")
proof -
  have "res_ok (visit_all ?ps) \<longleftrightarrow> acyclic (dep_edges (dependencies ?ps))"
    by (rule dependency_check_exact) (simp_all add: param_of_def controllers_def)
  moreover have "\<not> res_ok (visit_all ?ps)" by code_simp
  ultimately show ?thesis by blast
qed

text \<open>A generator that always draws the middle of the unit interval and the last index.\<close>

definition last_rng :: "unit rng_ops" where
  "last_rng = \<lparr>unit_draw = (\<lambda>r. (Fin (1 / 2), r)), below_draw = (\<lambda>n r. (n - 1, r))\<rparr>"

definition first_rng :: "unit rng_ops" where
  "first_rng = \<lparr>unit_draw = (\<lambda>r. (Fin (1 / 2), r)), below_draw = (\<lambda>n r. (0, r))\<rparr>"

definition id_math :: math_ops where
  "id_math = \<lparr>m_log = id, m_exp = id, m_sqrt = id\<rparr>"


theorem normalize_point_shape_witness: "length [Fin 1, Fin 0, Fin 1, Fin 0] = sum_list (map encoded_size example_params)"
proof -
  have "normalize_numeric_point id_math [(''tuned'', JBool True), (''kind'', JStr ''net'')] example_params
      = Inr [Fin 1, Fin 0, Fin 1, Fin 0]" by code_simp
  from normalize_point_shape [OF example_params_wf this] show ?thesis by simp
qed

definition discrete_params :: "param list" where
  "discrete_params = tl example_params"

lemma discrete_params_wf: "params_wf discrete_params"
  unfolding params_wf_def
proof (intro conjI)
  show "\<forall>p\<in>set discrete_params. p_name p \<noteq> [] \<and> domain_wf (p_dom p) \<and>
         (\<forall>w. p_when p = Some w \<longrightarrow> w \<noteq> [] \<and> list_all (condition_wf discrete_params p) w)"
    by (simp add: discrete_params_def example_params_def param_of_def condition_wf_def)
qed code_simp+

theorem canonicalize_exact_witness:
  "map_of [(''tuned'', JBool False), (''note'', JStr ''x'')] ''kind'' = None"
proof -
  have "canonicalize_conditional_params
      [(''note'', JStr ''x''), (''kind'', JStr ''net''), (''tuned'', JBool False)] discrete_params
      = Inr [(''tuned'', JBool False), (''note'', JStr ''x'')]" by code_simp
  from canonicalize_exact [OF discrete_params_wf _ this, of "''kind''"] show ?thesis
    by (simp add: discrete_params_def example_params_def param_of_def is_parameter_active_def)
qed

text \<open>
  The activity test of \<open>omit_inactive_params\<close> reads the original values, so a parameter is
  kept although its controller was omitted.
\<close>

lemma omit_inactive_keeps_orphan:
  "omit_inactive_params [(''tuned'', JBool False), (''kind'', JStr ''tree''), (''depth'', JInt 3)] example_params =
     Inr [(''tuned'', JBool False), (''depth'', JInt 3)]"
  by code_simp

end
