(* ===== verification/SpacePoints.thy ===== *)
theory SpacePoints
  imports SearchSpace FloatRanges
begin

text \<open>
  Points of a parameter space, against the domains of their parameters: what the sampler draws,
  what a vector decodes to and when decoding inverts encoding. A float value is compared with its
  bounds as floats, so the rounding of the code is part of each statement; the values \<open>math.log\<close>
  and \<open>math.exp\<close> return are parameters.
\<close>

definition respects_space :: "param list \<Rightarrow> jdict \<Rightarrow> bool" where
  "respects_space params vec = (fst ` set vec \<subseteq> p_name ` set params \<and>
     (\<forall>p\<in>set params. (has_key vec (p_name p) \<longleftrightarrow> is_parameter_active p vec) \<and>
        (\<forall>v. map_of vec (p_name p) = Some v \<longrightarrow> value_in_domain (p_dom p) v)))"

text \<open>
  The bounds are binary64 values whose difference is finite (\<open>hi - lo\<close> of two floats can overflow),
  and on a log scale so are the logarithms of the bounds, in order.
\<close>

definition float_interval :: "pyfloat \<Rightarrow> pyfloat \<Rightarrow> bool" where
  "float_interval lo hi = (fwf lo \<and> fwf hi \<and> is_finite lo \<and> is_finite hi \<and> fle lo hi \<and> is_finite (fsub hi lo))"

fun domain_floats_ok :: "math_ops \<Rightarrow> pdomain \<Rightarrow> bool" where
  "domain_floats_ok m (FloatDom lo hi Linear) = float_interval lo hi"
| "domain_floats_ok m (FloatDom lo hi Log) = float_interval (m_log m lo) (m_log m hi)"
| "domain_floats_ok m _ = True"

subsection \<open>Sampling\<close>

text \<open>A value of a log scale is the exponential of a value between the logarithms of the bounds.\<close>

fun sampled_in :: "math_ops \<Rightarrow> pdomain \<Rightarrow> json \<Rightarrow> bool" where
  "sampled_in m (FloatDom lo hi Log) v =
     (\<exists>x a b y. v = JFloat x \<and> py_log m lo = Inr a \<and> py_log m hi = Inr b \<and> fle a y \<and> fle y b \<and> py_exp m y = Inr x)"
| "sampled_in m (FloatDom lo hi Linear) v = (\<exists>x. v = JFloat x \<and> fle lo x \<and> fle x hi)"
| "sampled_in m dm v = value_in_domain dm v"

lemma uniform_between:
  assumes "float_interval lo hi" "rng_ok g" "uniform g lo hi r = (x, r')"
  shows "fle lo x \<and> fle x hi"
proof -
  obtain u where u: "unit_draw g r = (u, r')" and x: "x = fadd lo (fmul (fsub hi lo) u)"
    using assms(3) by (auto simp: uniform_def split: prod.splits)
  from rng_unit [OF assms(2) u] assms(1) show ?thesis unfolding x float_interval_def by (auto intro: scaled_between)
qed

lemma sample_domain_in:
  assumes "sample_domain g m dm r = Inr (v, r')" "rng_ok g" "domain_wf dm" "domain_floats_ok m dm"
  shows "sampled_in m dm v"
proof (cases dm)
  case (IntDom lo hi s)
  with assms show ?thesis
    by (cases s) (auto simp: sample_domain_def return_iff clamp_int_range dest: randint_range)
next
  case (CatDom cs)
  with assms obtain k where "v = cs ! k" "0 < length cs" "below_draw g (length cs) r = (k, r')"
    by (auto simp: sample_domain_def randrange_def return_iff split: if_splits prod.splits)
  moreover from this have "k < length cs" using assms(2) by (metis fst_conv rng_ok_def)
  ultimately show ?thesis by (simp add: CatDom)
next
  case (FloatDom lo hi s)
  show ?thesis
  proof (cases s)
    case Linear
    obtain x t where u: "uniform g lo hi r = (x, t)" by (cases "uniform g lo hi r")
    then have "v = JFloat x" using assms(1) by (simp add: sample_domain_def FloatDom Linear)
    with uniform_between [OF _ assms(2) u] assms(4) show ?thesis by (simp add: FloatDom Linear)
  next
    case Log
    then obtain x a b y where x: "v = JFloat x" "py_log m lo = Inr a" "py_log m hi = Inr b" "py_exp m y = Inr x"
      and u: "uniform g a b r = (y, r')"
      using assms(1) unfolding sample_domain_def FloatDom Log sample_log_scaled_def
      by (simp add: return_iff case_prod_unfold Let_def) (metis prod.collapse)
    then have "a = m_log m lo" "b = m_log m hi" by (auto simp: py_log_def split: if_splits)
    with uniform_between [OF _ assms(2) u] assms(4) have "fle a y \<and> fle y b" by (simp add: FloatDom Log)
    with x show ?thesis by (auto simp: FloatDom Log)
  qed
next
  case BoolDom
  with assms show ?thesis by (auto simp: sample_domain_def return_iff)
qed


subsection \<open>Decoding\<close>

text \<open>
  The unit 1 decodes to the rounding of \<open>lo + (hi - lo)\<close>, which can be the float above \<open>hi\<close>; every
  other float of a linear scale is between its bounds.
\<close>

definition up_to :: "pyfloat \<Rightarrow> pyfloat \<Rightarrow> pyfloat \<Rightarrow> bool" where
  "up_to lo hi x = (fle lo x \<and> (fle x hi \<or> x = fadd lo (fsub hi lo)))"

fun decoded_in :: "math_ops \<Rightarrow> pdomain \<Rightarrow> json \<Rightarrow> bool" where
  "decoded_in m (FloatDom lo hi Log) v =
     (\<exists>x a b. v = JFloat x \<and> py_log m lo = Inr a \<and> py_log m hi = Inr b \<and>
        (x = lo \<or> (\<exists>y. up_to a b y \<and> py_exp m y = Inr x)))"
| "decoded_in m (FloatDom lo hi Linear) v = (\<exists>x. v = JFloat x \<and> up_to lo hi x)"
| "decoded_in m dm v = value_in_domain dm v"

lemma clamp_unit_fwf: "fwf x \<Longrightarrow> fwf (clamp_unit_interval x)"
  by (auto simp: clamp_unit_interval_def py_min_def py_max_def float_limit_def)

lemma scaled_up_to:
  assumes "float_interval lo hi" "fwf z"
  shows "up_to lo hi (fadd lo (fmul (clamp_unit_interval z) (fsub hi lo)))"
proof -
  have "unit_value (clamp_unit_interval z)" "fwf (clamp_unit_interval z)"
    using clamp_unit_value clamp_unit_fwf [OF assms(2)] by auto
  with assms(1) show ?thesis
    unfolding up_to_def fmul_commute [of _ "fsub hi lo"] float_interval_def unit_value_def
    using scaled_between by blast
qed

lemma decode_value_in:
  assumes "decode_value m dm seg = Inr v" "domain_wf dm" "domain_floats_ok m dm" "list_all fwf seg"
  shows "decoded_in m dm v"
proof (cases dm)
  case (IntDom lo hi s)
  with assms show ?thesis
    by (auto simp: decode_value_def denormalize_numeric_value_def return_iff clamp_int_range split: list.splits)
next
  case (CatDom cs)
  with assms obtain i where i: "argmax seg = Inr i" "v = cs ! i" "length seg = length cs"
    by (auto simp: decode_value_def return_iff split: if_splits)
  then obtain j js where js: "[0..<length seg] = j # js" "i = min_by (\<lambda>a b. flt (seg ! b) (seg ! a)) j js"
    by (auto simp: argmax_def split: list.splits)
  then have "i \<in> set [0..<length seg]" using index_order.min_by_in [of seg j js] unfolding js by simp
  then show ?thesis using i CatDom by simp
next
  case (FloatDom lo hi s)
  with assms(1,4) obtain z raw where v: "v = JFloat raw" "fwf z"
    and raw: "denormalize_scaled m lo hi s (clamp_unit_interval z) = Inr raw"
    by (auto simp: decode_value_def denormalize_numeric_value_def return_iff Let_def split: list.splits)
  show ?thesis
  proof (cases s)
    case Linear
    with FloatDom assms(3) have ok: "float_interval lo hi" by simp
    then have "up_to lo hi lo" by (auto simp: up_to_def float_interval_def fle_refl)
    with raw scaled_up_to [OF ok v(2)] show ?thesis
      by (auto simp: FloatDom Linear denormalize_scaled_def v(1) split: if_splits)
  next
    case Log
    then obtain a b where ab: "py_log m lo = Inr a" "py_log m hi = Inr b"
      and r: "(if flt (fabs (fsub b a)) eps12 then Inr lo else py_exp m (fadd a (fmul (clamp_unit_interval z) (fsub b a)))) = Inr raw"
      using raw by (auto simp: denormalize_scaled_def return_iff)
    then have "a = m_log m lo" "b = m_log m hi" by (auto simp: py_log_def split: if_splits)
    then have "up_to a b (fadd a (fmul (clamp_unit_interval z) (fsub b a)))"
      using scaled_up_to [OF _ v(2)] assms(3) by (simp add: FloatDom Log)
    with ab r show ?thesis by (auto simp: FloatDom Log v(1) split: if_splits)
  qed
next
  case BoolDom
  with assms show ?thesis by (auto simp: decode_value_def split: list.splits)
qed


subsection \<open>Round trip of discrete points\<close>

text \<open>Booleans, categories and linear integers of magnitude at most \<open>2 ^ 49\<close>.\<close>

fun discrete_domain :: "pdomain \<Rightarrow> bool" where
  "discrete_domain (IntDom lo hi s) = (s = Linear \<and> \<bar>lo\<bar> \<le> 2 ^ 49 \<and> \<bar>hi\<bar> \<le> 2 ^ 49)"
| "discrete_domain (FloatDom _ _ _) = False"
| "discrete_domain _ = True"

lemma fabs_value [simp]: "is_finite a \<Longrightarrow> is_finite (fabs a)" "is_finite a \<Longrightarrow> fval (fabs a) = \<bar>fval a\<bar>"
  by (cases a; simp)+

lemma round_float_finite: "is_finite x \<Longrightarrow> round_float x = Inr (round_half_even (fval x))"
  by (cases x) auto

lemma clamp_unit_same:
  assumes "is_finite x" "0 \<le> fval x" "fval x \<le> 1"
  shows "is_finite (clamp_unit_interval x) \<and> fval (clamp_unit_interval x) = fval x"
  using assms by (cases x) (auto simp: clamp_unit_interval_def py_min_def py_max_def flt_def)

lemma fsub_of_int:
  assumes "\<bar>i\<bar> \<le> 2 ^ 49" "\<bar>j\<bar> \<le> (2 :: int) ^ 49"
  shows "is_finite (fsub (Fin (of_int i)) (Fin (of_int j))) \<and> fval (fsub (Fin (of_int i)) (Fin (of_int j))) = of_int (i - j)"
proof -
  have b: "\<bar>i - j\<bar> < 2 ^ 53" using assms by simp
  then have "(of_int \<bar>i - j\<bar> :: rat) \<le> of_int (2 ^ 53)" by (simp only: of_int_le_iff)
  then have "\<bar>of_int (i - j) :: rat\<bar> \<le> 2 ^ 53" by simp
  from mk_float_small [OF this] rnd_of_int [OF b] show ?thesis by (simp add: fsub_finite)
qed

lemma decode_encode_integer:
  assumes "\<bar>lo\<bar> \<le> 2 ^ 49" "\<bar>hi\<bar> \<le> 2 ^ 49" "lo \<le> n" "n \<le> hi" "encode_value m (IntDom lo hi Linear) (JInt n) = Inr xs"
  shows "decode_value m (IntDom lo hi Linear) xs = Inr (JInt n)"
proof -
  have nb: "\<bar>n\<bar> \<le> 2 ^ 49" using assms(1-4) by linarith
  have f: "float_of_int i = Inr (Fin (of_int i))" if "\<bar>i\<bar> \<le> 2 ^ 49" for i :: int
    using that by (intro float_of_int_small) simp
  have f: "float_of_int lo = Inr (Fin (of_int lo))" "float_of_int hi = Inr (Fin (of_int hi))" "float_of_int n = Inr (Fin (of_int n))"
    using f assms(1,2) nb by blast+
  define S where "S = fsub (Fin (of_int hi)) (Fin (of_int lo))"
  define X where "X = fsub (Fin (of_int n)) (Fin (of_int lo))"
  have S: "is_finite S" "fval S = of_int (hi - lo)" and X: "is_finite X" "fval X = of_int (n - lo)"
    unfolding S_def X_def using fsub_of_int assms(1,2) nb by blast+
  show ?thesis
  proof (cases "lo = hi")
    case True
    then have "flt (fabs S) eps12" using S by (simp add: flt_def fkey_finite eps12_def)
    then have "xs = [Fin 0]"
      using assms(5) by (simp add: encode_value_def normalize_numeric_value_def normalize_scaled_def is_integral_def float_is_integer_def f S_def Let_def)
    moreover have "round_float (Fin (of_int lo)) = Inr lo" "lo = n" using True assms(3,4) by simp_all
    ultimately show ?thesis using \<open>flt (fabs S) eps12\<close> assms(3,4) unfolding S_def
      by (simp add: decode_value_def denormalize_numeric_value_def denormalize_scaled_def f Let_def clamp_int_def)
  next
    case False
    then have lt: "lo < hi" using assms(3,4) by linarith
    define u where "u = rnd (of_int (n - lo) / of_int (hi - lo))"
    define z where "z = mk_float (sign_bit X \<noteq> sign_bit S) (fval X / fval S)"
    note err = integer_scaling_error [OF assms(1-4) lt, folded u_def]
    have "(1 :: rat) \<le> of_int (hi - lo)" using lt by (simp only: of_int_1_le_iff)
    then have big: "\<not> flt (fabs S) eps12" "fval S \<noteq> 0" using S by (auto simp: flt_def fkey_finite eps12_def)
    have "(0 :: rat) \<le> of_int (n - lo)" "(of_int (n - lo) :: rat) \<le> of_int (hi - lo)"
      using assms(3,4) by (simp_all only: of_int_le_iff of_int_0_le_iff)
    then have "0 \<le> fval X / fval S" "fval X / fval S \<le> 1" using \<open>1 \<le> of_int (hi - lo)\<close> unfolding S(2) X(2) by simp_all
    moreover have "(1 :: rat) \<le> 2 ^ 53" by simp
    ultimately have "\<bar>fval X / fval S\<bar> \<le> 2 ^ 53" by linarith
    then have z: "is_finite z" "fval z = u" unfolding z_def u_def using mk_float_small S(2) X(2) by (blast, simp)
    have xs: "xs = [clamp_unit_interval z]"
      using assms(5) big by (simp add: encode_value_def normalize_numeric_value_def normalize_scaled_def is_integral_def float_is_integer_def f
          S_def [symmetric] X_def [symmetric] Let_def fdiv_def S X z_def)
    define c where "c = clamp_unit_interval (clamp_unit_interval z)"
    have c: "is_finite c" "fval c = u" using z err(1,2) clamp_unit_same unfolding c_def by auto
    define P where "P = fmul c S"
    have P: "is_finite P" "fval P = rnd (u * of_int (hi - lo))"
      unfolding P_def fmul_finite [OF c(1) S(1)] c(2) S(2) using err(3) by (auto intro!: mk_float_small)
    define R where "R = fadd (Fin (of_int lo)) P"
    have R: "is_finite R" "fval R = rnd (of_int lo + rnd (u * of_int (hi - lo)))"
      unfolding R_def using err(4) P by (auto simp: fadd_finite intro!: mk_float_small)
    have "round_float R = Inr n" using R err(5) by (simp add: round_float_finite)
    then show ?thesis using big assms(3,4)
      by (simp add: xs decode_value_def denormalize_numeric_value_def denormalize_scaled_def f Let_def
          S_def [symmetric] c_def [symmetric] P_def [symmetric] R_def [symmetric] clamp_int_def)
  qed
qed

lemma decode_encode_value:
  assumes "discrete_domain dm" "domain_wf dm" "value_in_domain dm v" "encode_value m dm v = Inr xs"
  shows "decode_value m dm xs = Inr v"
proof (cases dm)
  case (IntDom lo hi s)
  then obtain n where "v = JInt n" "lo \<le> n" "n \<le> hi" using assms(3) by (cases v) auto
  with assms(1,4) IntDom show ?thesis using decode_encode_integer [of lo hi n m xs] by simp
next
  case BoolDom
  with assms obtain b where "v = JBool b" "xs = [if b then Fin 1 else Fin 0]"
    by (cases v) (auto simp: encode_value_def)
  then show ?thesis
    by (cases b) (auto simp: BoolDom decode_value_def clamp_unit_interval_def py_min_def py_max_def flt_def fle_def)
next
  case (CatDom cs)
  then obtain i where i: "i < length cs" "find_index (\<lambda>c. c = v) cs = Some i" "cs ! i = v"
    using assms find_index_nth [of cs v] by auto
  obtain w where "require_supported_choice v = Inr w" using assms(4) by (auto simp: CatDom encode_value_def categorical_choice_index_def return_iff)
  moreover from this have "w = v" using assms choice_scalar_supported [of v w] by (auto simp: CatDom list_all_iff)
  ultimately have "xs = one_hot (length cs) i" using assms(4) i by (auto simp: CatDom encode_value_def categorical_choice_index_def)
  then show ?thesis using i by (simp add: CatDom decode_value_def argmax_one_hot)
qed (use assms(1) in simp)

lemma decode_encode_fold:
  assumes "mapE (encode_param m vec) qs = Inr xss" "vals = pre @ concat xss @ post"
    and "\<And>c. c \<in> p_name ` set ps \<Longrightarrow> map_of out c = map_of vec c" "fst ` set out \<subseteq> p_name ` set ps"
    and "topological (ps @ qs)" "distinct (map p_name (ps @ qs))"
    and "\<And>q. q \<in> set qs \<Longrightarrow> (has_key vec (p_name q) \<longleftrightarrow> is_parameter_active q vec) \<and> discrete_domain (p_dom q) \<and>
           domain_wf (p_dom q) \<and> (\<forall>v. map_of vec (p_name q) = Some v \<longrightarrow> value_in_domain (p_dom q) v)"
  shows "\<exists>out'. foldE (decode_param m vals) qs (out, length pre) = Inr (out', length pre + length (concat xss)) \<and>
     (\<forall>c\<in>p_name ` set (ps @ qs). map_of out' c = map_of vec c) \<and> fst ` set out' \<subseteq> p_name ` set (ps @ qs)"
  using assms
proof (induction qs arbitrary: ps out pre xss)
  case (Cons q qs)
  obtain x yss where x: "encode_param m vec q = Inr x" and yss: "mapE (encode_param m vec) qs = Inr yss"
    and xss: "xss = x # yss" using Cons.prems(1) by (auto simp: return_iff)
  have q: "has_key vec (p_name q) \<longleftrightarrow> is_parameter_active q vec" "discrete_domain (p_dom q)" "domain_wf (p_dom q)"
    "\<And>v. map_of vec (p_name q) = Some v \<Longrightarrow> value_in_domain (p_dom q) v"
    using Cons.prems(7) by auto
  have fresh: "p_name q \<notin> p_name ` set ps" using Cons.prems(6) by auto
  have top: "topological (ps @ [q])" using topological_prefix [of "ps @ [q]" qs] Cons.prems(5) by simp
  have act: "is_parameter_active q out = is_parameter_active q vec"
    using top Cons.prems(3) by (intro active_cong) (auto simp: topological_snoc)
  have lenx: "length x = encoded_size q" using encode_param_shape [OF x] by simp
  have seg: "take (encoded_size q) (drop (length pre) vals) = x"
    by (simp add: Cons.prems(2) xss lenx [symmetric])
  have none: "map_of out (p_name q) = None" using Cons.prems(4) fresh by (auto simp: map_of_eq_None_iff)
  obtain u where u: "decode_param m vals q (out, length pre) = Inr (u, length (pre @ x))"
    and us: "\<And>c. c \<in> p_name ` set (ps @ [q]) \<Longrightarrow> map_of u c = map_of vec c" "fst ` set u \<subseteq> p_name ` set (ps @ [q])"
  proof (cases "is_parameter_active q vec")
    case False
    have dp: "decode_param m vals q (out, length pre) = Inr (out, length (pre @ x))"
      using False act lenx by (simp add: decode_param_def)
    have "map_of out c = map_of vec c" if "c \<in> p_name ` set (ps @ [q])" for c
      using that Cons.prems(3) none q(1) False by auto
    moreover have "fst ` set out \<subseteq> p_name ` set (ps @ [q])" using Cons.prems(4) by auto
    ultimately show ?thesis using that dp by blast
  next
    case True
    then obtain v where v: "map_of vec (p_name q) = Some v" using q(1) by auto
    then have "encode_value m (p_dom q) v = Inr x" using x True by (simp add: encode_param_def return_iff)
    with decode_encode_value q v have "decode_value m (p_dom q) x = Inr v" by blast
    then have dp: "decode_param m vals q (out, length pre) = Inr (dset (p_name q) v out, length (pre @ x))"
      using True act seg lenx by (simp add: decode_param_def)
    have "map_of (dset (p_name q) v out) c = map_of vec c" if "c \<in> p_name ` set (ps @ [q])" for c
      using that Cons.prems(3) v by auto
    moreover have "fst ` set (dset (p_name q) v out) \<subseteq> p_name ` set (ps @ [q])" using Cons.prems(4) by auto
    ultimately show ?thesis using that dp by blast
  qed
  have "\<exists>out'. foldE (decode_param m vals) qs (u, length (pre @ x)) = Inr (out', length (pre @ x) + length (concat yss)) \<and>
     (\<forall>c\<in>p_name ` set ((ps @ [q]) @ qs). map_of out' c = map_of vec c) \<and> fst ` set out' \<subseteq> p_name ` set ((ps @ [q]) @ qs)"
    by (rule Cons.IH [OF yss _ us]) (use Cons.prems(2,5-7) xss in auto)
  then show ?case using u by (auto simp: xss add.assoc)
qed auto

text \<open>C31: decoding inverts encoding on discrete spaces, of boolean, categorical and linear integer
  parameters with bounds of magnitude at most \<open>2 ^ 49\<close>: for a point that respects the space, the
  decoded point has exactly the same assignments, conditional parameters included, although an
  integer passes through a rounded unit float.\<close>

theorem encode_decode_roundtrip:
  assumes "params_wf params" "\<forall>p\<in>set params. discrete_domain (p_dom p)" "respects_space params vec"
    and "normalize_numeric_point m vec params = Inr xs"
  shows "\<exists>out. denormalize_numeric_point m xs params = Inr out \<and> map_of out = map_of vec"
proof -
  obtain ps xss where ps: "ordered_parameters params = Inr ps" and e: "mapE (encode_param m vec) ps = Inr xss"
    and xs: "xs = concat xss"
    using assms(4) by (auto simp: normalize_numeric_point_def return_iff)
  note o = params_wf_ordered [OF assms(1) ps]
  have "\<exists>out. foldE (decode_param m xs) ps ([], length ([] :: pyfloat list)) =
      Inr (out, length ([] :: pyfloat list) + length (concat xss)) \<and>
     (\<forall>c\<in>p_name ` set ([] @ ps). map_of out c = map_of vec c) \<and> fst ` set out \<subseteq> p_name ` set ([] @ ps)"
  proof (rule decode_encode_fold [OF e])
    show "xs = [] @ concat xss @ []" by (simp add: xs)
    fix q assume "q \<in> set ps"
    then show "(has_key vec (p_name q) \<longleftrightarrow> is_parameter_active q vec) \<and> discrete_domain (p_dom q) \<and>
           domain_wf (p_dom q) \<and> (\<forall>v. map_of vec (p_name q) = Some v \<longrightarrow> value_in_domain (p_dom q) v)"
      using assms(1-3) o(3) by (auto simp: params_wf_def respects_space_def)
  qed (use o in auto)
  then obtain out where out: "foldE (decode_param m xs) ps ([], 0) = Inr (out, length xs)"
    "\<forall>c\<in>p_name ` set ps. map_of out c = map_of vec c" "fst ` set out \<subseteq> p_name ` set ps"
    by (auto simp: xs)
  have "map_of out c = map_of vec c" for c
  proof (cases "c \<in> p_name ` set ps")
    case False
    then have "map_of out c = None" "map_of vec c = None"
      using out(3) assms(3) o(3) by (auto simp: respects_space_def map_of_eq_None_iff)
    then show ?thesis by simp
  qed (use out(2) in blast)
  then show ?thesis using ps out(1) by (auto simp: denormalize_numeric_point_def)
qed

subsection \<open>Concrete instances\<close>

text \<open>A linear float, a log-scaled float and a conditional integer beside a switch.\<close>

definition point_params :: "param list" where
  "point_params =
     [param_of ''depth'' (IntDom (- 3) 8 Linear) (Some [(''deep'', [JBool True])]),
      param_of ''deep'' BoolDom None,
      param_of ''rate'' (FloatDom (Fin (1 / 2)) (Fin 4) Log) None,
      param_of ''width'' (FloatDom (Fin (- 1)) (Fin 3) Linear) None]"

lemma point_params_wf: "params_wf point_params"
  unfolding params_wf_def
proof (intro conjI)
  show "\<forall>p\<in>set point_params. p_name p \<noteq> [] \<and> domain_wf (p_dom p) \<and>
         (\<forall>w. p_when p = Some w \<longrightarrow> w \<noteq> [] \<and> list_all (condition_wf point_params p) w)"
    by (simp add: point_params_def param_of_def condition_wf_def fle_def flt_def)
qed code_simp+

text \<open>Any logarithm with the values \<open>-1\<close> at \<open>1/2\<close> and \<open>2\<close> at \<open>4\<close> serves: here a linear one.\<close>

definition line_math :: math_ops where
  "line_math = \<lparr>m_log = (\<lambda>x. if x = Fin (1 / 2) then Fin (- 1) else Fin 2), m_exp = (\<lambda>y. fadd y (Fin 2)), m_sqrt = id\<rparr>"

lemma point_floats_ok: "\<forall>p\<in>set point_params. domain_floats_ok line_math (p_dom p)"
proof -
  have "float_interval (Fin (- 1)) (Fin 2)" "float_interval (Fin (- 1)) (Fin 3)" unfolding float_interval_def by code_simp+
  then show ?thesis by (simp add: point_params_def param_of_def line_math_def)
qed

definition point_sample :: jdict where
  "point_sample = [(''deep'', JBool True), (''depth'', JInt 8), (''rate'', JFloat (Fin (5 / 2))), (''width'', JFloat (Fin 1))]"

lemma last_rng_ok: "rng_ok last_rng"
proof -
  have "fwf (Fin (1 / 2))" by code_simp
  then show ?thesis by (simp add: rng_ok_def last_rng_def)
qed


definition point_vector :: "pyfloat list" where
  "point_vector = [Fin 1, Fin (1 / 2), Fin (1 / 2), Fin (7 / 4)]"

definition point_decoded :: jdict where
  "point_decoded = [(''deep'', JBool True), (''depth'', JInt 2), (''rate'', JFloat (Fin (5 / 2))), (''width'', JFloat (Fin 3))]"


text \<open>The value 2 of \<open>1..8\<close> is encoded as the rounding of \<open>1/7\<close>.\<close>

theorem encode_decode_roundtrip_witness:
  "\<exists>xs out. normalize_numeric_point id_math [(''depth'', JInt 2), (''kind'', JStr ''tree''), (''tuned'', JBool True)] example_params = Inr xs \<and>
     denormalize_numeric_point id_math xs example_params = Inr out \<and>
     map_of out = map_of [(''depth'', JInt 2), (''kind'', JStr ''tree''), (''tuned'', JBool True)]"
proof -
  let ?v = "[(''depth'', JInt 2), (''kind'', JStr ''tree''), (''tuned'', JBool True)]"
  have r: "respects_space example_params ?v"
    by (simp add: respects_space_def example_params_def param_of_def is_parameter_active_def)
  have d: "\<forall>p\<in>set example_params. discrete_domain (p_dom p)" by (simp add: example_params_def param_of_def)
  have "res_ok (normalize_numeric_point id_math ?v example_params)" by code_simp
  then obtain xs where xs: "normalize_numeric_point id_math ?v example_params = Inr xs" by (elim res_okE)
  obtain out where "denormalize_numeric_point id_math xs example_params = Inr out \<and> map_of out = map_of ?v"
    by (rule exE [OF encode_decode_roundtrip [OF example_params_wf d r xs]])
  with xs show ?thesis by (intro exI [of _ xs] exI [of _ out] conjI) (simp_all only:)
qed

text \<open>
  The exception in C30 occurs: the bounds \<open>-1\<close> and \<open>1.5 * 2 ^ -53\<close> are floats, their difference
  rounds up, and the unit 1 decodes to a float above the upper bound.
\<close>

lemma mk_float_within:
  "rnd q = r \<Longrightarrow> \<bar>r\<bar> \<le> 2 ^ 53 \<Longrightarrow> r \<noteq> 0 \<Longrightarrow> mk_float s q = Fin r"
  using pow53_less_limit by (auto simp: mk_float_def Let_def abs_le_iff)

lemma decode_above_bound:
  "denormalize_scaled m (Fin (- 1)) (Fin (3 / 2 ^ 54)) Linear (Fin 1) = Inr (Fin (1 / 2 ^ 52))"
  "\<not> fle (Fin (1 / 2 ^ 52)) (Fin (3 / 2 ^ 54))"
proof -
  let ?q = "1 + 3 / 2 ^ 54 :: rat" and ?d = "4503599627370497 / 4503599627370496 :: rat"
  have e: "ulp_exp ?q = - 52" by (intro ulp_exp_binade) (auto simp: power_int_minus)
  have "round_half_even (?q / 2 powi (- 52)) = 4503599627370497"
    by (intro round_half_even_unique) (simp add: power_int_minus abs_if)
  then have "rnd_pos ?q = of_int 4503599627370497 * 2 powi (- 52)" by (simp only: rnd_pos_def e)
  then have "rnd ?q = ?d" by (simp add: rnd_def power_int_minus)
  then have "mk_float s ?q = Fin ?d" for s by (rule mk_float_within) simp_all
  then have w: "fsub (Fin (3 / 2 ^ 54)) (Fin (- 1)) = Fin ?d" by (simp add: fsub_finite add.commute)
  have "rnd (of_int 4503599627370497 * 2 powi (- 52)) = of_int 4503599627370497 * 2 powi (- 52)" by (intro rnd_exact) auto
  then have "rnd ?d = ?d" by (simp add: power_int_minus)
  then have m: "fmul (Fin 1) (Fin ?d) = Fin ?d" by (simp add: fmul_finite mk_float_within)
  have "rnd (of_int 1 * 2 powi (- 52)) = of_int 1 * 2 powi (- 52)" by (intro rnd_exact) auto
  then have "rnd (1 / 2 ^ 52) = 1 / 2 ^ 52" by (simp add: power_int_minus field_simps)
  then have "mk_float s (1 / 2 ^ 52) = Fin (1 / 2 ^ 52)" for s by (rule mk_float_within) simp_all
  then have a: "fadd (Fin (- 1)) (Fin ?d) = Fin (1 / 2 ^ 52)" by (simp add: fadd_finite)
  show "denormalize_scaled m (Fin (- 1)) (Fin (3 / 2 ^ 54)) Linear (Fin 1) = Inr (Fin (1 / 2 ^ 52))"
    unfolding denormalize_scaled_def w by (simp add: m a flt_def eps12_def)
  show "\<not> fle (Fin (1 / 2 ^ 52)) (Fin (3 / 2 ^ 54))" by (simp add: fle_def)
qed

end
