(* ===== verification/Constraints.thy ===== *)
theory Constraints
  imports SearchSpace FloatRanges
begin

text \<open>
  \<open>templates/_shared/constraints.py\<close>: normalization of constraint rules against the
  parameter space, evaluation of a candidate, tightening of the bounds and the bounded
  rejection sampling loop. A missing or empty constraint document is \<open>None\<close>; the rule
  identifiers are the strings of the source, the message texts are left out.
\<close>

record bound_rule =
  bd_id :: string
  bd_param :: string
  bd_min :: "json option"
  bd_max :: "json option"

datatype relation = LeRhs | GeRhs

record linear_rule =
  ln_id :: string
  ln_terms :: "(string \<times> pyfloat) list"
  ln_op :: relation
  ln_rhs :: pyfloat

record forbidden_rule =
  fb_id :: string
  fb_when :: condition

record constraint_cfg =
  bound_tightening :: "bound_rule list"
  linear_inequalities :: "linear_rule list"
  forbidden_combinations :: "forbidden_rule list"

abbreviation con_err :: "string \<Rightarrow> 'a res" where
  "con_err s \<equiv> Inl (ValueError s)"

definition rule_id :: "string \<Rightarrow> nat \<Rightarrow> string" where
  "rule_id kind i = kind @ ''['' @ int_str (int i) @ '']''"

subsection \<open>Normalization\<close>

definition out_of_bounds :: "pyfloat \<Rightarrow> pyfloat \<Rightarrow> pyfloat \<Rightarrow> bool" where
  "out_of_bounds lo hi x = (flt x lo \<or> flt hi x)"

text \<open>\<open>_canonicalize_match_value\<close>; every caller enforces the bounds.\<close>

definition canonicalize_match_value :: "pdomain \<Rightarrow> json \<Rightarrow> json res" where
  "canonicalize_match_value dm v = (case dm of
     BoolDom \<Rightarrow> if is_bool v then Inr v else con_err ''boolean values''
   | IntDom lo hi _ \<Rightarrow>
       if \<not> strict_num v then con_err ''integer values''
       else bindE (is_integral v) (\<lambda>ok. if \<not> ok then con_err ''integer values''
            else bindE (py_int v) (\<lambda>n. if n < lo \<or> hi < n then con_err ''parameter bounds'' else Inr (JInt n)))
   | FloatDom lo hi _ \<Rightarrow>
       bindE (is_finite_number v) (\<lambda>ok. if \<not> ok then con_err ''finite numeric values''
         else bindE (py_float v) (\<lambda>x. if out_of_bounds lo hi x then con_err ''parameter bounds'' else Inr (JFloat x)))
   | CatDom cs \<Rightarrow>
       bindE (require_supported_choice v) (\<lambda>w. if List.member cs w then Inr w else con_err ''configured choices''))"

definition normalize_match_entry :: "(string, param) dict \<Rightarrow> string \<times> json \<Rightarrow> (string \<times> json list) res" where
  "normalize_match_entry params e = (case e of (name, raw) \<Rightarrow>
     if name = [] then con_err ''when keys''
     else case map_of params name of
       None \<Rightarrow> con_err ''when unknown parameter''
     | Some p \<Rightarrow>
         let values = (case raw of JArr vs \<Rightarrow> vs | v \<Rightarrow> [v]) in
         if values = [] then con_err ''when empty''
         else bindE (foldE (add_distinct ''when duplicates'' (canonicalize_match_value (p_dom p))) values [])
                (\<lambda>vs. Inr (name, vs)))"

definition normalize_match_object :: "json \<Rightarrow> (string, param) dict \<Rightarrow> condition res" where
  "normalize_match_object raw params = (case raw of
     JObj d \<Rightarrow> if d = [] then con_err ''when'' else mapE (normalize_match_entry params) d
   | _ \<Rightarrow> con_err ''when'')"

definition nonempty_name :: "json \<Rightarrow> string option" where
  "nonempty_name v = (case v of JStr s \<Rightarrow> if s = [] then None else Some s | _ \<Rightarrow> None)"

text \<open>A bound of a rule as a number of the parameter's type.\<close>

definition rule_number :: "bool \<Rightarrow> string \<Rightarrow> json \<Rightarrow> json res" where
  "rule_number integer field v =
     bindE (is_finite_number v) (\<lambda>ok. if \<not> ok then con_err field
       else if integer then
         bindE (is_integral v) (\<lambda>i. if \<not> i then con_err field else bindE (py_int v) (\<lambda>n. Inr (JInt n)))
       else bindE (py_float v) (\<lambda>x. Inr (JFloat x)))"

text \<open>\<open>float(a) < float(b)\<close>\<close>

definition float_lt :: "json \<Rightarrow> json \<Rightarrow> bool res" where
  "float_lt a b = bindE (py_float a) (\<lambda>x. bindE (py_float b) (\<lambda>y. Inr (flt x y)))"

fun numeric_bounds :: "pdomain \<Rightarrow> (bool \<times> json \<times> json) option" where
  "numeric_bounds (IntDom lo hi _) = Some (True, JInt lo, JInt hi)"
| "numeric_bounds (FloatDom lo hi _) = Some (False, JFloat lo, JFloat hi)"
| "numeric_bounds _ = None"

text \<open>The \<open>min\<close> or \<open>max\<close> entry of a rule, checked against the parameter's bounds.\<close>

definition rule_side :: "jdict \<Rightarrow> string \<Rightarrow> bool \<Rightarrow> (json \<Rightarrow> bool res) \<Rightarrow> json option res" where
  "rule_side d key integer outside =
     (if \<not> has_key d key then Inr None
      else bindE (rule_number integer key (jget d key)) (\<lambda>n.
           bindE (outside n) (\<lambda>bad. if bad then con_err key else Inr (Some n))))"

definition sides_crossed :: "json option \<Rightarrow> json option \<Rightarrow> bool res" where
  "sides_crossed mn mx = (case (mn, mx) of (Some a, Some b) \<Rightarrow> float_lt b a | _ \<Rightarrow> Inr False)"

definition build_bound_rule :: "nat \<Rightarrow> string \<Rightarrow> jdict \<Rightarrow> bool \<times> json \<times> json \<Rightarrow> bound_rule res" where
  "build_bound_rule idx name d b = (case b of (integer, lo, hi) \<Rightarrow>
     if \<not> has_key d ''min'' \<and> \<not> has_key d ''max'' then con_err ''bound_tightening min or max''
     else
     bindE (rule_side d ''min'' integer (\<lambda>n. float_lt n lo)) (\<lambda>mn.
     bindE (rule_side d ''max'' integer (\<lambda>n. float_lt hi n)) (\<lambda>mx.
     bindE (sides_crossed mn mx) (\<lambda>bad.
     if bad then con_err ''min <= max''
     else Inr \<lparr>bd_id = rule_id ''bound_tightening'' idx, bd_param = name, bd_min = mn, bd_max = mx\<rparr>))))"

definition normalize_bound_tightening_rule :: "(string, param) dict \<Rightarrow> nat \<times> json \<Rightarrow> bound_rule res" where
  "normalize_bound_tightening_rule params ir = (case ir of (idx, raw) \<Rightarrow> (case raw of
     JObj d \<Rightarrow> (case nonempty_name (jget d ''param'') of
       None \<Rightarrow> con_err ''bound_tightening.param''
     | Some name \<Rightarrow> (case map_of params name of
         None \<Rightarrow> con_err ''bound_tightening.param unknown''
       | Some p \<Rightarrow> (case numeric_bounds (p_dom p) of
           None \<Rightarrow> con_err ''bound_tightening.param numeric''
         | Some b \<Rightarrow> build_bound_rule idx name d b)))
   | _ \<Rightarrow> con_err ''bound_tightening''))"

definition normalize_linear_term ::
  "(string, param) dict \<Rightarrow> json \<Rightarrow> (string \<times> pyfloat) list \<Rightarrow> (string \<times> pyfloat) list res" where
  "normalize_linear_term params raw terms = (case raw of
     JObj d \<Rightarrow> (case nonempty_name (jget d ''param'') of
       None \<Rightarrow> con_err ''term.param''
     | Some name \<Rightarrow>
         if List.member (map fst terms) name then con_err ''repeat parameter''
         else (case map_of params name of
           None \<Rightarrow> con_err ''term.param unknown''
         | Some p \<Rightarrow>
             if numeric_bounds (p_dom p) = None then con_err ''term.param numeric''
             else bindE (is_finite_number (jget d ''coefficient'')) (\<lambda>ok.
               if \<not> ok then con_err ''coefficient''
               else bindE (py_float (jget d ''coefficient'')) (\<lambda>c. Inr (terms @ [(name, c)])))))
   | _ \<Rightarrow> con_err ''term'')"

definition parse_relation :: "json \<Rightarrow> relation option" where
  "parse_relation v = (if v = JStr ''<='' then Some LeRhs else if v = JStr ''>='' then Some GeRhs else None)"

definition normalize_linear_inequality_rule :: "(string, param) dict \<Rightarrow> nat \<times> json \<Rightarrow> linear_rule res" where
  "normalize_linear_inequality_rule params ir = (case ir of (idx, raw) \<Rightarrow> (case raw of
     JObj d \<Rightarrow> (case jget d ''terms'' of
       JArr raw_terms \<Rightarrow>
         if raw_terms = [] then con_err ''terms''
         else (case parse_relation (jget d ''operator'') of
           None \<Rightarrow> con_err ''operator''
         | Some r \<Rightarrow>
             bindE (is_finite_number (jget d ''rhs'')) (\<lambda>ok. if \<not> ok then con_err ''rhs'' else
             bindE (foldE (normalize_linear_term params) raw_terms []) (\<lambda>terms.
             bindE (py_float (jget d ''rhs'')) (\<lambda>rhs.
             Inr \<lparr>ln_id = rule_id ''linear_inequalities'' idx, ln_terms = terms, ln_op = r, ln_rhs = rhs\<rparr>))))
     | _ \<Rightarrow> con_err ''terms'')
   | _ \<Rightarrow> con_err ''linear_inequalities''))"

definition normalize_forbidden_combination_rule :: "(string, param) dict \<Rightarrow> nat \<times> json \<Rightarrow> forbidden_rule res" where
  "normalize_forbidden_combination_rule params ir = (case ir of (idx, raw) \<Rightarrow> (case raw of
     JObj d \<Rightarrow> bindE (normalize_match_object (jget d ''when'') params) (\<lambda>w.
       Inr \<lparr>fb_id = rule_id ''forbidden_combinations'' idx, fb_when = w\<rparr>)
   | _ \<Rightarrow> con_err ''forbidden_combinations''))"

text \<open>The combined interval of each parameter, in floats; \<open>max\<close> and \<open>min\<close> keep the old bound on a tie.\<close>

type_synonym interval = "pyfloat option \<times> pyfloat option"

definition combine_rule :: "bound_rule \<Rightarrow> (string, interval) dict \<Rightarrow> (string, interval) dict res" where
  "combine_rule r acc = (let (mn, mx) = dict_get acc (bd_param r) (None, None) in
     bindE (case bd_min r of None \<Rightarrow> Inr mn | Some v \<Rightarrow> bindE (py_float v) (\<lambda>x.
              Inr (Some (case mn of None \<Rightarrow> x | Some m \<Rightarrow> py_max m x)))) (\<lambda>mn'.
     bindE (case bd_max r of None \<Rightarrow> Inr mx | Some v \<Rightarrow> bindE (py_float v) (\<lambda>x.
              Inr (Some (case mx of None \<Rightarrow> x | Some m \<Rightarrow> py_min m x)))) (\<lambda>mx'.
     Inr (dset (bd_param r) (mn', mx') acc))))"

fun interval_ok :: "interval \<Rightarrow> bool" where
  "interval_ok (Some a, Some b) = (\<not> flt b a)"
| "interval_ok _ = True"

definition validate_combined_bound_tightening :: "bound_rule list \<Rightarrow> unit res" where
  "validate_combined_bound_tightening rules =
     bindE (foldE combine_rule rules []) (\<lambda>by_param.
     guardE (list_all (\<lambda>(_, i). interval_ok i) by_param) (ValueError ''bound_tightening collapses parameter''))"

definition rule_list :: "jdict \<Rightarrow> string \<Rightarrow> json list res" where
  "rule_list d key = (case jget d key of JNull \<Rightarrow> Inr [] | JArr xs \<Rightarrow> Inr xs | _ \<Rightarrow> con_err key)"

definition normalize_constraints :: "json \<Rightarrow> param list \<Rightarrow> constraint_cfg res" where
  "normalize_constraints raw params = (case raw of
     JObj d \<Rightarrow>
       let names = by_name params in
       bindE (rule_list d ''bound_tightening'') (\<lambda>bt.
       bindE (rule_list d ''linear_inequalities'') (\<lambda>li.
       bindE (rule_list d ''forbidden_combinations'') (\<lambda>fc.
       bindE (mapE (normalize_bound_tightening_rule names) (enum bt)) (\<lambda>bts.
       bindE (mapE (normalize_linear_inequality_rule names) (enum li)) (\<lambda>lis.
       bindE (mapE (normalize_forbidden_combination_rule names) (enum fc)) (\<lambda>fcs.
       bindE (validate_combined_bound_tightening bts) (\<lambda>_.
       Inr \<lparr>bound_tightening = bts, linear_inequalities = lis, forbidden_combinations = fcs\<rparr>)))))))
   | _ \<Rightarrow> con_err ''constraints'')"

subsection \<open>Evaluation\<close>

datatype rule_type = BoundTightening | LinearInequality | ForbiddenCombination

record violation =
  vi_rule_id :: string
  vi_type :: rule_type
  vi_details :: jdict

definition add_eps :: "pyfloat \<Rightarrow> pyfloat" where
  "add_eps x = fadd x eps12"

definition sub_eps :: "pyfloat \<Rightarrow> pyfloat" where
  "sub_eps x = fsub x eps12"

definition match_allowed_values :: "jdict \<Rightarrow> condition \<Rightarrow> bool" where
  "match_allowed_values values w = list_all (\<lambda>(n, allowed). case map_of values n of
     None \<Rightarrow> False | Some v \<Rightarrow> List.member allowed v) w"

definition bound_violation_details :: "bound_rule \<Rightarrow> pyfloat \<Rightarrow> jdict option res" where
  "bound_violation_details r x =
     bindE (case bd_min r of None \<Rightarrow> Inr False | Some mn \<Rightarrow> bindE (py_float mn) (\<lambda>m. Inr (flt x (sub_eps m)))) (\<lambda>below.
     if below then Inr (Some [(''observed'', JFloat x), (''minimum'', jopt (bd_min r))])
     else
     bindE (case bd_max r of None \<Rightarrow> Inr False | Some mx \<Rightarrow> bindE (py_float mx) (\<lambda>m. Inr (flt (add_eps m) x))) (\<lambda>above.
     Inr (if above then Some [(''observed'', JFloat x), (''maximum'', jopt (bd_max r))] else None)))"

definition evaluate_bound_rule :: "jdict \<Rightarrow> bound_rule \<Rightarrow> violation list res" where
  "evaluate_bound_rule values r = (case map_of values (bd_param r) of
     None \<Rightarrow> Inr []
   | Some v \<Rightarrow> bindE (is_finite_number v) (\<lambda>ok. if \<not> ok then Inr []
       else bindE (py_float v) (\<lambda>x. bindE (bound_violation_details r x) (\<lambda>detail.
         Inr (case detail of None \<Rightarrow> []
           | Some payload \<Rightarrow> [\<lparr>vi_rule_id = bd_id r, vi_type = BoundTightening,
               vi_details = (''param'', JStr (bd_param r)) # payload\<rparr>])))))"

text \<open>
  The accumulator is the sum so far and the term values listed in the violation. \<open>float\<close> of a
  string is an error here, as everywhere in the model: numeric texts are not parsed.
\<close>

definition add_term :: "jdict \<Rightarrow> string \<times> pyfloat \<Rightarrow> pyfloat \<times> json list \<Rightarrow> (pyfloat \<times> json list) res" where
  "add_term values t acc =
     bindE (jitem values (fst t)) (\<lambda>v. bindE (py_float v) (\<lambda>x.
     Inr (fadd (fst acc) (fmul (snd t) x),
          snd acc @ [JObj [(''param'', JStr (fst t)), (''coefficient'', JFloat (snd t)), (''observed'', JFloat x)]])))"

definition linear_feasible :: "relation \<Rightarrow> pyfloat \<Rightarrow> pyfloat \<Rightarrow> bool" where
  "linear_feasible r lhs rhs = (case r of LeRhs \<Rightarrow> fle lhs (add_eps rhs) | GeRhs \<Rightarrow> fle (sub_eps rhs) lhs)"

definition evaluate_linear_rule :: "jdict \<Rightarrow> linear_rule \<Rightarrow> violation list res" where
  "evaluate_linear_rule values r =
     (if \<not> list_all (\<lambda>(n, _). has_key values n) (ln_terms r) then Inr []
      else bindE (foldE (add_term values) (ln_terms r) (Fin 0, [])) (\<lambda>(lhs, terms).
        Inr (if linear_feasible (ln_op r) lhs (ln_rhs r) then []
             else [\<lparr>vi_rule_id = ln_id r, vi_type = LinearInequality,
                    vi_details = [(''operator'', JStr (case ln_op r of LeRhs \<Rightarrow> ''<='' | GeRhs \<Rightarrow> ''>='')),
                      (''lhs'', JFloat lhs), (''rhs'', JFloat (ln_rhs r)), (''terms'', JArr terms)]\<rparr>])))"

definition evaluate_forbidden_rule :: "jdict \<Rightarrow> forbidden_rule \<Rightarrow> violation list" where
  "evaluate_forbidden_rule values r =
     (if match_allowed_values values (fb_when r)
      then [\<lparr>vi_rule_id = fb_id r, vi_type = ForbiddenCombination,
             vi_details = [(''when'', JObj (map (\<lambda>(n, vs). (n, JArr vs)) (fb_when r)))]\<rparr>] else [])"

type_synonym counts = "(string, nat) dict"

definition count_violation :: "violation \<Rightarrow> counts \<Rightarrow> counts" where
  "count_violation v counts = dset (vi_rule_id v) (dict_get counts (vi_rule_id v) 0 + 1) counts"

definition summarize_reject_counts :: "violation list \<Rightarrow> counts" where
  "summarize_reject_counts vs = fold count_violation vs []"

record evaluation =
  ev_feasible :: bool
  ev_violations :: "violation list"
  ev_reject_counts :: counts

definition evaluate_constraints :: "jdict \<Rightarrow> constraint_cfg \<Rightarrow> evaluation res" where
  "evaluate_constraints values c =
     bindE (mapE (evaluate_bound_rule values) (bound_tightening c)) (\<lambda>bs.
     bindE (mapE (evaluate_linear_rule values) (linear_inequalities c)) (\<lambda>ls.
     let violations = concat bs @ concat ls @ concat (map (evaluate_forbidden_rule values) (forbidden_combinations c)) in
     Inr \<lparr>ev_feasible = (violations = []), ev_violations = violations,
          ev_reject_counts = summarize_reject_counts violations\<rparr>))"

definition accumulate_reject_counts :: "counts \<Rightarrow> evaluation \<Rightarrow> counts" where
  "accumulate_reject_counts counts ev =
     fold (\<lambda>(k, n) acc. dset k (dict_get acc k 0 + n) acc) (ev_reject_counts ev) counts"

subsection \<open>Tightened bounds\<close>

definition json_lt :: "json \<Rightarrow> json \<Rightarrow> bool" where
  "json_lt a b = (case (num_value a, num_value b) of (Some x, Some y) \<Rightarrow> flt x y | _ \<Rightarrow> False)"

text \<open>Here the bounds are kept as the numbers of the rules: exact integers for an int parameter.\<close>

definition tighten_rule :: "bound_rule \<Rightarrow> (string, json option \<times> json option) dict \<Rightarrow> (string, json option \<times> json option) dict" where
  "tighten_rule r acc = (let (mn, mx) = dict_get acc (bd_param r) (None, None);
      mn' = (case bd_min r of None \<Rightarrow> mn | Some v \<Rightarrow> Some (case mn of None \<Rightarrow> v | Some m \<Rightarrow> if json_lt m v then v else m));
      mx' = (case bd_max r of None \<Rightarrow> mx | Some v \<Rightarrow> Some (case mx of None \<Rightarrow> v | Some m \<Rightarrow> if json_lt v m then v else m))
      in dset (bd_param r) (mn', mx') acc)"

definition tighten_domain :: "json option \<times> json option \<Rightarrow> pdomain \<Rightarrow> pdomain res" where
  "tighten_domain b dm = (case dm of
     IntDom lo hi s \<Rightarrow>
       bindE (py_int (case fst b of None \<Rightarrow> JInt lo | Some v \<Rightarrow> v)) (\<lambda>lo'.
       bindE (py_int (case snd b of None \<Rightarrow> JInt hi | Some v \<Rightarrow> v)) (\<lambda>hi'. Inr (IntDom lo' hi' s)))
   | FloatDom lo hi s \<Rightarrow>
       bindE (py_float (case fst b of None \<Rightarrow> JFloat lo | Some v \<Rightarrow> v)) (\<lambda>lo'.
       bindE (py_float (case snd b of None \<Rightarrow> JFloat hi | Some v \<Rightarrow> v)) (\<lambda>hi'.
       Inr (if feq lo' lo \<and> feq hi' hi then dm else FloatDom lo' hi' s)))
   | _ \<Rightarrow> Inr dm)"

definition apply_bound_tightening :: "param list \<Rightarrow> constraint_cfg option \<Rightarrow> param list res" where
  "apply_bound_tightening params constraints = (case constraints of
     None \<Rightarrow> Inr params
   | Some c \<Rightarrow>
       let tightened = fold tighten_rule (bound_tightening c) [] in
       mapE (\<lambda>p. case map_of tightened (p_name p) of
         None \<Rightarrow> Inr p
       | Some b \<Rightarrow> bindE (tighten_domain b (p_dom p)) (\<lambda>dm. Inr (p\<lparr>p_dom := dm\<rparr>))) params)"

subsection \<open>Rejection sampling\<close>

record sampled =
  sm_candidates :: "jdict list"
  sm_attempts :: nat
  sm_infeasible :: nat
  sm_reject_counts :: counts

text \<open>
  The loop of \<open>sample_feasible_candidates\<close>; \<open>left\<close> is \<open>max_attempts - attempts\<close>, so the
  recursion is the loop's own bound and needs no other fuel.
\<close>

fun sample_loop :: "('s \<Rightarrow> (jdict \<times> 's) res) \<Rightarrow> constraint_cfg option \<Rightarrow> nat \<Rightarrow> nat \<Rightarrow>
    jdict list \<Rightarrow> nat \<Rightarrow> counts \<Rightarrow> 's \<Rightarrow> (jdict list \<times> nat \<times> counts \<times> 's) res" where
  "sample_loop draw constraints target 0 feasible attempts rejects s = Inr (feasible, attempts, rejects, s)"
| "sample_loop draw constraints target (Suc left) feasible attempts rejects s =
     (if target \<le> length feasible then Inr (feasible, attempts, rejects, s)
      else bindE (draw s) (\<lambda>(candidate, s').
        case constraints of
          None \<Rightarrow> sample_loop draw constraints target left (feasible @ [candidate]) (attempts + 1) rejects s'
        | Some c \<Rightarrow> bindE (evaluate_constraints candidate c) (\<lambda>ev.
            if ev_feasible ev then sample_loop draw constraints target left (feasible @ [candidate]) (attempts + 1) rejects s'
            else sample_loop draw constraints target left feasible (attempts + 1) (accumulate_reject_counts rejects ev) s')))"

definition sample_feasible_candidates ::
  "('s \<Rightarrow> (jdict \<times> 's) res) \<Rightarrow> constraint_cfg option \<Rightarrow> int \<Rightarrow> int \<Rightarrow> 's \<Rightarrow> (sampled \<times> 's) res" where
  "sample_feasible_candidates draw constraints target_count max_attempts s =
     (if target_count \<le> 0 then con_err ''target_count must be >= 1''
      else if max_attempts \<le> 0 then con_err ''max_attempts must be >= 1''
      else bindE (sample_loop draw constraints (nat target_count) (nat max_attempts) [] 0 [] s)
        (\<lambda>(feasible, attempts, rejects, s').
          Inr (\<lparr>sm_candidates = feasible, sm_attempts = attempts, sm_infeasible = attempts - length feasible,
                sm_reject_counts = rejects\<rparr>, s')))"

subsection \<open>Reporting\<close>

definition reject_before :: "string \<times> nat \<Rightarrow> string \<times> nat \<Rightarrow> bool" where
  "reject_before a b = (snd b < snd a \<or> (snd a = snd b \<and> str_less (fst a) (fst b)))"

fun join :: "string \<Rightarrow> string list \<Rightarrow> string" where
  "join sep [] = []"
| "join sep [x] = x"
| "join sep (x # y # xs) = x @ sep @ join sep (y # xs)"

definition format_reject_summary :: "counts \<Rightarrow> nat \<Rightarrow> string" where
  "format_reject_summary counts limit =
     (if counts = [] then ''none''
      else join '', '' (map (\<lambda>(k, n). k @ ''='' @ int_str (int n)) (take (max 1 limit) (sort_by reject_before counts))))"

record constraint_status =
  cs_enabled :: bool
  cs_phase :: string
  cs_requested :: int
  cs_accepted :: nat
  cs_attempted :: nat
  cs_rejected :: nat
  cs_ratio :: pyfloat
  cs_reject_counts :: counts
  cs_warning :: "string option"

definition dashed :: "string \<Rightarrow> string" where
  "dashed s = map (\<lambda>c. if c = CHR ''_'' then CHR ''-'' else c) s"

definition build_constraint_status :: "constraint_cfg option \<Rightarrow> sampled \<Rightarrow> string \<Rightarrow> int \<Rightarrow> constraint_status res" where
  "build_constraint_status constraints sm phase requested =
     (let accepted = length (sm_candidates sm) in
      bindE (if sm_attempts sm = 0 then Inr (Fin 1)
             else bindE (float_of_int (int accepted)) (\<lambda>a. bindE (float_of_int (int (sm_attempts sm))) (fdiv a))) (\<lambda>ratio.
      Inr \<lparr>cs_enabled = (constraints \<noteq> None), cs_phase = phase, cs_requested = requested, cs_accepted = accepted,
           cs_attempted = sm_attempts sm, cs_rejected = sm_infeasible sm, cs_ratio = ratio,
           cs_reject_counts = sm_reject_counts sm,
           cs_warning = (if constraints \<noteq> None \<and> 0 < accepted \<and> int accepted < requested
             then Some (''constraints reduced '' @ dashed phase @ '' feasible candidates to '' @ int_str (int accepted) @
                  ''/'' @ int_str requested @ '' (dominant rejects: '' @ format_reject_summary (sm_reject_counts sm) 3 @ '')'')
             else None)\<rparr>))"

definition build_constraint_error_reason :: "constraint_status \<Rightarrow> string" where
  "build_constraint_error_reason st =
     ''constraints eliminated all '' @ int_str (int (cs_attempted st)) @ '' '' @ dashed (cs_phase st) @
     '' attempts (dominant rejects: '' @ format_reject_summary (cs_reject_counts st) 3 @ '')''"

subsection \<open>Counting rejections\<close>

definition total :: "counts \<Rightarrow> nat" where
  "total d = sum_list (map snd d)"

lemma total_dset_add: "total (dset k (dict_get d k 0 + n) d) = total d + n"
  by (induction d) (auto simp: total_def dict_get_def)

lemma total_summarize: "total (fold count_violation vs d) = total d + length vs"
  by (induction vs arbitrary: d) (simp_all add: count_violation_def total_dset_add del: One_nat_def)

lemma total_accumulate: "total (accumulate_reject_counts d ev) = total d + total (ev_reject_counts ev)"
proof -
  have "total (fold (\<lambda>(k, n) acc. dset k (dict_get acc k 0 + n) acc) ps d) = total d + total ps" for ps
    by (induction ps arbitrary: d) (auto simp: total_dset_add, auto simp: total_def)
  then show ?thesis by (simp add: accumulate_reject_counts_def)
qed

subsection \<open>What a candidate must satisfy\<close>

text \<open>
  The requirement a rule states, written from the documentation of the rules and not from the
  code: a comparison may fail by \<open>1e-12\<close>, rounded to a float.
\<close>

definition tolerance :: pyfloat where
  "tolerance = mk_float False (1 / 10 ^ 12)"

definition satisfies_bound :: "jdict \<Rightarrow> bound_rule \<Rightarrow> bool" where
  "satisfies_bound values r = (\<forall>v x. map_of values (bd_param r) = Some v \<longrightarrow> is_finite_number v = Inr True \<longrightarrow> py_float v = Inr x \<longrightarrow>
     (\<forall>mn m. bd_min r = Some mn \<longrightarrow> py_float mn = Inr m \<longrightarrow> \<not> flt x (fsub m tolerance)) \<and>
     (\<forall>mx m. bd_max r = Some mx \<longrightarrow> py_float mx = Inr m \<longrightarrow> \<not> flt (fadd m tolerance) x))"

definition linear_sum :: "jdict \<Rightarrow> (string \<times> pyfloat) list \<Rightarrow> pyfloat" where
  "linear_sum values terms = foldl (\<lambda>s (n, c). fadd s (fmul c (case py_float (jget values n) of Inr x \<Rightarrow> x | Inl _ \<Rightarrow> NaN))) (Fin 0) terms"

definition satisfies_linear :: "jdict \<Rightarrow> linear_rule \<Rightarrow> bool" where
  "satisfies_linear values r = ((\<forall>(n, _)\<in>set (ln_terms r). has_key values n) \<longrightarrow>
     (case ln_op r of
        LeRhs \<Rightarrow> fle (linear_sum values (ln_terms r)) (fadd (ln_rhs r) tolerance)
      | GeRhs \<Rightarrow> fle (fsub (ln_rhs r) tolerance) (linear_sum values (ln_terms r))))"

text \<open>A forbidden combination occurs when every parameter it names has one of the values it lists.\<close>

definition satisfies_forbidden :: "jdict \<Rightarrow> forbidden_rule \<Rightarrow> bool" where
  "satisfies_forbidden values r = (\<exists>(n, allowed)\<in>set (fb_when r). \<forall>v. map_of values n = Some v \<longrightarrow> v \<notin> set allowed)"

definition satisfies :: "jdict \<Rightarrow> constraint_cfg \<Rightarrow> bool" where
  "satisfies values c =
     ((\<forall>r\<in>set (bound_tightening c). satisfies_bound values r) \<and>
      (\<forall>r\<in>set (linear_inequalities c). satisfies_linear values r) \<and>
      (\<forall>r\<in>set (forbidden_combinations c). satisfies_forbidden values r))"

text \<open>The identifiers of the rules a candidate breaks, in the order of the configuration.\<close>

definition broken_rules :: "jdict \<Rightarrow> constraint_cfg \<Rightarrow> string list" where
  "broken_rules values c =
     map bd_id (filter (\<lambda>r. \<not> satisfies_bound values r) (bound_tightening c)) @
     map ln_id (filter (\<lambda>r. \<not> satisfies_linear values r) (linear_inequalities c)) @
     map fb_id (filter (\<lambda>r. \<not> satisfies_forbidden values r) (forbidden_combinations c))"

lemma tolerance_eps: "tolerance = eps12"
proof -
  let ?q = "1 / 10 ^ 12 :: rat"
  have e: "ulp_exp ?q = - 92" by (intro ulp_exp_binade) (auto simp: power_int_minus field_simps)
  have "round_half_even (?q / 2 powi (- 92)) = 4951760157141521"
    by (intro round_half_even_unique) (simp add: power_int_minus abs_if)
  then have "rnd_pos ?q = of_int 4951760157141521 * 2 powi (- 92)" by (simp only: rnd_pos_def e)
  moreover have "rnd ?q = rnd_pos ?q" by (simp add: rnd_def)
  ultimately have "rnd ?q = 4951760157141521 / 2 ^ 92" by (simp add: power_int_minus)
  moreover have "(4951760157141521 / 2 ^ 92 :: rat) < 1" by simp
  moreover have "1 < float_limit" unfolding float_limit_def by (rule one_less_power) auto
  ultimately show ?thesis unfolding tolerance_def eps12_def mk_float_def Let_def by (auto simp: not_le)
qed

lemma broken_rules_empty: "broken_rules values c = [] \<longleftrightarrow> satisfies values c"
  by (auto simp: broken_rules_def satisfies_def filter_empty_conv)

lemma is_finite_number_Inr: "is_finite_number v = Inr b \<Longrightarrow> py_float v = Inr x \<Longrightarrow> b \<longleftrightarrow> strict_num v \<and> is_finite x"
  by (auto simp: is_finite_number_def split: if_splits)

lemma satisfies_bound_eps:
  "satisfies_bound values r = (\<forall>v x. map_of values (bd_param r) = Some v \<longrightarrow> is_finite_number v = Inr True \<longrightarrow> py_float v = Inr x \<longrightarrow>
     (\<forall>mn m. bd_min r = Some mn \<longrightarrow> py_float mn = Inr m \<longrightarrow> \<not> flt x (sub_eps m)) \<and>
     (\<forall>mx m. bd_max r = Some mx \<longrightarrow> py_float mx = Inr m \<longrightarrow> \<not> flt (add_eps m) x))"
  unfolding satisfies_bound_def tolerance_eps add_eps_def sub_eps_def ..

lemma evaluate_bound_rule_iff:
  assumes "evaluate_bound_rule values r = Inr vs"
  shows "vs = [] \<longleftrightarrow> satisfies_bound values r"
proof (cases "map_of values (bd_param r)")
  case None
  with assms show ?thesis by (auto simp: evaluate_bound_rule_def satisfies_bound_eps)
next
  case (Some v)
  show ?thesis
  proof (cases "is_finite_number v = Inr True")
    case False
    with assms Some show ?thesis by (auto simp: evaluate_bound_rule_def satisfies_bound_eps bindE_Inr_iff split: if_splits)
  next
    case True
    then obtain x where x: "py_float v = Inr x" by (auto simp: return_iff)
    with assms Some True show ?thesis
      by (auto simp: evaluate_bound_rule_def satisfies_bound_eps bound_violation_details_def bindE_Inr_iff
          split: option.splits if_splits)
  qed
qed

lemma evaluate_bound_rule_ids:
  assumes "evaluate_bound_rule values r = Inr vs"
  shows "map vi_rule_id vs = (if satisfies_bound values r then [] else [bd_id r])"
proof -
  have "vs = [] \<or> map vi_rule_id vs = [bd_id r]"
    using assms unfolding evaluate_bound_rule_def bindE_def by (auto split: option.splits sum.splits if_splits)
  with evaluate_bound_rule_iff [OF assms] show ?thesis by (cases "vs = []") simp_all
qed

lemma add_term_fold:
  "foldE (add_term values) ts acc = Inr (s, js) \<Longrightarrow>
   s = foldl (\<lambda>s (n, c). fadd s (fmul c (case py_float (jget values n) of Inr x \<Rightarrow> x | Inl _ \<Rightarrow> NaN))) (fst acc) ts"
proof (induction ts arbitrary: acc)
  case (Cons t ts)
  then obtain u where u: "add_term values t acc = Inr u" "foldE (add_term values) ts u = Inr (s, js)"
    by (auto simp: return_iff)
  from u(1) obtain v x where "map_of values (fst t) = Some v" "py_float v = Inr x" "fst u = fadd (fst acc) (fmul (snd t) x)"
    by (auto simp: add_term_def return_iff)
  with Cons.IH [OF u(2)] show ?case by (auto simp: case_prod_unfold)
qed simp

lemma linear_feasible_satisfies:
  assumes "\<forall>(n, _)\<in>set (ln_terms r). has_key values n"
  shows "linear_feasible (ln_op r) (linear_sum values (ln_terms r)) (ln_rhs r) \<longleftrightarrow> satisfies_linear values r"
  unfolding satisfies_linear_def linear_feasible_def add_eps_def sub_eps_def tolerance_eps using assms by blast

lemma evaluate_linear_rule_ids:
  assumes "evaluate_linear_rule values r = Inr vs"
  shows "map vi_rule_id vs = (if satisfies_linear values r then [] else [ln_id r])"
proof (cases "list_all (\<lambda>(n, _). has_key values n) (ln_terms r)")
  case True
  with assms obtain lhs terms where "foldE (add_term values) (ln_terms r) (Fin 0, []) = Inr (lhs, terms)"
    and vs: "map vi_rule_id vs = (if linear_feasible (ln_op r) lhs (ln_rhs r) then [] else [ln_id r])"
    by (auto simp: evaluate_linear_rule_def return_iff split: prod.splits if_splits)
  from add_term_fold [OF this(1)] have "lhs = linear_sum values (ln_terms r)" by (simp add: linear_sum_def)
  with vs linear_feasible_satisfies [of r "values"] True show ?thesis by (simp add: list_all_iff)
next
  case False
  with assms show ?thesis by (auto simp: evaluate_linear_rule_def satisfies_linear_def list_all_iff)
qed

lemma evaluate_forbidden_rule_ids:
  "map vi_rule_id (evaluate_forbidden_rule values r) = (if satisfies_forbidden values r then [] else [fb_id r])"
proof -
  have "match_allowed_values values (fb_when r) \<longleftrightarrow> \<not> satisfies_forbidden values r"
    unfolding match_allowed_values_def satisfies_forbidden_def list_all_iff
    by (auto split: option.splits)
  then show ?thesis by (simp add: evaluate_forbidden_rule_def)
qed

lemma concat_ids:
  assumes "mapE f rs = Inr vss" "\<And>r vs. r \<in> set rs \<Longrightarrow> f r = Inr vs \<Longrightarrow> map g vs = (if P r then [] else [k r])"
  shows "map g (concat vss) = map k (filter (\<lambda>r. \<not> P r) rs)"
  using assms
proof (induction rs arbitrary: vss)
  case (Cons r rs)
  then obtain v ws where v: "f r = Inr v" and ws: "mapE f rs = Inr ws" "vss = v # ws" by (auto simp: return_iff)
  have "map g v = (if P r then [] else [k r])" by (rule Cons.prems(2) [OF _ v]) simp
  moreover have "map g (concat ws) = map k (filter (\<lambda>r. \<not> P r) rs)" using Cons.IH [OF ws(1)] Cons.prems(2) by simp
  ultimately show ?case using ws(2) by simp
qed simp

lemma reject_count_of:
  "dict_get (fold count_violation vs d) k 0 = dict_get d k 0 + count_list (map vi_rule_id vs) k"
  by (induction vs arbitrary: d) (auto simp: count_violation_def dict_get_def)

text \<open>C18: an evaluated candidate is reported to break exactly the rules whose requirement it does not
  meet: the violations name the broken bound, linear and forbidden-combination rules in order, the
  reject counts say how often each rule is named, and the candidate is feasible exactly when it
  satisfies every rule.\<close>

theorem evaluate_constraints_exact:
  assumes "evaluate_constraints values c = Inr ev"
  shows "map vi_rule_id (ev_violations ev) = broken_rules values c \<and>
    (\<forall>k. dict_get (ev_reject_counts ev) k 0 = count_list (broken_rules values c) k) \<and>
    total (ev_reject_counts ev) = length (ev_violations ev) \<and>
    (ev_feasible ev \<longleftrightarrow> satisfies values c)"
proof -
  obtain bs ls where b: "mapE (evaluate_bound_rule values) (bound_tightening c) = Inr bs"
    and l: "mapE (evaluate_linear_rule values) (linear_inequalities c) = Inr ls"
    and ev: "ev_violations ev = concat bs @ concat ls @ concat (map (evaluate_forbidden_rule values) (forbidden_combinations c))"
      "ev_feasible ev \<longleftrightarrow> ev_violations ev = []" "ev_reject_counts ev = summarize_reject_counts (ev_violations ev)"
    using assms by (auto simp: evaluate_constraints_def return_iff Let_def)
  have "map vi_rule_id (concat (map (evaluate_forbidden_rule values) rs)) =
      map fb_id (filter (\<lambda>r. \<not> satisfies_forbidden values r) rs)" for rs
    by (induction rs) (simp_all add: evaluate_forbidden_rule_ids)
  then have ids: "map vi_rule_id (ev_violations ev) = broken_rules values c"
    unfolding ev(1) broken_rules_def map_append
    using concat_ids [OF b evaluate_bound_rule_ids] concat_ids [OF l evaluate_linear_rule_ids] by simp
  have "ev_feasible ev \<longleftrightarrow> satisfies values c"
    using ids ev(2) broken_rules_empty [of "values" c] by (metis map_is_Nil_conv)
  moreover have "dict_get (ev_reject_counts ev) k 0 = count_list (broken_rules values c) k" for k
    using reject_count_of [of "ev_violations ev" "[]" k] ids ev(3) by (simp add: summarize_reject_counts_def dict_get_def)
  moreover have "total (ev_reject_counts ev) = length (ev_violations ev)"
    using total_summarize [of "ev_violations ev" "[]"] ev(3) by (simp add: summarize_reject_counts_def total_def)
  ultimately show ?thesis using ids by blast
qed

subsection \<open>The sampling loop\<close>

definition loop_inv :: "constraint_cfg option \<Rightarrow> jdict list \<Rightarrow> nat \<Rightarrow> counts \<Rightarrow> bool" where
  "loop_inv constraints feasible attempts rejects =
     (length feasible \<le> attempts \<and> attempts - length feasible \<le> total rejects \<and>
      (case constraints of None \<Rightarrow> attempts = length feasible
       | Some c \<Rightarrow> \<forall>x\<in>set feasible. \<exists>ev. evaluate_constraints x c = Inr ev \<and> ev_feasible ev))"

lemma evaluate_reject_pos: "evaluate_constraints x c = Inr ev \<Longrightarrow> \<not> ev_feasible ev \<Longrightarrow> 0 < total (ev_reject_counts ev)"
proof -
  assume e: "evaluate_constraints x c = Inr ev" and n: "\<not> ev_feasible ev"
  from e have "ev_feasible ev \<longleftrightarrow> ev_violations ev = []" "ev_reject_counts ev = summarize_reject_counts (ev_violations ev)"
    by (auto simp: evaluate_constraints_def return_iff Let_def)
  with n total_summarize [of "ev_violations ev" "[]"] show ?thesis by (simp add: summarize_reject_counts_def total_def)
qed

lemma sample_loop_inv:
  assumes "sample_loop draw constraints target left feasible attempts rejects s = Inr (feasible', attempts', rejects', s')"
    and "loop_inv constraints feasible attempts rejects" "length feasible \<le> target"
  shows "loop_inv constraints feasible' attempts' rejects' \<and> length feasible' \<le> target \<and> attempts' \<le> attempts + left \<and>
    (length feasible' = target \<or> attempts' = attempts + left)"
  using assms
proof (induction left arbitrary: feasible attempts rejects s)
  case (Suc left)
  show ?case
  proof (cases "target \<le> length feasible")
    case True
    with Suc.prems show ?thesis by auto
  next
    case False
    with Suc.prems(1) obtain x t where d: "draw s = Inr (x, t)"
      and rest: "(case constraints of
          None \<Rightarrow> sample_loop draw constraints target left (feasible @ [x]) (attempts + 1) rejects t
        | Some c \<Rightarrow> bindE (evaluate_constraints x c) (\<lambda>ev.
            if ev_feasible ev then sample_loop draw constraints target left (feasible @ [x]) (attempts + 1) rejects t
            else sample_loop draw constraints target left feasible (attempts + 1) (accumulate_reject_counts rejects ev) t))
          = Inr (feasible', attempts', rejects', s')"
      by (auto simp: bindE_Inr_iff simp del: One_nat_def)
    have len: "length (feasible @ [x]) \<le> target" using False by simp
    show ?thesis
    proof (cases constraints)
      case None
      with rest have "sample_loop draw constraints target left (feasible @ [x]) (attempts + 1) rejects t = Inr (feasible', attempts', rejects', s')"
        by simp
      from Suc.IH [OF this _ len] Suc.prems(2) None show ?thesis by (auto simp: loop_inv_def)
    next
      case (Some c)
      with rest obtain ev where ev: "evaluate_constraints x c = Inr ev" and rest': "(if ev_feasible ev
            then sample_loop draw constraints target left (feasible @ [x]) (attempts + 1) rejects t
            else sample_loop draw constraints target left feasible (attempts + 1) (accumulate_reject_counts rejects ev) t)
          = Inr (feasible', attempts', rejects', s')"
        by (auto simp: bindE_Inr_iff simp del: One_nat_def)
      show ?thesis
      proof (cases "ev_feasible ev")
        case True
        with rest' have "sample_loop draw constraints target left (feasible @ [x]) (attempts + 1) rejects t = Inr (feasible', attempts', rejects', s')"
          by simp
        from Suc.IH [OF this _ len] Suc.prems(2) Some ev True show ?thesis by (auto simp: loop_inv_def)
      next
        case False
        with rest' have r: "sample_loop draw constraints target left feasible (attempts + 1) (accumulate_reject_counts rejects ev) t
            = Inr (feasible', attempts', rejects', s')" by simp
        have "loop_inv constraints feasible (attempts + 1) (accumulate_reject_counts rejects ev)"
          using Suc.prems(2) Some evaluate_reject_pos [OF ev False] by (auto simp: loop_inv_def total_accumulate)
        from Suc.IH [OF r this Suc.prems(3)] show ?thesis by auto
      qed
    qed
  qed
qed auto

text \<open>C19: rejection sampling is bounded and exact. It makes at most \<open>max_attempts\<close> draws, stops only
  when the target is reached or the attempts are used up, returns only feasible candidates, and
  every rejected draw is accounted for in the reject counts.\<close>

theorem sample_feasible_candidates_spec:
  assumes "sample_feasible_candidates draw constraints target_count max_attempts s = Inr (sm, s')"
  shows "length (sm_candidates sm) \<le> nat target_count \<and> sm_attempts sm \<le> nat max_attempts \<and>
    (length (sm_candidates sm) = nat target_count \<or> sm_attempts sm = nat max_attempts) \<and>
    sm_attempts sm = length (sm_candidates sm) + sm_infeasible sm \<and> sm_infeasible sm \<le> total (sm_reject_counts sm) \<and>
    (\<forall>x\<in>set (sm_candidates sm). \<forall>c. constraints = Some c \<longrightarrow>
       (\<exists>ev. evaluate_constraints x c = Inr ev \<and> ev_feasible ev))"
proof -
  obtain feasible attempts rejects where l: "sample_loop draw constraints (nat target_count) (nat max_attempts) [] 0 [] s
      = Inr (feasible, attempts, rejects, s')"
    and sm: "sm = \<lparr>sm_candidates = feasible, sm_attempts = attempts, sm_infeasible = attempts - length feasible,
                sm_reject_counts = rejects\<rparr>"
    using assms by (auto simp: sample_feasible_candidates_def return_iff split: prod.splits)
  have "loop_inv constraints [] 0 []" by (simp add: loop_inv_def split: option.splits)
  from sample_loop_inv [OF l this] show ?thesis by (auto simp: sm loop_inv_def)
qed

subsection \<open>Normalized rules are well-formed\<close>

definition bound_le :: "json \<Rightarrow> json \<Rightarrow> bool" where
  "bound_le a b = (case (py_float a, py_float b) of (Inr x, Inr y) \<Rightarrow> fle x y | _ \<Rightarrow> False)"

fun number_of :: "pdomain \<Rightarrow> json \<Rightarrow> bool" where
  "number_of (IntDom _ _ _) (JInt n) = True"
| "number_of (FloatDom _ _ _) (JFloat x) = is_finite x"
| "number_of _ _ = False"

definition bound_rule_wf :: "param list \<Rightarrow> bound_rule \<Rightarrow> bool" where
  "bound_rule_wf params r = (\<exists>p\<in>set params. p_name p = bd_param r \<and> (bd_min r \<noteq> None \<or> bd_max r \<noteq> None) \<and>
     (case numeric_bounds (p_dom p) of None \<Rightarrow> False
      | Some (_, lo, hi) \<Rightarrow> (\<forall>v. bd_min r = Some v \<longrightarrow> number_of (p_dom p) v \<and> bound_le lo v) \<and>
                            (\<forall>v. bd_max r = Some v \<longrightarrow> number_of (p_dom p) v \<and> bound_le v hi)))"

definition linear_rule_wf :: "param list \<Rightarrow> linear_rule \<Rightarrow> bool" where
  "linear_rule_wf params r = (ln_terms r \<noteq> [] \<and> distinct (map fst (ln_terms r)) \<and> is_finite (ln_rhs r) \<and>
     list_all (\<lambda>(n, c). is_finite c \<and> (\<exists>p\<in>set params. p_name p = n \<and> numeric_bounds (p_dom p) \<noteq> None)) (ln_terms r))"

definition forbidden_rule_wf :: "param list \<Rightarrow> forbidden_rule \<Rightarrow> bool" where
  "forbidden_rule_wf params r = (fb_when r \<noteq> [] \<and>
     list_all (\<lambda>(n, vs). vs \<noteq> [] \<and> distinct vs \<and> (\<exists>p\<in>set params. p_name p = n \<and> list_all (value_in_domain (p_dom p)) vs)) (fb_when r))"

text \<open>No minimum of a parameter exceeds a maximum of it, across all rules.\<close>

definition compatible_bounds :: "bound_rule list \<Rightarrow> bool" where
  "compatible_bounds rules = (\<forall>r\<in>set rules. \<forall>r'\<in>set rules. \<forall>a b. bd_param r = bd_param r' \<longrightarrow>
     bd_min r = Some a \<longrightarrow> bd_max r' = Some b \<longrightarrow> bound_le a b)"

definition constraints_wf :: "param list \<Rightarrow> constraint_cfg \<Rightarrow> bool" where
  "constraints_wf params c =
     (list_all (bound_rule_wf params) (bound_tightening c) \<and> list_all (linear_rule_wf params) (linear_inequalities c) \<and>
      list_all (forbidden_rule_wf params) (forbidden_combinations c) \<and> compatible_bounds (bound_tightening c))"

lemma rule_number_Inr:
  assumes "rule_number i field v = Inr n" "numeric_bounds dm = Some (i, lo, hi)"
  shows "number_of dm n"
  using assms by (cases dm; cases v) (auto simp: rule_number_def return_iff split: if_splits)

lemma float_lt_False:
  assumes "float_lt a b = Inr False" "py_float a \<noteq> Inr NaN" "py_float b \<noteq> Inr NaN"
  shows "bound_le b a"
  using assms by (auto simp: float_lt_def bound_le_def return_iff not_flt)

lemma float_of_int_not_NaN [simp]: "float_of_int i \<noteq> Inr NaN"
  by (auto dest!: float_of_int_finite)

lemma number_of_not_NaN: "number_of dm v \<Longrightarrow> py_float v \<noteq> Inr NaN"
  by (cases dm; cases v) (auto dest!: float_of_int_finite)

lemma numeric_bounds_not_NaN:
  "domain_wf dm \<Longrightarrow> numeric_bounds dm = Some (i, lo, hi) \<Longrightarrow> py_float lo \<noteq> Inr NaN \<and> py_float hi \<noteq> Inr NaN"
  by (cases dm) (auto dest!: float_of_int_finite)

lemma names_of: "params_wf params \<Longrightarrow> map_of (by_name params) n = Some p \<longleftrightarrow> p \<in> set params \<and> p_name p = n"
  using by_name_distinct(2) [of params n p] by (simp add: params_wf_def)

lemma rule_side_Inr:
  assumes "rule_side d key i outside = Inr r"
  shows "(r = None \<longleftrightarrow> \<not> has_key d key) \<and>
    (\<forall>v. r = Some v \<longrightarrow> rule_number i key (jget d key) = Inr v \<and> outside v = Inr False)"
  using assms by (auto simp: rule_side_def bindE_Inr_iff split: if_splits)

lemma bound_rule_norm_wf:
  assumes "params_wf params" "normalize_bound_tightening_rule (by_name params) (idx, raw) = Inr r"
  shows "bound_rule_wf params r \<and> (\<forall>a b. bd_min r = Some a \<longrightarrow> bd_max r = Some b \<longrightarrow> bound_le a b)"
proof -
  obtain d name p i lo hi where
    p: "map_of (by_name params) name = Some p" and nb: "numeric_bounds (p_dom p) = Some (i, lo, hi)"
    and build: "build_bound_rule idx name d (i, lo, hi) = Inr r"
    using assms(2) by (auto simp: normalize_bound_tightening_rule_def split: json.splits option.splits)
  from build obtain mn mx where some: "\<not> (\<not> has_key d ''min'' \<and> \<not> has_key d ''max'')"
    and mn: "rule_side d ''min'' i (\<lambda>n. float_lt n lo) = Inr mn"
    and mx: "rule_side d ''max'' i (\<lambda>n. float_lt hi n) = Inr mx"
    and both: "sides_crossed mn mx = Inr False"
    and r: "r = \<lparr>bd_id = rule_id ''bound_tightening'' idx, bd_param = name, bd_min = mn, bd_max = mx\<rparr>"
    by (auto simp: build_bound_rule_def bindE_Inr_iff split: if_splits)
  have pin: "p \<in> set params" "p_name p = name" using p names_of [OF assms(1)] by auto
  have dw: "domain_wf (p_dom p)" using pin assms(1) by (simp add: params_wf_def)
  note nn = numeric_bounds_not_NaN [OF dw nb]
  have mnok: "number_of (p_dom p) v \<and> bound_le lo v" if "mn = Some v" for v
  proof -
    have f: "rule_number i ''min'' (jget d ''min'') = Inr v" "float_lt v lo = Inr False"
      using rule_side_Inr [OF mn] that by auto
    have n: "number_of (p_dom p) v" by (rule rule_number_Inr [OF f(1) nb])
    with float_lt_False [OF f(2) number_of_not_NaN [OF n]] nn show ?thesis by simp
  qed
  have mxok: "number_of (p_dom p) v \<and> bound_le v hi" if "mx = Some v" for v
  proof -
    have f: "rule_number i ''max'' (jget d ''max'') = Inr v" "float_lt hi v = Inr False"
      using rule_side_Inr [OF mx] that by auto
    have n: "number_of (p_dom p) v" by (rule rule_number_Inr [OF f(1) nb])
    with float_lt_False [OF f(2) _ number_of_not_NaN [OF n]] nn show ?thesis by simp
  qed
  have "mn \<noteq> None \<or> mx \<noteq> None" using some rule_side_Inr [OF mn] rule_side_Inr [OF mx] by blast
  moreover have "bound_le a b" if "mn = Some a" "mx = Some b" for a b
    using both that float_lt_False [of b a] mnok [of a] mxok [of b] number_of_not_NaN by (auto simp: sides_crossed_def)
  ultimately show ?thesis using pin nb mnok mxok by (auto simp: r bound_rule_wf_def)
qed

lemma linear_term_wf:
  assumes "params_wf params" "foldE (normalize_linear_term (by_name params)) raws ts = Inr ts'"
    and "distinct (map fst ts)" "list_all (\<lambda>(n, c). is_finite c \<and> (\<exists>p\<in>set params. p_name p = n \<and> numeric_bounds (p_dom p) \<noteq> None)) ts"
  shows "distinct (map fst ts') \<and> length ts' = length ts + length raws \<and>
    list_all (\<lambda>(n, c). is_finite c \<and> (\<exists>p\<in>set params. p_name p = n \<and> numeric_bounds (p_dom p) \<noteq> None)) ts'"
  using assms(2-4)
proof (induction raws arbitrary: ts)
  case (Cons raw raws)
  then obtain u where u: "normalize_linear_term (by_name params) raw ts = Inr u"
    "foldE (normalize_linear_term (by_name params)) raws u = Inr ts'" by (auto simp: return_iff)
  from u(1) obtain d name p c where "u = ts @ [(name, c)]" "name \<notin> set (map fst ts)" "is_finite c"
    "map_of (by_name params) name = Some p" "numeric_bounds (p_dom p) \<noteq> None"
    by (fastforce simp: normalize_linear_term_def bindE_Inr_iff is_finite_number_True
        split: json.splits option.splits if_splits)
  with Cons.IH [OF u(2)] Cons.prems names_of [OF assms(1)] show ?case by auto
qed simp

lemma linear_rule_norm_wf:
  assumes "params_wf params" "normalize_linear_inequality_rule (by_name params) (idx, raw) = Inr r"
  shows "linear_rule_wf params r"
proof -
  obtain raws ts d where ne: "raws \<noteq> []" and f: "foldE (normalize_linear_term (by_name params)) raws [] = Inr ts"
    and "is_finite_number (jget d ''rhs'') = Inr True" "py_float (jget d ''rhs'') = Inr (ln_rhs r)" "ln_terms r = ts"
    using assms(2)
    by (fastforce simp: normalize_linear_inequality_rule_def bindE_Inr_iff split: json.splits option.splits if_splits)
  with linear_term_wf [OF assms(1) f] show ?thesis by (auto simp: linear_rule_wf_def is_finite_number_True)
qed

lemma match_value_in_domain:
  assumes "canonicalize_match_value dm v = Inr w" "domain_wf dm"
  shows "value_in_domain dm w"
proof (cases dm)
  case (FloatDom lo hi s)
  with assms obtain x where "w = JFloat x" "\<not> out_of_bounds lo hi x" "is_finite x"
    by (auto simp: canonicalize_match_value_def return_iff split: if_splits)
  with assms FloatDom show ?thesis by (simp add: out_of_bounds_def not_flt)
qed (use assms in \<open>cases w; auto simp: canonicalize_match_value_def return_iff split: if_splits\<close>)+

lemma forbidden_rule_norm_wf:
  assumes "params_wf params" "normalize_forbidden_combination_rule (by_name params) (idx, raw) = Inr r"
  shows "forbidden_rule_wf params r"
proof -
  obtain d where d: "d \<noteq> []" and m: "mapE (normalize_match_entry (by_name params)) d = Inr (fb_when r)"
    using assms(2)
    by (fastforce simp: normalize_forbidden_combination_rule_def normalize_match_object_def bindE_Inr_iff
        split: json.splits if_splits)
  have "snd e \<noteq> [] \<and> distinct (snd e) \<and> (\<exists>p\<in>set params. p_name p = fst e \<and> list_all (value_in_domain (p_dom p)) (snd e))"
    if e: "e \<in> set (fb_when r)" for e
  proof -
    obtain name raw where n: "normalize_match_entry (by_name params) (name, raw) = Inr e"
      using mapE_Inr_set [OF m e] by auto
    then obtain p vs where p: "map_of (by_name params) name = Some p" "fst e = name" and ne: "vs \<noteq> []"
      and f: "foldE (add_distinct ''when duplicates'' (canonicalize_match_value (p_dom p))) vs [] = Inr (snd e)"
      by (auto simp: normalize_match_entry_def Let_def bindE_Inr_iff split: option.splits if_splits)
    have pin: "p \<in> set params" "p_name p = name" using p names_of [OF assms(1)] by auto
    then have "domain_wf (p_dom p)" using assms(1) by (simp add: params_wf_def)
    then have "distinct (snd e) \<and> list_all (value_in_domain (p_dom p)) (snd e) \<and>
        length (snd e) = length ([] :: json list) + length vs"
      using match_value_in_domain by (intro add_distinct_fold [OF f]) auto
    with pin p ne show ?thesis by auto
  qed
  moreover have "fb_when r \<noteq> []" using d mapE_Inr_length [OF m] by auto
  ultimately show ?thesis by (simp add: forbidden_rule_wf_def list_all_iff case_prod_unfold)
qed

subsection \<open>Combined bounds\<close>

lemma py_max_ge: "a \<noteq> NaN \<Longrightarrow> b \<noteq> NaN \<Longrightarrow> fle a (py_max a b) \<and> fle b (py_max a b) \<and> py_max a b \<noteq> NaN"
  by (auto simp: py_max_def fle_refl flt_imp_fle not_flt)

lemma py_min_le: "a \<noteq> NaN \<Longrightarrow> b \<noteq> NaN \<Longrightarrow> fle (py_min a b) a \<and> fle (py_min a b) b \<and> py_min a b \<noteq> NaN"
  by (auto simp: py_min_def fle_refl flt_imp_fle not_flt)

definition sides_not_NaN :: "bound_rule \<Rightarrow> bool" where
  "sides_not_NaN r = ((\<forall>v. bd_min r = Some v \<longrightarrow> py_float v \<noteq> Inr NaN) \<and> (\<forall>v. bd_max r = Some v \<longrightarrow> py_float v \<noteq> Inr NaN))"

definition covers_rule :: "(string, interval) dict \<Rightarrow> bound_rule \<Rightarrow> bool" where
  "covers_rule acc r = (\<exists>mn mx. map_of acc (bd_param r) = Some (mn, mx) \<and>
     (\<forall>v. bd_min r = Some v \<longrightarrow> (\<exists>x m. py_float v = Inr x \<and> mn = Some m \<and> fle x m)) \<and>
     (\<forall>v. bd_max r = Some v \<longrightarrow> (\<exists>x m. py_float v = Inr x \<and> mx = Some m \<and> fle m x)))"

definition acc_not_NaN :: "(string, interval) dict \<Rightarrow> bool" where
  "acc_not_NaN acc = (\<forall>k mn mx. map_of acc k = Some (mn, mx) \<longrightarrow> mn \<noteq> Some NaN \<and> mx \<noteq> Some NaN)"

lemma new_min:
  assumes "(case b of None \<Rightarrow> Inr mn | Some v \<Rightarrow> bindE (py_float v) (\<lambda>x.
              Inr (Some (case mn of None \<Rightarrow> x | Some m \<Rightarrow> py_max m x)))) = Inr mn'"
    and "mn \<noteq> Some NaN" "\<And>v. b = Some v \<Longrightarrow> py_float v \<noteq> Inr NaN"
  shows "mn' \<noteq> Some NaN \<and> (\<forall>m. mn = Some m \<longrightarrow> (\<exists>m'. mn' = Some m' \<and> fle m m')) \<and>
    (\<forall>v. b = Some v \<longrightarrow> (\<exists>x m. py_float v = Inr x \<and> mn' = Some m \<and> fle x m))"
proof (cases b)
  case None
  with assms show ?thesis by (auto intro!: fle_refl)
next
  case (Some v)
  with assms(1,3) obtain x where x: "py_float v = Inr x" "x \<noteq> NaN" "mn' = Some (case mn of None \<Rightarrow> x | Some m \<Rightarrow> py_max m x)"
    by (auto simp: bindE_Inr_iff)
  show ?thesis
  proof (cases mn)
    case (Some y)
    with assms(2) have "y \<noteq> NaN" by simp
    from py_max_ge [OF this x(2)] x Some \<open>b = Some v\<close> show ?thesis by auto
  qed (use x Some fle_refl in auto)
qed

lemma new_max:
  assumes "(case b of None \<Rightarrow> Inr mx | Some v \<Rightarrow> bindE (py_float v) (\<lambda>x.
              Inr (Some (case mx of None \<Rightarrow> x | Some m \<Rightarrow> py_min m x)))) = Inr mx'"
    and "mx \<noteq> Some NaN" "\<And>v. b = Some v \<Longrightarrow> py_float v \<noteq> Inr NaN"
  shows "mx' \<noteq> Some NaN \<and> (\<forall>m. mx = Some m \<longrightarrow> (\<exists>m'. mx' = Some m' \<and> fle m' m)) \<and>
    (\<forall>v. b = Some v \<longrightarrow> (\<exists>x m. py_float v = Inr x \<and> mx' = Some m \<and> fle m x))"
proof (cases b)
  case None
  with assms show ?thesis by (auto intro!: fle_refl)
next
  case (Some v)
  with assms(1,3) obtain x where x: "py_float v = Inr x" "x \<noteq> NaN" "mx' = Some (case mx of None \<Rightarrow> x | Some m \<Rightarrow> py_min m x)"
    by (auto simp: bindE_Inr_iff)
  show ?thesis
  proof (cases mx)
    case (Some y)
    with assms(2) have "y \<noteq> NaN" by simp
    from py_min_le [OF this x(2)] x Some \<open>b = Some v\<close> show ?thesis by auto
  qed (use x Some fle_refl in auto)
qed

lemma combine_rule_step:
  assumes "combine_rule r acc = Inr acc'" "acc_not_NaN acc" "sides_not_NaN r"
  shows "acc_not_NaN acc'" "covers_rule acc' r" "covers_rule acc q \<Longrightarrow> covers_rule acc' q"
proof -
  obtain mn mx where old: "dict_get acc (bd_param r) (None, None) = (mn, mx)" by (cases "dict_get acc (bd_param r) (None, None)")
  have nn: "mn \<noteq> Some NaN" "mx \<noteq> Some NaN"
    using old assms(2) by (auto simp: dict_get_def acc_not_NaN_def split: option.splits)
  from assms(1) obtain mn' mx' where
    mn': "(case bd_min r of None \<Rightarrow> Inr mn | Some v \<Rightarrow> bindE (py_float v) (\<lambda>x.
              Inr (Some (case mn of None \<Rightarrow> x | Some m \<Rightarrow> py_max m x)))) = Inr mn'"
    and mx': "(case bd_max r of None \<Rightarrow> Inr mx | Some v \<Rightarrow> bindE (py_float v) (\<lambda>x.
              Inr (Some (case mx of None \<Rightarrow> x | Some m \<Rightarrow> py_min m x)))) = Inr mx'"
    and acc': "acc' = dset (bd_param r) (mn', mx') acc"
    by (auto simp: combine_rule_def old bindE_Inr_iff)
  have lo: "mn' \<noteq> Some NaN" "\<And>m. mn = Some m \<Longrightarrow> \<exists>m'. mn' = Some m' \<and> fle m m'"
    "\<And>v. bd_min r = Some v \<Longrightarrow> \<exists>x m. py_float v = Inr x \<and> mn' = Some m \<and> fle x m"
    using new_min [OF mn' nn(1)] assms(3) by (auto simp: sides_not_NaN_def)
  have hi: "mx' \<noteq> Some NaN" "\<And>m. mx = Some m \<Longrightarrow> \<exists>m'. mx' = Some m' \<and> fle m' m"
    "\<And>v. bd_max r = Some v \<Longrightarrow> \<exists>x m. py_float v = Inr x \<and> mx' = Some m \<and> fle m x"
    using new_max [OF mx' nn(2)] assms(3) by (auto simp: sides_not_NaN_def)
  show "acc_not_NaN acc'" using assms(2) lo(1) hi(1) by (auto simp: acc' acc_not_NaN_def)
  show "covers_rule acc' r" using lo(3) hi(3) by (auto simp: acc' covers_rule_def)
  assume q: "covers_rule acc q"
  show "covers_rule acc' q"
  proof (cases "bd_param q = bd_param r")
    case True
    then have "map_of acc (bd_param q) = Some (mn, mx)" using q old by (auto simp: covers_rule_def dict_get_def)
    then have qm: "\<And>v. bd_min q = Some v \<Longrightarrow> \<exists>x m. py_float v = Inr x \<and> mn = Some m \<and> fle x m"
      "\<And>v. bd_max q = Some v \<Longrightarrow> \<exists>x m. py_float v = Inr x \<and> mx = Some m \<and> fle m x"
      using q by (auto simp: covers_rule_def)
    have "\<exists>x m. py_float v = Inr x \<and> mn' = Some m \<and> fle x m" if "bd_min q = Some v" for v
      using qm(1) [OF that] lo(2) fle_trans by blast
    moreover have "\<exists>x m. py_float v = Inr x \<and> mx' = Some m \<and> fle m x" if "bd_max q = Some v" for v
      using qm(2) [OF that] hi(2) fle_trans by blast
    ultimately show ?thesis by (simp add: covers_rule_def acc' True)
  next
    case False
    with q show ?thesis by (simp add: covers_rule_def acc')
  qed
qed

lemma combine_fold:
  assumes "foldE combine_rule rs acc = Inr acc'" "acc_not_NaN acc" "\<forall>r\<in>set rs. sides_not_NaN r" "\<forall>q\<in>set done. covers_rule acc q"
  shows "acc_not_NaN acc' \<and> (\<forall>q\<in>set (done @ rs). covers_rule acc' q)"
  using assms
proof (induction rs arbitrary: acc "done")
  case (Cons r rs)
  then obtain u where u: "combine_rule r acc = Inr u" "foldE combine_rule rs u = Inr acc'" by (auto simp: return_iff)
  have st: "sides_not_NaN r" using Cons.prems(3) by simp
  note s = combine_rule_step [OF u(1) Cons.prems(2) st]
  have "\<forall>q\<in>set (done @ [r]). covers_rule u q" using s(2,3) Cons.prems(4) by auto
  from Cons.IH [OF u(2) s(1) _ this] Cons.prems(3) show ?case by simp
qed simp

lemma combined_compatible:
  assumes "validate_combined_bound_tightening rules = Inr u" "\<forall>r\<in>set rules. sides_not_NaN r"
  shows "compatible_bounds rules"
proof -
  obtain acc where f: "foldE combine_rule rules [] = Inr acc" and ok: "list_all (\<lambda>(_, i). interval_ok i) acc"
    using assms(1) by (auto simp: validate_combined_bound_tightening_def bindE_Inr_iff guardE_Inr_iff)
  have c: "acc_not_NaN acc" "covers_rule acc q" if "q \<in> set rules" for q
    using combine_fold [OF f _ assms(2), of "[]"] that by (auto simp: acc_not_NaN_def)
  show ?thesis
    unfolding compatible_bounds_def
  proof (intro ballI allI impI)
    fix r r' a b
    assume r: "r \<in> set rules" "r' \<in> set rules" "bd_param r = bd_param r'" "bd_min r = Some a" "bd_max r' = Some b"
    from c(2) [OF r(1)] c(2) [OF r(2)] r(3-5) obtain m m' x y where
      i: "map_of acc (bd_param r) = Some (Some m, Some m')"
      and xy: "py_float a = Inr x" "fle x m" "py_float b = Inr y" "fle m' y"
      by (fastforce simp: covers_rule_def)
    from i have "interval_ok (Some m, Some m')" using ok map_of_SomeD [OF i] by (auto simp: list_all_iff)
    moreover have "m \<noteq> NaN" "m' \<noteq> NaN" using i c(1) [OF r(1)] by (auto simp: acc_not_NaN_def)
    ultimately have "fle m m'" by (simp add: not_flt)
    with xy fle_trans have "fle x y" by blast
    with xy show "bound_le a b" by (simp add: bound_le_def)
  qed
qed

lemma bound_rule_wf_sides: "bound_rule_wf params r \<Longrightarrow> sides_not_NaN r"
  using number_of_not_NaN by (auto simp: bound_rule_wf_def sides_not_NaN_def split: option.splits)

lemma mapE_all:
  assumes "mapE f xs = Inr ys" "\<And>x y. x \<in> set xs \<Longrightarrow> f x = Inr y \<Longrightarrow> P y"
  shows "list_all P ys"
  using mapE_Inr_set [OF assms(1)] assms(2) by (fastforce simp: list_all_iff)


subsection \<open>Tightened domains\<close>

lemma eps12_facts: "is_finite eps12" "0 \<le> fval eps12" "is_finite (fneg eps12)"
  by (simp_all add: eps12_def)

lemma sub_eps_le:
  assumes "fwf m" "is_finite m"
  shows "fle (sub_eps m) m"
proof -
  have "fle (sub_eps m) (mk_float False (fval m))"
    unfolding sub_eps_def fsub_finite [OF assms(2) eps12_facts(1)] using eps12_facts(2) by (intro mk_float_mono) simp
  moreover have "fle (mk_float False (fval m)) m" using mk_float_self [OF assms] feq_fle by blast
  ultimately show ?thesis by (rule fle_trans)
qed

lemma add_eps_ge:
  assumes "fwf m" "is_finite m"
  shows "fle m (add_eps m)"
proof -
  have "fle (mk_float False (fval m)) (add_eps m)"
    unfolding add_eps_def fadd_finite [OF assms(2) eps12_facts(1)] using eps12_facts(2) by (intro mk_float_mono) simp
  moreover have "fle m (mk_float False (fval m))" using mk_float_self [OF assms] feq_fle by blast
  ultimately show ?thesis using fle_trans by blast
qed

definition json_num :: "json \<Rightarrow> bool" where
  "json_num v = (strict_num v \<and> v \<noteq> JFloat NaN)"

lemma json_num_value: "json_num v \<Longrightarrow> \<exists>x. num_value v = Some x \<and> x \<noteq> NaN"
  by (cases v) (auto simp: json_num_def)

interpretation json_order: key_order json_lt json_num
proof
  fix x y z assume "json_num x"
  then show "\<not> json_lt x x" by (auto simp: json_lt_def split: option.splits)
next
  fix x y z assume "json_lt x y" "json_lt y z"
  then show "json_lt x z" by (auto simp: json_lt_def intro: flt_trans split: option.splits)
next
  fix x y z assume o: "json_num x" "json_num y" "json_num z" "\<not> json_lt y x" "\<not> json_lt z y"
  then obtain a b d where "num_value x = Some a" "num_value y = Some b" "num_value z = Some d" "a \<noteq> NaN" "b \<noteq> NaN" "d \<noteq> NaN"
    using json_num_value by metis
  with o(4,5) show "\<not> json_lt z x" by (auto simp: json_lt_def intro: float_order.nlt_trans [THEN notE])
qed

definition sides_num :: "bound_rule \<Rightarrow> bool" where
  "sides_num r = ((\<forall>v. bd_min r = Some v \<longrightarrow> json_num v) \<and> (\<forall>v. bd_max r = Some v \<longrightarrow> json_num v))"

text \<open>After the fold every rule is dominated by the interval of its parameter, whose ends come from rules.\<close>

definition tight_inv :: "bound_rule list \<Rightarrow> (string, json option \<times> json option) dict \<Rightarrow> bool" where
  "tight_inv rules acc =
     ((\<forall>r\<in>set rules. \<exists>mn mx. map_of acc (bd_param r) = Some (mn, mx) \<and>
        (\<forall>v. bd_min r = Some v \<longrightarrow> (\<exists>m. mn = Some m \<and> \<not> json_lt m v)) \<and>
        (\<forall>v. bd_max r = Some v \<longrightarrow> (\<exists>m. mx = Some m \<and> \<not> json_lt v m))) \<and>
      (\<forall>k mn mx. map_of acc k = Some (mn, mx) \<longrightarrow>
        (\<forall>m. mn = Some m \<longrightarrow> (\<exists>r\<in>set rules. bd_param r = k \<and> bd_min r = Some m)) \<and>
        (\<forall>m. mx = Some m \<longrightarrow> (\<exists>r\<in>set rules. bd_param r = k \<and> bd_max r = Some m))))"

lemma tight_inv_step:
  assumes "tight_inv rules acc" "\<forall>q\<in>set (rules @ [r]). sides_num q"
  shows "tight_inv (rules @ [r]) (tighten_rule r acc)"
proof -
  obtain mn mx where old: "dict_get acc (bd_param r) (None, None) = (mn, mx)" by (cases "dict_get acc (bd_param r) (None, None)")
  define mn' where "mn' = (case bd_min r of None \<Rightarrow> mn | Some v \<Rightarrow> Some (case mn of None \<Rightarrow> v | Some m \<Rightarrow> if json_lt m v then v else m))"
  define mx' where "mx' = (case bd_max r of None \<Rightarrow> mx | Some v \<Rightarrow> Some (case mx of None \<Rightarrow> v | Some m \<Rightarrow> if json_lt v m then v else m))"
  have acc': "tighten_rule r acc = dset (bd_param r) (mn', mx') acc"
    by (simp add: tighten_rule_def old Let_def mn'_def mx'_def)
  have srcs: "m \<in> {v. \<exists>q\<in>set rules. bd_param q = bd_param r \<and> bd_min q = Some v}" if "mn = Some m" for m
    using that old assms(1) by (fastforce simp: dict_get_def tight_inv_def split: option.splits)
  have srcx: "m \<in> {v. \<exists>q\<in>set rules. bd_param q = bd_param r \<and> bd_max q = Some v}" if "mx = Some m" for m
    using that old assms(1) by (fastforce simp: dict_get_def tight_inv_def split: option.splits)
  have numn: "json_num m" if "mn = Some m" for m using srcs [OF that] assms(2) by (auto simp: sides_num_def)
  have numx: "json_num m" if "mx = Some m" for m using srcx [OF that] assms(2) by (auto simp: sides_num_def)
  have numr: "bd_min r = Some v \<Longrightarrow> json_num v" "bd_max r = Some v \<Longrightarrow> json_num v" for v
    using assms(2) by (auto simp: sides_num_def)
  have up: "\<exists>m'. mn' = Some m' \<and> \<not> json_lt m' m" if "mn = Some m" for m
    using that numn [OF that] numr(1) json_order.lt_irrefl json_order.lt_asym by (auto simp: mn'_def split: option.splits)
  have down: "\<exists>m'. mx' = Some m' \<and> \<not> json_lt m m'" if "mx = Some m" for m
    using that numx [OF that] numr(2) json_order.lt_irrefl json_order.lt_asym by (auto simp: mx'_def split: option.splits)
  have own: "\<exists>m'. mn' = Some m' \<and> \<not> json_lt m' v" if "bd_min r = Some v" for v
    using that numr(1) [OF that] json_order.lt_irrefl by (auto simp: mn'_def split: option.splits)
  have ownx: "\<exists>m'. mx' = Some m' \<and> \<not> json_lt v m'" if "bd_max r = Some v" for v
    using that numr(2) [OF that] json_order.lt_irrefl by (auto simp: mx'_def split: option.splits)
  have num': "mn' = Some m \<Longrightarrow> json_num m" "mx' = Some m \<Longrightarrow> json_num m" for m
    using numn numx numr by (auto simp: mn'_def mx'_def split: option.splits if_splits)
  have rules: "\<exists>a b. map_of (tighten_rule r acc) (bd_param q) = Some (a, b) \<and>
        (\<forall>v. bd_min q = Some v \<longrightarrow> (\<exists>m. a = Some m \<and> \<not> json_lt m v)) \<and>
        (\<forall>v. bd_max q = Some v \<longrightarrow> (\<exists>m. b = Some m \<and> \<not> json_lt v m))" if q: "q \<in> set (rules @ [r])" for q
  proof (cases "bd_param q = bd_param r")
    case False
    then have "q \<in> set rules" using q by auto
    with False assms(1) show ?thesis by (auto simp: acc' tight_inv_def)
  next
    case True
    have "\<exists>m. mn' = Some m \<and> \<not> json_lt m v" if v: "bd_min q = Some v" for v
    proof (cases "q = r")
      case False
      then have "q \<in> set rules" using q by auto
      then obtain m where m: "mn = Some m" "\<not> json_lt m v"
        using assms(1) old True v by (fastforce simp: tight_inv_def dict_get_def)
      obtain m' where m': "mn' = Some m'" "\<not> json_lt m' m" using up [OF m(1)] by blast
      have "json_num v" using assms(2) q v by (auto simp: sides_num_def)
      from json_order.nlt_trans [OF this numn [OF m(1)] num'(1) [OF m'(1)] m(2) m'(2)] m'(1) show ?thesis by blast
    qed (use own v in blast)
    moreover have "\<exists>m. mx' = Some m \<and> \<not> json_lt v m" if v: "bd_max q = Some v" for v
    proof (cases "q = r")
      case False
      then have "q \<in> set rules" using q by auto
      then obtain m where m: "mx = Some m" "\<not> json_lt v m"
        using assms(1) old True v by (fastforce simp: tight_inv_def dict_get_def)
      obtain m' where m': "mx' = Some m'" "\<not> json_lt m m'" using down [OF m(1)] by blast
      have "json_num v" using assms(2) q v by (auto simp: sides_num_def)
      from json_order.nlt_trans [OF num'(2) [OF m'(1)] numx [OF m(1)] this m'(2) m(2)] m'(1) show ?thesis by blast
    qed (use ownx v in blast)
    ultimately show ?thesis by (simp add: acc' True)
  qed
  have src: "\<exists>q\<in>set (rules @ [r]). bd_param q = bd_param r \<and> bd_min q = Some m" if "mn' = Some m" for m
    using that srcs by (auto simp: mn'_def split: option.splits if_splits)
  have src': "\<exists>q\<in>set (rules @ [r]). bd_param q = bd_param r \<and> bd_max q = Some m" if "mx' = Some m" for m
    using that srcx by (auto simp: mx'_def split: option.splits if_splits)
  have "(\<forall>m. a = Some m \<longrightarrow> (\<exists>q\<in>set (rules @ [r]). bd_param q = k \<and> bd_min q = Some m)) \<and>
        (\<forall>m. b = Some m \<longrightarrow> (\<exists>q\<in>set (rules @ [r]). bd_param q = k \<and> bd_max q = Some m))"
    if "map_of (tighten_rule r acc) k = Some (a, b)" for k a b
  proof (cases "k = bd_param r")
    case True
    with that have "a = mn'" "b = mx'" by (auto simp: acc')
    with src src' True show ?thesis by blast
  next
    case False
    with that have "map_of acc k = Some (a, b)" by (simp add: acc')
    with assms(1) show ?thesis by (fastforce simp: tight_inv_def)
  qed
  with rules show ?thesis unfolding tight_inv_def by blast
qed

lemma tight_inv_fold: "\<forall>q\<in>set rules. sides_num q \<Longrightarrow> tight_inv rules (fold tighten_rule rules [])"
proof (induction rules rule: rev_induct)
  case Nil
  then show ?case by (simp add: tight_inv_def)
next
  case (snoc r rules)
  then show ?case using tight_inv_step [of rules "fold tighten_rule rules []" r] by simp
qed

definition sides_fwf :: "bound_rule \<Rightarrow> bool" where
  "sides_fwf r = ((\<forall>x. bd_min r = Some (JFloat x) \<longrightarrow> fwf x) \<and> (\<forall>x. bd_max r = Some (JFloat x) \<longrightarrow> fwf x))"

lemma number_of_num: "number_of dm v \<Longrightarrow> json_num v"
  by (cases dm; cases v) (auto simp: json_num_def)

lemma float_of_int_mono: "a \<le> b \<Longrightarrow> float_of_int a = Inr x \<Longrightarrow> float_of_int b = Inr y \<Longrightarrow> fle x y"
  by (auto simp: float_of_int_def Let_def mk_float_mono split: if_splits)

lemma not_below_eps: "fwf m \<Longrightarrow> is_finite m \<Longrightarrow> fle m x \<Longrightarrow> \<not> flt x (sub_eps m)"
  using sub_eps_le [of m] fle_trans [of "sub_eps m" m x] by (auto simp: flt_def fle_def)

lemma not_above_eps: "fwf m \<Longrightarrow> is_finite m \<Longrightarrow> fle x m \<Longrightarrow> \<not> flt (add_eps m) x"
  using add_eps_ge [of m] fle_trans [of x m "add_eps m"] by (auto simp: flt_def fle_def)

text \<open>A value of the tightened domain is on the right side of a rule's numbers.\<close>

lemma tightened_value_side:
  assumes "tighten_domain (mn, mx) dm = Inr dm'" "value_in_domain dm' v" "py_float v = Inr x"
    and "\<And>m. mn = Some m \<Longrightarrow> number_of dm m" "\<And>m. mx = Some m \<Longrightarrow> number_of dm m" "numeric_bounds dm \<noteq> None"
  shows "mn = Some m \<Longrightarrow> number_of dm a \<Longrightarrow> \<not> json_lt m a \<Longrightarrow> py_float a = Inr f \<Longrightarrow> fle f x"
    and "mx = Some m \<Longrightarrow> number_of dm a \<Longrightarrow> \<not> json_lt a m \<Longrightarrow> py_float a = Inr f \<Longrightarrow> fle x f"
proof -
  have "(mn = Some m \<longrightarrow> number_of dm a \<longrightarrow> \<not> json_lt m a \<longrightarrow> py_float a = Inr f \<longrightarrow> fle f x) \<and>
        (mx = Some m \<longrightarrow> number_of dm a \<longrightarrow> \<not> json_lt a m \<longrightarrow> py_float a = Inr f \<longrightarrow> fle x f)"
  proof (cases dm)
    case (IntDom lo hi s)
    with assms(1) obtain lo' hi' where
      lo': "py_int (case mn of None \<Rightarrow> JInt lo | Some v \<Rightarrow> v) = Inr lo'" and
      hi': "py_int (case mx of None \<Rightarrow> JInt hi | Some v \<Rightarrow> v) = Inr hi'" and dm': "dm' = IntDom lo' hi' s"
      by (auto simp: tighten_domain_def bindE_Inr_iff)
    obtain n where n: "v = JInt n" "lo' \<le> n" "n \<le> hi'" using assms(2) dm' by (cases v) auto
    show ?thesis
    proof (intro conjI impI)
      assume h: "mn = Some m" "number_of dm a" "\<not> json_lt m a" "py_float a = Inr f"
      obtain i j where "m = JInt i" "a = JInt j" using h(2) assms(4) [OF h(1)] IntDom by (cases m; cases a) auto
      then show "fle f x" using h lo' n assms(3) by (auto simp: json_lt_def flt_def intro!: float_of_int_mono [of j n])
    next
      assume h: "mx = Some m" "number_of dm a" "\<not> json_lt a m" "py_float a = Inr f"
      obtain i j where "m = JInt i" "a = JInt j" using h(2) assms(5) [OF h(1)] IntDom by (cases m; cases a) auto
      then show "fle x f" using h hi' n assms(3) by (auto simp: json_lt_def flt_def intro!: float_of_int_mono [of n j])
    qed
  next
    case (FloatDom lo hi s)
    with assms(1) obtain lo' hi' where
      lo': "py_float (case mn of None \<Rightarrow> JFloat lo | Some v \<Rightarrow> v) = Inr lo'" and
      hi': "py_float (case mx of None \<Rightarrow> JFloat hi | Some v \<Rightarrow> v) = Inr hi'" and
      dm': "dm' = (if feq lo' lo \<and> feq hi' hi then dm else FloatDom lo' hi' s)"
      by (auto simp: tighten_domain_def bindE_Inr_iff)
    have v: "v = JFloat x" "fle lo' x" "fle x hi'"
    proof -
      obtain y where y: "v = JFloat y" using assms(2) dm' FloatDom by (cases v) (auto split: if_splits)
      then show "v = JFloat x" using assms(3) by simp
      with y assms(2) dm' FloatDom show "fle lo' x" "fle x hi'"
        by (auto split: if_splits dest!: feq_fle intro: fle_trans)
    qed
    show ?thesis
    proof (intro conjI impI)
      assume h: "mn = Some m" "number_of dm a" "\<not> json_lt m a" "py_float a = Inr f"
      obtain i j where "m = JFloat i" "a = JFloat j" "is_finite i" "is_finite j"
        using h(2) assms(4) [OF h(1)] FloatDom by (cases m; cases a) auto
      then show "fle f x" using h lo' v by (auto simp: json_lt_def not_flt intro: fle_trans)
    next
      assume h: "mx = Some m" "number_of dm a" "\<not> json_lt a m" "py_float a = Inr f"
      obtain i j where "m = JFloat i" "a = JFloat j" "is_finite i" "is_finite j"
        using h(2) assms(5) [OF h(1)] FloatDom by (cases m; cases a) auto
      then show "fle x f" using h hi' v by (auto simp: json_lt_def not_flt intro: fle_trans)
    qed
  qed (use assms(6) in auto)
  then show "mn = Some m \<Longrightarrow> number_of dm a \<Longrightarrow> \<not> json_lt m a \<Longrightarrow> py_float a = Inr f \<Longrightarrow> fle f x"
    and "mx = Some m \<Longrightarrow> number_of dm a \<Longrightarrow> \<not> json_lt a m \<Longrightarrow> py_float a = Inr f \<Longrightarrow> fle x f" by blast+
qed

lemma number_fwf: "number_of dm v \<Longrightarrow> (\<forall>x. v = JFloat x \<longrightarrow> fwf x) \<Longrightarrow> py_float v = Inr m \<Longrightarrow> fwf m \<and> is_finite m"
  by (cases dm; cases v) (auto dest: float_of_int_fwf float_of_int_finite)

text \<open>The sides of a rule are numbers of its parameter's domain.\<close>

lemma rule_sides_typed:
  assumes "params_wf params" "bound_rule_wf params r" "q \<in> set params" "bd_param r = p_name q"
  shows "numeric_bounds (p_dom q) \<noteq> None" "bd_min r = Some a \<Longrightarrow> number_of (p_dom q) a" "bd_max r = Some a \<Longrightarrow> number_of (p_dom q) a"
proof -
  obtain p' where p': "p' \<in> set params" "p_name p' = bd_param r" and nb: "case numeric_bounds (p_dom p') of None \<Rightarrow> False
    | Some (_, lo, hi) \<Rightarrow> (\<forall>v. bd_min r = Some v \<longrightarrow> number_of (p_dom p') v \<and> bound_le lo v) \<and>
                          (\<forall>v. bd_max r = Some v \<longrightarrow> number_of (p_dom p') v \<and> bound_le v hi)"
    using assms(2) by (auto simp: bound_rule_wf_def)
  have "p' = q" using assms(1,3,4) p' by (auto simp: params_wf_def distinct_map inj_on_def)
  with nb show "numeric_bounds (p_dom q) \<noteq> None" "bd_min r = Some a \<Longrightarrow> number_of (p_dom q) a" "bd_max r = Some a \<Longrightarrow> number_of (p_dom q) a"
    by (auto split: option.splits)
qed

text \<open>A value of a domain tightened at least as far as a rule asks satisfies that rule.\<close>

lemma tightened_satisfies:
  assumes td: "tighten_domain (mn, mx) dm = Inr dm'" "value_in_domain dm' v" "numeric_bounds dm \<noteq> None"
    and typed: "\<And>m. mn = Some m \<Longrightarrow> number_of dm m" "\<And>m. mx = Some m \<Longrightarrow> number_of dm m"
      "\<And>a. bd_min r = Some a \<Longrightarrow> number_of dm a" "\<And>a. bd_max r = Some a \<Longrightarrow> number_of dm a"
    and mn: "\<And>a. bd_min r = Some a \<Longrightarrow> \<exists>m. mn = Some m \<and> \<not> json_lt m a"
    and mx: "\<And>a. bd_max r = Some a \<Longrightarrow> \<exists>m. mx = Some m \<and> \<not> json_lt a m"
    and fw: "sides_fwf r" and v: "map_of values (bd_param r) = Some v"
  shows "satisfies_bound values r"
  unfolding satisfies_bound_eps
proof (intro allI impI conjI)
  fix w x a m assume w: "map_of values (bd_param r) = Some w" "py_float w = Inr x" and a: "bd_min r = Some a" "py_float a = Inr m"
  have "w = v" using w v by simp
  then have "fle m x"
    using tightened_value_side(1) [OF td(1,2) _ typed(1,2) td(3)] mn [OF a(1)] typed(3) [OF a(1)] a(2) w(2) by blast
  moreover have "fwf m \<and> is_finite m" using fw a by (intro number_fwf [OF typed(3) [OF a(1)]]) (auto simp: sides_fwf_def)
  ultimately show "\<not> flt x (sub_eps m)" by (intro not_below_eps) auto
next
  fix w x a m assume w: "map_of values (bd_param r) = Some w" "py_float w = Inr x" and a: "bd_max r = Some a" "py_float a = Inr m"
  have "w = v" using w v by simp
  then have "fle x m"
    using tightened_value_side(2) [OF td(1,2) _ typed(1,2) td(3)] mx [OF a(1)] typed(4) [OF a(1)] a(2) w(2) by blast
  moreover have "fwf m \<and> is_finite m" using fw a by (intro number_fwf [OF typed(4) [OF a(1)]]) (auto simp: sides_fwf_def)
  ultimately show "\<not> flt (add_eps m) x" by (intro not_above_eps) auto
qed

text \<open>C20: the tightened space enforces the bound rules. A value from the tightened domain of a
  parameter never violates a bound rule of that parameter, whatever order the rules have, and
  an integer or float outside the rules is never sampled.\<close>

theorem tightened_domain_sound:
  assumes "params_wf params" "constraints_wf params c" "\<forall>r\<in>set (bound_tightening c). sides_fwf r"
    and "apply_bound_tightening params (Some c) = Inr ps" "p \<in> set ps"
    and "r \<in> set (bound_tightening c)" "bd_param r = p_name p"
    and "map_of values (p_name p) = Some v" "value_in_domain (p_dom p) v" "evaluate_bound_rule values r = Inr vs"
  shows "vs = []"
proof -
  have rwf: "bound_rule_wf params q" if "q \<in> set (bound_tightening c)" for q
    using that assms(2) by (auto simp: constraints_wf_def list_all_iff)
  have num: "sides_num q" if "q \<in> set (bound_tightening c)" for q
    using rwf [OF that] number_of_num by (auto simp: bound_rule_wf_def sides_num_def split: option.splits)
  let ?acc = "fold tighten_rule (bound_tightening c) []"
  have inv: "tight_inv (bound_tightening c) ?acc" using num by (intro tight_inv_fold) blast
  obtain q where q: "q \<in> set params" and qp: "(case map_of ?acc (p_name q) of None \<Rightarrow> Inr q
         | Some b \<Rightarrow> bindE (tighten_domain b (p_dom q)) (\<lambda>dm. Inr (q\<lparr>p_dom := dm\<rparr>))) = Inr p"
    using assms(4,5) mapE_Inr_set by (fastforce simp: apply_bound_tightening_def Let_def)
  then have name: "p_name q = p_name p" by (auto simp: bindE_Inr_iff split: option.splits)
  obtain mn mx where b: "map_of ?acc (p_name q) = Some (mn, mx)"
    and mn: "\<And>a. bd_min r = Some a \<Longrightarrow> \<exists>m. mn = Some m \<and> \<not> json_lt m a"
    and mx: "\<And>a. bd_max r = Some a \<Longrightarrow> \<exists>m. mx = Some m \<and> \<not> json_lt a m"
    using inv assms(6,7) name unfolding tight_inv_def by metis
  have td: "tighten_domain (mn, mx) (p_dom q) = Inr (p_dom p)" using qp b by (auto simp: bindE_Inr_iff)
  have dom_of: "number_of (p_dom q) a" if "q' \<in> set (bound_tightening c)" "bd_param q' = p_name q" "bd_min q' = Some a \<or> bd_max q' = Some a" for q' a
    using rule_sides_typed [OF assms(1) rwf [OF that(1)] q that(2)] that(3) by blast
  have mnn: "number_of (p_dom q) m" if "mn = Some m" for m
    using inv b that dom_of unfolding tight_inv_def by metis
  have mxn: "number_of (p_dom q) m" if "mx = Some m" for m
    using inv b that dom_of unfolding tight_inv_def by metis
  have own: "bd_param r = p_name q" using assms(7) name by simp
  have "satisfies_bound values r"
    using assms(3,6,7,8) dom_of [OF assms(6) own] mn mx
    by (intro tightened_satisfies [OF td assms(9) rule_sides_typed(1) [OF assms(1) rwf [OF assms(6)] q own] mnn mxn]) simp_all
  with evaluate_bound_rule_iff [OF assms(10)] show ?thesis by simp
qed

subsection \<open>Concrete instances\<close>

definition flat_params :: "param list" where
  "flat_params = [param_of ''x'' (IntDom 0 10 Linear) None, param_of ''y'' (FloatDom (Fin 0) (Fin 4) Linear) None]"

definition flat_raw :: json where
  "flat_raw = JObj
     [(''bound_tightening'', JArr [JObj [(''param'', JStr ''x''), (''min'', JInt 2)],
                                  JObj [(''param'', JStr ''x''), (''min'', JInt 4), (''max'', JInt 7)]]),
      (''linear_inequalities'', JArr [JObj [(''terms'', JArr [JObj [(''param'', JStr ''x''), (''coefficient'', JInt 1)],
           JObj [(''param'', JStr ''y''), (''coefficient'', JInt 2)]]), (''operator'', JStr ''<=''), (''rhs'', JInt 9)]])]"

definition flat_constraints :: constraint_cfg where
  "flat_constraints = \<lparr>
     bound_tightening = [\<lparr>bd_id = ''bound_tightening[0]'', bd_param = ''x'', bd_min = Some (JInt 2), bd_max = None\<rparr>,
                         \<lparr>bd_id = ''bound_tightening[1]'', bd_param = ''x'', bd_min = Some (JInt 4), bd_max = Some (JInt 7)\<rparr>],
     linear_inequalities = [\<lparr>ln_id = ''linear_inequalities[0]'', ln_terms = [(''x'', Fin 1), (''y'', Fin 2)],
                             ln_op = LeRhs, ln_rhs = Fin 9\<rparr>],
     forbidden_combinations = []\<rparr>"

lemma flat_params_wf: "params_wf flat_params"
  unfolding params_wf_def
proof (intro conjI)
  show "\<forall>p\<in>set flat_params. p_name p \<noteq> [] \<and> domain_wf (p_dom p) \<and>
         (\<forall>w. p_when p = Some w \<longrightarrow> w \<noteq> [] \<and> list_all (condition_wf flat_params p) w)"
    by (simp add: flat_params_def param_of_def fle_def)
qed code_simp+

lemma flat_normalize: "normalize_constraints flat_raw flat_params = Inr flat_constraints"
proof -
  have "case normalize_constraints flat_raw flat_params of Inl _ \<Rightarrow> False
     | Inr c \<Rightarrow> bound_tightening c = bound_tightening flat_constraints \<and> linear_inequalities c = linear_inequalities flat_constraints
         \<and> forbidden_combinations c = forbidden_combinations flat_constraints"
    by code_simp
  then show ?thesis by (auto split: sum.splits)
qed


definition mixed_rules :: constraint_cfg where
  "mixed_rules = \<lparr>bound_tightening = [\<lparr>bd_id = ''bound_tightening[0]'', bd_param = ''x'', bd_min = None, bd_max = Some (JInt 1)\<rparr>],
     linear_inequalities =
       [\<lparr>ln_id = ''linear_inequalities[0]'', ln_terms = [(''x'', Fin 1), (''y'', Fin 1)], ln_op = LeRhs, ln_rhs = Fin 10\<rparr>,
        \<lparr>ln_id = ''linear_inequalities[1]'', ln_terms = [(''x'', Fin 1), (''y'', Fin 1)], ln_op = GeRhs, ln_rhs = Fin 6\<rparr>],
     forbidden_combinations =
       [\<lparr>fb_id = ''forbidden_combinations[0]'', fb_when = [(''x'', [JInt 3, JInt 5])]\<rparr>,
        \<lparr>fb_id = ''forbidden_combinations[1]'', fb_when = [(''x'', [JInt 3]), (''y'', [JFloat (Fin 2)])]\<rparr>]\<rparr>"

lemma int_near_eps:
  assumes "\<bar>i\<bar> + 1 < (2 :: int) ^ 53"
  shows "fle (fadd (Fin (of_int i)) eps12) (Fin (of_int (i + 1)))" "fle (Fin (of_int (i - 1))) (fsub (Fin (of_int i)) eps12)"
    "fle (Fin (of_int i)) (fadd (Fin (of_int i)) eps12)"
proof -
  have eps: "0 \<le> fval eps12" "fval eps12 \<le> 1" "is_finite eps12" by (simp_all add: eps12_def)
  have fin: "is_finite (Fin q)" for q by simp
  have up: "Fin (of_int (i + 1)) = mk_float False (of_int (i + 1))" "Fin (of_int (i - 1)) = mk_float False (of_int (i - 1))"
    and same: "Fin (of_int i) = mk_float False (of_int i)"
    using assms by (auto simp: mk_float_of_int simp del: of_int_add of_int_diff)
  show "fle (fadd (Fin (of_int i)) eps12) (Fin (of_int (i + 1)))"
    unfolding up fadd_finite [OF fin eps(3)] using eps(2) by (intro mk_float_mono) simp
  show "fle (Fin (of_int (i - 1))) (fsub (Fin (of_int i)) eps12)"
    unfolding up fsub_finite [OF fin eps(3)] using eps(2) by (intro mk_float_mono) simp
  have "fle (mk_float False (of_int i)) (fadd (Fin (of_int i)) eps12)"
    unfolding fadd_finite [OF fin eps(3)] using eps(1) by (intro mk_float_mono) simp
  then show "fle (Fin (of_int i)) (fadd (Fin (of_int i)) eps12)" by (simp only: same)
qed

lemma mixed_evaluation:
  "\<exists>ev. evaluate_constraints [(''x'', JInt 3), (''y'', JFloat (Fin 1))] mixed_rules = Inr ev \<and>
     map vi_rule_id (ev_violations ev) = [''bound_tightening[0]'', ''linear_inequalities[1]'', ''forbidden_combinations[0]'']"
proof -
  have f: "float_of_int 3 = Inr (Fin 3)" "float_of_int 1 = Inr (Fin 1)"
    using float_of_int_small [of 3] float_of_int_small [of 1] by simp_all
  have s: "fadd (fadd (Fin 0) (fmul (Fin 1) (Fin 3))) (fmul (Fin 1) (Fin 1)) = Fin 4"
    by (simp add: fadd_def fmul_def mk_float_simps)
  have o: "fle (fadd (Fin 1) eps12) (Fin 2)" "flt (Fin 2) (Fin 3)" "fle (Fin 10) (fadd (Fin 10) eps12)" "fle (Fin 4) (Fin 10)"
    "fle (Fin 5) (fsub (Fin 6) eps12)" "flt (Fin 4) (Fin 5)"
    using int_near_eps [of 1] int_near_eps [of 10] int_near_eps [of 6] by (simp_all add: flt_def fle_def)
  have c: "flt (fadd (Fin 1) eps12) (Fin 3)" "fle (Fin 4) (fadd (Fin 10) eps12)" "\<not> fle (fsub (Fin 6) eps12) (Fin 4)"
    using fle_flt_trans [OF o(1,2)] fle_trans [OF o(4,3)] flt_fle_trans [OF o(6,5)] by (auto simp: flt_def fle_def)
  show ?thesis
    by (simp add: evaluate_constraints_def mixed_rules_def evaluate_bound_rule_def evaluate_linear_rule_def
        is_finite_number_def bound_violation_details_def add_term_def linear_feasible_def add_eps_def sub_eps_def
        evaluate_forbidden_rule_def match_allowed_values_def jitem_def Let_def f s c)
qed

theorem evaluate_constraints_exact_witness:
  "\<exists>ev. evaluate_constraints [(''x'', JInt 3), (''y'', JFloat (Fin 1))] mixed_rules = Inr ev \<and>
     \<not> satisfies [(''x'', JInt 3), (''y'', JFloat (Fin 1))] mixed_rules \<and>
     broken_rules [(''x'', JInt 3), (''y'', JFloat (Fin 1))] mixed_rules =
       [''bound_tightening[0]'', ''linear_inequalities[1]'', ''forbidden_combinations[0]''] \<and>
     total (ev_reject_counts ev) = 3"
proof -
  let ?v = "[(''x'', JInt 3), (''y'', JFloat (Fin 1))]"
  let ?ids = "[''bound_tightening[0]'', ''linear_inequalities[1]'', ''forbidden_combinations[0]'']"
  obtain ev where ev: "evaluate_constraints ?v mixed_rules = Inr ev" "map vi_rule_id (ev_violations ev) = ?ids"
    by (rule exE [OF mixed_evaluation]) (erule conjE)
  note e = evaluate_constraints_exact [OF ev(1)]
  have ids: "broken_rules ?v mixed_rules = ?ids" by (rule trans [OF conjunct1 [OF e, symmetric] ev(2)])
  then have unsat: "\<not> satisfies ?v mixed_rules" unfolding broken_rules_empty [symmetric] by simp
  have "length (ev_violations ev) = 3" using arg_cong [OF ev(2), of length] by simp
  then have tot: "total (ev_reject_counts ev) = 3" using conjunct1 [OF conjunct2 [OF conjunct2 [OF e]]] by (rule trans [rotated])
  show ?thesis by (intro exI [of _ ev] conjI) (fact ev(1) unsat ids tot)+
qed

definition small_forbidden :: constraint_cfg where
  "small_forbidden = \<lparr>bound_tightening = [], linear_inequalities = [], forbidden_combinations =
     [\<lparr>fb_id = ''forbidden_combinations[0]'', fb_when = [(''x'', [JInt 3, JInt 5])]\<rparr>,
      \<lparr>fb_id = ''forbidden_combinations[1]'', fb_when = [(''x'', [JInt 3]), (''y'', [JFloat (Fin 1)])]\<rparr>]\<rparr>"

text \<open>A source of candidates that counts upwards.\<close>

definition count_draw :: "nat \<Rightarrow> (jdict \<times> nat) res" where
  "count_draw n = Inr ([(''x'', JInt (int n)), (''y'', JFloat (Fin 1))], Suc n)"

theorem sample_feasible_candidates_spec_witness:
  "\<exists>sm s'. sample_feasible_candidates count_draw (Some small_forbidden) 2 6 3 = Inr (sm, s') \<and>
     length (sm_candidates sm) \<le> 2 \<and> sm_attempts sm \<le> 6 \<and> sm_attempts sm = length (sm_candidates sm) + sm_infeasible sm"
proof -
  have "res_ok (sample_feasible_candidates count_draw (Some small_forbidden) 2 6 3)" by code_simp
  then obtain sm s' where sm: "sample_feasible_candidates count_draw (Some small_forbidden) 2 6 3 = Inr (sm, s')"
    by (elim res_okE) (metis surj_pair)
  from sample_feasible_candidates_spec [OF sm] sm show ?thesis by auto
qed

definition flat_tightened :: "param list" where
  "flat_tightened = [param_of ''x'' (IntDom 4 7 Linear) None, param_of ''y'' (FloatDom (Fin 0) (Fin 4) Linear) None]"

lemma flat_tighten: "apply_bound_tightening flat_params (Some flat_constraints) = Inr flat_tightened"
proof -
  have "case apply_bound_tightening flat_params (Some flat_constraints) of Inl _ \<Rightarrow> False | Inr ps \<Rightarrow> ps = flat_tightened"
    by code_simp
  then show ?thesis by (auto split: sum.splits)
qed

theorem tightened_domain_sound_witness:
  "evaluate_bound_rule [(''x'', JInt 5)] (hd (bound_tightening flat_constraints)) = Inr []"
proof -
  have "res_ok (evaluate_bound_rule [(''x'', JInt 5)] (hd (bound_tightening flat_constraints)))"
    by (simp add: res_ok_def flat_constraints_def evaluate_bound_rule_def bound_violation_details_def is_finite_number_def
        float_of_int_def mk_float_simps)
  then obtain vs where vs: "evaluate_bound_rule [(''x'', JInt 5)] (hd (bound_tightening flat_constraints)) = Inr vs"
    by (rule res_okE)
  have wf: "constraints_wf flat_params flat_constraints"
  proof -
    have "compatible_bounds (bound_tightening flat_constraints)"
      by (rule combined_compatible [of _ "()"]) (code_simp, simp add: flat_constraints_def sides_not_NaN_def)
    moreover have "\<exists>b. b" "\<exists>b. \<not> b" by blast+
    ultimately show ?thesis
      by (simp add: constraints_wf_def flat_constraints_def flat_params_def param_of_def bound_rule_wf_def linear_rule_wf_def
          bound_le_def float_of_int_def mk_float_simps fle_def)
  qed
  have "vs = []"
  proof (rule tightened_domain_sound [OF flat_params_wf wf _ flat_tighten, where v = "JInt 5"])
    show "hd flat_tightened \<in> set flat_tightened" by (simp add: flat_tightened_def)
    show "hd (bound_tightening flat_constraints) \<in> set (bound_tightening flat_constraints)" by (simp add: flat_constraints_def)
    show "evaluate_bound_rule [(''x'', JInt 5)] (hd (bound_tightening flat_constraints)) = Inr vs" by (rule vs)
  qed (simp_all add: flat_constraints_def flat_tightened_def param_of_def sides_fwf_def)
  with vs show ?thesis by simp
qed

text \<open>
  The checks of a rule compare a minimum with the lower bound only and a maximum with the
  upper bound only. A minimum above the upper bound therefore normalizes, and the tightened
  domain is empty: every draw from it fails.
\<close>

lemma one_sided_rule_inverts_bounds:
  "normalize_constraints (JObj [(''bound_tightening'', JArr [JObj [(''param'', JStr ''x''), (''min'', JInt 20)]])]) flat_params
     = Inr \<lparr>bound_tightening = [\<lparr>bd_id = ''bound_tightening[0]'', bd_param = ''x'', bd_min = Some (JInt 20), bd_max = None\<rparr>],
            linear_inequalities = [], forbidden_combinations = []\<rparr> \<and>
   tighten_domain (Some (JInt 20), None) (IntDom 0 10 Linear) = Inr (IntDom 20 10 Linear) \<and>
   randint first_rng 20 10 () = Inl (ValueError ''empty range for randrange()'')"
proof (intro conjI)
  have "case normalize_constraints (JObj [(''bound_tightening'', JArr [JObj [(''param'', JStr ''x''), (''min'', JInt 20)]])]) flat_params of
      Inl _ \<Rightarrow> False
    | Inr c \<Rightarrow> bound_tightening c = [\<lparr>bd_id = ''bound_tightening[0]'', bd_param = ''x'', bd_min = Some (JInt 20), bd_max = None\<rparr>]
        \<and> linear_inequalities c = [] \<and> forbidden_combinations c = []" by code_simp
  then show "normalize_constraints (JObj [(''bound_tightening'', JArr [JObj [(''param'', JStr ''x''), (''min'', JInt 20)]])]) flat_params
     = Inr \<lparr>bound_tightening = [\<lparr>bd_id = ''bound_tightening[0]'', bd_param = ''x'', bd_min = Some (JInt 20), bd_max = None\<rparr>],
            linear_inequalities = [], forbidden_combinations = []\<rparr>"
    by (auto split: sum.splits)
qed code_simp+

end
