(* ===== verification/Contract.thy ===== *)
theory Contract
  imports Pareto Constraints
begin

text \<open>
  \<open>templates/_shared/contract.py\<close>: JSON schema validation, resolution of contract files,
  normalization of an evaluator's payload, the contract view of a stored observation and the
  comparison of two records. Regular expressions and the files are arguments; warnings and
  the texts of messages are left out, the field path of a validation error is kept.
\<close>

abbreviation val_err :: "string \<Rightarrow> string \<Rightarrow> 'a res" where
  "val_err field expected \<equiv> Inl (ValidationError field expected)"

subsection \<open>Schema validation\<close>

definition is_type :: "json \<Rightarrow> json \<Rightarrow> bool" where
  "is_type v expected = (case expected of
     JStr t \<Rightarrow>
       if t = ''object'' then is_dict v
       else if t = ''array'' then is_list v
       else if t = ''integer'' then strict_int v
       else if t = ''number'' then strict_num v
       else if t = ''string'' then is_str v
       else if t = ''boolean'' then is_bool v
       else if t = ''null'' then v = JNull
       else True
   | _ \<Rightarrow> True)"

definition check_type :: "jdict \<Rightarrow> string \<Rightarrow> json \<Rightarrow> unit res" where
  "check_type schema field v = (case jget schema ''type'' of
     JNull \<Rightarrow> Inr ()
   | JStr t \<Rightarrow> if is_type v (JStr t) then Inr () else val_err field ''type''
   | JArr ts \<Rightarrow> if list_ex (is_type v) ts then Inr () else val_err field ''one of types''
   | _ \<Rightarrow> Inl (TypeError ''type''))"

definition check_enum :: "jdict \<Rightarrow> string \<Rightarrow> json \<Rightarrow> unit res" where
  "check_enum schema field v = (case map_of schema ''enum'' of
     None \<Rightarrow> Inr ()
   | Some (JArr vs) \<Rightarrow> if list_ex (py_eq v) vs then Inr () else val_err field ''enum''
   | Some _ \<Rightarrow> Inl (TypeError ''enum''))"

definition check_pattern :: "(string \<Rightarrow> string \<Rightarrow> bool) \<Rightarrow> jdict \<Rightarrow> string \<Rightarrow> json \<Rightarrow> unit res" where
  "check_pattern fullmatch schema field v = (case v of
     JStr s \<Rightarrow> (case map_of schema ''pattern'' of
        None \<Rightarrow> Inr ()
      | Some (JStr p) \<Rightarrow> if fullmatch p s then Inr () else val_err field ''pattern''
      | Some _ \<Rightarrow> Inl (TypeError ''pattern''))
   | _ \<Rightarrow> Inr ())"

definition check_range :: "jdict \<Rightarrow> string \<Rightarrow> json \<Rightarrow> unit res" where
  "check_range schema field v =
     (if \<not> strict_num v then Inr ()
      else
      bindE (case map_of schema ''minimum'' of None \<Rightarrow> Inr False | Some m \<Rightarrow> float_lt v m) (\<lambda>low.
      if low then val_err field ''minimum''
      else bindE (case map_of schema ''maximum'' of None \<Rightarrow> Inr False | Some m \<Rightarrow> float_lt m v) (\<lambda>high.
      if high then val_err field ''maximum'' else Inr ())))"

definition str_items :: "json \<Rightarrow> string list" where
  "str_items v = (case v of JArr xs \<Rightarrow> map str_of xs | _ \<Rightarrow> [])"

definition check_required :: "jdict \<Rightarrow> string \<Rightarrow> jdict \<Rightarrow> unit res" where
  "check_required schema field d =
     foldE (\<lambda>key _. if has_key d key then Inr () else val_err (field @ ''.'' @ key) ''required field present'')
       (str_items (jget schema ''required'')) ()"

definition check_extras :: "jdict \<Rightarrow> (string \<times> json) list \<Rightarrow> string \<Rightarrow> jdict \<Rightarrow> unit res" where
  "check_extras schema props field d =
     (if jget schema ''additionalProperties'' = JBool False \<and> \<not> list_all (\<lambda>k. List.member (map fst props) k) (map fst d)
      then val_err field ''no unknown fields'' else Inr ())"

definition check_length :: "jdict \<Rightarrow> string \<Rightarrow> json list \<Rightarrow> unit res" where
  "check_length schema field xs =
     bindE (case jget schema ''minItems'' of JNull \<Rightarrow> Inr False | m \<Rightarrow> bindE (py_int m) (\<lambda>n. Inr (int (length xs) < n))) (\<lambda>short.
     if short then val_err field ''minItems''
     else bindE (case jget schema ''maxItems'' of JNull \<Rightarrow> Inr False | m \<Rightarrow> bindE (py_int m) (\<lambda>n. Inr (n < int (length xs)))) (\<lambda>long.
     if long then val_err field ''maxItems'' else Inr ()))"

definition schema_props :: "jdict \<Rightarrow> (string \<times> json) list" where
  "schema_props schema = (case jget schema ''properties'' of JObj ps \<Rightarrow> ps | _ \<Rightarrow> [])"

definition index_path :: "string \<Rightarrow> nat \<Rightarrow> string" where
  "index_path field i = field @ ''['' @ int_str (int i) @ '']''"

lemma jget_obj_size: "jget d k = JObj e \<Longrightarrow> size (JObj e) < size (JObj d)"
proof (induction d)
  case (Cons kv d)
  then show ?case by (cases kv) (auto simp: jget_def split: if_splits option.splits)
qed (simp add: jget_def)

lemma entry_size: "(k, v) \<in> set d \<Longrightarrow> size v < size (JObj d)"
  by (induction d) auto

lemma schema_props_size: "(k, v) \<in> set (schema_props d) \<Longrightarrow> size v < size (JObj d)"
proof -
  assume kv: "(k, v) \<in> set (schema_props d)"
  then obtain ps where ps: "jget d ''properties'' = JObj ps" "(k, v) \<in> set ps"
    by (cases "jget d ''properties''") (auto simp: schema_props_def)
  from entry_size [OF ps(2)] jget_obj_size [OF ps(1)] show ?thesis by (rule less_trans)
qed

text \<open>\<open>validate_against_schema\<close>; \<open>properties\<close> and \<open>required\<close> are an object and an array; a child schema that is not an object has no \<open>get\<close>.\<close>

function validate_schema :: "(string \<Rightarrow> string \<Rightarrow> bool) \<Rightarrow> string \<Rightarrow> json \<Rightarrow> json \<Rightarrow> unit res" where
  "validate_schema rx field schema v = (case schema of
     JObj s \<Rightarrow>
       bindE (check_type s field v) (\<lambda>_.
       bindE (check_enum s field v) (\<lambda>_.
       bindE (check_pattern rx s field v) (\<lambda>_.
       bindE (check_range s field v) (\<lambda>_.
       bindE (case v of
         JObj d \<Rightarrow>
           if jget s ''type'' \<noteq> JStr ''object'' then Inr ()
           else
           bindE (check_required s field d) (\<lambda>_.
           bindE (foldE (\<lambda>(key, child) _. case map_of d key of
                None \<Rightarrow> Inr ()
              | Some w \<Rightarrow> validate_schema rx (field @ ''.'' @ key) child w) (schema_props s) ()) (\<lambda>_.
           check_extras s (schema_props s) field d))
       | _ \<Rightarrow> Inr ()) (\<lambda>_.
       case v of
         JArr xs \<Rightarrow>
           if jget s ''type'' \<noteq> JStr ''array'' then Inr ()
           else
           bindE (check_length s field xs) (\<lambda>_.
           (case jget s ''items'' of
              JObj item \<Rightarrow> foldE (\<lambda>(i, x) _. validate_schema rx (index_path field i) (JObj item) x) (enum xs) ()
            | _ \<Rightarrow> Inr ()))
       | _ \<Rightarrow> Inr ())))))
   | _ \<Rightarrow> Inl (AttributeError ''schema.get''))"
  by pat_completeness auto
termination
proof (relation "measure (\<lambda>(_, _, schema, _). size schema)")
  show "wf (measure (\<lambda>(_ :: string \<Rightarrow> string \<Rightarrow> bool, _ :: string, schema :: json, _ :: json). size schema))" by simp
qed (auto dest: schema_props_size jget_obj_size)

declare validate_schema.simps [simp del]

subsection \<open>Contract files\<close>

text \<open>A file holds a JSON document or text that does not parse; \<open>None\<close> means there is no file.\<close>

datatype stored = JsonFile json | BadFile

type_synonym documents = "string \<Rightarrow> stored option"

definition file_name :: "string \<Rightarrow> string" where
  "file_name p = rev (takeWhile (\<lambda>c. c \<noteq> CHR ''/'') (rev p))"

definition file_suffix :: "string \<Rightarrow> string" where
  "file_suffix p = (let n = file_name p; r = takeWhile (\<lambda>c. c \<noteq> CHR ''.'') (rev n) in
     if r \<noteq> [] \<and> Suc (length r) < length n then CHR ''.'' # rev r else [])"

definition load_data_file :: "documents \<Rightarrow> string \<Rightarrow> json res" where
  "load_data_file fs path = (case fs path of
     None \<Rightarrow> Inl (FileNotFoundError path)
   | Some f \<Rightarrow>
       if py_lower (file_suffix path) = ''.json''
       then (case f of JsonFile v \<Rightarrow> Inr v | BadFile \<Rightarrow> Inl (ValueError ''Failed to parse JSON file''))
       else Inl (ValueError ''Unsupported config extension''))"

definition join_path :: "string \<Rightarrow> string \<Rightarrow> string" where
  "join_path project_root name = project_root @ ''/'' @ name"

definition resolve_optional_contract_path :: "documents \<Rightarrow> string \<Rightarrow> string \<Rightarrow> string option res" where
  "resolve_optional_contract_path fs project_root stem =
     (if fs (join_path project_root (stem @ ''.json'')) \<noteq> None then Inr (Some (join_path project_root (stem @ ''.json'')))
      else if fs (join_path project_root (stem @ ''.yaml'')) \<noteq> None then Inl (ValueError ''Unsupported contract file extension'')
      else if fs (join_path project_root (stem @ ''.yml'')) \<noteq> None then Inl (ValueError ''Unsupported contract file extension'')
      else Inr None)"

definition resolve_contract_path :: "documents \<Rightarrow> string \<Rightarrow> string \<Rightarrow> string res" where
  "resolve_contract_path fs project_root stem =
     (if fs (join_path project_root (stem @ ''.json'')) \<noteq> None then Inr (join_path project_root (stem @ ''.json''))
      else if fs (join_path project_root (stem @ ''.yaml'')) \<noteq> None then Inl (ValueError ''Unsupported contract file extension'')
      else if fs (join_path project_root (stem @ ''.yml'')) \<noteq> None then Inl (ValueError ''Unsupported contract file extension'')
      else Inl (FileNotFoundError stem))"

definition load_contract_document :: "documents \<Rightarrow> string \<Rightarrow> string \<Rightarrow> (json \<times> string) res" where
  "load_contract_document fs project_root stem =
     bindE (resolve_contract_path fs project_root stem) (\<lambda>path. bindE (load_data_file fs path) (\<lambda>v. Inr (v, path)))"

definition load_optional_contract_document :: "documents \<Rightarrow> string \<Rightarrow> string \<Rightarrow> (json \<times> string) option res" where
  "load_optional_contract_document fs project_root stem =
     bindE (resolve_optional_contract_path fs project_root stem) (\<lambda>p. case p of
       None \<Rightarrow> Inr None
     | Some path \<Rightarrow> bindE (load_data_file fs path) (\<lambda>v. Inr (Some (v, path))))"

text \<open>\<open>resolve\<close> is \<open>(project_root / rel).resolve()\<close>.\<close>

definition load_schema_from_paths ::
  "documents \<Rightarrow> (string \<Rightarrow> string \<Rightarrow> string) \<Rightarrow> string \<Rightarrow> jdict \<Rightarrow> string \<Rightarrow> string \<Rightarrow> string option \<Rightarrow> (jdict \<times> string) res" where
  "load_schema_from_paths fs resolve project_root paths_cfg key default_rel removed_key =
     (if (case removed_key of None \<Rightarrow> False | Some r \<Rightarrow> has_key paths_cfg r) then Inl (ValueError ''Unsupported config path key'')
      else let rel = (case jget paths_cfg key of JStr s \<Rightarrow> s | _ \<Rightarrow> default_rel); path = resolve project_root rel in
        if key = ''ingest_schema_file'' \<and> file_name path = ''result_payload.schema.json''
          then Inl (ValueError ''Unsupported ingest schema filename'')
        else bindE (load_data_file fs path) (\<lambda>v. case v of
          JObj d \<Rightarrow> Inr (d, path)
        | _ \<Rightarrow> Inl (ValueError ''Schema file must contain a JSON object'')))"

subsection \<open>Payload normalization\<close>

definition contract_require_int :: "json \<Rightarrow> string \<Rightarrow> int res" where
  "contract_require_int v field = (case v of JInt i \<Rightarrow> Inr i | _ \<Rightarrow> val_err field ''integer'')"

definition contract_require_number :: "json \<Rightarrow> string \<Rightarrow> pyfloat res" where
  "contract_require_number v field =
     (if \<not> strict_num v then val_err field ''finite number''
      else bindE (py_float v) (\<lambda>x. if is_finite x then Inr x else val_err field ''finite number''))"

definition canonical_statuses :: "string list" where
  "canonical_statuses = [''ok'', ''failed'', ''killed'', ''timeout'']"

definition normalize_status :: "json \<Rightarrow> string res" where
  "normalize_status raw = (case raw of
     JNull \<Rightarrow> Inr ''ok''
   | JStr s \<Rightarrow> (let n = py_lower (py_strip s) in
       if n = ''success'' then Inr ''ok''
       else if \<not> List.member canonical_statuses n then val_err ''$.status'' ''canonical status''
       else Inr n)
   | _ \<Rightarrow> val_err ''$.status'' ''status string'')"

definition normalize_reason :: "json \<Rightarrow> string \<Rightarrow> string option res" where
  "normalize_reason raw field = (case raw of
     JNull \<Rightarrow> Inr None
   | JStr s \<Rightarrow> Inr (if py_strip s = [] then None else Some (py_strip s))
   | _ \<Rightarrow> val_err field ''string'')"

definition normalize_terminal_reason :: "jdict \<Rightarrow> string \<Rightarrow> string option res" where
  "normalize_terminal_reason payload status =
     bindE (normalize_reason (jget payload ''terminal_reason'') ''$.terminal_reason'') (\<lambda>terminal.
     bindE (normalize_reason (jget payload ''failure_reason'') ''$.failure_reason'') (\<lambda>legacy.
     if status = ''ok'' then Inr None
     else case terminal of
       Some r \<Rightarrow> Inr (Some r)
     | None \<Rightarrow> (case legacy of Some r \<Rightarrow> Inr (Some r) | None \<Rightarrow> Inr (Some (''status='' @ status)))))"

definition set_objective :: "json \<Rightarrow> string \<Rightarrow> jdict \<Rightarrow> jdict" where
  "set_objective v n d = dset n v d"

definition number_objective :: "string \<Rightarrow> jdict \<Rightarrow> jdict res" where
  "number_objective n d =
     bindE (contract_require_number (jget d n) (''$.objectives.'' @ n)) (\<lambda>x. Inr (dset n (JFloat x) d))"

definition require_objectives :: "jdict \<Rightarrow> string list \<Rightarrow> unit res" where
  "require_objectives objectives names =
     foldE (\<lambda>n _. if has_key objectives n then Inr ()
                else val_err (''$.objectives.'' @ n) ''required configured objective present'') names ()"

text \<open>A configuration always has at least its primary objective, so its name list is never empty.\<close>

definition normalize_objectives :: "jdict \<Rightarrow> objective_cfg \<Rightarrow> string \<Rightarrow> (jdict \<times> pyfloat option) res" where
  "normalize_objectives payload cfg status = (case jget payload ''objectives'' of
     JObj objectives \<Rightarrow>
       let names = objective_names cfg in
       bindE (require_objectives objectives names) (\<lambda>_.
       if \<not> list_all (\<lambda>k. List.member names k) (map fst objectives) then val_err ''$.objectives'' ''no unknown objectives''
       else if status = ''ok'' then
         bindE (foldE number_objective names objectives) (\<lambda>norm.
         if has_key payload ''penalty_objective'' then val_err ''$.penalty_objective'' ''omitted for status ok''
         else Inr (norm, None))
       else
         bindE (if has_key payload ''penalty_objective''
                then bindE (contract_require_number (jget payload ''penalty_objective'') ''$.penalty_objective'') (\<lambda>x. Inr (Some x))
                else Inr None) (\<lambda>penalty.
         case filter (\<lambda>n. jget objectives n \<noteq> JNull) names of
           [] \<Rightarrow> Inr (fold (set_objective JNull) names objectives, penalty)
         | n # _ \<Rightarrow> val_err (''$.objectives.'' @ n) ''null for non-ok status''))
   | _ \<Rightarrow> val_err ''$.objectives'' ''object'')"

definition set_opt :: "string \<Rightarrow> json option \<Rightarrow> jdict \<Rightarrow> jdict" where
  "set_opt k v d = (case v of None \<Rightarrow> dpop k d | Some x \<Rightarrow> dset k x d)"

text \<open>\<open>version_ok\<close> decides the pattern \<open>0\.(?:3|4)\.\d+\<close>.\<close>

definition normalize_ingest_payload :: "(string \<Rightarrow> bool) \<Rightarrow> jdict \<Rightarrow> objective_cfg \<Rightarrow> (jdict \<times> int) res" where
  "normalize_ingest_payload version_ok payload cfg =
     bindE (if ax_contract_version cfg = 2 then (case map_of payload ''schema_version'' of
                None \<Rightarrow> Inr ()
              | Some (JStr s) \<Rightarrow> guardE (version_ok s) (ValueError ''payload schema version'')
              | Some _ \<Rightarrow> Inl (ValueError ''payload schema version'')) else Inr ()) (\<lambda>_.
     bindE (contract_require_int (jget payload ''trial_id'') ''$.trial_id'') (\<lambda>trial_id.
     bindE (normalize_status (jget payload ''status'')) (\<lambda>status.
     if \<not> is_dict (jget payload ''params'') then val_err ''$.params'' ''object''
     else
     let p1 = dset ''params'' (jget payload ''params'') (dset ''status'' (JStr status) (dset ''trial_id'' (JInt trial_id) payload)) in
     bindE (normalize_objectives p1 cfg status) (\<lambda>(objectives, penalty).
     bindE (normalize_terminal_reason p1 status) (\<lambda>reason.
     let p2 = set_opt ''terminal_reason'' (map_option JStr reason) (dpop ''failure_reason''
                (set_opt ''penalty_objective'' (map_option JFloat penalty) (dset ''objectives'' (JObj objectives) p1))) in
     bindE (normalize_measurements p2 cfg) (\<lambda>extensions.
     Inr (dict_update (fold dpop measurement_fields p2) (measured_json extensions), trial_id)))))))"

subsection \<open>Observation contracts\<close>

text \<open>\<open>str(status).strip().lower()\<close>; the text of a value that is not a string is never a status.\<close>

definition status_text :: "json \<Rightarrow> string" where
  "status_text v = (case v of JStr s \<Rightarrow> py_lower (py_strip s) | _ \<Rightarrow> ''?'')"

definition stored_status :: "jdict \<Rightarrow> string" where
  "stored_status observation = (let s = status_text (dict_get observation ''status'' (JStr ''ok'')) in
     if s = ''success'' then ''ok'' else if List.member canonical_statuses s then s else ''failed'')"

definition objectives_dict :: "jdict \<Rightarrow> jdict res" where
  "objectives_dict observation = (case dict_get observation ''objectives'' (JObj []) of
     JObj d \<Rightarrow> Inr d
   | JArr [] \<Rightarrow> Inr []
   | _ \<Rightarrow> Inl (TypeError ''dict(objectives)''))"

definition when_some :: "json \<Rightarrow> string \<Rightarrow> jdict" where
  "when_some v k = (if v = JNull then [] else [(k, v)])"

definition build_observation_contract :: "jdict \<Rightarrow> objective_cfg \<Rightarrow> jdict res" where
  "build_observation_contract observation cfg =
     bindE (jitem observation ''trial_id'') (\<lambda>t.
     bindE (py_int t) (\<lambda>trial_id.
     let status = stored_status observation in
     bindE (objectives_dict observation) (\<lambda>objs.
     let like = [(''trial_id'', JInt trial_id), (''params'', dict_get observation ''params'' (JObj [])),
           (''objectives'', JObj objs), (''status'', JStr status)] @
           when_some (jget observation ''penalty_objective'') ''penalty_objective'' @
           (case map_of observation ''terminal_reason'' of None \<Rightarrow> [] | Some r \<Rightarrow> [(''terminal_reason'', r)]) in
     bindE (normalize_objectives like cfg status) (\<lambda>(objectives, penalty).
     bindE (normalize_terminal_reason like status) (\<lambda>reason.
     bindE (normalize_measurements (like @ filter (\<lambda>(k, _). List.member measurement_fields k) observation) cfg) (\<lambda>m.
     Inr (dict_update
       ([(''trial_id'', JInt trial_id), (''params'', dict_get observation ''params'' (JObj [])),
         (''objectives'', JObj objectives), (''status'', JStr status)] @
        (case penalty of None \<Rightarrow> [] | Some x \<Rightarrow> [(''penalty_objective'', JFloat x)]) @
        (case reason of None \<Rightarrow> [] | Some r \<Rightarrow> [(''terminal_reason'', JStr r)]))
       (measured_json m))))))))"

text \<open>
  One line of a difference: its path and what differs. The keys of two objects are visited
  in sorted order.
\<close>

datatype difference = Missing string | LengthDiffers string | Differs string

fun diff_path :: "difference \<Rightarrow> string" where
  "diff_path (Missing p) = p"
| "diff_path (LengthDiffers p) = p"
| "diff_path (Differs p) = p"

definition sorted_keys :: "jdict \<Rightarrow> jdict \<Rightarrow> string list" where
  "sorted_keys d e = sort_by str_less (remdups (map fst d @ map fst e))"

lemma arr_size: "(i, a, b) \<in> set (enum (zip xs ys)) \<Longrightarrow> size a < size (JArr xs)"
  using set_enum_snd [of i "(a, b)" "zip xs ys"] size_list_estimation' [of a xs "size a" size] by (auto dest: set_zip_leftD)

lemma obj_size: "map_of d k = Some v \<Longrightarrow> size v < size (JObj d)"
  using entry_size [of k v d] map_of_SomeD [of d k v] by blast

function diff_records :: "string \<Rightarrow> json \<Rightarrow> json \<Rightarrow> difference list" where
  "diff_records path left right = (case (left, right) of
     (JObj d, JObj e) \<Rightarrow>
       concat (map (\<lambda>k. case map_of d k of
           None \<Rightarrow> [Missing (path @ ''.'' @ k)]
         | Some v \<Rightarrow> (case map_of e k of
             None \<Rightarrow> [Missing (path @ ''.'' @ k)]
           | Some w \<Rightarrow> diff_records (path @ ''.'' @ k) v w)) (sorted_keys d e))
   | (JArr xs, JArr ys) \<Rightarrow>
       if length xs \<noteq> length ys then [LengthDiffers path]
       else concat (map (\<lambda>(i, x, y). diff_records (index_path path i) x y) (enum (zip xs ys)))
   | _ \<Rightarrow> if py_eq left right then [] else [Differs path])"
  by pat_completeness auto
termination
proof (relation "measure (\<lambda>(_, l, _). size l)")
  show "wf (measure (\<lambda>(_ :: string, l :: json, _ :: json). size l))" by simp
qed (auto dest: arr_size obj_size)

declare diff_records.simps [simp del]

text \<open>\<open>json.dumps(v, sort_keys=True)\<close> is equality after sorting the keys of every object.\<close>

fun sort_keys :: "json \<Rightarrow> json" where
  "sort_keys (JArr xs) = JArr (map sort_keys xs)"
| "sort_keys (JObj d) = JObj (sort_by (\<lambda>a b. str_less (fst a) (fst b)) (map (\<lambda>(k, v). (k, sort_keys v)) d))"
| "sort_keys v = v"

definition starts_with :: "string \<Rightarrow> string \<Rightarrow> bool" where
  "starts_with prefix s = (take (length prefix) s = prefix)"

definition diff_contract_records :: "jdict \<Rightarrow> jdict \<Rightarrow> bool \<Rightarrow> difference list" where
  "diff_contract_records expected received typed_params =
     (let out = diff_records ''$'' (JObj expected) (JObj received) in
      if typed_params \<and> has_key expected ''params'' \<and> has_key received ''params'' \<and>
         sort_keys (jget expected ''params'') \<noteq> sort_keys (jget received ''params'') \<and>
         \<not> list_ex (\<lambda>l. starts_with ''$.params'' (diff_path l)) out
      then out @ [Differs ''$.params''] else out)"

subsection \<open>Differences\<close>

lemma diff_object_iff:
  assumes "json_wf (JObj d)" "json_wf (JObj e)"
    and "\<And>k v w. map_of d k = Some v \<Longrightarrow> map_of e k = Some w \<Longrightarrow> f k v w = [] \<longleftrightarrow> py_eq v w"
  shows "concat (map (\<lambda>k. case map_of d k of
           None \<Rightarrow> [Missing (path @ ''.'' @ k)]
         | Some v \<Rightarrow> (case map_of e k of None \<Rightarrow> [Missing (path @ ''.'' @ k)] | Some w \<Rightarrow> f k v w)) (sorted_keys d e)) = []
     \<longleftrightarrow> py_eq (JObj d) (JObj e)"
    (is "?l = [] \<longleftrightarrow> _")
proof -
  have dd: "distinct (map fst d)" "distinct (map fst e)" using assms by auto
  have keys: "set (sorted_keys d e) = fst ` set d \<union> fst ` set e" by (auto simp: sorted_keys_def)
  have some: "has_key c k \<longleftrightarrow> k \<in> fst ` set c" for c :: jdict and k by (rule has_key_iff)
  have "?l = [] \<longleftrightarrow> (\<forall>k\<in>fst ` set d \<union> fst ` set e. \<exists>v w. map_of d k = Some v \<and> map_of e k = Some w \<and> py_eq v w)"
  proof -
    have "(case map_of d k of
           None \<Rightarrow> [Missing (path @ ''.'' @ k)]
         | Some v \<Rightarrow> (case map_of e k of None \<Rightarrow> [Missing (path @ ''.'' @ k)] | Some w \<Rightarrow> f k v w)) = [] \<longleftrightarrow>
        (\<exists>v w. map_of d k = Some v \<and> map_of e k = Some w \<and> py_eq v w)" for k
      using assms(3) [of k] by (cases "map_of d k"; cases "map_of e k") simp_all
    then show ?thesis by (simp add: keys)
  qed
  also have "\<dots> \<longleftrightarrow> py_eq (JObj d) (JObj e)"
  proof
    assume a: "\<forall>k\<in>fst ` set d \<union> fst ` set e. \<exists>v w. map_of d k = Some v \<and> map_of e k = Some w \<and> py_eq v w"
    then have "has_key d k \<longleftrightarrow> has_key e k" for k by (metis Un_iff has_key_iff option.discI)
    then have "fst ` set d = fst ` set e" by (auto simp only: has_key_iff set_eq_iff)
    then have "length d = length e"
      using dd by (metis distinct_card length_map list.set_map)
    moreover have "py_eq_dict d e"
      unfolding py_eq_dict_iff
    proof (safe)
      fix k v assume kv: "(k, v) \<in> set d"
      then have "k \<in> fst ` set d" by force
      with a obtain v' w where "map_of d k = Some v'" "map_of e k = Some w" "py_eq v' w" by blast
      with kv dd(1) show "\<exists>w. map_of e k = Some w \<and> py_eq v w" by (auto simp: map_of_eq_Some_iff)
    qed
    ultimately show "py_eq (JObj d) (JObj e)" by simp
  next
    assume p: "py_eq (JObj d) (JObj e)"
    then have len: "length d = length e" and all: "\<And>k v. (k, v) \<in> set d \<Longrightarrow> \<exists>w. map_of e k = Some w \<and> py_eq v w"
      by (auto simp: py_eq_dict_iff)
    have sub: "fst ` set d \<subseteq> fst ` set e"
    proof
      fix k assume "k \<in> fst ` set d"
      then obtain v where "(k, v) \<in> set d" by auto
      with all show "k \<in> fst ` set e" by (metis has_key_iff option.discI)
    qed
    have "card (fst ` set d) = card (fst ` set e)"
      using dd len by (metis distinct_card length_map list.set_map)
    with sub have eq: "fst ` set d = fst ` set e" by (simp add: card_subset_eq)
    show "\<forall>k\<in>fst ` set d \<union> fst ` set e. \<exists>v w. map_of d k = Some v \<and> map_of e k = Some w \<and> py_eq v w"
    proof
      fix k assume "k \<in> fst ` set d \<union> fst ` set e"
      then have "k \<in> fst ` set d" using eq by blast
      then obtain v where kv: "(k, v) \<in> set d" by auto
      then have "map_of d k = Some v" using dd(1) by (simp add: map_of_eq_Some_iff)
      with all [OF kv] show "\<exists>v w. map_of d k = Some v \<and> map_of e k = Some w \<and> py_eq v w" by blast
    qed
  qed
  finally show ?thesis .
qed

lemma json_wf_map_of: "json_wf (JObj d) \<Longrightarrow> map_of d k = Some v \<Longrightarrow> json_wf v"
  by (auto simp: list_all_iff dest: map_of_SomeD)

lemma ball_enum: "(\<forall>z\<in>set (enum zs). P z) \<longleftrightarrow> (\<forall>i < length zs. P (i, zs ! i))"
proof -
  have "set (enum zs) = (\<lambda>i. (i, zs ! i)) ` {..<length zs}" by (auto simp: set_enum_iff)
  then show ?thesis by auto
qed

lemma diff_records_iff: "json_wf left \<Longrightarrow> json_wf right \<Longrightarrow> diff_records path left right = [] \<longleftrightarrow> py_eq left right"
proof (induction path left right rule: diff_records.induct)
  case (1 path left right)
  consider d e where "left = JObj d" "right = JObj e" | xs ys where "left = JArr xs" "right = JArr ys"
    | "\<not> (is_dict left \<and> is_dict right)" "\<not> (is_list left \<and> is_list right)"
    by (cases left; cases right; simp; blast)
  then show ?case
  proof cases
    case (1 d e)
    have IH: "diff_records (path @ ''.'' @ k) v w = [] \<longleftrightarrow> py_eq v w"
      if "map_of d k = Some v" "map_of e k = Some w" for k v w
    proof -
      have k: "k \<in> set (sorted_keys d e)" using imageI [OF map_of_SomeD [OF that(1)], of fst] by (simp add: sorted_keys_def)
      show ?thesis
        using "1.IH"(2) [OF refl 1 k that] 1 that "1.prems" json_wf_map_of by blast
    qed
    have "diff_records path left right = concat (map (\<lambda>k. case map_of d k of
           None \<Rightarrow> [Missing (path @ ''.'' @ k)]
         | Some v \<Rightarrow> (case map_of e k of None \<Rightarrow> [Missing (path @ ''.'' @ k)]
             | Some w \<Rightarrow> diff_records (path @ ''.'' @ k) v w)) (sorted_keys d e))"
      by (subst diff_records.simps) (simp add: 1)
    also have "\<dots> = [] \<longleftrightarrow> py_eq left right"
      unfolding 1 using "1.prems" by (intro diff_object_iff IH) (auto simp: 1)
    finally show ?thesis .
  next
    case (2 xs ys)
    have IH: "diff_records (index_path path i) (xs ! i) (ys ! i) = [] \<longleftrightarrow> py_eq (xs ! i) (ys ! i)"
      if "length xs = length ys" "i < length xs" for i
    proof -
      have i: "(i, xs ! i, ys ! i) \<in> set (enum (zip xs ys))" using that by (auto simp: set_enum_iff)
      have "json_wf (xs ! i)" "json_wf (ys ! i)" using "1.prems" 2 that by (auto simp: list_all_length)
      then show ?thesis using "1.IH"(1) [OF refl 2 _ i refl refl] that by blast
    qed
    have "diff_records path left right = [] \<longleftrightarrow>
        length xs = length ys \<and> (\<forall>i < length xs. diff_records (index_path path i) (xs ! i) (ys ! i) = [])"
      unfolding 2 by (subst diff_records.simps) (auto simp: ball_enum)
    also have "\<dots> \<longleftrightarrow> py_eq left right"
      using IH by (auto simp: 2 py_eq_list_iff list_all2_conv_all_nth)
    finally show ?thesis .
  next
    case 3
    then have "diff_records path left right = (if py_eq left right then [] else [Differs path])"
      by (subst diff_records.simps) (cases left; cases right; simp)
    then show ?thesis by simp
  qed
qed

text \<open>C17: the comparison of two contract records finds no difference exactly when Python would call
  them equal, whatever the order of their keys; the list of differences is never spuriously
  empty. (Keys distinct and no NaN, as in parsed JSON.)\<close>

theorem diff_contract_exact:
  assumes "json_wf (JObj expected)" "json_wf (JObj received)"
  shows "diff_contract_records expected received False = [] \<longleftrightarrow> py_eq (JObj expected) (JObj received)"
  using diff_records_iff [OF assms] by (simp add: diff_contract_records_def Let_def)

subsection \<open>Normal payloads\<close>

lemma dset_same: "map_of d k = Some v \<Longrightarrow> dset k v d = d"
  by (induction d) (auto split: if_splits)

lemma dpop_absent: "\<not> has_key d k \<Longrightarrow> dpop k d = d"
  by (simp add: map_of_eq_None_iff delete_id)

lemma dpop_append: "dpop k (d @ e) = dpop k d @ dpop k e"
  by (simp add: AList.delete_eq)

definition float_objective :: "jdict \<Rightarrow> string \<Rightarrow> bool" where
  "float_objective d n = (\<exists>x. map_of d n = Some (JFloat x) \<and> is_finite x)"

lemma contract_require_number_Inr [return_iff]:
  "contract_require_number v field = Inr x \<longleftrightarrow> strict_num v \<and> py_float v = Inr x \<and> is_finite x"
  by (auto simp: contract_require_number_def return_iff)

lemma number_objective_fold:
  "foldE number_objective ns d = Inr e \<Longrightarrow>
     (\<forall>n\<in>set ns. float_objective e n) \<and> (\<forall>n. float_objective d n \<longrightarrow> float_objective e n) \<and>
     fst ` set e = set ns \<union> fst ` set d"
proof (induction ns arbitrary: d)
  case (Cons n ns)
  then obtain u where u: "number_objective n d = Inr u" "foldE number_objective ns u = Inr e" by (auto simp: return_iff)
  from u(1) obtain x where "u = dset n (JFloat x) d" "is_finite x" by (auto simp: number_objective_def return_iff)
  with Cons.IH [OF u(2)] show ?case by (auto simp: float_objective_def)
qed simp

lemma number_objective_stable: "\<forall>n\<in>set ns. float_objective d n \<Longrightarrow> foldE number_objective ns d = Inr d"
proof (induction ns)
  case (Cons n ns)
  then obtain x where "map_of d n = Some (JFloat x)" "is_finite x" by (auto simp: float_objective_def)
  then have "number_objective n d = Inr d"
    by (simp add: number_objective_def contract_require_number_def dset_same)
  with Cons show ?case by simp
qed simp

lemma null_objectives:
  "map_of (fold (set_objective JNull) ns d) n = (if n \<in> set ns then Some JNull else map_of d n)"
  "fst ` set (fold (set_objective JNull) ns d) = set ns \<union> fst ` set d"
  by (induction ns arbitrary: d) (auto simp: set_objective_def)

lemma null_objectives_stable: "\<forall>n\<in>set ns. map_of d n = Some JNull \<Longrightarrow> fold (set_objective JNull) ns d = d"
  by (induction ns) (auto simp: set_objective_def dset_same)

lemma require_objectives_Inr: "require_objectives d ns = Inr u \<longleftrightarrow> (\<forall>n\<in>set ns. has_key d n)"
  unfolding require_objectives_def by (induction ns) (auto simp: return_iff)

lemma objective_names_ne: "objective_names cfg \<noteq> []"
  by (simp add: objective_names_def objectives_of_def)

text \<open>What the objectives of a normal payload look like, by status.\<close>

definition normal_objectives :: "objective_cfg \<Rightarrow> string \<Rightarrow> jdict \<Rightarrow> bool" where
  "normal_objectives cfg status objs = (fst ` set objs = set (objective_names cfg) \<and>
     (\<forall>n\<in>set (objective_names cfg). if status = ''ok'' then float_objective objs n else map_of objs n = Some JNull))"

lemma normalize_objectives_Inr:
  assumes "normalize_objectives p cfg status = Inr (objs, penalty)"
  shows "normal_objectives cfg status objs \<and> (status = ''ok'' \<longrightarrow> penalty = None \<and> \<not> has_key p ''penalty_objective'') \<and>
    (\<forall>x. penalty = Some x \<longrightarrow> is_finite x)"
proof -
  obtain d where d: "jget p ''objectives'' = JObj d"
    using assms by (cases "jget p ''objectives''") (auto simp: normalize_objectives_def)
  from assms have w: "require_objectives d (objective_names cfg) = Inr ()"
    and known: "list_all (List.member (objective_names cfg)) (map fst d)"
    by (auto simp: normalize_objectives_def d Let_def bindE_Inr_iff if_Inr_Inl)
  have keys: "fst ` set d = set (objective_names cfg)"
    using w [unfolded require_objectives_Inr has_key_iff] known by (auto simp: list_all_iff)
  show ?thesis
  proof (cases "status = ''ok''")
    case True
    with assms obtain norm where "foldE number_objective (objective_names cfg) d = Inr norm" "objs = norm" "penalty = None"
      "\<not> has_key p ''penalty_objective''"
      by (auto simp: normalize_objectives_def d Let_def bindE_Inr_iff if_Inr_Inl)
    with number_objective_fold [OF this(1)] keys True show ?thesis by (auto simp: normal_objectives_def)
  next
    case False
    with assms have "objs = fold (set_objective JNull) (objective_names cfg) d \<and> (\<forall>x. penalty = Some x \<longrightarrow> is_finite x)"
      by (cases "filter (\<lambda>n. jget d n \<noteq> JNull) (objective_names cfg)")
         (auto simp: normalize_objectives_def d Let_def bindE_Inr_iff if_Inr_Inl contract_require_number_Inr split: if_splits)
    with False keys null_objectives show ?thesis by (auto simp: normal_objectives_def)
  qed
qed

lemma normalize_objectives_stable:
  assumes "normal_objectives cfg status objs" "jget p ''objectives'' = JObj objs"
    and "map_of p ''penalty_objective'' = map_option JFloat penalty" "\<forall>x. penalty = Some x \<longrightarrow> is_finite x"
    and "status = ''ok'' \<longrightarrow> penalty = None"
  shows "normalize_objectives p cfg status = Inr (objs, penalty)"
proof -
  let ?ns = "objective_names cfg"
  have keys: "fst ` set objs = set ?ns" using assms(1) by (simp add: normal_objectives_def)
  have pres: "require_objectives objs ?ns = Inr ()" unfolding require_objectives_Inr has_key_iff using keys by blast
  have known: "list_all (List.member ?ns) (map fst objs)" using keys by (auto simp: list_all_iff)
  show ?thesis
  proof (cases "status = ''ok''")
    case True
    then have "foldE number_objective ?ns objs = Inr objs"
      using assms(1) by (intro number_objective_stable) (auto simp: normal_objectives_def)
    with True assms(2,3,5) pres known show ?thesis by (simp add: normalize_objectives_def Let_def)
  next
    case False
    then have null: "\<forall>n\<in>set ?ns. map_of objs n = Some JNull" using assms(1) by (auto simp: normal_objectives_def)
    have "filter (\<lambda>n. jget objs n \<noteq> JNull) ?ns = []" using null by (simp add: filter_empty_conv)
    moreover have "(if has_key p ''penalty_objective''
                then bindE (contract_require_number (jget p ''penalty_objective'') ''$.penalty_objective'') (\<lambda>x. Inr (Some x))
                else Inr None) = Inr penalty"
      using assms(3,4) by (cases penalty) (auto simp: contract_require_number_def)
    ultimately show ?thesis
      using False assms(2) pres known null_objectives_stable [OF null] by (simp add: normalize_objectives_def Let_def)
  qed
qed

lemma normalize_status_Inr: "normalize_status raw = Inr st \<Longrightarrow> st \<in> set canonical_statuses"
  by (auto simp: normalize_status_def canonical_statuses_def Let_def split: json.splits if_splits)

lemma normalize_status_stable: "st \<in> set canonical_statuses \<Longrightarrow> normalize_status (JStr st) = Inr st"
proof -
  have "list_all (\<lambda>s. normalize_status (JStr s) = Inr s) canonical_statuses" by code_simp
  then show "st \<in> set canonical_statuses \<Longrightarrow> normalize_status (JStr st) = Inr st" by (simp add: list_all_iff)
qed

definition normal_reason :: "string \<Rightarrow> bool" where
  "normal_reason r = (r \<noteq> [] \<and> py_strip r = r)"

lemma status_reason_normal: "st \<in> set canonical_statuses \<Longrightarrow> normal_reason (''status='' @ st)"
proof -
  have "list_all (\<lambda>s. normal_reason (''status='' @ s)) canonical_statuses" by code_simp
  then show "st \<in> set canonical_statuses \<Longrightarrow> normal_reason (''status='' @ st)" by (simp add: list_all_iff)
qed

lemma normalize_reason_Inr: "normalize_reason raw f = Inr (Some r) \<Longrightarrow> normal_reason r"
  by (auto simp: normalize_reason_def normal_reason_def split: json.splits if_splits)

lemma normalize_terminal_reason_Inr:
  assumes "normalize_terminal_reason p st = Inr reason" "st \<in> set canonical_statuses"
  shows "if st = ''ok'' then reason = None else \<exists>r. reason = Some r \<and> normal_reason r"
  using assms status_reason_normal [OF assms(2)]
  by (auto simp: normalize_terminal_reason_def bindE_Inr_iff dest: normalize_reason_Inr split: option.splits if_splits)

lemma normalize_terminal_reason_stable:
  assumes "map_of p ''terminal_reason'' = map_option JStr reason" "\<not> has_key p ''failure_reason''"
    and "if st = ''ok'' then reason = None else \<exists>r. reason = Some r \<and> normal_reason r"
  shows "normalize_terminal_reason p st = Inr reason"
  using assms by (auto simp: normalize_terminal_reason_def normalize_reason_def normal_reason_def split: if_splits)

subsection \<open>Measurements of a normal payload\<close>

lemma measured_json_get:
  "map_of (measured_json m) ''objective_sems'' =
     (if ms_objective_sems m = [] then None else Some (JObj (map (\<lambda>(n, f). (n, JFloat f)) (ms_objective_sems m))))"
  "map_of (measured_json m) ''measurements'' =
     (if ms_measurements m = [] then None else Some (JObj (map (\<lambda>(n, f). (n, JFloat f)) (ms_measurements m))))"
  "map_of (measured_json m) ''measurement_sems'' =
     (if ms_measurement_sems m = [] then None else Some (JObj (map (\<lambda>(n, f). (n, JFloat f)) (ms_measurement_sems m))))"
  "map_of (measured_json m) ''scalarized_sem'' = map_option JFloat (ms_scalarized_sem m)"
  "k \<notin> set measurement_fields \<Longrightarrow> map_of (measured_json m) k = None"
  by (auto simp: measured_json_def measurement_fields_def split: option.splits)

lemma measured_json_keys: "fst ` set (measured_json m) \<subseteq> set measurement_fields" "distinct (map fst (measured_json m))"
  by (auto simp: measured_json_def measurement_fields_def split: option.splits if_splits)

lemma finite_number_float: "finite_number v f b = Inr x \<Longrightarrow> finite_number (JFloat x) g b = Inr x"
  by (auto simp: finite_number_def split: if_splits sum.splits)

lemma metric_map_stable:
  assumes "metric_map p key allowed sem = Inr d" "dict_get q key (JObj []) = JObj (map (\<lambda>(n, f). (n, JFloat f)) d)"
  shows "metric_map q key allowed sem = Inr d"
proof -
  obtain raw where raw: "list_all (\<lambda>k. k \<in> set allowed) (map fst raw)"
    and m: "mapE (\<lambda>(n, v). bindE (finite_number v (key @ ''.'' @ n) sem) (\<lambda>f. Inr (n, f))) raw = Inr d"
    using assms(1) by (auto simp: metric_map_def if_Inr_Inl split: json.splits)
  have keys: "map fst d = map fst raw" and fin: "\<forall>(n, x)\<in>set d. finite_number (JFloat x) (key @ ''.'' @ n) sem = Inr x"
    using m by (induction raw arbitrary: d) (auto simp: bindE_Inr_iff dest: finite_number_float)
  have ident: "mapE (\<lambda>(n, v). bindE (finite_number v (key @ ''.'' @ n) sem) (\<lambda>f. Inr (n, f))) (map (\<lambda>(n, f). (n, JFloat f)) d) = Inr d"
    using fin by (induction d) auto
  have "map fst (map (\<lambda>(n, f). (n, JFloat f)) d) = map fst d" by (simp add: case_prod_unfold comp_def)
  with raw ident keys show ?thesis by (simp add: metric_map_def assms(2) list_all_iff)
qed

lemma normalize_measurements_stable:
  assumes "normalize_measurements p cfg = Inr m"
    and "dict_get q ''status'' (JStr ''ok'') = dict_get p ''status'' (JStr ''ok'')"
    and "dict_get q ''objectives'' (JObj []) = dict_get p ''objectives'' (JObj [])"
    and "\<And>k. k \<in> set measurement_fields \<Longrightarrow> map_of q k = map_of (measured_json m) k"
  shows "normalize_measurements q cfg = Inr m"
proof -
  have field: "map_of q ''objective_sems'' = map_of (measured_json m) ''objective_sems''"
    "map_of q ''measurements'' = map_of (measured_json m) ''measurements''"
    "map_of q ''measurement_sems'' = map_of (measured_json m) ''measurement_sems''"
    "map_of q ''scalarized_sem'' = map_of (measured_json m) ''scalarized_sem''"
    by (rule assms(4), simp add: measurement_fields_def)+
  have st: "status_is_ok q = status_is_ok p" by (simp add: status_is_ok_def assms(2))
  have none: "map_of q k = None" if "m = no_measured" "k \<in> set measurement_fields" for k
    using that assms(4) by (simp add: no_measured_def measured_json_def)
  show ?thesis
  proof (cases "ax_contract_version cfg = 2")
    case False
    with assms(1) have "m = no_measured" by (auto simp: normalize_measurements_def split: if_splits)
    with False none show ?thesis by (auto simp: normalize_measurements_def list_ex_iff)
  next
    case True
    have dflt: "dict_get q k (JObj []) = JObj (map (\<lambda>(n, f). (n, JFloat f)) d)"
      if "map_of q k = (if d = [] then None else Some (JObj (map (\<lambda>(n, f). (n, JFloat f)) d)))" for k d
      using that by (simp add: dict_get_def)
    show ?thesis
    proof (cases "status_is_ok p")
      case False
      with assms(1) True have "m = no_measured"
        by (auto simp: normalize_measurements_def bindE_Inr_iff Let_def split: if_splits)
      with False True st none show ?thesis
        by (simp add: normalize_measurements_def metric_map_def dict_get_def Let_def measurement_fields_def)
    next
      case ok: True
      from assms(1) True ok obtain osems ms msems ssem u where
        o': "metric_map p ''objective_sems'' (objective_names cfg) True = Inr osems" and
        m': "metric_map p ''measurements'' (measurement_metrics (outcome cfg)) False = Inr ms" and
        s': "metric_map p ''measurement_sems'' (measurement_metrics (outcome cfg)) True = Inr msems" and
        c': "(case map_of p ''scalarized_sem'' of None \<Rightarrow> Inr None
             | Some v \<Rightarrow> bindE (finite_number v ''scalarized_sem'' True) (\<lambda>f. Inr (Some f))) = Inr ssem" and
        obj: "(case dict_get p ''objectives'' (JObj []) of
                 JObj objs \<Rightarrow> mapE (\<lambda>(n, _). finite_number (jget objs n) (''objectives.'' @ n) False) osems
               | _ \<Rightarrow> if osems = [] then Inr [] else Inl (AttributeError ''objectives.get'')) = Inr u" and
        conds: "same_set (map fst ms) (measurement_metrics (outcome cfg))" "list_all (\<lambda>(n, _). List.member (map fst ms) n) msems"
          "\<not> (ssem \<noteq> None \<and> (\<not> is_weighted (scalarization_of cfg) \<or> acquisition_of cfg = ParetoAcq))"
          "\<not> (is_weighted (scalarization_of cfg) \<and> \<not> acquisition_of cfg = ParetoAcq \<and> osems \<noteq> [] \<and> ssem = None)"
        and m: "m = \<lparr>ms_objective_sems = osems, ms_measurements = ms, ms_measurement_sems = msems, ms_scalarized_sem = ssem\<rparr>"
        unfolding normalize_measurements_def Let_def bindE_Inr_iff if_Inr_Inl by (simp add: bindE_Inr_iff if_Inr_Inl) blast
      have "metric_map q ''objective_sems'' (objective_names cfg) True = Inr osems"
        by (rule metric_map_stable [OF o'], rule dflt) (simp add: field measured_json_get m)
      moreover have "metric_map q ''measurements'' (measurement_metrics (outcome cfg)) False = Inr ms"
        by (rule metric_map_stable [OF m'], rule dflt) (simp add: field measured_json_get m)
      moreover have "metric_map q ''measurement_sems'' (measurement_metrics (outcome cfg)) True = Inr msems"
        by (rule metric_map_stable [OF s'], rule dflt) (simp add: field measured_json_get m)
      moreover have "(case map_of q ''scalarized_sem'' of None \<Rightarrow> Inr None
             | Some v \<Rightarrow> bindE (finite_number v ''scalarized_sem'' True) (\<lambda>f. Inr (Some f))) = Inr ssem"
        using c' by (auto simp: field measured_json_get m bindE_Inr_iff dest: finite_number_float split: option.splits)
      ultimately show ?thesis
        using True ok st obj conds unfolding normalize_measurements_def Let_def assms(3) by (simp add: m)
    qed
  qed
qed

subsection \<open>Normalization reaches a normal form and stays there\<close>

lemma map_of_set_opt [simp]: "map_of (set_opt k v d) k' = (if k' = k then v else map_of d k')"
  by (cases v) (simp_all add: set_opt_def)

lemma map_of_fold_dpop: "map_of (fold dpop ks d) k = (if k \<in> set ks then None else map_of d k)"
  by (induction ks arbitrary: d) auto

definition extended :: "jdict \<Rightarrow> measured \<Rightarrow> jdict" where
  "extended d m = dict_update (fold dpop measurement_fields d) (measured_json m)"

lemma map_of_extended: "map_of (extended d m) k =
    (if k \<in> set measurement_fields then map_of (measured_json m) k else map_of d k)"
  using measured_json_get(5) [of k m]
  by (auto simp: extended_def map_of_dict_update_distinct [OF measured_json_keys(2)] map_of_fold_dpop split: option.splits)

definition schema_version_ok :: "(string \<Rightarrow> bool) \<Rightarrow> objective_cfg \<Rightarrow> json option \<Rightarrow> bool" where
  "schema_version_ok version_ok cfg v = (ax_contract_version cfg = 2 \<longrightarrow>
     (case v of None \<Rightarrow> True | Some (JStr s) \<Rightarrow> version_ok s | _ \<Rightarrow> False))"

text \<open>The facts of a normal payload, with the parts the normalizer computes.\<close>

record parts =
  pt_status :: string
  pt_params :: jdict
  pt_objectives :: jdict
  pt_penalty :: "pyfloat option"
  pt_reason :: "string option"
  pt_measured :: measured

definition parts_ok :: "objective_cfg \<Rightarrow> parts \<Rightarrow> bool" where
  "parts_ok cfg t = (pt_status t \<in> set canonical_statuses \<and> normal_objectives cfg (pt_status t) (pt_objectives t) \<and>
     (\<forall>x. pt_penalty t = Some x \<longrightarrow> is_finite x) \<and> (pt_status t = ''ok'' \<longrightarrow> pt_penalty t = None) \<and>
     (if pt_status t = ''ok'' then pt_reason t = None else \<exists>r. pt_reason t = Some r \<and> normal_reason r))"

definition has_parts :: "jdict \<Rightarrow> int \<Rightarrow> parts \<Rightarrow> bool" where
  "has_parts d tid t =
     (map_of d ''trial_id'' = Some (JInt tid) \<and> map_of d ''status'' = Some (JStr (pt_status t)) \<and>
      map_of d ''params'' = Some (JObj (pt_params t)) \<and> map_of d ''objectives'' = Some (JObj (pt_objectives t)) \<and>
      map_of d ''penalty_objective'' = map_option JFloat (pt_penalty t) \<and>
      map_of d ''terminal_reason'' = map_option JStr (pt_reason t) \<and> map_of d ''failure_reason'' = None \<and>
      (\<forall>k\<in>set measurement_fields. map_of d k = map_of (measured_json (pt_measured t)) k))"

definition measured_from :: "objective_cfg \<Rightarrow> parts \<Rightarrow> bool" where
  "measured_from cfg t = (\<exists>src. normalize_measurements src cfg = Inr (pt_measured t) \<and>
     dict_get src ''status'' (JStr ''ok'') = JStr (pt_status t) \<and> dict_get src ''objectives'' (JObj []) = JObj (pt_objectives t))"

lemma not_measurement_field [simp]:
  "''trial_id'' \<notin> set measurement_fields" "''status'' \<notin> set measurement_fields" "''params'' \<notin> set measurement_fields"
  "''objectives'' \<notin> set measurement_fields" "''penalty_objective'' \<notin> set measurement_fields"
  "''terminal_reason'' \<notin> set measurement_fields" "''failure_reason'' \<notin> set measurement_fields"
  "''schema_version'' \<notin> set measurement_fields"
  by (simp_all add: measurement_fields_def)

lemma normalize_ingest_parts:
  assumes "normalize_ingest_payload version_ok payload cfg = Inr (p, tid)"
  shows "\<exists>t. parts_ok cfg t \<and> has_parts p tid t \<and> measured_from cfg t \<and>
    map_of p ''schema_version'' = map_of payload ''schema_version'' \<and>
    schema_version_ok version_ok cfg (map_of payload ''schema_version'') \<and>
    map_of payload ''trial_id'' = Some (JInt tid) \<and> map_of payload ''params'' = Some (JObj (pt_params t)) \<and>
    normalize_status (jget payload ''status'') = Inr (pt_status t)"
proof -
  obtain st d where
    ver: "(if ax_contract_version cfg = 2 then (case map_of payload ''schema_version'' of
                None \<Rightarrow> Inr ()
              | Some (JStr s) \<Rightarrow> guardE (version_ok s) (ValueError ''payload schema version'')
              | Some _ \<Rightarrow> Inl (ValueError ''payload schema version'')) else Inr ()) = Inr ()"
    and tid: "contract_require_int (jget payload ''trial_id'') ''$.trial_id'' = Inr tid"
    and st: "normalize_status (jget payload ''status'') = Inr st"
    and params: "jget payload ''params'' = JObj d"
    and rest: "(let p1 = dset ''params'' (jget payload ''params'') (dset ''status'' (JStr st) (dset ''trial_id'' (JInt tid) payload)) in
     bindE (normalize_objectives p1 cfg st) (\<lambda>(objectives, penalty).
     bindE (normalize_terminal_reason p1 st) (\<lambda>reason.
     let p2 = set_opt ''terminal_reason'' (map_option JStr reason) (dpop ''failure_reason''
                (set_opt ''penalty_objective'' (map_option JFloat penalty) (dset ''objectives'' (JObj objectives) p1))) in
     bindE (normalize_measurements p2 cfg) (\<lambda>extensions.
     Inr (dict_update (fold dpop measurement_fields p2) (measured_json extensions), tid))))) = Inr (p, tid)"
    using assms by (cases "jget payload ''params''") (auto simp: normalize_ingest_payload_def bindE_Inr_iff Let_def)
  define p1 where "p1 = dset ''params'' (JObj d) (dset ''status'' (JStr st) (dset ''trial_id'' (JInt tid) payload))"
  obtain objs pen reason m p2 where
    o': "normalize_objectives p1 cfg st = Inr (objs, pen)" and r: "normalize_terminal_reason p1 st = Inr reason"
    and p2: "p2 = set_opt ''terminal_reason'' (map_option JStr reason) (dpop ''failure_reason''
                (set_opt ''penalty_objective'' (map_option JFloat pen) (dset ''objectives'' (JObj objs) p1)))"
    and m: "normalize_measurements p2 cfg = Inr m" and p: "p = extended p2 m"
    using rest unfolding params p1_def [symmetric] Let_def extended_def
    by (auto simp: bindE_Inr_iff)
  define t where "t = \<lparr>pt_status = st, pt_params = d, pt_objectives = objs, pt_penalty = pen, pt_reason = reason, pt_measured = m\<rparr>"
  have stc: "st \<in> set canonical_statuses" by (rule normalize_status_Inr [OF st])
  have 1: "parts_ok cfg t"
    using normalize_objectives_Inr [OF o'] normalize_terminal_reason_Inr [OF r stc] stc by (auto simp: parts_ok_def t_def)
  have 2: "has_parts p tid t" by (simp add: has_parts_def p map_of_extended p2 p1_def t_def)
  have 3: "measured_from cfg t"
    unfolding measured_from_def using m by (intro exI [of _ p2]) (simp add: t_def p2 p1_def dict_get_def)
  have "map_of p ''schema_version'' = map_of payload ''schema_version''" by (simp add: p map_of_extended p2 p1_def)
  moreover have "schema_version_ok version_ok cfg (map_of payload ''schema_version'')"
    using ver by (auto simp: schema_version_ok_def guardE_def split: option.splits json.splits if_splits)
  moreover have "map_of payload ''trial_id'' = Some (JInt tid)"
    using tid by (auto simp: contract_require_int_def jget_def split: option.splits json.splits)
  moreover have "map_of payload ''params'' = Some (JObj d)" using params by (auto simp: jget_def split: option.splits)
  ultimately show ?thesis using 1 2 3 st by (intro exI [of _ t]) (simp add: t_def)
qed

lemma normalize_parts_stable:
  assumes "parts_ok cfg t" "has_parts d tid t" "measured_from cfg t" "schema_version_ok version_ok cfg (map_of d ''schema_version'')"
  shows "\<exists>q. normalize_ingest_payload version_ok d cfg = Inr (q, tid) \<and> map_of q = map_of d"
proof -
  let ?p1 = "dset ''params'' (JObj (pt_params t)) (dset ''status'' (JStr (pt_status t)) (dset ''trial_id'' (JInt tid) d))"
  let ?p2 = "set_opt ''terminal_reason'' (map_option JStr (pt_reason t)) (dpop ''failure_reason''
                (set_opt ''penalty_objective'' (map_option JFloat (pt_penalty t)) (dset ''objectives'' (JObj (pt_objectives t)) ?p1)))"
  have same1: "map_of ?p1 = map_of d" using assms(2) by (auto simp: has_parts_def fun_eq_iff)
  have same2: "map_of ?p2 = map_of d" using assms(2) by (auto simp: has_parts_def fun_eq_iff)
  have ver: "(if ax_contract_version cfg = 2 then (case map_of d ''schema_version'' of
                None \<Rightarrow> Inr ()
              | Some (JStr s) \<Rightarrow> guardE (version_ok s) (ValueError ''payload schema version'')
              | Some _ \<Rightarrow> Inl (ValueError ''payload schema version'')) else Inr ()) = Inr ()"
    using assms(4) by (auto simp: schema_version_ok_def split: option.splits json.splits)
  have tid: "contract_require_int (jget d ''trial_id'') ''$.trial_id'' = Inr tid"
    using assms(2) by (simp add: has_parts_def contract_require_int_def)
  have st: "normalize_status (jget d ''status'') = Inr (pt_status t)"
    using assms(1,2) by (simp add: has_parts_def parts_ok_def normalize_status_stable)
  have params: "jget d ''params'' = JObj (pt_params t)" using assms(2) by (simp add: has_parts_def)
  have o': "normalize_objectives ?p1 cfg (pt_status t) = Inr (pt_objectives t, pt_penalty t)"
    using assms(1,2) by (intro normalize_objectives_stable) (auto simp: parts_ok_def has_parts_def)
  have r: "normalize_terminal_reason ?p1 (pt_status t) = Inr (pt_reason t)"
    using assms(1,2) by (intro normalize_terminal_reason_stable) (auto simp: parts_ok_def has_parts_def)
  obtain src where src: "normalize_measurements src cfg = Inr (pt_measured t)"
     "dict_get src ''status'' (JStr ''ok'') = JStr (pt_status t)" "dict_get src ''objectives'' (JObj []) = JObj (pt_objectives t)"
    using assms(3) by (auto simp: measured_from_def)
  have m: "normalize_measurements ?p2 cfg = Inr (pt_measured t)"
  proof (rule normalize_measurements_stable [OF src(1)])
    show "dict_get ?p2 ''status'' (JStr ''ok'') = dict_get src ''status'' (JStr ''ok'')"
      "dict_get ?p2 ''objectives'' (JObj []) = dict_get src ''objectives'' (JObj [])"
      using src(2,3) by (simp_all add: dict_get_def)
    show "map_of ?p2 k = map_of (measured_json (pt_measured t)) k" if "k \<in> set measurement_fields" for k
      using assms(2) that unfolding same2 by (simp add: has_parts_def)
  qed
  have "normalize_ingest_payload version_ok d cfg = Inr (extended ?p2 (pt_measured t), tid)"
    unfolding normalize_ingest_payload_def Let_def ver bindE_simps tid st params is_dict.simps
    by (simp only: bindE_simps o' r m prod.case extended_def not_True_eq_False if_False)
  moreover have "map_of (extended ?p2 (pt_measured t)) k = map_of d k" for k
    unfolding map_of_extended same2 using assms(2) by (simp add: has_parts_def)
  ultimately show ?thesis by blast
qed

text \<open>C15: a payload that normalizes is in contract form. Its status is canonical; an ok result has a
  finite float for exactly the configured objectives and neither penalty nor reason; any other
  result has null objectives, a non-empty trimmed reason and at most a finite penalty; the
  legacy reason field is gone.\<close>

theorem normalize_ingest_form:
  assumes "normalize_ingest_payload version_ok payload cfg = Inr (p, tid)"
  shows "map_of p ''trial_id'' = Some (JInt tid) \<and> map_of p ''failure_reason'' = None \<and>
    (\<exists>st\<in>set canonical_statuses. \<exists>objs. map_of p ''status'' = Some (JStr st) \<and> map_of p ''objectives'' = Some (JObj objs) \<and>
       fst ` set objs = set (objective_names cfg) \<and>
       (if st = ''ok'' then (\<forall>n\<in>set (objective_names cfg). float_objective objs n) \<and>
           map_of p ''penalty_objective'' = None \<and> map_of p ''terminal_reason'' = None
        else (\<forall>n\<in>set (objective_names cfg). map_of objs n = Some JNull) \<and>
          (\<forall>v. map_of p ''penalty_objective'' = Some v \<longrightarrow> (\<exists>x. v = JFloat x \<and> is_finite x)) \<and>
          (\<exists>r. map_of p ''terminal_reason'' = Some (JStr r) \<and> r \<noteq> [] \<and> py_strip r = r)))"
proof -
  obtain t where t: "parts_ok cfg t" "has_parts p tid t" using normalize_ingest_parts [OF assms] by blast
  have "if pt_status t = ''ok'' then (\<forall>n\<in>set (objective_names cfg). float_objective (pt_objectives t) n) \<and>
           map_of p ''penalty_objective'' = None \<and> map_of p ''terminal_reason'' = None
        else (\<forall>n\<in>set (objective_names cfg). map_of (pt_objectives t) n = Some JNull) \<and>
          (\<forall>v. map_of p ''penalty_objective'' = Some v \<longrightarrow> (\<exists>x. v = JFloat x \<and> is_finite x)) \<and>
          (\<exists>r. map_of p ''terminal_reason'' = Some (JStr r) \<and> r \<noteq> [] \<and> py_strip r = r)"
    using t by (auto simp: parts_ok_def has_parts_def normal_objectives_def normal_reason_def)
  moreover have "fst ` set (pt_objectives t) = set (objective_names cfg)"
    using t by (auto simp: parts_ok_def normal_objectives_def)
  ultimately show ?thesis using t
    by (intro conjI bexI [of _ "pt_status t"] exI [of _ "pt_objectives t"]) (auto simp: parts_ok_def has_parts_def)
qed

text \<open>C16: normalization is idempotent. A normalized payload normalizes again, to the same trial id
  and the same fields, measured outcomes included, so a payload copied to disk can be ingested
  again.\<close>

theorem normalize_ingest_idempotent:
  assumes "normalize_ingest_payload version_ok payload cfg = Inr (p, tid)"
  shows "\<exists>q. normalize_ingest_payload version_ok p cfg = Inr (q, tid) \<and> map_of q = map_of p"
proof -
  obtain t where "parts_ok cfg t" "has_parts p tid t" "measured_from cfg t"
    "schema_version_ok version_ok cfg (map_of p ''schema_version'')"
    using normalize_ingest_parts [OF assms] by auto
  then show ?thesis by (rule normalize_parts_stable)
qed

subsection \<open>The contract view of a stored result\<close>

text \<open>What both sides of a replay show: the fields of a payload's contract.\<close>

definition contract_view :: "int \<Rightarrow> parts \<Rightarrow> string \<Rightarrow> json option" where
  "contract_view tid t k =
     (if k \<in> set measurement_fields then map_of (measured_json (pt_measured t)) k
      else map_of ([(''trial_id'', JInt tid), (''params'', JObj (pt_params t)), (''objectives'', JObj (pt_objectives t)),
             (''status'', JStr (pt_status t))] @
             (case pt_penalty t of None \<Rightarrow> [] | Some x \<Rightarrow> [(''penalty_objective'', JFloat x)]) @
             (case pt_reason t of None \<Rightarrow> [] | Some r \<Rightarrow> [(''terminal_reason'', JStr r)])) k)"

lemma stored_status_canonical: "map_of d ''status'' = Some (JStr st) \<Longrightarrow> st \<in> set canonical_statuses \<Longrightarrow> stored_status d = st"
proof -
  assume st: "map_of d ''status'' = Some (JStr st)" "st \<in> set canonical_statuses"
  have "list_all (\<lambda>s. status_text (JStr s) = s) canonical_statuses" by code_simp
  with st show ?thesis
    by (auto simp: stored_status_def dict_get_def list_all_iff Let_def) (auto simp: canonical_statuses_def)
qed

lemma map_of_append_none: "map_of a k = None \<Longrightarrow> map_of (a @ b) k = map_of b k"
  by (simp add: map_add_def split: option.splits)

lemma map_of_filter_keys: "map_of (filter (\<lambda>(k, _). P k) d) k = (if P k then map_of d k else None)"
  by (induction d) auto

lemma build_contract_of_parts:
  assumes "parts_ok cfg t" "measured_from cfg t"
    and "map_of obs ''trial_id'' = Some (JInt tid)" "map_of obs ''status'' = Some (JStr (pt_status t))"
    and "map_of obs ''params'' = Some (JObj (pt_params t))" "map_of obs ''objectives'' = Some (JObj (pt_objectives t))"
    and "jget obs ''penalty_objective'' = jfloat_opt (pt_penalty t)"
    and "map_of obs ''terminal_reason'' = map_option JStr (pt_reason t)"
    and "\<And>k. k \<in> set measurement_fields \<Longrightarrow> map_of obs k = map_of (measured_json (pt_measured t)) k"
  shows "\<exists>c. build_observation_contract obs cfg = Inr c \<and> map_of c = contract_view tid t \<and> distinct (map fst c)"
proof -
  let ?st = "pt_status t"
  let ?like = "[(''trial_id'', JInt tid), (''params'', JObj (pt_params t)), (''objectives'', JObj (pt_objectives t)),
      (''status'', JStr ?st)] @ when_some (jget obs ''penalty_objective'') ''penalty_objective'' @
      (case map_of obs ''terminal_reason'' of None \<Rightarrow> [] | Some r \<Rightarrow> [(''terminal_reason'', r)])"
  have st: "stored_status obs = ?st" using assms(1,4) by (intro stored_status_canonical) (auto simp: parts_ok_def)
  have like: "map_of ?like ''penalty_objective'' = map_option JFloat (pt_penalty t)"
    "map_of ?like ''terminal_reason'' = map_option JStr (pt_reason t)" "map_of ?like ''failure_reason'' = None"
    "jget ?like ''objectives'' = JObj (pt_objectives t)"
    "\<And>k. k \<in> set measurement_fields \<Longrightarrow> map_of ?like k = None"
    using assms(7,8)
    by (cases "pt_penalty t"; cases "pt_reason t"; force simp: when_some_def jfloat_opt_def measurement_fields_def)+
  have o': "normalize_objectives ?like cfg ?st = Inr (pt_objectives t, pt_penalty t)"
    using assms(1) like by (intro normalize_objectives_stable) (auto simp: parts_ok_def)
  have r: "normalize_terminal_reason ?like ?st = Inr (pt_reason t)"
    using assms(1) like by (intro normalize_terminal_reason_stable) (auto simp: parts_ok_def)
  obtain src where src: "normalize_measurements src cfg = Inr (pt_measured t)"
     "dict_get src ''status'' (JStr ''ok'') = JStr ?st" "dict_get src ''objectives'' (JObj []) = JObj (pt_objectives t)"
    using assms(2) by (auto simp: measured_from_def)
  have m: "normalize_measurements (?like @ filter (\<lambda>(k, _). List.member measurement_fields k) obs) cfg = Inr (pt_measured t)"
  proof (rule normalize_measurements_stable [OF src(1)])
    show "dict_get (?like @ filter (\<lambda>(k, _). List.member measurement_fields k) obs) ''status'' (JStr ''ok'') = dict_get src ''status'' (JStr ''ok'')"
      "dict_get (?like @ filter (\<lambda>(k, _). List.member measurement_fields k) obs) ''objectives'' (JObj []) = dict_get src ''objectives'' (JObj [])"
      using src(2,3) by (simp_all add: dict_get_def)
    show "map_of (?like @ filter (\<lambda>(k, _). List.member measurement_fields k) obs) k = map_of (measured_json (pt_measured t)) k"
      if "k \<in> set measurement_fields" for k
      unfolding map_of_append_none [OF like(5) [OF that]] map_of_filter_keys using that assms(9) [OF that] by simp
  qed
  let ?out = "[(''trial_id'', JInt tid), (''params'', JObj (pt_params t)), (''objectives'', JObj (pt_objectives t)),
      (''status'', JStr ?st)] @ (case pt_penalty t of None \<Rightarrow> [] | Some x \<Rightarrow> [(''penalty_objective'', JFloat x)]) @
      (case pt_reason t of None \<Rightarrow> [] | Some r \<Rightarrow> [(''terminal_reason'', JStr r)])"
  have objs: "objectives_dict obs = Inr (pt_objectives t)" by (simp add: objectives_dict_def dict_get_def assms(6))
  have params: "dict_get obs ''params'' (JObj []) = JObj (pt_params t)" by (simp add: dict_get_def assms(5))
  have item: "jitem obs ''trial_id'' = Inr (JInt tid)" by (simp add: jitem_def assms(3))
  have "build_observation_contract obs cfg = Inr (dict_update ?out (measured_json (pt_measured t)))"
    unfolding build_observation_contract_def item bindE_simps py_int.simps Let_def st objs params o' r
    by (simp only: bindE_simps prod.case m)
  moreover have "map_of (dict_update ?out (measured_json (pt_measured t))) k = contract_view tid t k" for k
  proof (cases "k \<in> set measurement_fields")
    case True
    then have "map_of ?out k = None"
      by (auto simp: measurement_fields_def split: option.splits)
    with True show ?thesis
      by (simp add: map_of_dict_update_distinct [OF measured_json_keys(2)] contract_view_def split: option.splits)
  next
    case False
    then show ?thesis
      by (simp add: map_of_dict_update_distinct [OF measured_json_keys(2)] measured_json_get(5) contract_view_def)
  qed
  moreover have "distinct (map fst (dict_update ?out (measured_json (pt_measured t))))"
    by (rule distinct_dict_update) (simp split: option.splits)
  ultimately show ?thesis by blast
qed

text \<open>Two records with the same fields show no difference.\<close>

lemma same_map_py_eq:
  assumes "json_wf (JObj d)" "json_wf (JObj e)" "map_of d = map_of e"
  shows "py_eq (JObj d) (JObj e)"
proof -
  have dd: "distinct (map fst d)" "distinct (map fst e)" using assms by auto
  have "fst ` set d = fst ` set e" using assms(3) by (metis dom_map_of_conv_image_fst)
  then have "length d = length e" using dd by (metis distinct_card length_map list.set_map)
  moreover have "\<exists>w. map_of e k = Some w \<and> py_eq v w" if kv: "(k, v) \<in> set d" for k v
  proof -
    have "map_of e k = Some v" using kv dd(1) assms(3) by (simp add: map_of_eq_Some_iff [symmetric])
    moreover have "json_wf v" using assms(1) kv by (auto simp: list_all_iff)
    ultimately show ?thesis using py_eq_refl by blast
  qed
  ultimately show ?thesis by (auto simp: py_eq_dict_iff)
qed

lemma same_map_no_diff:
  assumes "json_wf (JObj d)" "json_wf (JObj e)" "map_of d = map_of e"
  shows "diff_contract_records d e False = []"
  using diff_records_iff [OF assms(1,2)] same_map_py_eq [OF assms] by (simp add: diff_contract_records_def Let_def)

subsection \<open>The ingest schema\<close>

text \<open>\<open>templates/_shared/schemas/ingest_payload.schema.json\<close>\<close>

definition typed :: "string \<Rightarrow> json" where
  "typed t = JObj [(''type'', JStr t)]"

definition nonneg_map :: json where
  "nonneg_map = JObj [(''type'', JStr ''object''),
     (''additionalProperties'', JObj [(''type'', JStr ''number''), (''minimum'', JInt 0)])]"

text \<open>Three numbers without leading zeros, separated by dots.\<close>

definition semver_pattern :: string where
  "semver_pattern = (let num = ''(0|[1-9]'' @ [CHR 0x5C] @ ''d*)''; dot = [CHR 0x5C] @ ''.'' in
     ''^'' @ num @ dot @ num @ dot @ num @ ''$'')"

definition ingest_schema :: json where
  "ingest_schema = JObj
     [(''type'', JStr ''object''),
      (''required'', JArr [JStr ''trial_id'', JStr ''params'', JStr ''objectives'']),
      (''properties'', JObj
        [(''schema_version'', JObj [(''type'', JStr ''string''),
            (''pattern'', JStr semver_pattern)]),
         (''trial_id'', JObj [(''type'', JStr ''integer''), (''minimum'', JInt 1)]),
         (''params'', typed ''object''),
         (''objectives'', JObj [(''type'', JStr ''object''), (''additionalProperties'',
            JObj [(''type'', JArr [JStr ''number'', JStr ''null''])])]),
         (''status'', JObj [(''type'', JStr ''string''), (''enum'', JArr [JStr ''ok'', JStr ''failed'', JStr ''killed'',
            JStr ''timeout'', JStr ''success''])]),
         (''penalty_objective'', typed ''number''),
         (''terminal_reason'', typed ''string''),
         (''heartbeat_at'', typed ''number''),
         (''heartbeat_note'', typed ''string''),
         (''heartbeat_meta'', typed ''object''),
         (''objective_sems'', nonneg_map),
         (''measurements'', JObj [(''type'', JStr ''object''), (''additionalProperties'', typed ''number'')]),
         (''measurement_sems'', nonneg_map),
         (''scalarized_sem'', JObj [(''type'', JStr ''number''), (''minimum'', JInt 0)])])]"

lemma foldE_unit_all: "foldE (\<lambda>x _. f x) xs u = Inr w \<Longrightarrow> x \<in> set xs \<Longrightarrow> \<exists>v. f x = Inr v"
  by (induction xs arbitrary: u) (auto simp: return_iff)

lemma validate_schema_object:
  assumes "validate_schema rx field (JObj s) v = Inr u" "jget s ''type'' = JStr ''object''"
  shows "\<exists>d. v = JObj d \<and> (\<forall>k\<in>set (str_items (jget s ''required'')). has_key d k) \<and>
    (\<forall>k c w. (k, c) \<in> set (schema_props s) \<longrightarrow> map_of d k = Some w \<longrightarrow> (\<exists>u. validate_schema rx (field @ ''.'' @ k) c w = Inr u))"
proof -
  have "check_type s field v = Inr ()" using assms(1) by (subst (asm) validate_schema.simps) (auto simp: bindE_Inr_iff)
  then obtain d where d: "v = JObj d" using assms(2) by (cases v) (auto simp: check_type_def is_type_def)
  from assms(1) have req: "check_required s field d = Inr ()" and
    props: "foldE (\<lambda>(key, child) _. case map_of d key of
                None \<Rightarrow> Inr ()
              | Some w \<Rightarrow> validate_schema rx (field @ ''.'' @ key) child w) (schema_props s) () = Inr ()"
    by (subst (asm) validate_schema.simps, auto simp: bindE_Inr_iff d assms(2))+
  have "has_key d k" if "k \<in> set (str_items (jget s ''required''))" for k
    using foldE_unit_all [OF req [unfolded check_required_def] that] by (auto split: if_splits)
  moreover have "\<exists>u. validate_schema rx (field @ ''.'' @ k) c w = Inr u"
    if "(k, c) \<in> set (schema_props s)" "map_of d k = Some w" for k c w
  proof -
    have "foldE (\<lambda>kc _. case map_of d (fst kc) of
                None \<Rightarrow> Inr ()
              | Some w \<Rightarrow> validate_schema rx (field @ ''.'' @ fst kc) (snd kc) w) (schema_props s) () = Inr ()"
      using props by (simp add: case_prod_unfold)
    from foldE_unit_all [OF this that(1)] that(2) show ?thesis by simp
  qed
  ultimately show ?thesis using d by blast
qed

lemma validate_schema_checks:
  assumes "validate_schema rx field (JObj s) v = Inr u"
  shows "check_type s field v = Inr ()" "check_enum s field v = Inr ()" "check_range s field v = Inr ()"
  using assms by (subst (asm) validate_schema.simps, auto simp: bindE_Inr_iff)+

lemma not_float_lt_int:
  assumes "float_lt (JInt i) (JInt j) = Inr False" "0 < j" "j < 2 ^ 53"
  shows "j \<le> i"
proof (rule ccontr)
  assume "\<not> j \<le> i"
  obtain x where x: "float_of_int i = Inr x" and lt: "\<not> flt x (Fin (of_int j))"
    using assms by (auto simp: float_lt_def bindE_Inr_iff float_of_int_small)
  have "(of_int i :: rat) \<le> of_int (j - 1)" using \<open>\<not> j \<le> i\<close> by (simp only: of_int_le_iff)
  then have "fle (mk_float False (of_int i)) (mk_float False (of_int (j - 1)))" by (rule mk_float_mono)
  moreover have "mk_float False (of_int i) = x" using x by (auto simp: float_of_int_def Let_def split: if_splits)
  moreover have "mk_float False (of_int (j - 1)) = Fin (of_int (j - 1))" using assms by (intro mk_float_of_int) linarith
  moreover have "flt (Fin (of_int (j - 1))) (Fin (of_int j))" by (simp add: flt_def)
  ultimately have "flt x (Fin (of_int j))" using fle_flt_trans by metis
  with lt show False by simp
qed

text \<open>What the ingest schema guarantees: an accepted document is an object with an integer trial
  id of at least 1 and objects for params and objectives; a status, if present, is one of the
  four canonical ones or the legacy alias.\<close>

theorem ingest_schema_guarantees:
  assumes "validate_schema rx ''$'' ingest_schema v = Inr u"
  shows "\<exists>d. v = JObj d \<and> (\<exists>i \<ge> 1. map_of d ''trial_id'' = Some (JInt i)) \<and>
    is_dict (jget d ''params'') \<and> is_dict (jget d ''objectives'') \<and>
    (\<forall>s. map_of d ''status'' = Some s \<longrightarrow> s \<in> JStr ` set (''success'' # canonical_statuses))"
proof -
  obtain s where s: "ingest_schema = JObj s" "jget s ''type'' = JStr ''object''"
    and req: "str_items (jget s ''required'') = [''trial_id'', ''params'', ''objectives'']"
    and props: "(''trial_id'', JObj [(''type'', JStr ''integer''), (''minimum'', JInt 1)]) \<in> set (schema_props s)"
      "(''params'', typed ''object'') \<in> set (schema_props s)"
      "(''status'', JObj [(''type'', JStr ''string''), (''enum'', JArr [JStr ''ok'', JStr ''failed'', JStr ''killed'',
            JStr ''timeout'', JStr ''success''])]) \<in> set (schema_props s)"
      "(''objectives'', JObj [(''type'', JStr ''object''), (''additionalProperties'',
            JObj [(''type'', JArr [JStr ''number'', JStr ''null''])])]) \<in> set (schema_props s)"
    by (simp add: ingest_schema_def str_items_def schema_props_def)
  obtain d where d: "v = JObj d" and keys: "has_key d ''trial_id''" "has_key d ''params''" "has_key d ''objectives''"
    and child: "\<And>k c w. (k, c) \<in> set (schema_props s) \<Longrightarrow> map_of d k = Some w \<Longrightarrow>
        \<exists>u. validate_schema rx (''$'' @ ''.'' @ k) c w = Inr u"
    using validate_schema_object [OF assms [unfolded s(1)] s(2)] unfolding req by auto
  obtain t p o' where t: "map_of d ''trial_id'' = Some t" and p: "map_of d ''params'' = Some p" and o': "map_of d ''objectives'' = Some o'"
    using keys by auto
  obtain ut where "validate_schema rx (''$'' @ ''.'' @ ''trial_id'') (JObj [(''type'', JStr ''integer''), (''minimum'', JInt 1)]) t = Inr ut"
    using child [OF props(1) t] by blast
  note ct = validate_schema_checks [OF this]
  obtain i where i: "t = JInt i" using ct(1) by (cases t) (auto simp: check_type_def is_type_def)
  have "\<exists>i \<ge> 1. map_of d ''trial_id'' = Some (JInt i)"
    using not_float_lt_int [of i 1] ct(3) t i by (auto simp: check_range_def bindE_Inr_iff split: if_splits)
  moreover have "is_dict p"
    using child [OF props(2) p] validate_schema_object [of rx "''$'' @ ''.'' @ ''params''" "[(''type'', JStr ''object'')]" p]
    by (auto simp: typed_def)
  moreover have "is_dict o'"
    using child [OF props(4) o'] validate_schema_object [of rx "''$'' @ ''.'' @ ''objectives''" _ o'] by fastforce
  moreover have "sv \<in> JStr ` set (''success'' # canonical_statuses)" if sv: "map_of d ''status'' = Some sv" for sv
  proof -
    obtain us where "validate_schema rx (''$'' @ ''.'' @ ''status'') (JObj [(''type'', JStr ''string''), (''enum'',
        JArr [JStr ''ok'', JStr ''failed'', JStr ''killed'', JStr ''timeout'', JStr ''success''])]) sv = Inr us"
      using child [OF props(3) sv] by blast
    note cs = validate_schema_checks [OF this]
    obtain x where "sv = JStr x" using cs(1) by (cases sv) (auto simp: check_type_def is_type_def)
    with cs(2) show ?thesis by (auto simp: check_enum_def canonical_statuses_def split: if_splits)
  qed
  ultimately show ?thesis using d p o' by auto
qed

subsection \<open>Concrete instances\<close>

definition example_payload :: jdict where
  "example_payload = [(''trial_id'', JInt 3), (''params'', JObj [(''x'', JInt 5)]), (''status'', JStr '' Failed ''),
     (''objectives'', JObj [(''loss'', JNull), (''gain'', JNull)]), (''penalty_objective'', JInt 7),
     (''failure_reason'', JStr '' out of memory '')]"

definition example_normal :: jdict where
  "example_normal = [(''trial_id'', JInt 3), (''params'', JObj [(''x'', JInt 5)]), (''status'', JStr ''failed''),
     (''objectives'', JObj [(''loss'', JNull), (''gain'', JNull)]), (''penalty_objective'', JFloat (Fin 7)),
     (''terminal_reason'', JStr ''out of memory'')]"

lemma example_payload_normal:
  "normalize_ingest_payload (\<lambda>_. True) example_payload example_cfg = Inr (example_normal, 3)"
  by code_simp

theorem normalize_ingest_form_witness:
  "map_of example_normal ''trial_id'' = Some (JInt 3) \<and> map_of example_normal ''failure_reason'' = None"
  using normalize_ingest_form [OF example_payload_normal] by blast

theorem normalize_ingest_idempotent_witness:
  "\<exists>q. normalize_ingest_payload (\<lambda>_. True) example_normal example_cfg = Inr (q, 3) \<and> map_of q = map_of example_normal"
  by (rule normalize_ingest_idempotent [OF example_payload_normal])

theorem diff_contract_exact_witness:
  "diff_contract_records [(''a'', JInt 1), (''b'', JArr [JNull])] [(''b'', JArr [JNull]), (''a'', JFloat (Fin 1))] False = [] \<and>
   diff_contract_records [(''a'', JInt 1)] [(''a'', JInt 2)] False \<noteq> []"
proof
  show "diff_contract_records [(''a'', JInt 1), (''b'', JArr [JNull])] [(''b'', JArr [JNull]), (''a'', JFloat (Fin 1))] False = []"
    by (rule diff_contract_exact [THEN iffD2]) code_simp+
  show "diff_contract_records [(''a'', JInt 1)] [(''a'', JInt 2)] False \<noteq> []"
    by (subst diff_contract_exact) code_simp+
qed

theorem ingest_schema_guarantees_witness:
  "\<exists>d. JObj example_normal = JObj d \<and> (\<exists>i \<ge> 1. map_of d ''trial_id'' = Some (JInt i))"
proof -
  have "validate_schema (\<lambda>_ _. True) ''$'' ingest_schema (JObj example_normal) = Inr ()" by code_simp
  from ingest_schema_guarantees [OF this] show ?thesis by blast
qed

end
