(* ===== verification/RuntimeCfg.thy ===== *)
theory RuntimeCfg
  imports Contract
begin

text \<open>
  \<open>templates/_shared/runtime.py\<close>: schema versions of the state file, the limits of the
  configuration, the age of a pending trial and the lock acquisition loop. Files are
  replaced atomically by \<open>atomic_write_text\<close>, so a written file is the whole new content.
\<close>

subsection \<open>Semantic versions\<close>

type_synonym semver = "nat \<times> nat \<times> nat"

definition is_digit :: "char \<Rightarrow> bool" where
  "is_digit c = (let n = (of_char c :: nat) in 48 \<le> n \<and> n \<le> 57)"

definition digit_val :: "char \<Rightarrow> nat" where
  "digit_val c = of_char c - 48"

text \<open>\<open>0|[1-9]\d*\<close> and its value\<close>

definition numeral_ok :: "string \<Rightarrow> bool" where
  "numeral_ok s = (s \<noteq> [] \<and> list_all is_digit s \<and> (hd s = CHR ''0'' \<longrightarrow> length s = 1))"

definition numeral_val :: "string \<Rightarrow> nat" where
  "numeral_val s = foldl (\<lambda>n c. 10 * n + digit_val c) 0 s"

fun split_on :: "char \<Rightarrow> string \<Rightarrow> string list" where
  "split_on sep [] = [[]]"
| "split_on sep (c # cs) = (if c = sep then [] # split_on sep cs
     else case split_on sep cs of [] \<Rightarrow> [[c]] | p # ps \<Rightarrow> (c # p) # ps)"

definition parse_semver :: "json \<Rightarrow> semver res" where
  "parse_semver v = (case v of
     JStr s \<Rightarrow> (case split_on CHR ''.'' (py_strip s) of
        [a, b, c] \<Rightarrow> if numeral_ok a \<and> numeral_ok b \<and> numeral_ok c
          then Inr (numeral_val a, numeral_val b, numeral_val c) else Inl (ValueError ''schema_version'')
      | _ \<Rightarrow> Inl (ValueError ''schema_version''))
   | _ \<Rightarrow> Inl (ValueError ''schema_version''))"

definition show_semver :: "semver \<Rightarrow> string" where
  "show_semver v = (case v of (a, b, c) \<Rightarrow> nat_digits a @ ''.'' @ nat_digits b @ ''.'' @ nat_digits c)"

definition upgrade_flag :: string where
  "upgrade_flag = ''_looptimum_schema_upgrade_pending''"

definition state_version :: string where
  "state_version = ''0.3.0''"

definition is_ax_state :: "jdict \<Rightarrow> bool" where
  "is_ax_state state = (case jget state ''optimizer'' of JObj o' \<Rightarrow> jget o' ''backend'' = JStr ''ax'' | _ \<Rightarrow> False)"

definition optimizer_format :: "jdict \<Rightarrow> json" where
  "optimizer_format state = (case jget state ''optimizer'' of JObj o' \<Rightarrow> jget o' ''format_version'' | _ \<Rightarrow> JNull)"

definition upgrade_state :: "jdict \<Rightarrow> jdict" where
  "upgrade_state state = dset upgrade_flag (JBool True) (dset ''schema_version'' (JStr state_version) state)"

definition normalize_state_schema_version :: "jdict \<Rightarrow> jdict res" where
  "normalize_state_schema_version state =
     (let raw = jget state ''schema_version''; ax = is_ax_state state in
      if ax \<and> raw = JNull then Inl (ValueError ''Ax campaigns require their dedicated state schema version'')
      else if raw = JNull then Inr (upgrade_state state)
      else bindE (parse_semver raw) (\<lambda>v. let series = (fst v, fst (snd v)); normalized = show_semver v in
        if (series = (0, 4) \<or> series = (0, 5)) \<and> ax then
          (if optimizer_format state \<noteq> JInt (if series = (0, 5) then 2 else 1)
           then Inl (ValueError ''Unsupported Ax optimizer format_version'')
           else Inr (dset ''schema_version'' (JStr normalized) state))
        else if ax then Inl (ValueError ''Ax campaigns require matching state.schema_version'')
        else if series = (0, 3) then Inr (dset ''schema_version'' (JStr normalized) state)
        else if series = (0, 2) then Inr (upgrade_state state)
        else Inl (ValueError ''Unsupported state.schema_version'')))"

definition state_schema_upgrade_pending :: "jdict \<Rightarrow> bool" where
  "state_schema_upgrade_pending state = truthy (jget state upgrade_flag)"

definition state_for_persist :: "jdict \<Rightarrow> jdict" where
  "state_for_persist state = dpop upgrade_flag state"

definition state_schema_version :: "jdict \<Rightarrow> string res" where
  "state_schema_version state =
     bindE (parse_semver (dict_get state ''schema_version'' (JStr state_version))) (\<lambda>v. Inr (show_semver v))"

definition payload_schema_version :: "jdict \<Rightarrow> string res" where
  "payload_schema_version state =
     bindE (state_schema_version state) (\<lambda>persisted.
     bindE (parse_semver (JStr persisted)) (\<lambda>(major, minor, _).
     Inr (if (major, minor) = (0, 5) then ''0.4.0'' else if (major, minor) = (0, 4) then state_version else persisted)))"

subsection \<open>Limits\<close>

definition as_nonnegative_float :: "json \<Rightarrow> string \<Rightarrow> pyfloat res" where
  "as_nonnegative_float v field =
     (if \<not> strict_num v then Inl (ValueError field)
      else case py_float v of
        Inl _ \<Rightarrow> Inl (ValueError field)
      | Inr x \<Rightarrow> if \<not> is_finite x then Inl (ValueError field)
                 else if flt x (Fin 0) then Inl (ValueError field) else Inr x)"

definition as_positive_int :: "json \<Rightarrow> string \<Rightarrow> int res" where
  "as_positive_int v field = (case v of JInt i \<Rightarrow> if i \<le> 0 then Inl (ValueError field) else Inr i | _ \<Rightarrow> Inl (ValueError field))"

definition resolve_lock_timeout_seconds :: "jdict \<Rightarrow> pyfloat option \<Rightarrow> pyfloat res" where
  "resolve_lock_timeout_seconds cfg cli = (case cli of
     Some x \<Rightarrow> as_nonnegative_float (JFloat x) ''--lock-timeout-seconds''
   | None \<Rightarrow> as_nonnegative_float (dict_get cfg ''lock_timeout_seconds'' (JFloat (Fin 45))) ''lock_timeout_seconds'')"

definition resolve_max_pending_age_seconds :: "jdict \<Rightarrow> pyfloat option res" where
  "resolve_max_pending_age_seconds cfg = (let raw = dict_get cfg ''max_pending_age_seconds'' (JFloat (Fin 86400)) in
     if raw = JNull then Inr None
     else bindE (as_nonnegative_float raw ''max_pending_age_seconds'') (\<lambda>x. Inr (if feq x (Fin 0) then None else Some x)))"

definition resolve_retire_max_age_seconds :: "jdict \<Rightarrow> pyfloat option \<Rightarrow> pyfloat res" where
  "resolve_retire_max_age_seconds cfg cli = (case cli of
     Some x \<Rightarrow> bindE (as_nonnegative_float (JFloat x) ''--max-age-seconds'') (\<lambda>v.
       if feq v (Fin 0) then Inl (ValueError ''--max-age-seconds'') else Inr v)
   | None \<Rightarrow> bindE (resolve_max_pending_age_seconds cfg) (\<lambda>c. case c of
       None \<Rightarrow> Inl (ValueError ''retire --stale'') | Some v \<Rightarrow> Inr v))"

definition resolve_max_pending_trials :: "jdict \<Rightarrow> int option res" where
  "resolve_max_pending_trials cfg = (let raw = jget cfg ''max_pending_trials'' in
     if raw = JNull then Inr None else bindE (as_positive_int raw ''max_pending_trials'') (\<lambda>i. Inr (Some i)))"

definition resolve_worker_leases_enabled :: "jdict \<Rightarrow> bool res" where
  "resolve_worker_leases_enabled cfg = (case jget cfg ''worker_leases'' of
     JNull \<Rightarrow> Inr False
   | JObj d \<Rightarrow> (case dict_get d ''enabled'' (JBool False) of JBool b \<Rightarrow> Inr b | _ \<Rightarrow> Inl (ValueError ''worker_leases.enabled''))
   | _ \<Rightarrow> Inl (ValueError ''worker_leases''))"

subsection \<open>Pending age\<close>

definition touch_time :: "json \<Rightarrow> pyfloat option \<Rightarrow> pyfloat option res" where
  "touch_time raw prev =
     (if \<not> strict_num raw then Inr prev
      else bindE (py_float raw) (\<lambda>c. Inr (case prev of None \<Rightarrow> Some c | Some t \<Rightarrow> Some (if flt t c then c else t))))"

definition pending_age_seconds :: "jdict \<Rightarrow> pyfloat \<Rightarrow> pyfloat res" where
  "pending_age_seconds entry now =
     bindE (touch_time (jget entry ''suggested_at'') None) (\<lambda>t1.
     bindE (touch_time (jget entry ''last_heartbeat_at'') t1) (\<lambda>t2.
     Inr (case t2 of None \<Rightarrow> Fin 0 | Some t \<Rightarrow> py_max (Fin 0) (fsub now t))))"

subsection \<open>Runtime files\<close>

definition default_paths :: "(string \<times> string) list" where
  "default_paths =
     [(''state_file'', ''state/bo_state.json''),
      (''observations_csv'', ''state/observations.csv''),
      (''acquisition_log_file'', ''state/acquisition_log.jsonl''),
      (''event_log_file'', ''state/event_log.jsonl''),
      (''import_reports_dir'', ''state/import_reports''),
      (''trials_dir'', ''state/trials''),
      (''optimizer_dir'', ''state/optimizer''),
      (''lock_file'', ''state/.looptimum.lock''),
      (''report_json_file'', ''state/report.json''),
      (''report_md_file'', ''state/report.md'')]"

text \<open>\<open>resolve\<close> is \<open>(project_root / rel).resolve()\<close>; a configured path is text.\<close>

definition resolve_runtime_paths :: "(string \<Rightarrow> string) \<Rightarrow> jdict \<Rightarrow> (string \<times> string) list" where
  "resolve_runtime_paths resolve paths_cfg =
     map (\<lambda>(key, rel). (key, resolve (case map_of paths_cfg key of Some (JStr s) \<Rightarrow> s | _ \<Rightarrow> rel))) default_paths"

definition trial_dir :: "string \<Rightarrow> int \<Rightarrow> string" where
  "trial_dir trials_root trial_id = join_path trials_root (''trial_'' @ int_str trial_id)"

definition trial_manifest_path :: "string \<Rightarrow> int \<Rightarrow> string" where
  "trial_manifest_path trials_root trial_id = join_path (trial_dir trials_root trial_id) ''manifest.json''"

subsection \<open>The lock\<close>

text \<open>
  The acquisition loop against an environment: \<open>busy k\<close> says whether the k-th
  non-blocking \<open>flock\<close> finds the lock taken, \<open>clock k\<close> is the monotonic time read after
  that attempt. The loop sleeps between attempts and has no bound of its own.
\<close>

datatype acquired = Acquired nat | TimedOut nat

partial_function (option) acquire_from ::
  "bool \<Rightarrow> pyfloat \<Rightarrow> (nat \<Rightarrow> bool) \<Rightarrow> (nat \<Rightarrow> pyfloat) \<Rightarrow> nat \<Rightarrow> acquired option" where
  "acquire_from fail_fast deadline busy clock k =
     (if \<not> busy k then Some (Acquired k)
      else if fail_fast \<or> fle deadline (clock k) then Some (TimedOut k)
      else acquire_from fail_fast deadline busy clock (Suc k))"

definition lock_deadline :: "pyfloat \<Rightarrow> pyfloat \<Rightarrow> pyfloat" where
  "lock_deadline timeout_seconds start = fadd start (py_max (Fin 0) timeout_seconds)"

definition acquire :: "pyfloat \<Rightarrow> pyfloat \<Rightarrow> bool \<Rightarrow> (nat \<Rightarrow> bool) \<Rightarrow> (nat \<Rightarrow> pyfloat) \<Rightarrow> acquired option" where
  "acquire timeout_seconds start fail_fast busy clock =
     acquire_from fail_fast (lock_deadline timeout_seconds start) busy clock 0"


subsection \<open>Versions: print and parse\<close>

lemma is_digit_char: "n < 10 \<Longrightarrow> is_digit (char_of (48 + n)) \<and> digit_val (char_of (48 + n)) = n"
  for n :: nat by (simp add: is_digit_def digit_val_def)

lemma nat_digits_all: "list_all is_digit (nat_digits n)"
proof (induction n rule: nat_digits.induct)
  case (1 n)
  then show ?case
    using is_digit_char[of n] is_digit_char[of "n mod 10"] by (subst nat_digits.simps) simp
qed

lemma nat_digits_nonempty [simp]: "nat_digits n \<noteq> []"
  by (subst nat_digits.simps) simp

lemma nat_digits_hd: "hd (nat_digits n) = CHR ''0'' \<longleftrightarrow> n = 0"
proof (induction n rule: nat_digits.induct)
  case (1 n)
  have zero: "char_of (48 :: nat) = CHR ''0''" "digit_val CHR ''0'' = 0" by code_simp+
  have "char_of (48 + n) = CHR ''0'' \<longleftrightarrow> n = 0" if "n < 10" for n :: nat
    using is_digit_char[OF that] zero by (metis add.right_neutral)
  with 1 show ?case by (subst nat_digits.simps) (simp add: div_greater_zero_iff)
qed

lemma numeral_val_digits [simp]: "numeral_val (nat_digits n) = n"
proof (induction n rule: nat_digits.induct)
  case (1 n)
  then show ?case
    using is_digit_char[of n] is_digit_char[of "n mod 10"]
    by (subst nat_digits.simps) (simp add: numeral_val_def)
qed

lemma numeral_ok_digits [simp]: "numeral_ok (nat_digits n)"
  by (auto simp: numeral_ok_def nat_digits_all nat_digits_hd) (simp add: nat_digits.simps)

lemma digit_not_dot: "is_digit c \<Longrightarrow> c \<noteq> CHR ''.'' \<and> \<not> is_space c"
  by (auto simp: is_digit_def is_space_def Let_def)

lemma split_on_fresh: "sep \<notin> set s \<Longrightarrow> split_on sep s = [s]"
  by (induction s) auto

lemma split_on_append: "sep \<notin> set s \<Longrightarrow> split_on sep (s @ sep # t) = s # split_on sep t"
  by (induction s) auto

lemma digits_no_dot: "CHR ''.'' \<notin> set (nat_digits n)"
  using nat_digits_all[of n] digit_not_dot by (auto simp: list_all_iff)

lemma py_strip_solid: "s \<noteq> [] \<Longrightarrow> \<not> is_space (hd s) \<Longrightarrow> \<not> is_space (last s) \<Longrightarrow> py_strip s = s"
  using dropWhile_eq_self_iff[of is_space s] dropWhile_eq_self_iff[of is_space "rev s"]
  by (simp add: py_strip_def hd_rev)

lemma show_semver_solid [simp]: "py_strip (show_semver v) = show_semver v"
proof -
  obtain a b c where v: "v = (a, b, c)" by (cases v)
  have "\<not> is_space (hd (nat_digits n))" "\<not> is_space (last (nat_digits n))" for n
    using nat_digits_all[of n] digit_not_dot by (auto simp: list_all_iff)
  then show ?thesis by (intro py_strip_solid) (auto simp: v show_semver_def)
qed

lemma parse_show [simp]: "parse_semver (JStr (show_semver v)) = Inr v"
proof -
  obtain a b c where v: "v = (a, b, c)" by (cases v)
  have "split_on CHR ''.'' (show_semver v) = [nat_digits a, nat_digits b, nat_digits c]"
    by (simp add: v show_semver_def split_on_append split_on_fresh digits_no_dot)
  then show ?thesis by (simp add: parse_semver_def v)
qed

text \<open>\<open>_parse_semver\<close> reads back every version text the runtime writes: printing a
  version and parsing it is the identity.\<close>

lemma semver_roundtrip: "parse_semver (JStr (show_semver v)) = Inr v"
  by simp

subsection \<open>Versions of a state file\<close>

lemma state_for_persist_get [simp]: "k \<noteq> upgrade_flag \<Longrightarrow> map_of (state_for_persist s) k = map_of s k"
  by (simp add: state_for_persist_def)

lemma flag_differs [simp]: "upgrade_flag \<noteq> ''schema_version''" "upgrade_flag \<noteq> ''optimizer''"
  "''schema_version'' \<noteq> upgrade_flag" "''optimizer'' \<noteq> upgrade_flag"
  by (simp_all add: upgrade_flag_def)

lemma state_version_shows: "state_version = show_semver (0, 3, 0)"
  by code_simp

lemma parse_state_version [simp]: "parse_semver (JStr state_version) = Inr (0, 3, 0)"
  by (simp add: state_version_shows)

definition supported_version :: "jdict \<Rightarrow> semver \<Rightarrow> bool" where
  "supported_version state v = (case v of (major, minor, patch) \<Rightarrow>
     if is_ax_state state then (major = 0 \<and> minor = 4 \<and> optimizer_format state = JInt 1)
                             \<or> (major = 0 \<and> minor = 5 \<and> optimizer_format state = JInt 2)
     else major = 0 \<and> minor = 3)"

lemma jget_cong: "map_of s k = map_of t k \<Longrightarrow> jget s k = jget t k"
  by (simp add: jget_def)

text \<open>The version text the normalization writes.\<close>

lemma normalized_version:
  assumes "normalize_state_schema_version s = Inr t"
  shows "\<exists>v. map_of t ''schema_version'' = Some (JStr (show_semver v)) \<and> supported_version t v"
proof -
  have ax: "is_ax_state t = is_ax_state s" "optimizer_format t = optimizer_format s"
    if "\<And>k. k \<noteq> upgrade_flag \<Longrightarrow> k \<noteq> ''schema_version'' \<Longrightarrow> map_of t k = map_of s k"
    using that by (simp_all add: is_ax_state_def optimizer_format_def jget_def)
  have up: ?thesis if "t = upgrade_state s" "\<not> is_ax_state s"
  proof -
    have "map_of t ''schema_version'' = Some (JStr (show_semver (0, 3, 0)))"
      by (simp add: that upgrade_state_def state_version_shows)
    moreover have "supported_version t (0, 3, 0)" using that ax
      by (simp add: supported_version_def upgrade_state_def)
    ultimately show ?thesis by blast
  qed
  have keep: ?thesis if "t = dset ''schema_version'' (JStr (show_semver v)) s" "supported_version s v" for v
  proof -
    have same: "is_ax_state t = is_ax_state s" "optimizer_format t = optimizer_format s"
      by (rule ax; simp add: that(1))+
    have "supported_version t v" using that(2) by (cases v) (simp add: supported_version_def same)
    moreover have "map_of t ''schema_version'' = Some (JStr (show_semver v))" by (simp add: that(1))
    ultimately show ?thesis by blast
  qed
  have "t = upgrade_state s \<and> \<not> is_ax_state s
      \<or> (\<exists>v. t = dset ''schema_version'' (JStr (show_semver v)) s \<and> supported_version s v)"
    using assms
    by (auto simp: normalize_state_schema_version_def Let_def return_iff supported_version_def split: if_splits)
  with keep up show ?thesis by blast
qed

lemma normalized_keeps:
  assumes "normalize_state_schema_version s = Inr t" "k \<noteq> upgrade_flag" "k \<noteq> ''schema_version''"
  shows "map_of t k = map_of s k"
  using assms
  by (auto simp: normalize_state_schema_version_def Let_def return_iff upgrade_state_def split: if_splits)

lemma dset_present: "map_of d k = Some v \<Longrightarrow> dset k v d = d"
  by (induction d) auto

lemma normalize_persisted:
  assumes "normalize_state_schema_version s = Inr t"
  shows "normalize_state_schema_version (state_for_persist t) = Inr (state_for_persist t)"
proof -
  from normalized_version[OF assms] obtain v where
    v: "map_of t ''schema_version'' = Some (JStr (show_semver v))" "supported_version t v" by blast
  let ?p = "state_for_persist t"
  have p: "map_of ?p ''schema_version'' = Some (JStr (show_semver v))" using v by simp
  have "is_ax_state ?p = is_ax_state t" "optimizer_format ?p = optimizer_format t"
    by (simp_all add: is_ax_state_def optimizer_format_def jget_def)
  with p v(2) show ?thesis
    by (auto simp: normalize_state_schema_version_def Let_def supported_version_def dset_present split: prod.splits if_splits)
qed

text \<open>\<open>normalize_state_schema_version\<close> accepts a state only with a version this
  runtime supports, changes nothing but the version and the upgrade marker, never writes
  the marker to disk, and loading what it persisted changes nothing more.\<close>

lemma state_version_normalized:
  assumes "normalize_state_schema_version s = Inr t"
  shows "(\<exists>v. map_of t ''schema_version'' = Some (JStr (show_semver v)) \<and> supported_version t v)
    \<and> (\<forall>k. k \<noteq> upgrade_flag \<longrightarrow> k \<noteq> ''schema_version'' \<longrightarrow> map_of t k = map_of s k)
    \<and> \<not> state_schema_upgrade_pending (state_for_persist t)
    \<and> normalize_state_schema_version (state_for_persist t) = Inr (state_for_persist t)"
proof (intro conjI allI impI)
  from normalized_version[OF assms] obtain v where
    v: "map_of t ''schema_version'' = Some (JStr (show_semver v))" "supported_version t v" by blast
  then show "\<exists>v. map_of t ''schema_version'' = Some (JStr (show_semver v)) \<and> supported_version t v" by blast
  show "\<not> state_schema_upgrade_pending (state_for_persist t)"
    by (simp add: state_schema_upgrade_pending_def state_for_persist_def jget_def)
  show "normalize_state_schema_version (state_for_persist t) = Inr (state_for_persist t)"
    by (rule normalize_persisted[OF assms])
qed (use normalized_keeps[OF assms] in auto)


lemma state_version_normalized_witness:
  "\<exists>t. normalize_state_schema_version [(''schema_version'', JStr ''0.2.7''), (''next_trial_id'', JInt 4)] = Inr t
     \<and> map_of t ''next_trial_id'' = Some (JInt 4) \<and> \<not> state_schema_upgrade_pending (state_for_persist t)"
proof -
  let ?s = "[(''schema_version'', JStr ''0.2.7''), (''next_trial_id'', JInt 4)]"
  have "normalize_state_schema_version ?s = Inr (upgrade_state ?s)" by code_simp
  from state_version_normalized[OF this] this show ?thesis by (auto simp: upgrade_flag_def)
qed

subsection \<open>Ages and limits\<close>

lemma as_nonnegative_float_Inr:
  "as_nonnegative_float v field = Inr x \<Longrightarrow> is_finite x \<and> fle (Fin 0) x"
  by (auto simp: as_nonnegative_float_def not_flt split: if_splits sum.splits)

lemma resolve_retire_positive:
  assumes "resolve_retire_max_age_seconds cfg cli = Inr x"
  shows "is_finite x \<and> flt (Fin 0) x"
proof -
  have pos: "flt (Fin 0) y" if "is_finite y" "fle (Fin 0) y" "\<not> feq y (Fin 0)" for y
    using that fle_antisym_feq[of y "Fin 0"] not_flt[of "Fin 0" y] by auto
  show ?thesis
    using assms pos as_nonnegative_float_Inr
    by (fastforce simp: resolve_retire_max_age_seconds_def resolve_max_pending_age_seconds_def Let_def return_iff
        split: option.splits if_splits)
qed

lemma py_max_left: "a \<noteq> NaN \<Longrightarrow> b \<noteq> NaN \<Longrightarrow> fle a (py_max a b)"
  by (auto simp: py_max_def fle_refl flt_imp_fle)

lemma fsub_antimono:
  assumes "fle t u" "is_finite now" "is_finite t" "is_finite u"
  shows "fle (fsub now u) (fsub now t)"
proof -
  have "fval t \<le> fval u" using assms by (simp add: fle_def fkey_finite)
  then have "fle (mk_float p (fval now - fval u)) (mk_float q (fval now - fval t))" for p q
    by (intro mk_float_mono) simp
  then show ?thesis using assms by (simp add: fsub_finite)
qed

lemma py_max_mono_right: "fle a b \<Longrightarrow> x \<noteq> NaN \<Longrightarrow> fle (py_max x a) (py_max x b)"
  by (auto simp: py_max_def fle_def flt_def)

lemma fsub_same: "is_finite a \<Longrightarrow> is_finite b \<Longrightarrow> feq a b \<Longrightarrow> py_max (Fin 0) (fsub a b) = Fin 0"
  by (auto simp: fsub_finite feq_def fkey_finite py_max_def flt_def)

text \<open>The two touches of a pending entry, as \<open>pending_age_seconds\<close> reads them.\<close>

definition touched :: "jdict \<Rightarrow> string \<Rightarrow> pyfloat \<Rightarrow> bool" where
  "touched entry k t = (strict_num (jget entry k) \<and> py_float (jget entry k) = Inr t \<and> is_finite t)"

definition heartbeat_at :: "pyfloat \<Rightarrow> jdict \<Rightarrow> jdict" where
  "heartbeat_at h entry = dset ''last_heartbeat_at'' (JFloat h) entry"

lemma last_touch:
  assumes "touched entry ''suggested_at'' t" "\<not> strict_num (jget entry ''last_heartbeat_at'') \<or> touched entry ''last_heartbeat_at'' b"
  shows "\<exists>u. is_finite u \<and> fle t u \<and> (\<forall>h. fle t h \<longrightarrow> fle b h \<longrightarrow> fle u h)
    \<and> (\<forall>now. pending_age_seconds entry now = Inr (py_max (Fin 0) (fsub now u)))"
  using assms
  by (auto simp: touched_def pending_age_seconds_def touch_time_def flt_imp_fle intro!: fle_refl split: if_splits)

lemma last_touch_heartbeat:
  assumes "touched entry ''suggested_at'' t" "is_finite h" "fle t h"
  shows "\<exists>u. is_finite u \<and> feq h u \<and> (\<forall>now. pending_age_seconds (heartbeat_at h entry) now = Inr (py_max (Fin 0) (fsub now u)))"
proof -
  have s: "jget (heartbeat_at h entry) ''suggested_at'' = jget entry ''suggested_at''"
    by (simp add: heartbeat_at_def jget_def)
  have b: "jget (heartbeat_at h entry) ''last_heartbeat_at'' = JFloat h" by (simp add: heartbeat_at_def)
  define u where "u = (if flt t h then h else t)"
  have "is_finite u" "feq h u" using assms not_flt[of t h] fle_antisym_feq[of h t]
    by (auto simp: u_def touched_def intro!: feq_refl)
  moreover have "pending_age_seconds (heartbeat_at h entry) now = Inr (py_max (Fin 0) (fsub now u))" for now
    using assms by (simp add: pending_age_seconds_def touch_time_def s b u_def touched_def)
  ultimately show ?thesis by blast
qed

text \<open>The age of a suggested trial is never negative, a heartbeat taken at or after
  both recorded times never makes it older, and right after the heartbeat it is zero.\<close>

lemma heartbeat_refreshes:
  assumes "touched entry ''suggested_at'' t"
    and "\<not> strict_num (jget entry ''last_heartbeat_at'') \<or> touched entry ''last_heartbeat_at'' b"
    and "fle t h" "fle b h" "is_finite h" "is_finite now"
  shows "\<exists>age age'. pending_age_seconds entry now = Inr age \<and> fle (Fin 0) age
    \<and> pending_age_seconds (heartbeat_at h entry) now = Inr age' \<and> fle (Fin 0) age' \<and> fle age' age
    \<and> pending_age_seconds (heartbeat_at h entry) h = Inr (Fin 0)"
proof -
  from last_touch[OF assms(1,2)] assms(3,4) obtain u where
    u: "is_finite u" "fle u h" "\<And>now. pending_age_seconds entry now = Inr (py_max (Fin 0) (fsub now u))" by blast
  from last_touch_heartbeat[OF assms(1,5,3)] obtain v where
    v: "is_finite v" "feq h v" "\<And>now. pending_age_seconds (heartbeat_at h entry) now = Inr (py_max (Fin 0) (fsub now v))" by blast
  have "fle u v" using u(2) v(2) feq_fle fle_trans by blast
  then have "fle (py_max (Fin 0) (fsub now v)) (py_max (Fin 0) (fsub now u))"
    by (intro py_max_mono_right fsub_antimono) (use u v assms in auto)
  moreover have "fle (Fin 0) (py_max (Fin 0) (fsub now w))" if "is_finite w" for w
    by (intro py_max_left) (use assms that in \<open>simp_all add: fsub_finite\<close>)
  ultimately show ?thesis using u v assms fsub_same by auto
qed

lemma heartbeat_refreshes_witness:
  "\<exists>age'. pending_age_seconds (heartbeat_at (Fin 160) [(''suggested_at'', JFloat (Fin 100))]) (Fin 200) = Inr age'
     \<and> fle age' (Fin 100)"
proof -
  have "touched [(''suggested_at'', JFloat (Fin 100))] ''suggested_at'' (Fin 100)"
    "\<not> strict_num (jget [(''suggested_at'', JFloat (Fin 100))] ''last_heartbeat_at'')"
    "fle (Fin 100) (Fin 160)" "is_finite (Fin 160)" "is_finite (Fin 200)"
    "pending_age_seconds [(''suggested_at'', JFloat (Fin 100))] (Fin 200) = Inr (Fin 100)" by code_simp+
  from heartbeat_refreshes[OF this(1) disjI1[OF this(2)] this(3) this(3) this(4) this(5)] this(6)
  show ?thesis by auto
qed

subsection \<open>Acquiring the lock\<close>

text \<open>The attempt that settles the loop: the first one that finds the lock free or the time up.\<close>

definition settles :: "bool \<Rightarrow> pyfloat \<Rightarrow> (nat \<Rightarrow> bool) \<Rightarrow> (nat \<Rightarrow> pyfloat) \<Rightarrow> nat \<Rightarrow> bool" where
  "settles fail_fast deadline busy clock k = (\<not> busy k \<or> fail_fast \<or> fle deadline (clock k))"

lemma acquire_from_first:
  assumes "settles ff dl busy clock (k + d)" "\<And>i. i < d \<Longrightarrow> \<not> settles ff dl busy clock (k + i)"
  shows "acquire_from ff dl busy clock k = Some (if busy (k + d) then TimedOut (k + d) else Acquired (k + d))"
  using assms
proof (induction d arbitrary: k)
  case 0
  then show ?case by (subst acquire_from.simps) (auto simp: settles_def)
next
  case (Suc d)
  have "acquire_from ff dl busy clock (Suc k) = Some (if busy (Suc k + d) then TimedOut (Suc k + d) else Acquired (Suc k + d))"
  proof (rule Suc.IH)
    show "\<not> settles ff dl busy clock (Suc k + i)" if "i < d" for i
      using Suc.prems(2)[of "Suc i"] that by simp
  qed (use Suc.prems in simp)
  then show ?case using Suc.prems(2)[of 0] by (subst acquire_from.simps) (auto simp: settles_def)
qed

lemma acquire_from_returns:
  "acquire_from ff dl busy clock k = Some r \<Longrightarrow> \<exists>i. settles ff dl busy clock (k + i)"
proof (erule acquire_from.raw_induct[where P = "\<lambda>ff dl busy clock k r. \<exists>i. settles ff dl busy clock (k + i)", rotated],
    goal_cases)
  case (1 acq ff dl busy clock k r)
  show ?case
  proof (cases "settles ff dl busy clock k")
    case True
    then show ?thesis by (intro exI[of _ 0]) simp
  next
    case False
    with 1(2) have "acq ff dl busy clock (Suc k) = Some r" by (auto simp: settles_def split: if_splits)
    from 1(1)[OF this] obtain i where "settles ff dl busy clock (Suc k + i)" by blast
    then show ?thesis by (intro exI[of _ "Suc i"]) simp
  qed
qed

definition settles_first :: "bool \<Rightarrow> pyfloat \<Rightarrow> (nat \<Rightarrow> bool) \<Rightarrow> (nat \<Rightarrow> pyfloat) \<Rightarrow> nat \<Rightarrow> bool" where
  "settles_first ff dl busy clock k = (settles ff dl busy clock k \<and> (\<forall>i < k. \<not> settles ff dl busy clock i))"

lemma settles_first_unique: "settles_first ff dl busy clock k \<Longrightarrow> settles_first ff dl busy clock j \<Longrightarrow> j = k"
  by (metis settles_first_def linorder_neqE_nat)

lemma acquire_from_exact:
  "acquire_from ff dl busy clock 0 = Some r \<longleftrightarrow>
   (\<exists>k. settles_first ff dl busy clock k \<and> r = (if busy k then TimedOut k else Acquired k))"
proof -
  have first: "acquire_from ff dl busy clock 0 = Some (if busy k then TimedOut k else Acquired k)"
    if "settles_first ff dl busy clock k" for k
    using acquire_from_first[of ff dl busy clock 0 k] that by (simp add: settles_first_def)
  show ?thesis
  proof
    assume r: "acquire_from ff dl busy clock 0 = Some r"
    then obtain i where "settles ff dl busy clock i" using acquire_from_returns by fastforce
    then have "settles_first ff dl busy clock (LEAST i. settles ff dl busy clock i)"
      by (auto simp: settles_first_def intro: LeastI dest: not_less_Least)
    with first r show "\<exists>k. settles_first ff dl busy clock k \<and> r = (if busy k then TimedOut k else Acquired k)"
      by (intro exI conjI) auto
  qed (use first in auto)
qed

text \<open>C37: \<open>ExclusiveFileLock.acquire\<close> takes the lock exactly at the first attempt that finds
  it free before time is up, reports a time-out exactly at the first attempt at or after
  the deadline (the first of all when failing fast), and runs for ever only when neither
  ever happens.\<close>

lemma lock_acquisition_exact:
  "(acquire timeout start ff busy clock = Some (Acquired k) \<longleftrightarrow>
        \<not> busy k \<and> settles_first ff (lock_deadline timeout start) busy clock k)
    \<and> (acquire timeout start ff busy clock = Some (TimedOut k) \<longleftrightarrow>
        busy k \<and> (ff \<or> fle (lock_deadline timeout start) (clock k)) \<and>
        settles_first ff (lock_deadline timeout start) busy clock k)
    \<and> (acquire timeout start ff busy clock = None \<longleftrightarrow>
        (\<forall>j. busy j \<and> \<not> ff \<and> \<not> fle (lock_deadline timeout start) (clock j)))"
proof -
  define dl where "dl = lock_deadline timeout start"
  have e: "acquire timeout start ff busy clock = Some r \<longleftrightarrow>
     (\<exists>k. settles_first ff dl busy clock k \<and> r = (if busy k then TimedOut k else Acquired k))" for r
    by (simp add: acquire_def dl_def acquire_from_exact)
  have n: "acquire timeout start ff busy clock = None \<longleftrightarrow> (\<forall>j. \<not> settles ff dl busy clock j)"
  proof
    assume none: "acquire timeout start ff busy clock = None"
    show "\<forall>j. \<not> settles ff dl busy clock j"
    proof (rule ccontr)
      assume "\<not> (\<forall>j. \<not> settles ff dl busy clock j)"
      then have "settles_first ff dl busy clock (LEAST i. settles ff dl busy clock i)"
        by (auto simp: settles_first_def intro: LeastI dest: not_less_Least)
      with e none show False by auto
    qed
  next
    assume "\<forall>j. \<not> settles ff dl busy clock j"
    then show "acquire timeout start ff busy clock = None"
      using e by (cases "acquire timeout start ff busy clock") (auto simp: settles_first_def)
  qed
  show ?thesis unfolding dl_def[symmetric]
  proof (intro conjI)
    show "acquire timeout start ff busy clock = None \<longleftrightarrow> (\<forall>j. busy j \<and> \<not> ff \<and> \<not> fle dl (clock j))"
      unfolding n by (auto simp: settles_def)
    show "acquire timeout start ff busy clock = Some (TimedOut k) \<longleftrightarrow>
        busy k \<and> (ff \<or> fle dl (clock k)) \<and> settles_first ff dl busy clock k"
      unfolding e by (auto simp: settles_first_def settles_def)
    show "acquire timeout start ff busy clock = Some (Acquired k) \<longleftrightarrow> \<not> busy k \<and> settles_first ff dl busy clock k"
      unfolding e by (auto simp: settles_first_def settles_def)
  qed
qed

end
