(* ===== verification/Governance.thy ===== *)
theory Governance
  imports RuntimeCfg
begin

text \<open>
  \<open>templates/_shared/governance.py\<close>: the governance part of the configuration, the age
  summary of the pending trials, the footprint of logs and archives, the latency summary
  of the acquisition log, and the findings a command records. Directory listings and file
  sizes are arguments.
\<close>

subsection \<open>Configuration\<close>

definition gov_object :: "json \<Rightarrow> string \<Rightarrow> jdict res" where
  "gov_object v field = (case v of JNull \<Rightarrow> Inr [] | JObj d \<Rightarrow> Inr d | _ \<Rightarrow> Inl (ValueError field))"

definition optional_positive_int :: "json \<Rightarrow> string \<Rightarrow> int option res" where
  "optional_positive_int v field = (case v of
     JNull \<Rightarrow> Inr None
   | JInt i \<Rightarrow> if i < 1 then Inl (ValueError field) else Inr (Some i)
   | _ \<Rightarrow> Inl (ValueError field))"

definition optional_positive_float :: "json \<Rightarrow> string \<Rightarrow> pyfloat option res" where
  "optional_positive_float v field =
     (if v = JNull then Inr None
      else if \<not> strict_num v then Inl (ValueError field)
      else bindE (py_float v) (\<lambda>x.
        if \<not> is_finite x \<or> fle x (Fin 0) then Inl (ValueError field) else Inr (Some x)))"

definition add_status :: "json \<Rightarrow> string list \<Rightarrow> string list res" where
  "add_status raw statuses = (case raw of
     JStr s \<Rightarrow> (let status = py_lower (py_strip s) in
       if \<not> List.member canonical_statuses status then Inl (ValueError ''governance.allowed_statuses canonical'')
       else if List.member statuses status then Inl (ValueError ''governance.allowed_statuses duplicates'')
       else Inr (statuses @ [status]))
   | _ \<Rightarrow> Inl (ValueError ''governance.allowed_statuses string''))"

definition normalize_allowed_statuses :: "json \<Rightarrow> string list res" where
  "normalize_allowed_statuses v = (case v of
     JNull \<Rightarrow> Inr canonical_statuses
   | JArr xs \<Rightarrow> if xs = [] then Inl (ValueError ''governance.allowed_statuses'') else foldE add_status xs []
   | _ \<Rightarrow> Inl (ValueError ''governance.allowed_statuses''))"

record governance_cfg =
  allowed_statuses :: "string list"
  archives_max_count :: "int option"
  archives_max_age :: "pyfloat option"
  archives_max_bytes :: "int option"
  event_log_max :: "int option"
  acquisition_log_max :: "int option"

definition only_keys :: "string list \<Rightarrow> jdict \<Rightarrow> string \<Rightarrow> unit res" where
  "only_keys allowed d field = guardE (list_all (List.member allowed) (map fst d)) (ValueError field)"

definition normalize_governance_config :: "json \<Rightarrow> governance_cfg res" where
  "normalize_governance_config cfg =
     bindE (gov_object cfg ''bo_config'') (\<lambda>bo.
     bindE (gov_object (jget bo ''governance'') ''governance'') (\<lambda>governance.
     bindE (gov_object (jget bo ''retention'') ''retention'') (\<lambda>retention.
     bindE (gov_object (jget retention ''archives'') ''retention.archives'') (\<lambda>archives.
     bindE (gov_object (jget retention ''logs'') ''retention.logs'') (\<lambda>logs.
     bindE (only_keys [''allowed_statuses''] governance ''governance'') (\<lambda>_.
     bindE (only_keys [''max_count'', ''max_age_seconds'', ''max_total_bytes''] archives ''retention.archives'') (\<lambda>_.
     bindE (only_keys [''event_log_max_bytes'', ''acquisition_log_max_bytes''] logs ''retention.logs'') (\<lambda>_.
     bindE (normalize_allowed_statuses (jget governance ''allowed_statuses'')) (\<lambda>allowed.
     bindE (optional_positive_int (jget archives ''max_count'') ''max_count'') (\<lambda>max_count.
     bindE (optional_positive_float (jget archives ''max_age_seconds'') ''max_age_seconds'') (\<lambda>max_age.
     bindE (optional_positive_int (jget archives ''max_total_bytes'') ''max_total_bytes'') (\<lambda>max_bytes.
     bindE (optional_positive_int (jget logs ''event_log_max_bytes'') ''event_log_max_bytes'') (\<lambda>ev.
     bindE (optional_positive_int (jget logs ''acquisition_log_max_bytes'') ''acquisition_log_max_bytes'') (\<lambda>acq.
     Inr \<lparr>allowed_statuses = allowed, archives_max_count = max_count, archives_max_age = max_age,
          archives_max_bytes = max_bytes, event_log_max = ev, acquisition_log_max = acq\<rparr>))))))))))))))"

subsection \<open>Ages of pending trials\<close>

definition known_touch :: "json \<Rightarrow> pyfloat option \<Rightarrow> pyfloat option res" where
  "known_touch raw prev =
     (if \<not> strict_num raw then Inr prev
      else bindE (py_float raw) (\<lambda>c. Inr (
        if is_finite c \<and> (case prev of None \<Rightarrow> True | Some t \<Rightarrow> flt t c) then Some c else prev)))"

definition pending_entry_age :: "pyfloat \<Rightarrow> jdict \<Rightarrow> pyfloat option res" where
  "pending_entry_age now entry =
     bindE (known_touch (jget entry ''suggested_at'') None) (\<lambda>t1.
     bindE (known_touch (jget entry ''last_heartbeat_at'') t1) (\<lambda>t2.
     Inr (case t2 of None \<Rightarrow> None | Some t \<Rightarrow> Some (py_max (Fin 0) (fsub now t)))))"

record age_bucket =
  bk_id :: string
  bk_lower :: pyfloat
  bk_upper :: "pyfloat option"
  bk_count :: nat

fun make_buckets :: "nat \<Rightarrow> pyfloat \<Rightarrow> pyfloat list \<Rightarrow> age_bucket list" where
  "make_buckets i lower [] = [\<lparr>bk_id = ''bucket_overflow'', bk_lower = lower, bk_upper = None, bk_count = 0\<rparr>]"
| "make_buckets i lower (e # es) =
     \<lparr>bk_id = ''bucket_'' @ int_str (int i), bk_lower = lower, bk_upper = Some e, bk_count = 0\<rparr> # make_buckets (Suc i) e es"

text \<open>An age goes into the first bucket it is below the upper bound of, else into the last.\<close>

fun place_age :: "pyfloat \<Rightarrow> age_bucket list \<Rightarrow> age_bucket list" where
  "place_age age [] = []"
| "place_age age (b # bs) =
     (if bs = [] \<or> (case bk_upper b of None \<Rightarrow> False | Some u \<Rightarrow> flt age u)
      then b\<lparr>bk_count := bk_count b + 1\<rparr> # bs else b # place_age age bs)"

record age_summary =
  as_edges :: "pyfloat list"
  as_buckets :: "age_bucket list"
  as_pending :: nat
  as_known :: nat
  as_unknown :: nat
  as_oldest :: "pyfloat option"

definition default_age_edges :: "pyfloat list" where
  "default_age_edges = [Fin 60, Fin 300, Fin 3600, Fin 21600, Fin 86400]"

definition check_edges :: "pyfloat list \<Rightarrow> unit res" where
  "check_edges edges =
     (if edges = [] then Inl (ValueError ''bucket_edges_seconds empty'')
      else if list_ex (\<lambda>e. \<not> is_finite e \<or> fle e (Fin 0)) edges then Inl (ValueError ''bucket_edges_seconds finite'')
      else if \<not> list_all2 feq edges (sort_by flt edges) then Inl (ValueError ''bucket_edges_seconds sorted'')
      else if \<not> distinct (map fval edges) then Inl (ValueError ''bucket_edges_seconds duplicates'')
      else Inr ())"

definition summarize_pending_age_buckets :: "jdict list \<Rightarrow> pyfloat \<Rightarrow> pyfloat list \<Rightarrow> age_summary res" where
  "summarize_pending_age_buckets pending now edges =
     bindE (check_edges edges) (\<lambda>_.
     bindE (mapE (pending_entry_age now) pending) (\<lambda>ages.
     let known = map the (filter (\<lambda>a. a \<noteq> None) ages) in
     Inr \<lparr>as_edges = edges, as_buckets = fold place_age known (make_buckets 0 (Fin 0) edges),
          as_pending = length pending, as_known = length known,
          as_unknown = length (filter (\<lambda>a. a = None) ages),
          as_oldest = (if known = [] then None else Some (list_max known))\<rparr>))"

subsection \<open>Footprints\<close>

text \<open>A log file that exists has a size; an archive directory has a name, a size and perhaps a manifest.\<close>

record archive_dir =
  ad_name :: string
  ad_size :: nat
  ad_manifest :: "stored option"

record footprint_files =
  log_sizes :: "(string, nat) dict"
  reset_archives :: "archive_dir list option"

definition log_labels :: "string list" where
  "log_labels = [''acquisition_log_file'', ''event_log_file'']"

definition collect_log_footprint :: "footprint_files \<Rightarrow> (string \<times> bool \<times> nat) list" where
  "collect_log_footprint fs =
     map (\<lambda>label. (label, has_key (log_sizes fs) label, dict_get (log_sizes fs) label 0)) log_labels"

definition archive_created_at :: "archive_dir \<Rightarrow> pyfloat option res" where
  "archive_created_at a = (case ad_manifest a of
     Some (JsonFile (JObj d)) \<Rightarrow>
       if \<not> strict_num (jget d ''created_at'') then Inr None
       else bindE (py_float (jget d ''created_at'')) (\<lambda>x. Inr (if is_finite x then Some x else None))
   | _ \<Rightarrow> Inr None)"

record archive_entry =
  ae_id :: string
  ae_size :: nat
  ae_age :: "pyfloat option"

definition archive_entry_of :: "pyfloat \<Rightarrow> archive_dir \<Rightarrow> archive_entry res" where
  "archive_entry_of now a =
     bindE (archive_created_at a) (\<lambda>created.
     Inr \<lparr>ae_id = ad_name a, ae_size = ad_size a,
          ae_age = map_option (\<lambda>c. py_max (Fin 0) (fsub now c)) created\<rparr>)"

record archive_footprint =
  af_exists :: bool
  af_total_bytes :: nat
  af_max_age :: "pyfloat option"
  af_archives :: "archive_entry list"

definition collect_archive_footprint :: "footprint_files \<Rightarrow> pyfloat \<Rightarrow> archive_footprint res" where
  "collect_archive_footprint fs now = (case reset_archives fs of
     None \<Rightarrow> Inr \<lparr>af_exists = False, af_total_bytes = 0, af_max_age = None, af_archives = []\<rparr>
   | Some dirs \<Rightarrow>
       bindE (mapE (archive_entry_of now) (sort_by (\<lambda>a b. str_less (ad_name a) (ad_name b)) dirs)) (\<lambda>entries.
       let ages = map the (filter (\<lambda>a. a \<noteq> None) (map ae_age entries)) in
       Inr \<lparr>af_exists = True, af_total_bytes = sum_list (map ae_size entries),
            af_max_age = (if ages = [] then None else Some (list_max ages)), af_archives = entries\<rparr>))"

subsection \<open>Findings\<close>

definition finding_of :: "string \<Rightarrow> string \<Rightarrow> jdict \<Rightarrow> jdict" where
  "finding_of policy message details =
     [(''policy_id'', JStr policy), (''message'', JStr message), (''details'', JObj details)]"

definition observed_statuses :: "jdict list \<Rightarrow> string list" where
  "observed_statuses observations =
     map (\<lambda>row. py_lower (py_strip (py_str (dict_get row ''status'' (JStr []))))) observations"

definition disallowed_statuses :: "string list \<Rightarrow> jdict list \<Rightarrow> string list" where
  "disallowed_statuses allowed observations =
     sort_by str_less (remdups (filter (\<lambda>s. \<not> List.member allowed s) (observed_statuses observations)))"

definition status_findings :: "governance_cfg \<Rightarrow> jdict list \<Rightarrow> jdict list" where
  "status_findings gov observations = (let bad = disallowed_statuses (allowed_statuses gov) observations in
     if bad = [] then [] else [finding_of ''governance.allowed_statuses''
       ''Observed statuses fall outside governance.allowed_statuses''
       [(''allowed_statuses'', JArr (map JStr (allowed_statuses gov))), (''observed_statuses'', JArr (map JStr bad))]])"

text \<open>\<open>n > limit\<close> for a configured limit\<close>

definition exceeds :: "nat \<Rightarrow> int option \<Rightarrow> bool" where
  "exceeds n limit = (case limit of None \<Rightarrow> False | Some l \<Rightarrow> l < int n)"

definition archive_count_findings :: "governance_cfg \<Rightarrow> archive_footprint \<Rightarrow> jdict list" where
  "archive_count_findings gov af =
     (if exceeds (length (af_archives af)) (archives_max_count gov)
      then [finding_of ''retention.archives.max_count'' ''Reset archive count exceeds configured retention limit''
        [(''archive_count'', JInt (int (length (af_archives af)))), (''max_count'', jopt (map_option JInt (archives_max_count gov)))]]
      else [])"

definition archive_size_findings :: "governance_cfg \<Rightarrow> archive_footprint \<Rightarrow> jdict list" where
  "archive_size_findings gov af =
     (if exceeds (af_total_bytes af) (archives_max_bytes gov)
      then [finding_of ''retention.archives.max_total_bytes'' ''Reset archive storage exceeds configured retention limit''
        [(''total_size_bytes'', JInt (int (af_total_bytes af))), (''max_total_bytes'', jopt (map_option JInt (archives_max_bytes gov)))]]
      else [])"

definition aged_archives :: "pyfloat \<Rightarrow> archive_footprint \<Rightarrow> archive_entry list" where
  "aged_archives limit af = filter (\<lambda>e. case ae_age e of None \<Rightarrow> False | Some a \<Rightarrow> flt limit a) (af_archives af)"

definition archive_age_findings :: "governance_cfg \<Rightarrow> archive_footprint \<Rightarrow> jdict list" where
  "archive_age_findings gov af = (case archives_max_age gov of
     None \<Rightarrow> []
   | Some limit \<Rightarrow> if aged_archives limit af = [] then [] else
       [finding_of ''retention.archives.max_age_seconds'' ''Reset archive age exceeds configured retention limit''
         [(''max_age_seconds'', JFloat limit),
          (''archives'', JArr (map (\<lambda>e. JObj [(''archive_id'', JStr (ae_id e)), (''age_seconds'', jfloat_opt (ae_age e))])
             (aged_archives limit af)))]])"

definition unknown_age_warnings :: "governance_cfg \<Rightarrow> archive_footprint \<Rightarrow> jdict list" where
  "unknown_age_warnings gov af = (case archives_max_age gov of
     None \<Rightarrow> []
   | Some limit \<Rightarrow> (let unknown = filter (\<lambda>e. ae_age e = None) (af_archives af) in
       if unknown = [] then [] else
       [finding_of ''retention.archives.max_age_seconds.unknown_age_archives''
         ''Some reset archives have unknown age and were not evaluated against retention.archives.max_age_seconds''
         [(''max_age_seconds'', JFloat limit), (''archive_ids'', JArr (map (\<lambda>e. JStr (ae_id e)) unknown))]]))"

definition log_limit :: "governance_cfg \<Rightarrow> string \<Rightarrow> int option" where
  "log_limit gov label = (if label = ''acquisition_log_file'' then acquisition_log_max gov else event_log_max gov)"

definition log_limit_key :: "string \<Rightarrow> string" where
  "log_limit_key label = (if label = ''acquisition_log_file'' then ''acquisition_log_max_bytes'' else ''event_log_max_bytes'')"

text \<open>The relative path in the details of a log finding is left out: paths are arguments of the commands.\<close>

definition log_findings :: "governance_cfg \<Rightarrow> (string \<times> bool \<times> nat) list \<Rightarrow> jdict list" where
  "log_findings gov logs = concat (map (\<lambda>(label, _, n).
     if exceeds n (log_limit gov label)
     then [finding_of (''retention.logs.'' @ log_limit_key label) ''Append-only log file exceeds configured retention limit''
       [(''label'', JStr label), (''size_bytes'', JInt (int n)), (''max_bytes'', jopt (map_option JInt (log_limit gov label)))]]
     else []) logs)"

record findings =
  fi_warnings :: "jdict list"
  fi_violations :: "jdict list"

definition evaluate_governance_findings ::
  "governance_cfg \<Rightarrow> jdict list \<Rightarrow> archive_footprint \<Rightarrow> (string \<times> bool \<times> nat) list \<Rightarrow> findings" where
  "evaluate_governance_findings gov observations af logs =
     \<lparr>fi_warnings = unknown_age_warnings gov af,
      fi_violations = status_findings gov observations @ archive_count_findings gov af @ archive_size_findings gov af @
        archive_age_findings gov af @ log_findings gov logs\<rparr>"

record snapshot =
  sn_cfg :: governance_cfg
  sn_pending_age :: age_summary
  sn_archives :: archive_footprint
  sn_logs :: "(string \<times> bool \<times> nat) list"
  sn_findings :: findings

definition build_governance_snapshot ::
  "footprint_files \<Rightarrow> jdict list \<Rightarrow> jdict list \<Rightarrow> json \<Rightarrow> pyfloat \<Rightarrow> snapshot res" where
  "build_governance_snapshot fs pending observations cfg now =
     bindE (normalize_governance_config cfg) (\<lambda>gov.
     bindE (summarize_pending_age_buckets pending now default_age_edges) (\<lambda>ages.
     bindE (collect_archive_footprint fs now) (\<lambda>archives.
     let logs = collect_log_footprint fs in
     Inr \<lparr>sn_cfg = gov, sn_pending_age = ages, sn_archives = archives, sn_logs = logs,
          sn_findings = evaluate_governance_findings gov observations archives logs\<rparr>)))"

subsection \<open>Suggestion latency\<close>

text \<open>A line of a JSON-lines file after \<open>strip\<close>: blank, unreadable or a value.\<close>

datatype log_line = BlankLine | BadLine | JsonLine json

record latency_summary =
  la_entries :: nat
  la_count :: nat
  la_missing :: nat
  la_min :: "pyfloat option"
  la_max :: "pyfloat option"
  la_mean :: "pyfloat option"
  la_total :: pyfloat
  la_latest :: "pyfloat option"

definition entry_latency :: "jdict \<Rightarrow> pyfloat option res" where
  "entry_latency payload = (case jget payload ''telemetry'' of
     JNull \<Rightarrow> Inr None
   | JObj telemetry \<Rightarrow> (let raw = jget telemetry ''suggest_latency_seconds'' in
       if raw = JNull then Inr None
       else if \<not> strict_num raw then Inl (ValueError ''suggest_latency_seconds numeric'')
       else bindE (py_float raw) (\<lambda>x.
         if \<not> is_finite x \<or> flt x (Fin 0) then Inl (ValueError ''suggest_latency_seconds finite'') else Inr (Some x)))
   | _ \<Rightarrow> Inl (ValueError ''telemetry must be an object''))"

definition read_latency :: "log_line \<Rightarrow> nat \<times> pyfloat list \<Rightarrow> (nat \<times> pyfloat list) res" where
  "read_latency line acc = (case line of
     BlankLine \<Rightarrow> Inr acc
   | BadLine \<Rightarrow> Inl (ValueError ''invalid JSON'')
   | JsonLine (JObj d) \<Rightarrow> bindE (entry_latency d) (\<lambda>l.
       Inr (fst acc + 1, case l of None \<Rightarrow> snd acc | Some x \<Rightarrow> snd acc @ [x]))
   | JsonLine _ \<Rightarrow> Inl (ValueError ''must be a JSON object''))"

fun list_min :: "pyfloat list \<Rightarrow> pyfloat" where
  "list_min [] = Fin 0"
| "list_min (x # xs) = foldl py_min x xs"

definition summarize_suggestion_latency :: "log_line list \<Rightarrow> latency_summary res" where
  "summarize_suggestion_latency lines =
     bindE (foldE read_latency lines (0, [])) (\<lambda>(entries, ls).
     if ls = [] then Inr \<lparr>la_entries = entries, la_count = 0, la_missing = entries, la_min = None, la_max = None,
                          la_mean = None, la_total = Fin 0, la_latest = None\<rparr>
     else bindE (float_of_int (int (length ls))) (\<lambda>n.
          bindE (fdiv (fsum ls) n) (\<lambda>mean.
          Inr \<lparr>la_entries = entries, la_count = length ls, la_missing = entries - length ls,
               la_min = Some (list_min ls), la_max = Some (list_max ls), la_mean = Some mean, la_total = fsum ls,
               la_latest = Some (last ls)\<rparr>)))"

subsection \<open>The age summary counts every trial once\<close>

lemma make_buckets_ne [simp]: "make_buckets i lo es \<noteq> []"
  by (cases es) auto

lemma make_buckets_empty [simp]: "sum_list (map bk_count (make_buckets i lo es)) = 0"
  by (induction es arbitrary: i lo) auto

lemma place_age_ne [simp]: "place_age a bs = [] \<longleftrightarrow> bs = []"
  by (cases bs) auto

lemma place_age_count: "bs \<noteq> [] \<Longrightarrow> sum_list (map bk_count (place_age a bs)) = Suc (sum_list (map bk_count bs))"
  by (induction a bs rule: place_age.induct) auto

lemma place_ages_count:
  "bs \<noteq> [] \<Longrightarrow> sum_list (map bk_count (fold place_age as bs)) = sum_list (map bk_count bs) + length as"
  by (induction as arbitrary: bs) (simp_all add: place_age_count)

text \<open>The pending-age summary accounts for every pending trial exactly once: the known and
  unknown ages add up to the pending trials, and the bucket counts add up to the known ages.\<close>

lemma pending_buckets_account:
  assumes "summarize_pending_age_buckets pending now edges = Inr s"
  shows "as_pending s = length pending \<and> as_known s + as_unknown s = as_pending s
    \<and> sum_list (map bk_count (as_buckets s)) = as_known s"
proof -
  from assms obtain ages where ages: "mapE (pending_entry_age now) pending = Inr ages"
    and s: "s = \<lparr>as_edges = edges,
        as_buckets = fold place_age (map the (filter (\<lambda>a. a \<noteq> None) ages)) (make_buckets 0 (Fin 0) edges),
        as_pending = length pending, as_known = length (filter (\<lambda>a. a \<noteq> None) ages),
        as_unknown = length (filter (\<lambda>a. a = None) ages),
        as_oldest = (if filter (\<lambda>a. a \<noteq> None) ages = [] then None
                     else Some (list_max (map the (filter (\<lambda>a. a \<noteq> None) ages))))\<rparr>"
    by (auto simp: summarize_pending_age_buckets_def return_iff Let_def)
  have "length (filter (\<lambda>a. a \<noteq> None) ages) + length (filter (\<lambda>a. a = None) ages) = length ages"
    using sum_length_filter_compl[of "\<lambda>a. a \<noteq> None" ages] by simp
  then show ?thesis using mapE_Inr_length[OF ages] by (simp add: s place_ages_count)
qed

lemma pending_buckets_account_witness:
  "\<exists>s. summarize_pending_age_buckets [[(''suggested_at'', JInt 100)], []] (Fin 500) default_age_edges = Inr s
     \<and> as_known s = 1 \<and> sum_list (map bk_count (as_buckets s)) = as_known s"
proof -
  obtain s where s: "summarize_pending_age_buckets [[(''suggested_at'', JInt 100)], []] (Fin 500) default_age_edges = Inr s"
    and k: "as_known s = 1"
  proof -
    have "case summarize_pending_age_buckets [[(''suggested_at'', JInt 100)], []] (Fin 500) default_age_edges of
        Inl _ \<Rightarrow> False | Inr s \<Rightarrow> as_known s = 1" by code_simp
    then show thesis by (auto intro: that split: sum.splits)
  qed
  from pending_buckets_account[OF s] s k show ?thesis by blast
qed

subsection \<open>Findings are exact\<close>

text \<open>What a campaign has to satisfy to be free of violations.\<close>

definition within_limit :: "nat \<Rightarrow> int option \<Rightarrow> bool" where
  "within_limit n limit = (\<forall>l. limit = Some l \<longrightarrow> int n \<le> l)"

definition compliant :: "governance_cfg \<Rightarrow> jdict list \<Rightarrow> archive_footprint \<Rightarrow> (string \<times> bool \<times> nat) list \<Rightarrow> bool" where
  "compliant gov observations af logs =
     ((\<forall>s\<in>set (observed_statuses observations). s \<in> set (allowed_statuses gov))
      \<and> within_limit (length (af_archives af)) (archives_max_count gov)
      \<and> within_limit (af_total_bytes af) (archives_max_bytes gov)
      \<and> (\<forall>limit e a. archives_max_age gov = Some limit \<longrightarrow> e \<in> set (af_archives af) \<longrightarrow> ae_age e = Some a \<longrightarrow> \<not> flt limit a)
      \<and> (\<forall>(label, _, n)\<in>set logs. within_limit n (log_limit gov label)))"

lemma exceeds_within: "exceeds n limit \<longleftrightarrow> \<not> within_limit n limit"
  by (cases limit) (auto simp: exceeds_def within_limit_def)

lemma status_findings_none:
  "status_findings gov observations = [] \<longleftrightarrow> (\<forall>s\<in>set (observed_statuses observations). s \<in> set (allowed_statuses gov))"
proof -
  have "disallowed_statuses al os = [] \<longleftrightarrow> set (disallowed_statuses al os) = {}" for al os by simp
  then show ?thesis by (auto simp: status_findings_def Let_def disallowed_statuses_def)
qed

lemma archive_age_none:
  "archive_age_findings gov af = [] \<longleftrightarrow>
     (\<forall>limit e a. archives_max_age gov = Some limit \<longrightarrow> e \<in> set (af_archives af) \<longrightarrow> ae_age e = Some a \<longrightarrow> \<not> flt limit a)"
  by (auto simp: archive_age_findings_def aged_archives_def filter_empty_conv split: option.splits)

lemma log_findings_none:
  "log_findings gov logs = [] \<longleftrightarrow> (\<forall>(label, _, n)\<in>set logs. within_limit n (log_limit gov label))"
  by (auto simp: log_findings_def exceeds_within split_beta split: if_splits)

text \<open>The governance findings are exact: there is no violation exactly when every observed
  status is allowed and the archives and the logs stay within every configured limit.\<close>

lemma governance_violations_exact:
  "fi_violations (evaluate_governance_findings gov observations af logs) = [] \<longleftrightarrow> compliant gov observations af logs"
  by (simp add: evaluate_governance_findings_def compliant_def status_findings_none archive_age_none log_findings_none
      archive_count_findings_def archive_size_findings_def exceeds_within)

end
