(* ===== verification/Surrogate.thy ===== *)
theory Surrogate
  imports RuntimeCfg
begin

text \<open>
  \<open>bo_client/acquisition.py\<close> and \<open>bo_client/surrogate_proxy.py\<close>: the acquisition scores
  and the RBF proxy that ranks a pool of candidates. The error function of the C library
  joins the other mathematical functions as a parameter.
\<close>

subsection \<open>Acquisition scores\<close>

record surrogate_math = math_ops +
  m_erf :: "pyfloat \<Rightarrow> pyfloat"

text \<open>The double nearest to pi, and the literals \<open>0.01\<close>, \<open>0.2\<close>, \<open>1e-6\<close>, \<open>1e-9\<close>.\<close>

definition py_pi :: pyfloat where "py_pi = Fin (884279719003555 / 2 ^ 48)"
definition lit_001 :: pyfloat where "lit_001 = Fin (5764607523034235 / 2 ^ 59)"
definition lit_02 :: pyfloat where "lit_02 = Fin (3602879701896397 / 2 ^ 54)"
definition lit_1em6 :: pyfloat where "lit_1em6 = Fin (4722366482869645 / 2 ^ 72)"
definition lit_1em9 :: pyfloat where "lit_1em9 = Fin (4835703278458517 / 2 ^ 82)"

text \<open>\<open>x ** 2\<close> raises when a finite operand overflows.\<close>

definition square :: "pyfloat \<Rightarrow> pyfloat res" where
  "square x = (let y = fmul x x in if is_finite x \<and> \<not> is_finite y then Inl (OverflowError ''Numerical result out of range'') else Inr y)"

definition std_norm_pdf :: "'m surrogate_math_scheme \<Rightarrow> pyfloat \<Rightarrow> pyfloat res" where
  "std_norm_pdf m z =
     bindE (py_exp (math_ops.truncate m) (fmul (fmul (Fin (- 1 / 2)) z) z)) (\<lambda>e.
     bindE (py_sqrt (math_ops.truncate m) (fmul (Fin 2) py_pi)) (\<lambda>s. fdiv e s))"

definition std_norm_cdf :: "'m surrogate_math_scheme \<Rightarrow> pyfloat \<Rightarrow> pyfloat res" where
  "std_norm_cdf m z =
     bindE (py_sqrt (math_ops.truncate m) (Fin 2)) (\<lambda>s. bindE (fdiv z s) (\<lambda>q.
     Inr (fmul (Fin (1 / 2)) (fadd (Fin 1) (m_erf m q)))))"

definition expected_improvement ::
  "'m surrogate_math_scheme \<Rightarrow> pyfloat \<Rightarrow> pyfloat \<Rightarrow> pyfloat option \<Rightarrow> direction \<Rightarrow> pyfloat \<Rightarrow> pyfloat res" where
  "expected_improvement m mean std best dir xi = (case best of
     None \<Rightarrow> Inr (py_max (Fin 0) std)
   | Some b \<Rightarrow>
       if fle std eps12 then Inr (Fin 0)
       else (let imp = (if dir = Minimize then fsub (fsub b mean) xi else fsub (fsub mean b) xi) in
         bindE (fdiv imp std) (\<lambda>z.
         bindE (std_norm_cdf m z) (\<lambda>c.
         bindE (std_norm_pdf m z) (\<lambda>d.
         Inr (py_max (Fin 0) (fadd (fmul imp c) (fmul std d))))))))"

definition acquisition_score ::
  "'m surrogate_math_scheme \<Rightarrow> pyfloat \<Rightarrow> pyfloat \<Rightarrow> pyfloat option \<Rightarrow> direction \<Rightarrow> jdict \<Rightarrow> pyfloat res" where
  "acquisition_score m mean std best dir acq =
     (let t = py_lower (py_str (dict_get acq ''type'' (JStr ''ei''))) in
      if t = ''ucb'' then
        bindE (py_float (dict_get acq ''kappa'' (JFloat (Fin (3 / 2))))) (\<lambda>kappa.
        Inr (if dir = Minimize then fneg (fsub mean (fmul kappa std)) else fadd mean (fmul kappa std)))
      else if t = ''ei'' \<or> t = ''ei_proxy'' then
        bindE (py_float (dict_get acq ''xi'' (JFloat lit_001))) (\<lambda>xi. expected_improvement m mean std best dir xi)
      else Inl (ValueError ''Unsupported acquisition type''))"

subsection \<open>The RBF proxy\<close>

text \<open>\<open>params\<close> and \<open>objectives\<close> of a row are read as \<open>row["params"]\<close>.\<close>

definition dict_item :: "jdict \<Rightarrow> string \<Rightarrow> jdict res" where
  "dict_item row k = bindE (jitem row k) (\<lambda>v. case v of JObj d \<Rightarrow> Inr d | _ \<Rightarrow> Inl (TypeError k))"

definition rbf_weight :: "'m surrogate_math_scheme \<Rightarrow> param list \<Rightarrow> pyfloat \<Rightarrow> jdict \<Rightarrow> jdict \<Rightarrow> pyfloat res" where
  "rbf_weight m params length_scale x row =
     bindE (dict_item row ''params'') (\<lambda>p.
     bindE (normalized_numeric_distance (math_ops.truncate m) x p params) (\<lambda>d.
     bindE (square (py_max length_scale lit_1em6)) (\<lambda>l.
     bindE (fdiv (fneg (fmul d d)) (fmul (Fin 2) l)) (\<lambda>e. py_exp (math_ops.truncate m) e))))"

definition row_scalar :: "objective_cfg \<Rightarrow> jdict \<Rightarrow> pyfloat res" where
  "row_scalar cfg row =
     bindE (jitem row ''objectives'') (\<lambda>objs.
     bindE (canonical_objective_vector objs cfg) (\<lambda>v. Inr (scalarize_objectives v cfg)))"

definition predict_rbf_proxy ::
  "'m surrogate_math_scheme \<Rightarrow> param list \<Rightarrow> objective_cfg \<Rightarrow> pyfloat \<Rightarrow> jdict list \<Rightarrow> jdict \<Rightarrow> (pyfloat \<times> pyfloat) res" where
  "predict_rbf_proxy m params cfg length_scale obs x =
     (if obs = [] then Inr (Fin 0, Fin 1)
      else
      bindE (mapE (\<lambda>row. bindE (rbf_weight m params length_scale x row) (\<lambda>w.
                         bindE (row_scalar cfg row) (\<lambda>y. Inr (w, y)))) obs) (\<lambda>wys.
      let ws = map fst wys; ys = map snd wys; wsum = fsum ws in
      bindE (float_of_int (int (length obs))) (\<lambda>n.
      if flt wsum lit_1em9 then bindE (fdiv (fsum ys) n) (\<lambda>mean. Inr (mean, Fin 1))
      else
      bindE (fdiv (fsum (map (\<lambda>(w, y). fmul w y) wys)) wsum) (\<lambda>mean.
      bindE (mapE (\<lambda>(w, y). bindE (square (fsub y mean)) (\<lambda>q. Inr (fmul w q))) wys) (\<lambda>qs.
      bindE (fdiv (fsum qs) wsum) (\<lambda>var.
      bindE (fdiv wsum n) (\<lambda>density.
      bindE (py_sqrt (math_ops.truncate m) (py_max var eps12)) (\<lambda>sd.
      Inr (mean, fadd sd (py_max (Fin 0) (fsub (Fin 1) (py_min (Fin 1) density))))))))))))"

record scored =
  sc_score :: pyfloat
  sc_candidate :: jdict
  sc_mean :: pyfloat
  sc_std :: pyfloat

definition score_candidate ::
  "'m surrogate_math_scheme \<Rightarrow> param list \<Rightarrow> objective_cfg \<Rightarrow> jdict \<Rightarrow> pyfloat \<Rightarrow> pyfloat option \<Rightarrow> jdict list \<Rightarrow> jdict \<Rightarrow> scored res" where
  "score_candidate m params cfg acq length_scale best obs x =
     bindE (predict_rbf_proxy m params cfg length_scale obs x) (\<lambda>(mean, std).
     bindE (acquisition_score m mean std best (scalarized_direction cfg) acq) (\<lambda>s.
     Inr \<lparr>sc_score = s, sc_candidate = x, sc_mean = mean, sc_std = std\<rparr>))"

text \<open>
  \<open>sort(reverse=True)\<close> is stable, so the first entry is the first of the largest scores. Scores
  that are NaN have no order; Python's result then depends on its sorting algorithm.
\<close>

definition best_scored :: "scored list \<Rightarrow> scored res" where
  "best_scored xs = (case xs of [] \<Rightarrow> Inl (IndexError ''list index out of range'')
     | x # ys \<Rightarrow> Inr (min_by (\<lambda>a b. flt (sc_score b) (sc_score a)) x ys))"

definition propose_with_proxy ::
  "'m surrogate_math_scheme \<Rightarrow> jdict list \<Rightarrow> jdict list \<Rightarrow> param list \<Rightarrow> objective_cfg \<Rightarrow> jdict \<Rightarrow> jdict \<Rightarrow> pyfloat option \<Rightarrow> (jdict \<times> jdict) res" where
  "propose_with_proxy m candidates obs params cfg surrogate acq best =
     bindE (py_float (dict_get surrogate ''length_scale'' (JFloat lit_02))) (\<lambda>length_scale.
     bindE (mapE (score_candidate m params cfg acq length_scale best obs) candidates) (\<lambda>xs.
     bindE (best_scored xs) (\<lambda>b.
     Inr (sc_candidate b,
       [(''strategy'', JStr ''surrogate_acquisition''), (''surrogate_backend'', JStr ''rbf_proxy''),
        (''acquisition_type'', dict_get acq ''type'' (JStr ''ei'')),
        (''predicted_mean'', JFloat (sc_mean b)), (''predicted_std'', JFloat (sc_std b)),
        (''acquisition_score'', JFloat (sc_score b))]))))"

subsection \<open>The proxy picks a best candidate\<close>

interpretation score_order: key_order "\<lambda>a b. flt (sc_score b) (sc_score a)" "\<lambda>a. sc_score a \<noteq> NaN"
  by unfold_locales (auto intro: flt_trans simp: not_flt dest: fle_trans)

lemma expected_improvement_nonneg:
  "expected_improvement m mean std best dir xi = Inr s \<Longrightarrow> fle (Fin 0) s"
  by (auto simp: expected_improvement_def return_iff Let_def py_max_def fle_refl flt_imp_fle
      split: option.splits if_splits)

lemma score_candidate_Inr:
  "score_candidate m params cfg acq l best obs x = Inr sc \<Longrightarrow> sc_candidate sc = x"
  by (auto simp: score_candidate_def return_iff)

text \<open>C40: The RBF proxy proposes a member of the candidate pool whose recorded acquisition score
  no other candidate exceeds (scores that are numbers), and under the expected-improvement
  policy that score is never negative.\<close>

lemma proxy_picks_best:
  assumes p: "propose_with_proxy m candidates obs params cfg surrogate acq best = Inr (c, decision)"
    and l: "py_float (dict_get surrogate ''length_scale'' (JFloat lit_02)) = Inr l"
    and num: "\<And>x sc. x \<in> set candidates \<Longrightarrow> score_candidate m params cfg acq l best obs x = Inr sc \<Longrightarrow> sc_score sc \<noteq> NaN"
  shows "c \<in> set candidates \<and>
    (\<exists>s. jget decision ''acquisition_score'' = JFloat s
       \<and> (\<forall>x\<in>set candidates. \<exists>sc. score_candidate m params cfg acq l best obs x = Inr sc \<and> \<not> flt s (sc_score sc))
       \<and> (jget acq ''type'' = JStr ''ei'' \<longrightarrow> fle (Fin 0) s))"
proof -
  from p l obtain xs b where xs: "mapE (score_candidate m params cfg acq l best obs) candidates = Inr xs"
    and b: "best_scored xs = Inr b" and c: "c = sc_candidate b"
    and d: "jget decision ''acquisition_score'' = JFloat (sc_score b)"
    by (auto simp: propose_with_proxy_def return_iff)
  from b obtain y ys where y: "xs = y # ys" "b = min_by (\<lambda>a b. flt (sc_score b) (sc_score a)) y ys"
    by (auto simp: best_scored_def split: list.splits)
  have all2: "list_all2 (\<lambda>x sc. score_candidate m params cfg acq l best obs x = Inr sc) candidates xs"
    using xs by (simp add: mapE_Inr_iff)
  have scored: "\<exists>x\<in>set candidates. score_candidate m params cfg acq l best obs x = Inr sc" if "sc \<in> set xs" for sc
    using mapE_Inr_set[OF xs that] .
  have ok: "sc_score sc \<noteq> NaN" if "sc \<in> set xs" for sc using scored[OF that] num by blast
  have bin: "b \<in> set xs" using score_order.min_by_in[of y ys] by (auto simp: y)
  have least: "\<not> flt (sc_score b) (sc_score sc)" if "sc \<in> set xs" for sc
    unfolding y(2) by (rule score_order.min_by_least) (use ok that in \<open>auto simp: y(1)\<close>)
  from scored[OF bin] c obtain x where x: "x \<in> set candidates" "score_candidate m params cfg acq l best obs x = Inr b" by blast
  have "fle (Fin 0) (sc_score b)" if "jget acq ''type'' = JStr ''ei''"
  proof -
    have "dict_get acq ''type'' (JStr ''ei'') = JStr ''ei''" using that
      by (auto simp: jget_def dict_get_def split: option.splits)
    moreover have "py_lower ''ei'' = ''ei''" by code_simp
    ultimately show ?thesis using x(2) expected_improvement_nonneg
      by (auto simp: score_candidate_def acquisition_score_def return_iff Let_def)
  qed
  moreover have "c \<in> set candidates" using x score_candidate_Inr c by metis
  moreover have "\<exists>sc. score_candidate m params cfg acq l best obs x = Inr sc \<and> \<not> flt (sc_score b) (sc_score sc)"
    if "x \<in> set candidates" for x
  proof -
    from that obtain i where i: "i < length candidates" "x = candidates ! i" by (auto simp: in_set_conv_nth)
    with all2 have "score_candidate m params cfg acq l best obs x = Inr (xs ! i)" "xs ! i \<in> set xs"
      by (auto simp: list_all2_conv_all_nth)
    with least show ?thesis by blast
  qed
  ultimately show ?thesis using d by blast
qed

definition flat_math :: surrogate_math where
  "flat_math = \<lparr>m_log = id, m_exp = (\<lambda>_. Fin 1), m_sqrt = id, m_erf = (\<lambda>_. Fin 0)\<rparr>"

lemma proxy_picks_best_witness:
  "\<exists>c d. propose_with_proxy flat_math [[(''a'', JInt 1)], [(''a'', JInt 2)]] [] [] example_cfg [] [] None = Inr (c, d)
     \<and> c \<in> set [[(''a'', JInt 1)], [(''a'', JInt 2)]]"
proof -
  let ?cs = "[[(''a'', JInt 1)], [(''a'', JInt 2)]]"
  have sc: "score_candidate flat_math [] example_cfg [] lit_02 None [] x
      = Inr \<lparr>sc_score = Fin 1, sc_candidate = x, sc_mean = Fin 0, sc_std = Fin 1\<rparr>" for x
  proof -
    have "acquisition_score flat_math (Fin 0) (Fin 1) None (scalarized_direction example_cfg) [] = Inr (Fin 1)" by code_simp
    then show ?thesis by (simp add: score_candidate_def predict_rbf_proxy_def)
  qed
  have l: "py_float (dict_get [] ''length_scale'' (JFloat lit_02)) = Inr lit_02" by (simp add: dict_get_def)
  obtain c d where p: "propose_with_proxy flat_math ?cs [] [] example_cfg [] [] None = Inr (c, d)"
    using l by (auto simp: propose_with_proxy_def sc best_scored_def)
  have "sc_score s \<noteq> NaN" if "score_candidate flat_math [] example_cfg [] lit_02 None [] x = Inr s" for x s
    using that by (auto simp: sc)
  from conjunct1[OF proxy_picks_best[OF p l this]] have "c \<in> set ?cs" .
  with p show ?thesis by blast
qed

end
