(* ===== verification/Campaign.thy ===== *)
theory Campaign
  imports Governance Surrogate
begin

text \<open>
  The state of a campaign and the operations of \<open>bo_client/run_bo.py\<close> on it: the proposal
  of a candidate, pending trials and leases, terminal observations, the best record, trial
  manifests and the rows of the observation table. Campaigns of the built-in backend.
\<close>

subsection \<open>State\<close>

text \<open>
  The state file, field by field; pending entries and observations are the JSON objects
  the code appends. \<open>cp_version\<close> is null in a file without a version.
\<close>

record campaign =
  cp_version :: json
  cp_upgrade :: bool
  cp_created_at :: pyfloat
  cp_seed :: "int option"
  cp_observations :: "jdict list"
  cp_pending :: "jdict list"
  cp_next :: int
  cp_best :: "best_record option"

definition fresh_state :: "pyfloat \<Rightarrow> campaign" where
  "fresh_state now = \<lparr>cp_version = JStr state_version, cp_upgrade = False, cp_created_at = now, cp_seed = None,
     cp_observations = [], cp_pending = [], cp_next = 1, cp_best = None\<rparr>"

definition load_state :: "campaign option \<Rightarrow> pyfloat \<Rightarrow> campaign res" where
  "load_state stored now = (let state = (case stored of None \<Rightarrow> fresh_state now | Some s \<Rightarrow> s) in
     bindE (normalize_state_schema_version (when_some (cp_version state) ''schema_version'')) (\<lambda>d.
     Inr (state\<lparr>cp_version := jget d ''schema_version'', cp_upgrade := state_schema_upgrade_pending d\<rparr>)))"

text \<open>\<open>state_for_persist\<close> drops the upgrade marker.\<close>

definition persisted :: "campaign \<Rightarrow> campaign" where
  "persisted c = c\<lparr>cp_upgrade := False\<rparr>"

definition campaign_version :: "campaign \<Rightarrow> string res" where
  "campaign_version c = payload_schema_version (when_some (cp_version c) ''schema_version'')"

text \<open>The JSON document of a state.\<close>

definition state_json :: "campaign \<Rightarrow> jdict" where
  "state_json c =
     [(''schema_version'', cp_version c),
      (''meta'', JObj [(''created_at'', JFloat (cp_created_at c)), (''seed'', jopt (map_option JInt (cp_seed c)))]),
      (''observations'', JArr (map JObj (cp_observations c))),
      (''pending'', JArr (map JObj (cp_pending c))),
      (''next_trial_id'', JInt (cp_next c)),
      (''best'', jopt (map_option best_json (cp_best c)))]"

subsection \<open>Entries\<close>

text \<open>\<open>int(entry["trial_id"])\<close>\<close>

definition entry_id :: "jdict \<Rightarrow> int res" where
  "entry_id e = bindE (jitem e ''trial_id'') py_int"

fun pending_index :: "jdict list \<Rightarrow> int \<Rightarrow> nat option res" where
  "pending_index [] tid = Inr None"
| "pending_index (p # ps) tid =
     bindE (entry_id p) (\<lambda>i. if i = tid then Inr (Some 0)
       else bindE (pending_index ps tid) (\<lambda>r. Inr (map_option Suc r)))"

definition pop_pending :: "campaign \<Rightarrow> int \<Rightarrow> (jdict option \<times> campaign) res" where
  "pop_pending c tid =
     bindE (pending_index (cp_pending c) tid) (\<lambda>idx. Inr (case idx of
       None \<Rightarrow> (None, c)
     | Some i \<Rightarrow> (Some (cp_pending c ! i), c\<lparr>cp_pending := take i (cp_pending c) @ drop (Suc i) (cp_pending c)\<rparr>)))"

text \<open>The fields of \<open>d\<close> among \<open>ks\<close>, in the order of \<open>ks\<close>.\<close>

definition copy_keys :: "string list \<Rightarrow> jdict \<Rightarrow> jdict" where
  "copy_keys ks d = concat (map (\<lambda>k. case map_of d k of None \<Rightarrow> [] | Some v \<Rightarrow> [(k, v)]) ks)"

definition null_vector :: "objective_cfg \<Rightarrow> json" where
  "null_vector cfg = JObj (map (\<lambda>n. (n, JNull)) (objective_names cfg))"

definition new_terminal_observation :: "jdict \<Rightarrow> objective_cfg \<Rightarrow> string \<Rightarrow> pyfloat \<Rightarrow> jdict res" where
  "new_terminal_observation pending cfg reason now =
     bindE (entry_id pending) (\<lambda>tid.
     bindE (jitem pending ''params'') (\<lambda>params.
     Inr ([(''trial_id'', JInt tid), (''params'', params), (''objectives'', null_vector cfg),
           (''status'', JStr ''killed''), (''terminal_reason'', JStr reason), (''penalty_objective'', JNull),
           (''artifact_path'', JNull), (''suggested_at'', jget pending ''suggested_at''), (''completed_at'', JFloat now)] @
          copy_keys [''last_heartbeat_at'', ''heartbeat_count'', ''heartbeat_note'', ''heartbeat_meta'', ''lease_token''] pending)))"

text \<open>The trial ids of the pending entries older than the limit.\<close>

definition stale_ids :: "jdict list \<Rightarrow> pyfloat \<Rightarrow> pyfloat \<Rightarrow> int list res" where
  "stale_ids pending limit now =
     bindE (filterE (\<lambda>p. bindE (pending_age_seconds p now) (\<lambda>age. Inr (flt limit age))) pending) (mapE entry_id)"

definition retire_one :: "objective_cfg \<Rightarrow> pyfloat \<Rightarrow> (int \<Rightarrow> string) \<Rightarrow> int \<Rightarrow> campaign \<times> jdict list \<Rightarrow> (campaign \<times> jdict list) res" where
  "retire_one cfg now reason tid acc =
     bindE (pop_pending (fst acc) tid) (\<lambda>(popped, c). case popped of
       None \<Rightarrow> Inr (c, snd acc)
     | Some p \<Rightarrow> bindE (new_terminal_observation p cfg (reason tid) now) (\<lambda>row.
         Inr (c\<lparr>cp_observations := cp_observations c @ [row]\<rparr>, snd acc @ [row])))"

definition retire_stale_pending :: "campaign \<Rightarrow> objective_cfg \<Rightarrow> pyfloat \<Rightarrow> pyfloat \<Rightarrow> string \<Rightarrow> (campaign \<times> jdict list) res" where
  "retire_stale_pending c cfg max_age now reason =
     bindE (stale_ids (cp_pending c) max_age now) (\<lambda>ids.
     foldE (retire_one cfg now (\<lambda>_. reason)) ids (c, []))"

subsection \<open>Best record\<close>

text \<open>\<open>str(row.get("status", "ok")) == "ok"\<close>\<close>

definition row_ok :: "jdict \<Rightarrow> bool" where
  "row_ok row = (py_str (dict_get row ''status'' (JStr ''ok'')) = ''ok'')"

definition ranked_row :: "objective_cfg \<Rightarrow> jdict \<Rightarrow> prepared res" where
  "ranked_row cfg row =
     bindE (entry_id row) (\<lambda>tid.
     bindE (canonical_objective_vector (dict_get row ''objectives'' (JObj [])) cfg) (\<lambda>v. Inr (row, tid, v)))"

definition best_ranked :: "objective_cfg \<Rightarrow> prepared list \<Rightarrow> prepared option" where
  "best_ranked cfg ps = (case ps of [] \<Rightarrow> None
     | p # qs \<Rightarrow> Some (min_by (\<lambda>a b. rank_lt (prepared_key cfg a) (prepared_key cfg b)) p qs))"

definition update_best :: "campaign \<Rightarrow> objective_cfg \<Rightarrow> pyfloat \<Rightarrow> campaign res" where
  "update_best c cfg now =
     bindE (mapE (ranked_row cfg) (filter row_ok (cp_observations c))) (\<lambda>ps.
     case best_ranked cfg ps of
       None \<Rightarrow> Inr (c\<lparr>cp_best := None\<rparr>)
     | Some p \<Rightarrow> bindE (build_best_record (fst p) cfg now) (\<lambda>b. Inr (c\<lparr>cp_best := Some b\<rparr>)))"

subsection \<open>Leases and heartbeats\<close>

definition normalize_lease_token :: "json \<Rightarrow> string \<Rightarrow> string option res" where
  "normalize_lease_token v field = (case v of
     JNull \<Rightarrow> Inr None
   | JStr s \<Rightarrow> if py_strip s = [] then Inl (ValueError field) else Inr (Some (py_strip s))
   | _ \<Rightarrow> Inl (ValueError field))"

definition parse_cli_lease_token :: "string option \<Rightarrow> string option res" where
  "parse_cli_lease_token raw = normalize_lease_token (jopt (map_option JStr raw)) ''--lease-token''"

definition require_matching_lease_token :: "jdict \<Rightarrow> string option \<Rightarrow> unit res" where
  "require_matching_lease_token pending provided =
     bindE (normalize_lease_token (jget pending ''lease_token'') ''lease_token'') (\<lambda>expected. case expected of
       None \<Rightarrow> Inr ()
     | Some t \<Rightarrow> (case provided of
         None \<Rightarrow> Inl (ValueError ''requires --lease-token'')
       | Some p \<Rightarrow> if p \<noteq> t then Inl (ValueError ''lease token mismatch'') else Inr ()))"

definition require_heartbeat_number :: "json \<Rightarrow> pyfloat res" where
  "require_heartbeat_number v =
     (if \<not> strict_num v then Inl (ValueError ''heartbeat_at'')
      else case py_float v of
        Inl _ \<Rightarrow> Inl (ValueError ''heartbeat_at'')
      | Inr x \<Rightarrow> if is_finite x then Inr x else Inl (ValueError ''heartbeat_at''))"

definition load_heartbeat_fields :: "jdict \<Rightarrow> jdict res" where
  "load_heartbeat_fields payload =
     bindE (case map_of payload ''heartbeat_at'' of None \<Rightarrow> Inr []
            | Some v \<Rightarrow> bindE (require_heartbeat_number v) (\<lambda>x. Inr [(''last_heartbeat_at'', JFloat x)])) (\<lambda>beat.
     bindE (case map_of payload ''heartbeat_note'' of None \<Rightarrow> Inr []
            | Some v \<Rightarrow> if is_str v then Inr [(''heartbeat_note'', v)] else Inl (ValueError ''heartbeat_note'')) (\<lambda>note.
     bindE (case map_of payload ''heartbeat_meta'' of None \<Rightarrow> Inr []
            | Some v \<Rightarrow> if is_dict v then Inr [(''heartbeat_meta'', v)] else Inl (ValueError ''heartbeat_meta'')) (\<lambda>meta.
     Inr (beat @ note @ meta))))"

text \<open>\<open>int(entry.get("heartbeat_count", 0) or 0)\<close>\<close>

definition heartbeat_count :: "jdict \<Rightarrow> int res" where
  "heartbeat_count e = (let v = jget e ''heartbeat_count'' in if truthy v then py_int v else Inr 0)"

subsection \<open>Trial manifests\<close>

text \<open>\<open>manifest.setdefault(k, v)\<close> and the fields both manifests share.\<close>

definition setdefault :: "string \<Rightarrow> json \<Rightarrow> jdict \<Rightarrow> jdict" where
  "setdefault k v d = (if has_key d k then d else dset k v d)"

definition set_all :: "jdict \<Rightarrow> jdict \<Rightarrow> jdict" where
  "set_all new d = fold (\<lambda>(k, v). dset k v) new d"

definition objective_fields :: "objective_metadata \<Rightarrow> jdict \<Rightarrow> jdict" where
  "objective_fields om d =
     (let d' = set_all [(''objective_name'', JStr (om_name om)), (''objective_value'', jfloat_opt (om_value om)),
                        (''objective_vector'', nullable_json (om_vector om)),
                        (''scalarized_objective'', jfloat_opt (om_scalarized om))] d
      in set_opt ''scalarization_policy'' (map_option JStr (om_policy om)) d')"

definition artifacts_of :: "jdict \<Rightarrow> jdict" where
  "artifacts_of manifest = (case jget manifest ''artifacts'' of JObj a \<Rightarrow> a | _ \<Rightarrow> [])"

definition pending_manifest :: "jdict \<Rightarrow> jdict \<Rightarrow> objective_cfg \<Rightarrow> pyfloat \<Rightarrow> jdict res" where
  "pending_manifest old entry cfg now =
     bindE (entry_id entry) (\<lambda>tid.
     bindE (build_objective_metadata JNull cfg) (\<lambda>om.
     bindE (jitem entry ''params'') (\<lambda>params.
     bindE (py_float (dict_get entry ''suggested_at'' (JFloat now))) (\<lambda>suggested.
     bindE (heartbeat_count entry) (\<lambda>beats.
     let m1 = set_all [(''trial_id'', JInt tid), (''status'', JStr ''pending''), (''terminal_reason'', JNull), (''params'', params)]
                (setdefault ''created_at'' (JFloat now) old);
         m2 = set_all ([(''penalty_objective'', JNull), (''suggested_at'', JFloat suggested), (''completed_at'', JNull),
                (''last_heartbeat_at'', jget entry ''last_heartbeat_at''), (''heartbeat_count'', JInt beats)] @
                copy_keys [''heartbeat_note'', ''heartbeat_meta''] entry) (objective_fields om m1)
     in Inr (set_all [(''lease_token'', jget entry ''lease_token''), (''artifact_path'', JNull),
                      (''artifacts'', JObj (artifacts_of m2)), (''updated_at'', JFloat now)] m2))))))"

text \<open>\<open>payload_copy\<close> is the relative path of the copied payload, when there is one.\<close>

definition terminal_manifest :: "jdict \<Rightarrow> jdict \<Rightarrow> objective_cfg \<Rightarrow> string option \<Rightarrow> pyfloat \<Rightarrow> jdict res" where
  "terminal_manifest old row cfg payload_copy now =
     bindE (entry_id row) (\<lambda>tid.
     bindE (build_objective_metadata (jget row ''objectives'') cfg) (\<lambda>om.
     bindE (jitem row ''status'') (\<lambda>status.
     bindE (jitem row ''params'') (\<lambda>params.
     bindE (heartbeat_count row) (\<lambda>beats.
     bindE (normalize_measurements row cfg) (\<lambda>measured.
     let m0 = setdefault ''created_at'' (JFloat now) old;
         m1 = objective_fields om (set_all [(''trial_id'', JInt tid), (''status'', status),
                (''terminal_reason'', jget row ''terminal_reason''), (''params'', params)] m0);
         m2 = set_all ([(''penalty_objective'', jget row ''penalty_objective''),
                (''suggested_at'', dict_get row ''suggested_at'' (jget m1 ''suggested_at'')),
                (''completed_at'', jget row ''completed_at''), (''last_heartbeat_at'', jget row ''last_heartbeat_at''),
                (''heartbeat_count'', JInt beats)] @ copy_keys [''heartbeat_note'', ''heartbeat_meta''] row) m1;
         path = (case payload_copy of Some p \<Rightarrow> JStr p
                 | None \<Rightarrow> if is_str (jget row ''artifact_path'') then jget row ''artifact_path'' else JNull);
         artifacts = (case payload_copy of Some p \<Rightarrow> dset ''ingest_payload'' (JStr p) (artifacts_of m2) | None \<Rightarrow> artifacts_of m2)
     in Inr (dict_update (set_all [(''lease_token'', jget row ''lease_token''), (''artifact_path'', path),
              (''artifacts'', JObj artifacts), (''updated_at'', JFloat now)] m2) (measured_json measured))))))))"

subsection \<open>Rows of the observation table\<close>

text \<open>
  \<open>measurement_csv_fields\<close> of observations_io.py. A metric map is written as the compact
  JSON text with sorted keys; the cell stands for that text as the sorted value.
\<close>

definition measurement_columns :: "(string \<times> string) list" where
  "measurement_columns = [(''objective_sems'', ''ax_objective_sems_json''), (''measurements'', ''ax_measurements_json''),
     (''measurement_sems'', ''ax_measurement_sems_json''), (''scalarized_sem'', ''ax_scalarized_sem'')]"

definition measurement_csv_fields :: "jdict \<Rightarrow> jdict" where
  "measurement_csv_fields row =
     concat (map (\<lambda>(field, column). case map_of row field of None \<Rightarrow> []
       | Some v \<Rightarrow> [(column, if field = ''scalarized_sem'' then v else sort_keys v)]) measurement_columns)"

definition prefixed :: "string \<Rightarrow> jdict \<Rightarrow> jdict" where
  "prefixed prefix d = map (\<lambda>(k, v). (prefix @ k, v)) d"

definition observation_row :: "jdict \<Rightarrow> jdict res" where
  "observation_row row =
     bindE (jitem row ''trial_id'') (\<lambda>tid.
     bindE (jitem row ''status'') (\<lambda>status.
     bindE (jitem row ''completed_at'') (\<lambda>completed.
     bindE (dict_item row ''params'') (\<lambda>params.
     bindE (dict_item row ''objectives'') (\<lambda>objectives.
     let r1 = [(''trial_id'', tid), (''status'', status), (''completed_at'', completed)] @ copy_keys [''source_trial_id''] row;
         r2 = dict_update (dict_update r1 (prefixed ''param_'' params)) (prefixed ''objective_'' objectives);
         r3 = set_all (copy_keys [''penalty_objective'', ''terminal_reason'', ''last_heartbeat_at'', ''artifact_path'', ''lease_token''] row) r2
     in Inr (dict_update r3 (measurement_csv_fields row)))))))"

definition observation_rows :: "campaign \<Rightarrow> jdict list res" where
  "observation_rows c = mapE observation_row (cp_observations c)"

text \<open>\<open>write_obs_csv\<close>: the header is the sorted union of the columns; a missing cell is empty.\<close>

definition csv_header :: "jdict list \<Rightarrow> string list" where
  "csv_header rows = sort_by str_less (remdups (concat (map (map fst) rows)))"

definition csv_table :: "jdict list \<Rightarrow> (string list \<times> json option list list) option" where
  "csv_table rows = (if rows = [] then None
     else Some (csv_header rows, map (\<lambda>r. map (map_of r) (csv_header rows)) rows))"

subsection \<open>Proposals\<close>

definition sampling_attempt_budget :: "jdict \<Rightarrow> constraint_cfg option \<Rightarrow> int \<Rightarrow> int res" where
  "sampling_attempt_budget cfg constraints target = (case constraints of
     None \<Rightarrow> Inr target
   | Some _ \<Rightarrow> bindE (jitem cfg ''candidate_pool_size'') (\<lambda>v. bindE (py_int v) (\<lambda>n.
       Inr (max target (max (max 1 n) (target * 8))))))"

definition sample_random_candidates ::
  "'r rng_ops \<Rightarrow> math_ops \<Rightarrow> jdict \<Rightarrow> param list \<Rightarrow> constraint_cfg option \<Rightarrow> int \<Rightarrow> 'r \<Rightarrow> (sampled \<times> 'r) res" where
  "sample_random_candidates g m cfg params constraints target r =
     bindE (apply_bound_tightening params constraints) (\<lambda>ps.
     bindE (sampling_attempt_budget cfg constraints target) (\<lambda>budget.
     sample_feasible_candidates (sample_random_point g m ps) constraints target budget r))"

text \<open>A proposal is a candidate with its decision, or the decision of a sampling failure.\<close>

datatype proposal = Proposed jdict jdict | Infeasible jdict

definition status_json :: "constraint_status \<Rightarrow> json" where
  "status_json st = JObj [(''enabled'', JBool (cs_enabled st)), (''phase'', JStr (cs_phase st)),
     (''requested'', JInt (cs_requested st)), (''accepted'', JInt (int (cs_accepted st))),
     (''attempted'', JInt (int (cs_attempted st))), (''rejected'', JInt (int (cs_rejected st))),
     (''feasible_ratio'', JFloat (cs_ratio st)),
     (''reject_counts'', JObj (map (\<lambda>(k, n). (k, JInt (int n))) (cs_reject_counts st))),
     (''warning'', jopt (map_option JStr (cs_warning st)))]"

definition strategy_of :: "string \<Rightarrow> string option \<Rightarrow> jdict" where
  "strategy_of strategy backend = [(''strategy'', JStr strategy), (''surrogate_backend'', jopt (map_option JStr backend))]"

definition fallback_of :: "string option \<Rightarrow> jdict" where
  "fallback_of reason = (case reason of None \<Rightarrow> [] | Some r \<Rightarrow> [(''fallback_reason'', JStr r)])"

definition infeasible_decision :: "string \<Rightarrow> string option \<Rightarrow> constraint_status \<Rightarrow> string option \<Rightarrow> jdict" where
  "infeasible_decision strategy backend st fallback =
     strategy_of strategy backend @ [(''constraint_status'', status_json st)] @ fallback_of fallback @
     [(''constraint_error_reason'', JStr (build_constraint_error_reason st))]"

text \<open>One random draw: \<open>_sample_random_candidates\<close> with a target of 1 and \<open>_require_feasible_candidates\<close>.\<close>

definition propose_random ::
  "'r rng_ops \<Rightarrow> math_ops \<Rightarrow> jdict \<Rightarrow> param list \<Rightarrow> constraint_cfg option \<Rightarrow> string \<Rightarrow> string option \<Rightarrow> 'r \<Rightarrow> proposal res" where
  "propose_random g m cfg params constraints phase fallback r =
     bindE (sample_random_candidates g m cfg params constraints 1 r) (\<lambda>(sm, _).
     bindE (build_constraint_status constraints sm phase 1) (\<lambda>st.
     Inr (case sm_candidates sm of
       [] \<Rightarrow> Infeasible (infeasible_decision ''initial_random'' None st fallback)
     | c # _ \<Rightarrow> Proposed c (strategy_of ''initial_random'' None @ fallback_of fallback @ [(''constraint_status'', status_json st)]))))"

definition usable_observation :: "objective_cfg \<Rightarrow> jdict \<Rightarrow> bool res" where
  "usable_observation cfg row =
     (if \<not> row_ok row then Inr False
      else case canonical_objective_vector (jget row ''objectives'') cfg of
        Inr _ \<Rightarrow> Inr True
      | Inl e \<Rightarrow> if is_value_error e then Inr False else Inl e)"

text \<open>
  The Gaussian-process backend needs BoTorch; its choice is the parameter \<open>gp\<close>, from the
  pool, the usable observations, the best value and the seed.
\<close>

type_synonym gp_backend = "jdict list \<Rightarrow> jdict list \<Rightarrow> pyfloat option \<Rightarrow> int \<Rightarrow> (jdict \<times> jdict) res"

definition cfg_int :: "jdict \<Rightarrow> string \<Rightarrow> int res" where
  "cfg_int cfg k = bindE (jitem cfg k) py_int"

definition with_status :: "constraint_status \<Rightarrow> jdict \<times> jdict \<Rightarrow> proposal" where
  "with_status st cd = Proposed (fst cd) (dset ''constraint_status'' (status_json st) (snd cd))"

definition gp_fallback_reason :: "nat \<Rightarrow> int \<Rightarrow> string" where
  "gp_fallback_reason usable needed =
     ''insufficient_usable_observations_for_gp('' @ int_str (int usable) @ ''/'' @ int_str needed @ '')''"

definition propose_surrogate ::
  "'r rng_ops \<Rightarrow> 'm surrogate_math_scheme \<Rightarrow> gp_backend \<Rightarrow> jdict \<Rightarrow> param list \<Rightarrow> objective_cfg \<Rightarrow> constraint_cfg option \<Rightarrow>
   best_record option \<Rightarrow> int \<Rightarrow> jdict list \<Rightarrow> 'r \<Rightarrow> proposal res" where
  "propose_surrogate g m gp cfg params ocfg constraints best_rec seed usable r =
     bindE (dict_item cfg ''surrogate'') (\<lambda>surrogate.
     bindE (dict_item cfg ''acquisition'') (\<lambda>acq.
     let backend = py_lower (py_str (dict_get surrogate ''type'' (JStr ''rbf_proxy'')));
         best = map_option br_objective_value best_rec in
     bindE (cfg_int cfg ''candidate_pool_size'') (\<lambda>pool.
     bindE (sample_random_candidates g (math_ops.truncate m) cfg params constraints pool r) (\<lambda>(sm, r').
     bindE (build_constraint_status constraints sm ''candidate-pool'' pool) (\<lambda>st.
     if sm_candidates sm = [] then Inr (Infeasible (infeasible_decision ''surrogate_acquisition'' (Some backend) st None))
     else if backend = ''rbf_proxy'' then
       bindE (propose_with_proxy m (sm_candidates sm) usable params ocfg surrogate acq best) (\<lambda>cd. Inr (with_status st cd))
     else if backend = ''gp'' then
       bindE (py_int (dict_get surrogate ''gp_min_fit_observations'' (JInt 2))) (\<lambda>n.
       if int (length usable) < max 2 n
       then propose_random g (math_ops.truncate m) cfg params constraints ''fallback-random''
              (Some (gp_fallback_reason (length usable) (max 2 n))) r'
       else bindE (gp (sm_candidates sm) usable best seed) (\<lambda>cd. Inr (with_status st cd)))
     else Inl (ValueError ''Unsupported surrogate.type''))))))"

definition propose ::
  "'r rng_ops \<Rightarrow> 'm surrogate_math_scheme \<Rightarrow> gp_backend \<Rightarrow> campaign \<Rightarrow> jdict \<Rightarrow> param list \<Rightarrow> objective_cfg \<Rightarrow> constraint_cfg option \<Rightarrow>
   int \<Rightarrow> 'r \<Rightarrow> proposal res" where
  "propose g m gp c cfg params ocfg constraints seed r =
     bindE (cfg_int cfg ''initial_random_trials'') (\<lambda>initial.
     if int (length (cp_observations c)) < initial
     then propose_random g (math_ops.truncate m) cfg params constraints ''initial-random'' None r
     else
     bindE (filterE (usable_observation ocfg) (cp_observations c)) (\<lambda>usable.
     if usable = []
     then propose_random g (math_ops.truncate m) cfg params constraints ''fallback-random'' (Some ''no_usable_observations'') r
     else propose_surrogate g m gp cfg params ocfg constraints (cp_best c) seed usable r))"

end
