(* ===== verification/Commands.thy ===== *)
theory Commands
  imports Campaign
begin

text \<open>
  The commands of \<open>bo_client/run_bo.py\<close> that change a campaign, with every file they write:
  the state file, the observation table, the trial manifests, the copied payloads, the
  import reports and exported files, and the two append-only logs. A command runs under the exclusive lock of the campaign, so the
  commands of several processes are a sequence; what a failing command wrote before it
  raised stays written.
\<close>

subsection \<open>Files and effects\<close>

text \<open>
  Every reading of the outside world (clock, performance counter, lease token, directory
  sizes) is numbered by \<open>w_tick\<close>; its result is a function of that number.
\<close>

datatype export_file = JsonLines string | CsvTable "(string list \<times> json option list list) option"

record world =
  w_tick :: nat
  w_state :: "campaign option"
  w_manifests :: "(int, jdict) dict"
  w_rows :: "jdict list"
  w_payloads :: "(int, jdict) dict"
  w_acquisition :: "jdict list"
  w_events :: "jdict list"
  w_reports :: "(string, jdict) dict"
  w_exports :: "(string, export_file) dict"

record 'r settings =
  s_cfg :: jdict
  s_params :: "param list"
  s_objective :: objective_cfg
  s_constraints :: "constraint_cfg option"
  s_rng :: "'r rng_ops"
  s_seeded :: "int \<Rightarrow> 'r"
  s_math :: surrogate_math
  s_gp :: gp_backend
  s_fullmatch :: "string \<Rightarrow> string \<Rightarrow> bool"
  s_suggestion_schema :: json
  s_ingest_schema :: json
  s_trials_dir :: string
  s_pid :: int
  s_wait :: "nat \<Rightarrow> pyfloat"
  s_clock :: "nat \<Rightarrow> pyfloat"
  s_perf :: "nat \<Rightarrow> pyfloat"
  s_token :: "nat \<Rightarrow> nat"
  s_files :: "nat \<Rightarrow> footprint_files"

type_synonym 'a cmd = "world \<Rightarrow> 'a res \<times> world"

definition retC :: "'a \<Rightarrow> 'a cmd" where
  "retC x w = (Inr x, w)"

definition liftC :: "'a res \<Rightarrow> 'a cmd" where
  "liftC r w = (r, w)"

definition bindC :: "'a cmd \<Rightarrow> ('a \<Rightarrow> 'b cmd) \<Rightarrow> 'b cmd" where
  "bindC m k w = (case m w of (Inl e, w') \<Rightarrow> (Inl e, w') | (Inr x, w') \<Rightarrow> k x w')"

definition thenC :: "'a cmd \<Rightarrow> 'b cmd \<Rightarrow> 'b cmd" where
  "thenC m k = bindC m (\<lambda>_. k)"

definition getC :: "(world \<Rightarrow> 'a) \<Rightarrow> 'a cmd" where
  "getC f w = (Inr (f w), w)"

definition updC :: "(world \<Rightarrow> world) \<Rightarrow> unit cmd" where
  "updC f w = (Inr (), f w)"

text \<open>\<open>try: m finally: c\<close>; an exception of \<open>c\<close> replaces the outcome of \<open>m\<close>.\<close>

definition finallyC :: "'a cmd \<Rightarrow> unit cmd \<Rightarrow> 'a cmd" where
  "finallyC m c w = (case m w of (r, w') \<Rightarrow> (case c w' of (Inl e, w'') \<Rightarrow> (Inl e, w'') | (Inr _, w'') \<Rightarrow> (r, w'')))"

fun forC :: "('a \<Rightarrow> unit cmd) \<Rightarrow> 'a list \<Rightarrow> unit cmd" where
  "forC f [] = retC ()"
| "forC f (x # xs) = thenC (f x) (forC f xs)"

definition whenC :: "bool \<Rightarrow> unit cmd \<Rightarrow> unit cmd" where
  "whenC b m = (if b then m else retC ())"

definition observeC :: "(nat \<Rightarrow> 'a) \<Rightarrow> 'a cmd" where
  "observeC f w = (Inr (f (w_tick w)), w\<lparr>w_tick := Suc (w_tick w)\<rparr>)"

abbreviation nowC :: "'r settings \<Rightarrow> pyfloat cmd" where
  "nowC s \<equiv> observeC (s_clock s)"

subsection \<open>Logs\<close>

definition append_event :: "'r settings \<Rightarrow> string \<Rightarrow> jdict \<Rightarrow> unit cmd" where
  "append_event s event extra =
     bindC (nowC s) (\<lambda>t. updC (\<lambda>w. w\<lparr>w_events := w_events w @
       [dict_update [(''event'', JStr event), (''timestamp'', JFloat t)] extra]\<rparr>))"

definition append_acquisition :: "'r settings \<Rightarrow> int \<Rightarrow> jdict \<Rightarrow> pyfloat \<Rightarrow> unit cmd" where
  "append_acquisition s tid decision latency =
     bindC (nowC s) (\<lambda>t. updC (\<lambda>w. w\<lparr>w_acquisition := w_acquisition w @
       [[(''trial_id'', JInt tid), (''decision'', JObj decision),
         (''telemetry'', JObj [(''suggest_latency_seconds'', JFloat (py_max (Fin 0) latency))]),
         (''timestamp'', JFloat t)]]\<rparr>))"

definition append_governance_override_event :: "'r settings \<Rightarrow> string \<Rightarrow> int \<Rightarrow> string \<Rightarrow> string \<Rightarrow> string option \<Rightarrow> unit cmd" where
  "append_governance_override_event s command tid status source reason =
     bindC (liftC (normalize_governance_config (JObj (s_cfg s)))) (\<lambda>gov.
     let status' = py_lower (py_strip status) in
     if List.member (allowed_statuses gov) status' then retC ()
     else append_event s ''governance_override_used''
       ([(''command'', JStr command), (''policy_id'', JStr ''governance.allowed_statuses''), (''trial_id'', JInt tid),
         (''status'', JStr status'), (''source'', JStr source),
         (''allowed_statuses'', JArr (map JStr (sort_by str_less (remdups (allowed_statuses gov)))))] @
        (case reason of None \<Rightarrow> [] | Some r \<Rightarrow> if r = [] then [] else [(''terminal_reason'', JStr r)])))"

definition override_events_for :: "'r settings \<Rightarrow> string \<Rightarrow> string \<Rightarrow> jdict list \<Rightarrow> unit cmd" where
  "override_events_for s command source rows = forC (\<lambda>row. case (jget row ''status'', jget row ''trial_id'') of
     (JStr status, JInt tid) \<Rightarrow> append_governance_override_event s command tid status source
        (case jget row ''terminal_reason'' of JStr r \<Rightarrow> Some r | _ \<Rightarrow> None)
   | _ \<Rightarrow> retC ()) rows"

definition append_governance_violation_event :: "'r settings \<Rightarrow> campaign \<Rightarrow> string \<Rightarrow> unit cmd" where
  "append_governance_violation_event s c command =
     bindC (nowC s) (\<lambda>now. bindC (observeC (s_files s)) (\<lambda>fs.
     bindC (liftC (build_governance_snapshot fs (cp_pending c) (cp_observations c) (JObj (s_cfg s)) now)) (\<lambda>sn.
     let vs = fi_violations (sn_findings sn) in
     if vs = [] then retC ()
     else append_event s ''governance_violations_detected''
       [(''command'', JStr command), (''violation_count'', JInt (int (length vs))),
        (''policy_ids'', JArr (map (\<lambda>v. dict_get v ''policy_id'' (JStr ''unknown'')) vs)),
        (''violations'', JArr (map JObj vs))])))"

subsection \<open>State, table and manifests\<close>

definition load_stateC :: "'r settings \<Rightarrow> campaign cmd" where
  "load_stateC s = bindC (getC w_state) (\<lambda>stored. bindC (nowC s) (\<lambda>now. liftC (load_state stored now)))"

definition save_state :: "campaign \<Rightarrow> unit cmd" where
  "save_state c = updC (\<lambda>w. w\<lparr>w_state := Some (persisted c)\<rparr>)"

definition write_obs_csv :: "campaign \<Rightarrow> unit cmd" where
  "write_obs_csv c = bindC (liftC (observation_rows c)) (\<lambda>rows. updC (\<lambda>w. w\<lparr>w_rows := rows\<rparr>))"

definition save_state_and_rows :: "campaign \<Rightarrow> unit cmd" where
  "save_state_and_rows c = thenC (save_state c) (write_obs_csv c)"

definition old_manifest :: "world \<Rightarrow> int \<Rightarrow> jdict" where
  "old_manifest w tid = dict_get (w_manifests w) tid []"

definition ensure_pending_manifest :: "'r settings \<Rightarrow> jdict \<Rightarrow> pyfloat \<Rightarrow> unit cmd" where
  "ensure_pending_manifest s entry now =
     bindC (liftC (entry_id entry)) (\<lambda>tid. bindC (getC (\<lambda>w. old_manifest w tid)) (\<lambda>old.
     bindC (liftC (pending_manifest old entry (s_objective s) now)) (\<lambda>m.
     updC (\<lambda>w. w\<lparr>w_manifests := dset tid m (w_manifests w)\<rparr>))))"

definition ensure_terminal_manifest :: "'r settings \<Rightarrow> jdict \<Rightarrow> string option \<Rightarrow> pyfloat \<Rightarrow> unit cmd" where
  "ensure_terminal_manifest s row copy now =
     bindC (liftC (entry_id row)) (\<lambda>tid. bindC (getC (\<lambda>w. old_manifest w tid)) (\<lambda>old.
     bindC (liftC (terminal_manifest old row (s_objective s) copy now)) (\<lambda>m.
     updC (\<lambda>w. w\<lparr>w_manifests := dset tid m (w_manifests w)\<rparr>))))"

text \<open>\<open>update_best\<close> reads the clock for \<open>updated_at\<close>.\<close>

definition update_bestC :: "'r settings \<Rightarrow> campaign \<Rightarrow> campaign cmd" where
  "update_bestC s c = bindC (nowC s) (\<lambda>now. liftC (update_best c (s_objective s) now))"

text \<open>The lock is held and released around every command, with an event for each.\<close>

definition audit_start :: "'r settings \<Rightarrow> string \<Rightarrow> unit cmd" where
  "audit_start s command = bindC (observeC (s_wait s)) (\<lambda>wait.
     append_event s ''lock_acquired'' [(''command'', JStr command), (''pid'', JInt (s_pid s)), (''wait_seconds'', JFloat wait)])"

definition audit_end :: "'r settings \<Rightarrow> string \<Rightarrow> unit cmd" where
  "audit_end s command = append_event s ''lock_released'' [(''command'', JStr command), (''pid'', JInt (s_pid s))]"

definition locked :: "'r settings \<Rightarrow> string \<Rightarrow> 'a cmd \<Rightarrow> 'a cmd" where
  "locked s command body = thenC (audit_start s command) (finallyC body (audit_end s command))"

subsection \<open>suggest\<close>

definition effective_suggest_count :: "jdict \<Rightarrow> int option \<Rightarrow> int res" where
  "effective_suggest_count cfg n_arg = (case (case n_arg of Some n \<Rightarrow> JInt n | None \<Rightarrow> dict_get cfg ''batch_size'' (JInt 1)) of
     JInt n \<Rightarrow> if n \<le> 0 then Inl (ValueError ''suggest count must be >= 1'') else Inr n
   | _ \<Rightarrow> Inl (ValueError ''suggest count must be an integer > 0''))"

definition seeded_state :: "'r settings \<Rightarrow> campaign \<Rightarrow> campaign res" where
  "seeded_state s c = (case cp_seed c of
     Some _ \<Rightarrow> Inr c
   | None \<Rightarrow> bindE (cfg_int (s_cfg s) ''seed'') (\<lambda>n. Inr (c\<lparr>cp_seed := Some n\<rparr>)))"

definition campaign_seed :: "campaign \<Rightarrow> int res" where
  "campaign_seed c = (case cp_seed c of Some n \<Rightarrow> Inr n | None \<Rightarrow> Inl (TypeError ''int(None)''))"

text \<open>One round of the planning loop, against a copy of the state that nothing is written from before the batch is complete.\<close>

datatype plan = Planned campaign "(jdict \<times> jdict \<times> pyfloat) list" | Exhausted campaign jdict pyfloat

definition add_suggestion :: "campaign \<Rightarrow> jdict \<Rightarrow> campaign" where
  "add_suggestion c e = c\<lparr>cp_pending := cp_pending c @ [e], cp_next := cp_next c + 1\<rparr>"

text \<open>\<open>secrets.token_hex(16)\<close>: 128 random bits as 32 hexadecimal digits.\<close>

definition hex_digit :: "nat \<Rightarrow> char" where
  "hex_digit k = (if k < 10 then char_of (48 + k) else char_of (87 + k))"

definition build_lease_token :: "nat \<Rightarrow> string" where
  "build_lease_token bits = map (\<lambda>i. hex_digit (bits div 16 ^ i mod 16)) (rev [0..<32])"

definition suggestion_of :: "campaign \<Rightarrow> string \<Rightarrow> jdict \<Rightarrow> pyfloat \<Rightarrow> nat option \<Rightarrow> jdict" where
  "suggestion_of c version cand now lease =
     [(''schema_version'', JStr version), (''trial_id'', JInt (cp_next c)), (''params'', JObj cand), (''suggested_at'', JFloat now)] @
     (case lease of None \<Rightarrow> [] | Some bits \<Rightarrow> [(''lease_token'', JStr (build_lease_token bits))])"

definition propose_next :: "'r settings \<Rightarrow> campaign \<Rightarrow> proposal res" where
  "propose_next s c =
     bindE (campaign_seed c) (\<lambda>base. let seed = base + cp_next c in
     propose (s_rng s) (s_math s) (s_gp s) c (s_cfg s) (s_params s) (s_objective s) (s_constraints s) seed (s_seeded s seed))"

fun plan_batch :: "'r settings \<Rightarrow> bool \<Rightarrow> nat \<Rightarrow> campaign \<Rightarrow> (jdict \<times> jdict \<times> pyfloat) list \<Rightarrow> plan cmd" where
  "plan_batch s leases 0 c planned = retC (Planned c planned)"
| "plan_batch s leases (Suc n) c planned =
     bindC (observeC (s_perf s)) (\<lambda>started.
     bindC (liftC (propose_next s c)) (\<lambda>p. case p of
       Infeasible decision \<Rightarrow> bindC (observeC (s_perf s)) (\<lambda>stop. retC (Exhausted c decision (py_max (Fin 0) (fsub stop started))))
     | Proposed cand decision \<Rightarrow>
         bindC (liftC (campaign_version c)) (\<lambda>version.
         bindC (nowC s) (\<lambda>now.
         bindC (if leases then bindC (observeC (s_token s)) (\<lambda>t. retC (Some t)) else retC None) (\<lambda>lease.
         let e = suggestion_of c version cand now lease in
         bindC (liftC (validate_schema (s_fullmatch s) ''$'' (s_suggestion_schema s) (JObj e))) (\<lambda>_.
         bindC (observeC (s_perf s)) (\<lambda>stop.
         plan_batch s leases n (add_suggestion c e) (planned @ [(e, decision, py_max (Fin 0) (fsub stop started))]))))))))"

datatype suggest_output = NoSuggestion string | Suggested "jdict list"

definition retire_stale_now :: "'r settings \<Rightarrow> pyfloat option \<Rightarrow> campaign \<Rightarrow> (campaign \<times> jdict list) cmd" where
  "retire_stale_now s max_age c =
     bindC (nowC s) (\<lambda>now. case max_age of
       None \<Rightarrow> retC (c, [])
     | Some limit \<Rightarrow>
         bindC (liftC (retire_stale_pending c (s_objective s) limit now ''retired_stale_auto'')) (\<lambda>(c', rows).
         thenC (forC (\<lambda>row.
             thenC (ensure_terminal_manifest s row None now)
                   (append_event s ''trial_retired''
                      [(''command'', JStr ''suggest''), (''mode'', JStr ''auto_stale''), (''trial_id'', jget row ''trial_id''),
                       (''reason'', jget row ''terminal_reason'')])) rows)
         (thenC (override_events_for s ''suggest'' ''auto_stale_retire'' rows)
         (retC (c', rows)))))"

text \<open>The exit of a suggest that may not allocate: stale retirements are still committed.\<close>

definition suggest_nothing :: "'r settings \<Rightarrow> campaign \<Rightarrow> jdict list \<Rightarrow> string \<Rightarrow> suggest_output cmd" where
  "suggest_nothing s c rows why =
     thenC (if rows \<noteq> [] then
              bindC (update_bestC s c) (\<lambda>c'. thenC (save_state_and_rows c') (append_governance_violation_event s c' ''suggest''))
            else whenC (cp_upgrade c) (save_state c))
           (retC (NoSuggestion why))"

definition suggest_commit :: "'r settings \<Rightarrow> campaign \<Rightarrow> jdict list \<Rightarrow> (jdict \<times> jdict \<times> pyfloat) list \<Rightarrow> suggest_output cmd" where
  "suggest_commit s c rows planned =
     thenC (forC (\<lambda>(e, _, _). bindC (nowC s) (ensure_pending_manifest s e)) planned)
     (thenC (forC (\<lambda>(e, decision, latency).
         bindC (liftC (entry_id e)) (\<lambda>tid.
         thenC (append_acquisition s tid decision latency) (append_event s ''suggestion_created'' [(''trial_id'', JInt tid)]))) planned)
     (thenC (save_state c)
     (thenC (whenC (rows \<noteq> []) (write_obs_csv c))
     (thenC (append_governance_violation_event s c ''suggest'')
     (retC (Suggested (map fst planned)))))))"

definition suggest_exhausted :: "'r settings \<Rightarrow> campaign \<Rightarrow> jdict list \<Rightarrow> campaign \<Rightarrow> jdict \<Rightarrow> pyfloat \<Rightarrow> suggest_output cmd" where
  "suggest_exhausted s c rows planning decision latency =
     thenC (append_acquisition s (cp_next planning) decision latency)
     (thenC (save_state c)
     (thenC (whenC (rows \<noteq> []) (thenC (write_obs_csv c) (append_governance_violation_event s c ''suggest'')))
     (liftC (Inl (SamplingFailure (py_str (jget decision ''constraint_error_reason'')))))))"

definition suggest_body :: "'r settings \<Rightarrow> pyfloat option \<Rightarrow> int option \<Rightarrow> bool \<Rightarrow> int \<Rightarrow> suggest_output cmd" where
  "suggest_body s max_age max_pending leases requested =
     bindC (load_stateC s) (\<lambda>c0.
     bindC (liftC (seeded_state s c0)) (\<lambda>c1.
     bindC (retire_stale_now s max_age c1) (\<lambda>(c, rows).
     let current = int (length (cp_pending c)) in
     if (case max_pending of None \<Rightarrow> False | Some m \<Rightarrow> m < current + requested)
     then suggest_nothing s c rows ''max_pending_trials''
     else
     bindC (liftC (cfg_int (s_cfg s) ''max_trials'')) (\<lambda>max_trials.
     if max_trials < int (length (cp_observations c)) + current + requested
     then suggest_nothing s c rows ''budget exhausted''
     else
     bindC (plan_batch s leases (nat requested) c []) (\<lambda>p. case p of
       Planned planning planned \<Rightarrow> suggest_commit s planning rows planned
     | Exhausted planning decision latency \<Rightarrow> suggest_exhausted s c rows planning decision latency)))))"

definition cmd_suggest :: "'r settings \<Rightarrow> int option \<Rightarrow> suggest_output cmd" where
  "cmd_suggest s n_arg =
     bindC (liftC (resolve_max_pending_age_seconds (s_cfg s))) (\<lambda>max_age.
     bindC (liftC (resolve_max_pending_trials (s_cfg s))) (\<lambda>max_pending.
     bindC (liftC (resolve_worker_leases_enabled (s_cfg s))) (\<lambda>leases.
     bindC (liftC (effective_suggest_count (s_cfg s) n_arg)) (\<lambda>requested.
     locked s ''suggest'' (suggest_body s max_age max_pending leases requested)))))"

subsection \<open>ingest\<close>

definition payload_version_ok :: "string \<Rightarrow> bool" where
  "payload_version_ok v = (case split_on CHR ''.'' v of
     [a, b, c] \<Rightarrow> a = ''0'' \<and> (b = ''3'' \<or> b = ''4'') \<and> c \<noteq> [] \<and> list_all is_digit c | _ \<Rightarrow> False)"

text \<open>The checks of an incoming payload before the state is looked at.\<close>

definition ingest_payload :: "'r settings \<Rightarrow> json \<Rightarrow> (jdict \<times> int \<times> jdict) res" where
  "ingest_payload s raw = (case raw of
     JObj d \<Rightarrow>
       bindE (validate_schema (s_fullmatch s) ''$'' (s_ingest_schema s) raw) (\<lambda>_.
       bindE (normalize_ingest_payload payload_version_ok d (s_objective s)) (\<lambda>(payload, tid).
       bindE (dict_item payload ''params'') (\<lambda>values.
       bindE (canonicalize_conditional_params values (s_params s)) (\<lambda>canonical.
       let payload' = dset ''params'' (JObj canonical) payload in
       bindE (load_heartbeat_fields payload') (\<lambda>beats. Inr (payload', tid, beats))))))
   | _ \<Rightarrow> Inl (ValueError ''Ingest payload must be an object''))"

text \<open>\<open>{int(row["trial_id"]): row for row in rows}\<close>\<close>

definition by_trial_id :: "jdict list \<Rightarrow> (int, jdict) dict res" where
  "by_trial_id rows = bindE (mapE (\<lambda>r. bindE (entry_id r) (\<lambda>i. Inr (i, r))) rows) (\<lambda>ps. Inr (dict_of ps))"

text \<open>\<open>next((row for row in rows if int(row["trial_id"]) == tid), None)\<close>\<close>

fun find_row :: "jdict list \<Rightarrow> int \<Rightarrow> jdict option res" where
  "find_row [] tid = Inr None"
| "find_row (r # rs) tid = bindE (entry_id r) (\<lambda>i. if i = tid then Inr (Some r) else find_row rs tid)"

definition canonical_params_of :: "'r settings \<Rightarrow> jdict \<Rightarrow> jdict res" where
  "canonical_params_of s e = (case dict_get e ''params'' (JObj []) of
     JObj d \<Rightarrow> canonicalize_conditional_params d (s_params s)
   | _ \<Rightarrow> Inl (AttributeError ''params''))"

definition received_contract :: "'r settings \<Rightarrow> jdict \<Rightarrow> int \<Rightarrow> jdict res" where
  "received_contract s payload tid =
     bindE (jitem payload ''objectives'') (\<lambda>objectives.
     bindE (jitem payload ''status'') (\<lambda>status.
     bindE (normalize_measurements payload (s_objective s)) (\<lambda>m.
     Inr (set_all (copy_keys [''penalty_objective'', ''terminal_reason''] payload)
           (dict_update [(''trial_id'', JInt tid), (''params'', jget payload ''params''), (''objectives'', objectives), (''status'', status)]
              (measured_json m))))))"

text \<open>A payload for a trial that is not pending: a replay of the stored result, or an error.\<close>

definition ingest_replay :: "'r settings \<Rightarrow> campaign \<Rightarrow> jdict \<Rightarrow> int \<Rightarrow> unit res" where
  "ingest_replay s c payload tid =
     bindE (find_row (cp_observations c) tid) (\<lambda>prior. case prior of
       None \<Rightarrow> Inl (ValueError ''is not pending'')
     | Some row \<Rightarrow>
         bindE (canonical_params_of s row) (\<lambda>params.
         bindE (build_observation_contract (dset ''params'' (JObj params) row) (s_objective s)) (\<lambda>expected.
         bindE (received_contract s payload tid) (\<lambda>received.
         guardE (diff_contract_records expected received False = []) (ValueError ''ingest payload differs'')))))"

definition ingest_guard :: "'r settings \<Rightarrow> campaign \<Rightarrow> jdict \<Rightarrow> jdict \<Rightarrow> string option \<Rightarrow> unit res" where
  "ingest_guard s c entry payload lease =
     bindE (require_matching_lease_token entry lease) (\<lambda>_.
     bindE (canonical_params_of s entry) (\<lambda>params.
     if \<not> py_eq (jget payload ''params'') (JObj params) then Inl (ValueError ''ingest payload params mismatch'')
     else validate_measurement_coverage (cp_observations c @ [payload]) (s_objective s)))"

definition ingested_observation :: "objective_cfg \<Rightarrow> jdict \<Rightarrow> jdict \<Rightarrow> int \<Rightarrow> jdict \<Rightarrow> pyfloat \<Rightarrow> jdict res" where
  "ingested_observation cfg entry payload tid beats now =
     bindE (jitem payload ''objectives'') (\<lambda>objectives.
     bindE (jitem payload ''status'') (\<lambda>status.
     bindE (normalize_measurements payload cfg) (\<lambda>m.
     let r1 = dict_update [(''trial_id'', JInt tid), (''params'', jget payload ''params''), (''objectives'', objectives),
                (''status'', status), (''artifact_path'', JNull), (''suggested_at'', jget entry ''suggested_at''),
                (''completed_at'', JFloat now)] (measured_json m);
         r2 = (if status = JStr ''ok'' then r1
               else set_all [(''terminal_reason'', jget payload ''terminal_reason''),
                             (''penalty_objective'', jget payload ''penalty_objective'')] r1)
     in Inr (dict_update
          (set_all (copy_keys [''heartbeat_count'', ''last_heartbeat_at'', ''heartbeat_note'', ''heartbeat_meta'', ''lease_token''] entry) r2)
          beats))))"

definition payload_copy_path :: "'r settings \<Rightarrow> int \<Rightarrow> string" where
  "payload_copy_path s tid = join_path (trial_dir (s_trials_dir s) tid) ''ingest_payload.json''"

datatype ingest_output = Ingested int | Duplicate int

text \<open>The in-memory object appended to the observations is the one whose \<open>artifact_path\<close> is set after \<open>update_best\<close>.\<close>

definition ingest_apply :: "'r settings \<Rightarrow> campaign \<Rightarrow> jdict \<Rightarrow> int \<Rightarrow> jdict \<Rightarrow> ingest_output cmd" where
  "ingest_apply s c payload tid beats =
     bindC (liftC (pop_pending c tid)) (\<lambda>(popped, c1). case popped of
       None \<Rightarrow> liftC (Inl (ValueError ''is not pending''))
     | Some entry \<Rightarrow>
         bindC (nowC s) (\<lambda>now.
         bindC (liftC (ingested_observation (s_objective s) entry payload tid beats now)) (\<lambda>row.
         bindC (update_bestC s (c1\<lparr>cp_observations := cp_observations c1 @ [row]\<rparr>)) (\<lambda>c2.
         let path = payload_copy_path s tid; row' = dset ''artifact_path'' (JStr path) row;
             c3 = c2\<lparr>cp_observations := cp_observations c1 @ [row']\<rparr> in
         thenC (updC (\<lambda>w. w\<lparr>w_payloads := dset tid payload (w_payloads w)\<rparr>))
         (thenC (ensure_terminal_manifest s row' (Some path) now)
         (thenC (save_state_and_rows c3)
         (thenC (append_event s ''ingest_applied'' [(''trial_id'', JInt tid), (''status'', jget row' ''status'')])
         (thenC (append_governance_violation_event s c3 ''ingest'')
         (retC (Ingested tid))))))))))"

definition ingest_body :: "'r settings \<Rightarrow> json \<Rightarrow> string option \<Rightarrow> ingest_output cmd" where
  "ingest_body s raw lease =
     bindC (load_stateC s) (\<lambda>c.
     bindC (liftC (ingest_payload s raw)) (\<lambda>(payload, tid, beats).
     bindC (liftC (by_trial_id (cp_pending c))) (\<lambda>pending. case map_of pending tid of
       None \<Rightarrow>
         thenC (liftC (ingest_replay s c payload tid))
         (thenC (append_event s ''ingest_duplicate_noop'' [(''trial_id'', JInt tid)])
         (retC (Duplicate tid)))
     | Some entry \<Rightarrow>
         thenC (liftC (ingest_guard s c entry payload lease))
         (ingest_apply s c payload tid beats))))"

definition cmd_ingest :: "'r settings \<Rightarrow> json \<Rightarrow> string option \<Rightarrow> ingest_output cmd" where
  "cmd_ingest s raw token =
     bindC (liftC (parse_cli_lease_token token)) (\<lambda>lease. locked s ''ingest'' (ingest_body s raw lease))"

subsection \<open>cancel\<close>

text \<open>\<open>args.reason or default\<close>\<close>

definition reason_or :: "string option \<Rightarrow> string \<Rightarrow> string" where
  "reason_or reason dflt = (case reason of Some r \<Rightarrow> if r = [] then dflt else r | None \<Rightarrow> dflt)"

definition cancel_body :: "'r settings \<Rightarrow> int \<Rightarrow> string option \<Rightarrow> int cmd" where
  "cancel_body s tid reason =
     bindC (load_stateC s) (\<lambda>c.
     bindC (liftC (pop_pending c tid)) (\<lambda>(popped, c1). case popped of
       None \<Rightarrow> liftC (Inl (ValueError ''is not pending''))
     | Some entry \<Rightarrow>
         bindC (nowC s) (\<lambda>now.
         bindC (liftC (new_terminal_observation entry (s_objective s) (reason_or reason ''canceled'') now)) (\<lambda>row.
         bindC (update_bestC s (c1\<lparr>cp_observations := cp_observations c1 @ [row]\<rparr>)) (\<lambda>c2.
         thenC (ensure_terminal_manifest s row None now)
         (thenC (save_state_and_rows c2)
         (thenC (append_event s ''trial_canceled''
                  [(''trial_id'', jget row ''trial_id''), (''reason'', JStr (reason_or reason ''canceled''))])
         (thenC (override_events_for s ''cancel'' ''manual_cancel'' [row])
         (thenC (append_governance_violation_event s c2 ''cancel'')
         (retC tid))))))))))"

definition cmd_cancel :: "'r settings \<Rightarrow> int \<Rightarrow> string option \<Rightarrow> int cmd" where
  "cmd_cancel s tid reason = locked s ''cancel'' (cancel_body s tid reason)"

subsection \<open>retire\<close>

text \<open>\<open>_pop_pending\<close> of every target; only the explicit target has to be pending.\<close>

definition retire_target ::
  "objective_cfg \<Rightarrow> pyfloat \<Rightarrow> (int \<Rightarrow> string) \<Rightarrow> int option \<Rightarrow> int \<Rightarrow> campaign \<times> jdict list \<Rightarrow> (campaign \<times> jdict list) res" where
  "retire_target cfg now reason explicit tid acc =
     bindE (pop_pending (fst acc) tid) (\<lambda>(popped, _).
     if popped = None \<and> explicit = Some tid then Inl (ValueError ''is not pending'')
     else retire_one cfg now reason tid acc)"

definition retire_targets :: "int option \<Rightarrow> int list \<Rightarrow> int list" where
  "retire_targets explicit stale =
     (let first = (case explicit of None \<Rightarrow> [] | Some t \<Rightarrow> [t]) in
      first @ filter (\<lambda>t. \<not> List.member first t) (sort (remdups stale)))"

definition retire_body :: "'r settings \<Rightarrow> int option \<Rightarrow> pyfloat option \<Rightarrow> string option \<Rightarrow> nat cmd" where
  "retire_body s explicit max_age reason =
     bindC (load_stateC s) (\<lambda>c.
     bindC (nowC s) (\<lambda>now.
     bindC (liftC (case max_age of None \<Rightarrow> Inr [] | Some limit \<Rightarrow> stale_ids (cp_pending c) limit now)) (\<lambda>stale.
     bindC (liftC (foldE (retire_target (s_objective s) now
              (\<lambda>t. reason_or reason (if List.member stale t then ''retired_stale'' else ''retired_manual'')) explicit)
            (retire_targets explicit stale) (c, []))) (\<lambda>(c1, rows).
     if rows = [] then retC 0
     else
     bindC (update_bestC s c1) (\<lambda>c2.
     thenC (forC (\<lambda>row. thenC (ensure_terminal_manifest s row None now)
         (append_event s ''trial_retired''
            [(''trial_id'', jget row ''trial_id''), (''reason'', jget row ''terminal_reason''), (''mode'', JStr ''manual'')])) rows)
     (thenC (override_events_for s ''retire'' ''retire_command'' rows)
     (thenC (save_state_and_rows c2)
     (thenC (append_governance_violation_event s c2 ''retire'')
     (retC (length rows))))))))))"

definition cmd_retire :: "'r settings \<Rightarrow> int option \<Rightarrow> bool \<Rightarrow> pyfloat option \<Rightarrow> string option \<Rightarrow> nat cmd" where
  "cmd_retire s explicit stale max_age reason =
     (if explicit = None \<and> \<not> stale then liftC (Inl (ValueError ''retire requires --trial-id and/or --stale''))
      else
      bindC (liftC (if stale then bindE (resolve_retire_max_age_seconds (s_cfg s) max_age) (\<lambda>x. Inr (Some x)) else Inr None)) (\<lambda>limit.
      locked s ''retire'' (retire_body s explicit limit reason)))"

subsection \<open>heartbeat\<close>

definition heartbeat_entry :: "jdict \<Rightarrow> pyfloat \<Rightarrow> string option \<Rightarrow> jdict option \<Rightarrow> jdict res" where
  "heartbeat_entry entry beat note meta =
     bindE (heartbeat_count entry) (\<lambda>n.
     Inr (set_all ((case note of None \<Rightarrow> [] | Some t \<Rightarrow> [(''heartbeat_note'', JStr t)]) @
                   (case meta of None \<Rightarrow> [] | Some m \<Rightarrow> [(''heartbeat_meta'', JObj m)]))
           (dset ''heartbeat_count'' (JInt (n + 1)) (dset ''last_heartbeat_at'' (JFloat beat) entry))))"

text \<open>\<open>--heartbeat-meta-json\<close>, decoded\<close>

definition parse_heartbeat_meta :: "stored option \<Rightarrow> jdict option res" where
  "parse_heartbeat_meta raw = (case raw of
     None \<Rightarrow> Inr None
   | Some (JsonFile (JObj d)) \<Rightarrow> Inr (Some d)
   | Some _ \<Rightarrow> Inl (ValueError ''--heartbeat-meta-json''))"

definition heartbeat_body :: "'r settings \<Rightarrow> int \<Rightarrow> pyfloat option \<Rightarrow> string option \<Rightarrow> stored option \<Rightarrow> string option \<Rightarrow> unit cmd" where
  "heartbeat_body s tid given note meta lease =
     bindC (load_stateC s) (\<lambda>c.
     bindC (liftC (pending_index (cp_pending c) tid)) (\<lambda>idx. case idx of
       None \<Rightarrow> liftC (Inl (ValueError ''is not pending''))
     | Some i \<Rightarrow>
         bindC (case given of None \<Rightarrow> nowC s | Some x \<Rightarrow> retC x) (\<lambda>beat.
         if fle beat (Fin 0) \<or> \<not> is_finite beat then liftC (Inl (ValueError ''--heartbeat-at''))
         else
         bindC (liftC (parse_heartbeat_meta meta)) (\<lambda>m.
         thenC (liftC (require_matching_lease_token (cp_pending c ! i) lease))
         (bindC (liftC (heartbeat_entry (cp_pending c ! i) beat note m)) (\<lambda>e.
         let c' = c\<lparr>cp_pending := (cp_pending c)[i := e]\<rparr> in
         thenC (bindC (nowC s) (ensure_pending_manifest s e))
         (thenC (save_state c')
         (thenC (append_event s ''heartbeat'' [(''trial_id'', JInt tid), (''heartbeat_at'', JFloat beat)])
         (append_governance_violation_event s c' ''heartbeat'')))))))))"

definition cmd_heartbeat :: "'r settings \<Rightarrow> int \<Rightarrow> pyfloat option \<Rightarrow> string option \<Rightarrow> stored option \<Rightarrow> string option \<Rightarrow> unit cmd" where
  "cmd_heartbeat s tid given note meta token =
     bindC (liftC (parse_cli_lease_token token)) (\<lambda>lease.
     locked s ''heartbeat'' (heartbeat_body s tid given note meta lease))"

end
