(* ===== verification/Lifecycle.thy ===== *)
theory Lifecycle
  imports Commands
begin

text \<open>
  What the commands may do to the trials of a campaign: an abstract step relation
  (allocate, finish, refresh, record) with its invariants, and the facts that link the
  operations of the controller to it.
\<close>

subsection \<open>Well-formed entries\<close>

definition tid :: "jdict \<Rightarrow> int" where
  "tid e = (case map_of e ''trial_id'' of Some (JInt i) \<Rightarrow> i | _ \<Rightarrow> 0)"

definition has_tid :: "jdict \<Rightarrow> bool" where
  "has_tid e = (map_of e ''trial_id'' = Some (JInt (tid e)))"

text \<open>A lease token is absent or text that is not blank.\<close>

definition token_ok :: "jdict \<Rightarrow> bool" where
  "token_ok e = (case jget e ''lease_token'' of JNull \<Rightarrow> True | JStr s \<Rightarrow> py_strip s \<noteq> [] | _ \<Rightarrow> False)"

text \<open>A pending entry has an integer id, the parameters it was suggested with, and the time.\<close>

definition entry_wf :: "jdict \<Rightarrow> bool" where
  "entry_wf e = (has_tid e \<and> is_dict (jget e ''params'') \<and> inst_num (jget e ''suggested_at'') \<and> token_ok e)"

text \<open>
  A finished row has everything the observation table and the ranking read; the objectives of
  a trial that did not succeed are null.
\<close>

definition all_null :: "jdict \<Rightarrow> bool" where
  "all_null d = list_all (\<lambda>k. map_of d k = Some JNull) (map fst d)"

definition row_wf :: "jdict \<Rightarrow> bool" where
  "row_wf r = (has_tid r \<and> is_dict (jget r ''params'') \<and> is_dict (jget r ''objectives'') \<and>
     (case map_of r ''status'' of Some (JStr s) \<Rightarrow> List.member canonical_statuses s | _ \<Rightarrow> False) \<and>
     has_key r ''completed_at'' \<and> token_ok r \<and>
     (\<not> row_ok r \<longrightarrow> (case jget r ''objectives'' of JObj d \<Rightarrow> all_null d | _ \<Rightarrow> False)))"

definition cp_wf :: "campaign \<Rightarrow> bool" where
  "cp_wf c = (list_all entry_wf (cp_pending c) \<and> list_all row_wf (cp_observations c))"

text \<open>Every trial of a campaign, finished or pending.\<close>

definition trial_ids :: "campaign \<Rightarrow> int list" where
  "trial_ids c = map tid (cp_observations c) @ map tid (cp_pending c)"

text \<open>The ids ever handed out are 1 up to the next id, each in exactly one place.\<close>

definition ids_exact :: "campaign \<Rightarrow> bool" where
  "ids_exact c = (1 \<le> cp_next c \<and> mset (trial_ids c) = mset [1..cp_next c - 1])"

lemma has_tid_iff: "has_tid e \<longleftrightarrow> (\<exists>i. map_of e ''trial_id'' = Some (JInt i))"
  by (auto simp: has_tid_def tid_def)

lemma entry_id_tid [simp]: "has_tid e \<Longrightarrow> entry_id e = Inr (tid e)"
  by (simp add: has_tid_def entry_id_def jitem_def)

lemma tid_of: "map_of e ''trial_id'' = Some (JInt i) \<Longrightarrow> tid e = i"
  by (simp add: tid_def)

lemma is_dict_iff: "is_dict v \<longleftrightarrow> (\<exists>d. v = JObj d)"
  by (cases v) auto

lemma entry_wf_tid: "entry_wf e \<Longrightarrow> has_tid e"
  by (simp add: entry_wf_def)

lemma cp_wf_members:
  "cp_wf c \<Longrightarrow> e \<in> set (cp_pending c) \<Longrightarrow> entry_wf e"
  "cp_wf c \<Longrightarrow> r \<in> set (cp_observations c) \<Longrightarrow> row_wf r"
  by (auto simp: cp_wf_def list_all_iff)

lemma ids_exact_iff:
  "ids_exact c \<longleftrightarrow> 1 \<le> cp_next c \<and> distinct (trial_ids c) \<and> set (trial_ids c) = {1..<cp_next c}"
proof
  assume "ids_exact c"
  then have n: "1 \<le> cp_next c" and m: "mset (trial_ids c) = mset [1..cp_next c - 1]" by (simp_all add: ids_exact_def)
  have s: "set (trial_ids c) = set [1..cp_next c - 1]" by (rule mset_eq_setD [OF m])
  have d: "distinct (trial_ids c)" using mset_eq_imp_distinct_iff [OF m] by simp
  show "1 \<le> cp_next c \<and> distinct (trial_ids c) \<and> set (trial_ids c) = {1..<cp_next c}"
    using n d unfolding s by auto
next
  assume a: "1 \<le> cp_next c \<and> distinct (trial_ids c) \<and> set (trial_ids c) = {1..<cp_next c}"
  have "set (trial_ids c) = set [1..cp_next c - 1]" unfolding a [THEN conjunct2, THEN conjunct2] by auto
  then have "mset (trial_ids c) = mset [1..cp_next c - 1]"
    using a by (subst (asm) set_eq_iff_mset_eq_distinct) simp_all
  with a show "ids_exact c" by (simp add: ids_exact_def)
qed

subsection \<open>Lifecycle steps\<close>

inductive move :: "campaign \<Rightarrow> campaign \<Rightarrow> bool" where
  allocate: "entry_wf e \<Longrightarrow> tid e = cp_next c \<Longrightarrow> move c (add_suggestion c e)"
| finish: "cp_pending c = xs @ p # ys \<Longrightarrow> row_wf r \<Longrightarrow> tid r = tid p \<Longrightarrow>
    move c (c\<lparr>cp_pending := xs @ ys, cp_observations := cp_observations c @ [r]\<rparr>)"
| refresh: "cp_pending c = xs @ p # ys \<Longrightarrow> entry_wf e \<Longrightarrow> tid e = tid p \<Longrightarrow> jget e ''params'' = jget p ''params'' \<Longrightarrow>
    move c (c\<lparr>cp_pending := xs @ e # ys\<rparr>)"
| record_row: "row_wf r \<Longrightarrow> tid r = cp_next c \<Longrightarrow>
    move c (c\<lparr>cp_observations := cp_observations c @ [r], cp_next := cp_next c + 1\<rparr>)"
| bookkeep: "cp_observations c' = cp_observations c \<Longrightarrow> cp_pending c' = cp_pending c \<Longrightarrow> cp_next c' = cp_next c \<Longrightarrow> move c c'"

inductive_cases moveE: "move c c'"

abbreviation moves :: "campaign \<Rightarrow> campaign \<Rightarrow> bool" where
  "moves \<equiv> move\<^sup>*\<^sup>*"

lemma move_wf: "move c c' \<Longrightarrow> cp_wf c \<Longrightarrow> cp_wf c'"
  by (induction rule: move.induct) (auto simp: cp_wf_def add_suggestion_def)

lemma upto_next: "1 \<le> n \<Longrightarrow> mset [1..n] = add_mset n (mset [1..n - 1])" for n :: int
  by (simp add: upto_rec2)

lemma move_ids: "move c c' \<Longrightarrow> ids_exact c \<Longrightarrow> ids_exact c'"
  by (induction rule: move.induct)
    (auto simp: ids_exact_def add_suggestion_def trial_ids_def upto_next)

lemma move_terminal: "move c c' \<Longrightarrow> \<exists>rs. cp_observations c' = cp_observations c @ rs"
  by (induction rule: move.induct) (auto simp: add_suggestion_def)

lemma move_next: "move c c' \<Longrightarrow> cp_next c \<le> cp_next c'"
  by (induction rule: move.induct) (auto simp: add_suggestion_def)

text \<open>A pending trial keeps its parameters until it is finished.\<close>

lemma move_params:
  assumes "move c c'" "e \<in> set (cp_pending c)"
  shows "(\<exists>e'\<in>set (cp_pending c'). tid e' = tid e \<and> jget e' ''params'' = jget e ''params'') \<or>
         (\<exists>r\<in>set (cp_observations c'). tid r = tid e)"
  using assms by (induction rule: move.induct) (auto simp: add_suggestion_def)

lemma moves_wf: "moves c c' \<Longrightarrow> cp_wf c \<Longrightarrow> cp_wf c'"
  by (induction rule: rtranclp_induct) (auto intro: move_wf)

lemma moves_ids: "moves c c' \<Longrightarrow> ids_exact c \<Longrightarrow> ids_exact c'"
  by (induction rule: rtranclp_induct) (auto intro: move_ids)

lemma moves_terminal: "moves c c' \<Longrightarrow> \<exists>rs. cp_observations c' = cp_observations c @ rs"
proof (induction rule: rtranclp_induct)
  case (step c' c'')
  from step.IH move_terminal [OF step.hyps(2)] show ?case by auto
qed simp

lemma moves_next: "moves c c' \<Longrightarrow> cp_next c \<le> cp_next c'"
  by (induction rule: rtranclp_induct) (auto dest: move_next)

lemma bookkeep_step: "cp_observations c' = cp_observations c \<Longrightarrow> cp_pending c' = cp_pending c \<Longrightarrow> cp_next c' = cp_next c \<Longrightarrow> moves c c'"
  by (rule r_into_rtranclp) (rule bookkeep)

subsection \<open>Operations of the controller as steps\<close>

lemma pending_index_wf:
  assumes "list_all entry_wf ps"
  shows "case pending_index ps i of Inl _ \<Rightarrow> False
    | Inr None \<Rightarrow> i \<notin> tid ` set ps
    | Inr (Some k) \<Rightarrow> k < length ps \<and> tid (ps ! k) = i"
  using assms
  by (induction ps) (auto simp: bindE_def entry_wf_tid split: sum.splits option.splits)

lemma pop_pending_wf:
  assumes "cp_wf c" "pop_pending c i = Inr (popped, c')"
  shows "case popped of None \<Rightarrow> c' = c \<and> i \<notin> tid ` set (cp_pending c)
    | Some p \<Rightarrow> (\<exists>xs ys. cp_pending c = xs @ p # ys \<and> c' = c\<lparr>cp_pending := xs @ ys\<rparr> \<and> tid p = i \<and> entry_wf p)"
proof -
  have wf: "list_all entry_wf (cp_pending c)" using assms(1) by (simp add: cp_wf_def)
  from assms(2) obtain idx where idx: "pending_index (cp_pending c) i = Inr idx"
    and c': "(popped, c') = (case idx of None \<Rightarrow> (None, c)
        | Some k \<Rightarrow> (Some (cp_pending c ! k), c\<lparr>cp_pending := take k (cp_pending c) @ drop (Suc k) (cp_pending c)\<rparr>))"
    by (auto simp: pop_pending_def return_iff)
  show ?thesis
  proof (cases idx)
    case None
    with pending_index_wf [OF wf, of i] idx c' show ?thesis by simp
  next
    case (Some k)
    with pending_index_wf [OF wf, of i] idx have k: "k < length (cp_pending c)" "tid (cp_pending c ! k) = i" by simp_all
    moreover have "entry_wf (cp_pending c ! k)" using wf k by (simp add: list_all_length)
    ultimately show ?thesis using c' Some id_take_nth_drop [OF k(1)] by auto
  qed
qed

lemma pop_pending_total: "cp_wf c \<Longrightarrow> \<exists>r. pop_pending c i = Inr r"
  using pending_index_wf [of "cp_pending c" i] by (auto simp: cp_wf_def pop_pending_def bindE_def split: sum.splits)

lemma pop_finish:
  assumes "cp_wf c" "pop_pending c i = Inr (Some p, c1)" "row_wf r" "tid r = i"
  shows "move c (c1\<lparr>cp_observations := cp_observations c1 @ [r]\<rparr>)"
proof -
  from pop_pending_wf [OF assms(1,2)] obtain xs ys where *: "cp_pending c = xs @ p # ys" "c1 = c\<lparr>cp_pending := xs @ ys\<rparr>" "tid p = i"
    by auto
  have "move c (c\<lparr>cp_pending := xs @ ys, cp_observations := cp_observations c @ [r]\<rparr>)"
    by (rule finish [OF *(1) assms(3)]) (simp add: assms(4) *(3))
  then show ?thesis by (simp add: *(2))
qed

lemma canonical_killed [simp]: "''killed'' \<in> set canonical_statuses" "''ok'' \<in> set canonical_statuses"
  by (simp_all add: canonical_statuses_def)

lemma map_of_copy_keys: "map_of (copy_keys ks d) k = (if k \<in> set ks then map_of d k else None)"
  by (induction ks) (auto simp: copy_keys_def map_add_def split: option.splits)

lemma new_terminal_wf:
  assumes "entry_wf p" "new_terminal_observation p cfg reason now = Inr r"
  shows "row_wf r \<and> tid r = tid p \<and> \<not> row_ok r \<and> map_of r ''params'' = map_of p ''params'' \<and>
    map_of r ''terminal_reason'' = Some (JStr reason)"
proof -
  obtain d where d: "map_of p ''params'' = Some (JObj d)"
    using assms(1) by (auto simp: entry_wf_def is_dict_iff jget_def split: option.splits)
  have "map_of r ''trial_id'' = Some (JInt (tid p))" "map_of r ''params'' = Some (JObj d)"
    "map_of r ''objectives'' = Some (null_vector cfg)" "map_of r ''status'' = Some (JStr ''killed'')"
    "has_key r ''completed_at''" "map_of r ''terminal_reason'' = Some (JStr reason)"
    using assms d by (auto simp: new_terminal_observation_def return_iff entry_wf_tid)
  moreover have "map_of r ''lease_token'' = map_of p ''lease_token''"
    using assms d by (auto simp: new_terminal_observation_def return_iff entry_wf_tid map_of_copy_keys map_add_def split: option.splits)
  then have "token_ok r" using assms(1) by (simp add: entry_wf_def token_ok_def jget_def)
  moreover have "all_null (map (\<lambda>n. (n, JNull)) ns)" for ns by (induction ns) (auto simp: all_null_def list_all_iff)
  ultimately show ?thesis using d tid_of [of r]
    by (simp add: row_wf_def has_tid_iff row_ok_def dict_get_def null_vector_def jget_def)
qed

lemma new_terminal_total: "entry_wf p \<Longrightarrow> \<exists>r. new_terminal_observation p cfg reason now = Inr r"
  by (auto simp: new_terminal_observation_def bindE_def entry_wf_def is_dict_iff jitem_def jget_def split: option.splits)

subsection \<open>The best record of a state\<close>

definition ok_rows :: "campaign \<Rightarrow> jdict list" where
  "ok_rows c = filter row_ok (cp_observations c)"

text \<open>The stored best record is the one recomputed from the stored observations.\<close>

definition best_current :: "objective_cfg \<Rightarrow> campaign \<Rightarrow> bool" where
  "best_current cfg c = (case mapE (ranked_row cfg) (ok_rows c) of
     Inl _ \<Rightarrow> False
   | Inr ps \<Rightarrow> (case (best_ranked cfg ps, cp_best c) of
       (None, None) \<Rightarrow> True
     | (Some p, Some b) \<Rightarrow> build_best_record (fst p) cfg (br_updated_at b) = Inr b
     | _ \<Rightarrow> False))"

lemma best_current_cong: "ok_rows c' = ok_rows c \<Longrightarrow> cp_best c' = cp_best c \<Longrightarrow> best_current cfg c' = best_current cfg c"
  by (simp add: best_current_def split: sum.splits)

lemma build_best_updated: "build_best_record row cfg now = Inr b \<Longrightarrow> build_best_record row cfg (br_updated_at b) = Inr b"
  by (auto simp: build_best_record_def return_iff)

lemma update_best_current:
  assumes "update_best c cfg now = Inr c'"
  shows "best_current cfg c'" "c' = c\<lparr>cp_best := cp_best c'\<rparr>" "ok_rows c' = ok_rows c" "moves c c'"
proof -
  from assms obtain ps where ps: "mapE (ranked_row cfg) (ok_rows c) = Inr ps"
    and c': "(case best_ranked cfg ps of None \<Rightarrow> Inr (c\<lparr>cp_best := None\<rparr>)
       | Some p \<Rightarrow> bindE (build_best_record (fst p) cfg now) (\<lambda>b. Inr (c\<lparr>cp_best := Some b\<rparr>))) = Inr c'"
    by (auto simp: update_best_def return_iff ok_rows_def)
  from c' obtain b where b: "c' = c\<lparr>cp_best := b\<rparr>"
    and best: "case (best_ranked cfg ps, b) of (None, None) \<Rightarrow> True
       | (Some p, Some b) \<Rightarrow> build_best_record (fst p) cfg now = Inr b | _ \<Rightarrow> False"
    by (cases "best_ranked cfg ps") (auto simp: return_iff)
  show "c' = c\<lparr>cp_best := cp_best c'\<rparr>" "ok_rows c' = ok_rows c" using b by (simp_all add: ok_rows_def)
  then show "best_current cfg c'"
    using ps b best by (auto simp: best_current_def split: option.splits dest: build_best_updated)
  show "moves c c'" using b by (intro bookkeep_step) simp_all
qed

lemma min_by_rel:
  assumes "\<And>a b a' b'. R a a' \<Longrightarrow> R b b' \<Longrightarrow> lt a b = lt a' b'"
  shows "R x x' \<Longrightarrow> list_all2 R xs xs' \<Longrightarrow> R (min_by lt x xs) (min_by lt x' xs')"
proof (induction xs arbitrary: x x' xs')
  case (Cons y ys)
  then obtain y' ys' where "xs' = y' # ys'" "R y y'" "list_all2 R ys ys'" by (auto simp: list_all2_Cons1)
  with Cons assms [OF \<open>R y y'\<close> Cons.prems(1)] show ?case by auto
qed auto

text \<open>The artifact path of a row plays no part in the ranking.\<close>

lemma dset_other: "k \<noteq> k' \<Longrightarrow> dict_get (dset k v d) k' x = dict_get d k' x" "k \<noteq> k' \<Longrightarrow> jitem (dset k v d) k' = jitem d k'"
  "k \<noteq> k' \<Longrightarrow> jget (dset k v d) k' = jget d k'"
  by (simp_all add: dict_get_def jitem_def jget_def)

lemma best_current_artifact:
  assumes "best_current cfg (c\<lparr>cp_observations := rs @ [r]\<rparr>)"
  shows "best_current cfg (c\<lparr>cp_observations := rs @ [dset ''artifact_path'' v r]\<rparr>)"
proof -
  define r' where "r' = dset ''artifact_path'' v r"
  have same: "row_ok r' = row_ok r" "build_best_record r' cfg = build_best_record r cfg"
    by (simp_all add: r'_def row_ok_def build_best_record_def dset_other fun_eq_iff)
  have rank: "ranked_row cfg r' = bindE (ranked_row cfg r) (\<lambda>(_, k). Inr (r', k))"
    by (simp add: r'_def ranked_row_def entry_id_def dset_other bindE_def split: sum.splits)
  define R :: "prepared \<Rightarrow> prepared \<Rightarrow> bool" where
    "R p q \<longleftrightarrow> snd p = snd q \<and> build_best_record (fst p) cfg = build_best_record (fst q) cfg" for p q
  show ?thesis
  proof (cases "row_ok r")
    case False
    with same have "best_current cfg (c\<lparr>cp_observations := rs @ [r']\<rparr>) = best_current cfg (c\<lparr>cp_observations := rs @ [r]\<rparr>)"
      by (intro best_current_cong) (simp_all add: ok_rows_def)
    with assms show ?thesis by (simp add: r'_def)
  next
    case True
    let ?os = "filter row_ok rs"
    from assms True obtain ps where ps: "mapE (ranked_row cfg) (?os @ [r]) = Inr ps"
      by (auto simp: best_current_def ok_rows_def split: sum.splits)
    then obtain qs k where split: "ps = qs @ [(r, k)]" "mapE (ranked_row cfg) ?os = Inr qs" "ranked_row cfg r = Inr (r, k)"
      by (auto simp: mapE_Inr_iff list_all2_append1 list_all2_Cons1 ranked_row_def return_iff)
    have ps': "mapE (ranked_row cfg) (?os @ [r']) = Inr (qs @ [(r', k)])"
      using split by (auto simp: mapE_Inr_iff rank intro!: list_all2_appendI)
    have "list_all2 R ps (qs @ [(r', k)])"
      by (auto simp: split R_def same intro!: list_all2_appendI list_all2_refl)
    moreover have "rank_lt (prepared_key cfg a) (prepared_key cfg b) = rank_lt (prepared_key cfg a') (prepared_key cfg b')"
      if "R a a'" "R b b'" for a b a' b'
      using that by (auto simp: R_def prepared_key_def prepared_vector_def)
    ultimately have "rel_option R (best_ranked cfg ps) (best_ranked cfg (qs @ [(r', k)]))"
      by (cases ps; cases "qs @ [(r', k)]") (auto simp: best_ranked_def intro!: min_by_rel [where R = R])
    with assms True ps ps' show ?thesis
      by (auto simp: best_current_def ok_rows_def R_def same r'_def [symmetric] split: option.splits elim!: option.rel_cases)
  qed
qed

subsection \<open>Retirement\<close>

text \<open>Steps that leave the ranked rows and the best record alone.\<close>

definition sidelines :: "campaign \<Rightarrow> campaign \<Rightarrow> bool" where
  "sidelines c c' = (moves c c' \<and> ok_rows c' = ok_rows c \<and> cp_best c' = cp_best c)"

lemma sidelines_refl [simp]: "sidelines c c"
  by (simp add: sidelines_def)

lemma sidelines_trans: "sidelines c d \<Longrightarrow> sidelines d e \<Longrightarrow> sidelines c e"
  by (auto simp: sidelines_def)

lemma retire_one_step:
  assumes "cp_wf (fst acc)" "retire_one cfg now reason t acc = Inr acc'"
  shows "sidelines (fst acc) (fst acc') \<and> cp_wf (fst acc') \<and>
    (\<exists>new. snd acc' = snd acc @ new \<and> cp_observations (fst acc') = cp_observations (fst acc) @ new \<and> list_all row_wf new)"
proof -
  from assms(2) obtain popped c where pop: "pop_pending (fst acc) t = Inr (popped, c)"
    and rest: "(case popped of None \<Rightarrow> Inr (c, snd acc)
       | Some p \<Rightarrow> bindE (new_terminal_observation p cfg (reason t) now) (\<lambda>row.
           Inr (c\<lparr>cp_observations := cp_observations c @ [row]\<rparr>, snd acc @ [row]))) = Inr acc'"
    by (auto simp: retire_one_def return_iff)
  show ?thesis
  proof (cases popped)
    case None
    with pop_pending_wf [OF assms(1) pop] rest assms(1) show ?thesis by auto
  next
    case (Some p)
    from pop_pending_wf [OF assms(1) pop] Some obtain xs ys where c: "c = fst acc\<lparr>cp_pending := xs @ ys\<rparr>" "entry_wf p" "tid p = t"
      by auto
    from rest Some obtain row where row: "new_terminal_observation p cfg (reason t) now = Inr row"
      and acc': "acc' = (c\<lparr>cp_observations := cp_observations c @ [row]\<rparr>, snd acc @ [row])"
      by (auto simp: return_iff)
    note wf = new_terminal_wf [OF c(2) row]
    have "move (fst acc) (fst acc')"
      using pop_finish [OF assms(1) pop [unfolded Some]] wf c(3) by (simp add: acc')
    with wf show ?thesis
      by (auto simp: sidelines_def acc' c ok_rows_def intro: move_wf assms(1))
  qed
qed

lemma fold_retire_step:
  assumes "\<And>t acc acc'. f t acc = Inr acc' \<Longrightarrow> \<exists>r. retire_one cfg now (r t) t acc = Inr acc'"
    and "foldE f ts acc = Inr acc'" "cp_wf (fst acc)"
  shows "sidelines (fst acc) (fst acc') \<and> cp_wf (fst acc') \<and>
    (\<exists>new. snd acc' = snd acc @ new \<and> cp_observations (fst acc') = cp_observations (fst acc) @ new \<and> list_all row_wf new)"
  using assms(2,3)
proof (induction ts arbitrary: acc)
  case Nil
  then show ?case by auto
next
  case (Cons t ts)
  then obtain mid where mid: "f t acc = Inr mid" "foldE f ts mid = Inr acc'" by (auto simp: return_iff)
  from assms(1) [OF mid(1)] obtain r where "retire_one cfg now (r t) t acc = Inr mid" ..
  note one = retire_one_step [OF Cons.prems(2) this]
  from one Cons.IH [OF mid(2)] show ?case
    by (auto intro: sidelines_trans)
qed

lemma retire_stale_step:
  assumes "retire_stale_pending c cfg limit now reason = Inr (c', rows)" "cp_wf c"
  shows "sidelines c c'" "cp_wf c'" "cp_observations c' = cp_observations c @ rows" "list_all row_wf rows"
proof -
  from assms(1) obtain ids where "foldE (retire_one cfg now (\<lambda>_. reason)) ids (c, []) = Inr (c', rows)"
    by (auto simp: retire_stale_pending_def return_iff)
  from fold_retire_step [OF exI [of _ "\<lambda>_ _. reason"] this] assms(2)
  show "sidelines c c'" "cp_wf c'" "cp_observations c' = cp_observations c @ rows" "list_all row_wf rows"
    by auto
qed

lemma retire_target_one: "retire_target cfg now reason explicit t acc = Inr acc' \<Longrightarrow> retire_one cfg now reason t acc = Inr acc'"
  by (auto simp: retire_target_def return_iff split: if_splits)

lemma retire_targets_step:
  assumes "foldE (retire_target cfg now reason explicit) ts (c, []) = Inr (c', rows)" "cp_wf c"
  shows "sidelines c c'" "cp_wf c'" "cp_observations c' = cp_observations c @ rows" "list_all row_wf rows"
proof -
  have "\<exists>r. retire_one cfg now (r t) t acc = Inr acc'" if "retire_target cfg now reason explicit t acc = Inr acc'" for t acc acc'
    using retire_target_one [OF that] by (intro exI [of _ "\<lambda>_. reason"])
  from fold_retire_step [OF this assms(1)] assms(2)
  show "sidelines c c'" "cp_wf c'" "cp_observations c' = cp_observations c @ rows" "list_all row_wf rows"
    by auto
qed

subsection \<open>Ingested rows\<close>

lemma set_all_update: "set_all new d = dict_update d new"
  by (induction d new rule: dict_update.induct) (auto simp: set_all_def)

definition beat_keys :: "string list" where
  "beat_keys = [''heartbeat_count'', ''last_heartbeat_at'', ''heartbeat_note'', ''heartbeat_meta'', ''lease_token'']"

lemma heartbeat_fields_keys: "load_heartbeat_fields p = Inr beats \<Longrightarrow> set (map fst beats) \<subseteq> set beat_keys"
  by (auto simp: load_heartbeat_fields_def return_iff beat_keys_def split: option.splits)

lemma map_of_rev_none: "k \<notin> fst ` set d \<Longrightarrow> map_of (rev d) k = None"
  by (simp add: map_of_eq_None_iff)

lemma keys_copy_keys: "fst ` set (copy_keys ks d) \<subseteq> set ks"
  by (auto simp: copy_keys_def split: option.splits)

lemma distinct_copy_keys: "distinct ks \<Longrightarrow> distinct (map fst (copy_keys ks d))"
proof (induction ks)
  case (Cons k ks)
  then have "k \<notin> fst ` set (copy_keys ks d)" using keys_copy_keys [of ks d] by auto
  with Cons show ?case by (auto simp: copy_keys_def split: option.splits)
qed (simp add: copy_keys_def)

lemma map_of_rev_same: "distinct (map fst d) \<Longrightarrow> map_of (rev d) = map_of d"
  by (subst map_of_inject_set) (simp_all add: rev_map [symmetric])

text \<open>What the payload part of an ingested row says, whatever the pending entry held.\<close>

lemma ingested_row:
  assumes parts: "parts_ok cfg t" "has_parts payload i t" "measured_from cfg t"
    and row: "ingested_observation cfg entry payload i beats now = Inr r"
    and beats: "set (map fst beats) \<subseteq> set beat_keys"
  shows "map_of r ''trial_id'' = Some (JInt i)" "map_of r ''status'' = Some (JStr (pt_status t))"
    "map_of r ''params'' = Some (JObj (pt_params t))" "map_of r ''objectives'' = Some (JObj (pt_objectives t))"
    "jget r ''penalty_objective'' = jfloat_opt (pt_penalty t)"
    "map_of r ''terminal_reason'' = map_option JStr (pt_reason t)"
    "k \<in> set measurement_fields \<Longrightarrow> map_of r k = map_of (measured_json (pt_measured t)) k"
    "map_of r ''completed_at'' = Some (JFloat now)" "jget r ''artifact_path'' = JNull"
    "map_of (rev beats) ''lease_token'' = None \<Longrightarrow> map_of r ''lease_token'' = map_of entry ''lease_token''"
proof -
  obtain src where src: "normalize_measurements src cfg = Inr (pt_measured t)"
     "dict_get src ''status'' (JStr ''ok'') = JStr (pt_status t)" "dict_get src ''objectives'' (JObj []) = JObj (pt_objectives t)"
    using parts(3) by (auto simp: measured_from_def)
  have m: "normalize_measurements payload cfg = Inr (pt_measured t)"
  proof (rule normalize_measurements_stable [OF src(1)])
    show "dict_get payload ''status'' (JStr ''ok'') = dict_get src ''status'' (JStr ''ok'')"
      "dict_get payload ''objectives'' (JObj []) = dict_get src ''objectives'' (JObj [])"
      unfolding src using parts(2) by (simp_all add: has_parts_def dict_get_def)
  qed (use parts(2) in \<open>simp add: has_parts_def\<close>)
  define r1 where "r1 = dict_update [(''trial_id'', JInt i), (''params'', jget payload ''params''), (''objectives'', JObj (pt_objectives t)),
      (''status'', JStr (pt_status t)), (''artifact_path'', JNull), (''suggested_at'', jget entry ''suggested_at''),
      (''completed_at'', JFloat now)] (measured_json (pt_measured t))"
  define r2 where "r2 = (if pt_status t = ''ok'' then r1
      else set_all [(''terminal_reason'', jget payload ''terminal_reason''), (''penalty_objective'', jget payload ''penalty_objective'')] r1)"
  have r: "r = dict_update (set_all (copy_keys beat_keys entry) r2) beats"
    using row parts(2) by (auto simp: ingested_observation_def return_iff m has_parts_def r1_def r2_def beat_keys_def Let_def)
  have get: "map_of r k = map_of r2 k" if "k \<notin> set beat_keys" for k
  proof -
    have "map_of (rev beats) k = None" "map_of (rev (copy_keys beat_keys entry)) k = None"
      using that beats keys_copy_keys [of beat_keys entry] by (auto intro!: map_of_rev_none)
    then show ?thesis by (simp add: r set_all_update map_of_dict_update)
  qed
  note simps = r1_def r2_def set_all_update map_of_dict_update_distinct [OF measured_json_keys(2)] measured_json_get(5)
  have keys: "\<And>k. k \<in> set measurement_fields \<Longrightarrow> k \<notin> set beat_keys"
    by (auto simp: measurement_fields_def beat_keys_def)
  show "map_of r ''trial_id'' = Some (JInt i)" "map_of r ''status'' = Some (JStr (pt_status t))"
    "map_of r ''params'' = Some (JObj (pt_params t))" "map_of r ''objectives'' = Some (JObj (pt_objectives t))"
    "map_of r ''completed_at'' = Some (JFloat now)"
    using parts(2) by (auto simp: get beat_keys_def simps has_parts_def measurement_fields_def)
  show "jget r ''penalty_objective'' = jfloat_opt (pt_penalty t)" "map_of r ''terminal_reason'' = map_option JStr (pt_reason t)"
    using parts(1,2)
    by (cases "pt_status t = ''ok''"; cases "pt_penalty t"; cases "pt_reason t";
        simp add: get beat_keys_def simps has_parts_def parts_ok_def jget_def jfloat_opt_def measurement_fields_def)+
  show "jget r ''artifact_path'' = JNull"
    by (simp add: jget_def get beat_keys_def simps measurement_fields_def)
  have "distinct (map fst (copy_keys beat_keys entry))"
    by (rule distinct_copy_keys) (simp add: beat_keys_def)
  then have "map_of (rev (copy_keys beat_keys entry)) = map_of (copy_keys beat_keys entry)"
    by (intro map_of_rev_same)
  moreover have "map_of r2 ''lease_token'' = None"
    by (simp add: simps measurement_fields_def)
  ultimately show "map_of (rev beats) ''lease_token'' = None \<Longrightarrow> map_of r ''lease_token'' = map_of entry ''lease_token''"
    by (cases "map_of entry ''lease_token''")
      (simp_all add: r set_all_update map_of_dict_update map_of_copy_keys beat_keys_def)
  show "map_of r k = map_of (measured_json (pt_measured t)) k" if "k \<in> set measurement_fields"
  proof -
    have "map_of r1 k = map_of (measured_json (pt_measured t)) k"
      unfolding r1_def map_of_dict_update_distinct [OF measured_json_keys(2)]
      using that by (cases "map_of (measured_json (pt_measured t)) k") (auto simp: measurement_fields_def)
    moreover have "map_of r2 k = map_of r1 k"
      using that by (auto simp: r2_def set_all_def measurement_fields_def)
    ultimately show ?thesis by (simp add: get keys that)
  qed
qed

lemma has_parts_params: "has_parts p i t \<Longrightarrow> has_parts (dset ''params'' (JObj d) p) i (t\<lparr>pt_params := d\<rparr>)"
  by (auto simp: has_parts_def measurement_fields_def)

lemma ingest_payload_parts:
  assumes "ingest_payload s raw = Inr (payload, i, beats)"
  shows "\<exists>t. parts_ok (s_objective s) t \<and> has_parts payload i t \<and> measured_from (s_objective s) t"
    "set (map fst beats) \<subseteq> set beat_keys"
proof -
  from assms obtain d p canonical where
    norm: "normalize_ingest_payload payload_version_ok d (s_objective s) = Inr (p, i)"
    and payload: "payload = dset ''params'' (JObj canonical) p" and beats: "load_heartbeat_fields payload = Inr beats"
    by (cases raw) (auto simp: ingest_payload_def return_iff Let_def)
  from normalize_ingest_parts [OF norm] obtain t where "parts_ok (s_objective s) t" "has_parts p i t" "measured_from (s_objective s) t"
    by blast
  then have "parts_ok (s_objective s) (t\<lparr>pt_params := canonical\<rparr>) \<and> has_parts payload i (t\<lparr>pt_params := canonical\<rparr>) \<and>
      measured_from (s_objective s) (t\<lparr>pt_params := canonical\<rparr>)"
    by (auto simp: payload parts_ok_def measured_from_def intro: has_parts_params)
  then show "\<exists>t. parts_ok (s_objective s) t \<and> has_parts payload i t \<and> measured_from (s_objective s) t" ..
  show "set (map fst beats) \<subseteq> set beat_keys" using beats by (rule heartbeat_fields_keys)
qed

lemma normal_all_null: "normal_objectives cfg st objs \<Longrightarrow> st \<noteq> ''ok'' \<Longrightarrow> all_null objs"
  by (auto simp: normal_objectives_def all_null_def list_all_iff)

lemma ingested_token:
  assumes "ingest_payload s raw = Inr (payload, i, beats)"
    and "ingested_observation (s_objective s) entry payload i beats now = Inr r"
  shows "jget r ''lease_token'' = jget entry ''lease_token''"
proof -
  from assms(1) obtain p where b: "load_heartbeat_fields p = Inr beats" by (cases raw) (auto simp: ingest_payload_def return_iff Let_def)
  then have "''lease_token'' \<notin> fst ` set beats"
    by (auto simp: load_heartbeat_fields_def return_iff split: option.splits)
  then have nb: "map_of (rev beats) ''lease_token'' = None" by (rule map_of_rev_none)
  from ingest_payload_parts [OF assms(1)] obtain t where
    t: "parts_ok (s_objective s) t" "has_parts payload i t" "measured_from (s_objective s) t" and beats: "set (map fst beats) \<subseteq> set beat_keys"
    by blast
  show ?thesis using ingested_row(10) [OF t assms(2) beats nb] by (simp add: jget_def)
qed

lemma ingested_row_wf:
  assumes "ingest_payload s raw = Inr (payload, i, beats)"
    and "ingested_observation (s_objective s) entry payload i beats now = Inr r"
  shows "tid r = i \<and> tid (dset ''artifact_path'' v r) = i"
    "token_ok entry \<Longrightarrow> row_wf r \<and> row_wf (dset ''artifact_path'' v r)"
proof -
  obtain t where t: "parts_ok (s_objective s) t" "has_parts payload i t" "measured_from (s_objective s) t"
    using ingest_payload_parts(1) [OF assms(1)] by blast
  note get = ingested_row(1-4,8) [OF t assms(2) ingest_payload_parts(2) [OF assms(1)]]
  have st: "pt_status t \<in> set canonical_statuses" using t(1) by (simp add: parts_ok_def)
  from get tid_of [OF get(1)] show "tid r = i \<and> tid (dset ''artifact_path'' v r) = i" by (simp add: tid_def)
  assume "token_ok entry"
  then have tk: "token_ok r" using ingested_token [OF assms] by (simp add: token_ok_def)
  have nulls: "all_null (pt_objectives t)" if "pt_status t \<noteq> ''ok''" using t(1) that by (auto simp: parts_ok_def intro: normal_all_null)
  from st get tk nulls show "row_wf r \<and> row_wf (dset ''artifact_path'' v r)"
    by (auto simp: row_wf_def has_tid_iff jget_def token_ok_def row_ok_def dict_get_def)
qed

subsection \<open>Tables, suggestions and heartbeats\<close>

lemma observation_row_total: "row_wf r \<Longrightarrow> \<exists>x. observation_row r = Inr x"
  by (auto simp: row_wf_def has_tid_iff is_dict_iff observation_row_def dict_item_def jitem_def jget_def Let_def
      split: option.splits)

lemma observation_rows_total:
  assumes "cp_wf c"
  shows "\<exists>rows. observation_rows c = Inr rows"
proof -
  have "\<exists>x. observation_row r = Inr x" if "r \<in> set (cp_observations c)" for r
    using cp_wf_members(2) [OF assms that] by (rule observation_row_total)
  then have "\<forall>r\<in>set (cp_observations c). observation_row r = Inr (projr (observation_row r))" by (metis sum.sel(2))
  then show ?thesis
    using mapE_total [of "cp_observations c" observation_row "\<lambda>r. projr (observation_row r)"] by (auto simp: observation_rows_def)
qed

lemma hex_digit_solid: "k < 16 \<Longrightarrow> \<not> is_space (hex_digit k)"
  by (auto simp: hex_digit_def is_space_def Let_def)

lemma lease_token_solid: "py_strip (build_lease_token bits) = build_lease_token bits" "build_lease_token bits \<noteq> []"
proof -
  show ne: "build_lease_token bits \<noteq> []" by (simp add: build_lease_token_def)
  have "\<not> is_space c" if "c \<in> set (build_lease_token bits)" for c
    using that hex_digit_solid by (auto simp: build_lease_token_def)
  with ne show "py_strip (build_lease_token bits) = build_lease_token bits" by (intro py_strip_solid) simp_all
qed

lemma suggestion_wf: "entry_wf (suggestion_of c version cand now lease) \<and> tid (suggestion_of c version cand now lease) = cp_next c"
proof (cases lease)
  case (Some bits)
  then show ?thesis
    using lease_token_solid by (simp add: suggestion_of_def entry_wf_def has_tid_iff tid_def token_ok_def jget_def inst_num_def)
qed (simp add: suggestion_of_def entry_wf_def has_tid_iff tid_def token_ok_def jget_def inst_num_def)

lemma suggestion_sidelines: "sidelines c (add_suggestion c (suggestion_of c version cand now lease))"
  using suggestion_wf allocate by (fastforce simp: sidelines_def ok_rows_def add_suggestion_def)

lemma heartbeat_entry_wf:
  assumes "entry_wf e" "heartbeat_entry e beat remark extra = Inr e'"
  shows "entry_wf e' \<and> tid e' = tid e \<and> jget e' ''params'' = jget e ''params''"
proof -
  have "map_of e' k = map_of e k" if "k \<in> {''trial_id'', ''params'', ''suggested_at'', ''lease_token''}" for k
    using assms(2) that by (cases remark; cases extra) (auto simp: heartbeat_entry_def return_iff set_all_update)
  then have "map_of e' ''trial_id'' = map_of e ''trial_id''" "map_of e' ''params'' = map_of e ''params''"
    "map_of e' ''suggested_at'' = map_of e ''suggested_at''" "map_of e' ''lease_token'' = map_of e ''lease_token''" by simp_all
  with assms(1) show ?thesis by (simp add: entry_wf_def has_tid_def tid_def jget_def token_ok_def)
qed

lemma load_state_moves:
  assumes "load_state stored now = Inr c"
  shows "sidelines (case stored of None \<Rightarrow> fresh_state now | Some c \<Rightarrow> c) c"
proof -
  let ?c = "case stored of None \<Rightarrow> fresh_state now | Some c \<Rightarrow> c"
  from assms obtain v u where "c = ?c\<lparr>cp_version := v, cp_upgrade := u\<rparr>"
    by (auto simp: load_state_def return_iff Let_def)
  then show ?thesis by (auto simp: sidelines_def ok_rows_def intro!: bookkeep_step)
qed

lemma seeded_moves: "seeded_state s c = Inr c' \<Longrightarrow> sidelines c c'"
  by (auto simp: seeded_state_def return_iff sidelines_def ok_rows_def intro!: bookkeep_step split: option.splits)

lemma persisted_moves: "sidelines c (persisted c)"
  by (auto simp: persisted_def sidelines_def ok_rows_def intro!: bookkeep_step)

end
