(* ===== verification/Ledger.thy ===== *)
theory Ledger
  imports Lifecycle
begin

text \<open>
  The abstract specification of a campaign: a ledger that hands out trial ids in order,
  keeps the parameters of an open trial and the row of a closed one, and never reopens or
  changes a closed trial. The states of the controller are abstracted to it.
\<close>

subsection \<open>Ledgers\<close>

datatype phase = Open json | Closed jdict

record ledger =
  ld_next :: int
  ld_trial :: "int \<Rightarrow> phase option"

inductive ledger_step :: "ledger \<Rightarrow> ledger \<Rightarrow> bool" where
  open_trial: "ledger_step l (l\<lparr>ld_next := ld_next l + 1, ld_trial := (ld_trial l)(ld_next l \<mapsto> Open params)\<rparr>)"
| close_trial: "ld_trial l i = Some (Open params) \<Longrightarrow> ledger_step l (l\<lparr>ld_trial := (ld_trial l)(i \<mapsto> Closed row)\<rparr>)"
| record_trial: "ledger_step l (l\<lparr>ld_next := ld_next l + 1, ld_trial := (ld_trial l)(ld_next l \<mapsto> Closed row)\<rparr>)"

definition ledger_wf :: "ledger \<Rightarrow> bool" where
  "ledger_wf l \<longleftrightarrow> 1 \<le> ld_next l \<and> (\<forall>i. ld_trial l i \<noteq> None \<longleftrightarrow> 1 \<le> i \<and> i < ld_next l)"

lemma ledger_step_wf: "ledger_step l l' \<Longrightarrow> ledger_wf l \<Longrightarrow> ledger_wf l'"
  by (induction rule: ledger_step.induct) (auto simp: ledger_wf_def split: if_splits)

lemma ledger_known: "ledger_wf l \<Longrightarrow> ld_trial l i = Some x \<Longrightarrow> i \<noteq> ld_next l"
  by (auto simp: ledger_wf_def)

lemma ledger_step_closed: "ledger_step l l' \<Longrightarrow> ledger_wf l \<Longrightarrow> ld_trial l i = Some (Closed r) \<Longrightarrow> ld_trial l' i = Some (Closed r)"
  by (induction rule: ledger_step.induct) (auto dest: ledger_known)

lemma ledger_step_open:
  "ledger_step l l' \<Longrightarrow> ledger_wf l \<Longrightarrow> ld_trial l i = Some (Open p) \<Longrightarrow>
   ld_trial l' i = Some (Open p) \<or> (\<exists>r. ld_trial l' i = Some (Closed r))"
  by (induction rule: ledger_step.induct) (auto dest: ledger_known)

subsection \<open>Abstraction\<close>

definition by_id :: "jdict list \<Rightarrow> int \<Rightarrow> jdict option" where
  "by_id es i = find (\<lambda>e. tid e = i) es"

definition ledger_of :: "campaign \<Rightarrow> ledger" where
  "ledger_of c = \<lparr>ld_next = cp_next c,
     ld_trial = (\<lambda>i. case by_id (cp_observations c) i of
        Some r \<Rightarrow> Some (Closed r)
      | None \<Rightarrow> map_option (\<lambda>e. Open (jget e ''params'')) (by_id (cp_pending c) i))\<rparr>"

lemma by_id_simps [simp]:
  "by_id [] i = None" "by_id (e # es) i = (if tid e = i then Some e else by_id es i)"
  "by_id (xs @ ys) i = (case by_id xs i of None \<Rightarrow> by_id ys i | Some e \<Rightarrow> Some e)"
proof -
  show "by_id (xs @ ys) i = (case by_id xs i of None \<Rightarrow> by_id ys i | Some e \<Rightarrow> Some e)"
    by (induction xs) (auto simp: by_id_def)
qed (auto simp: by_id_def)

lemma by_id_None: "by_id es i = None \<longleftrightarrow> i \<notin> tid ` set es"
  by (induction es) auto

lemma by_id_mem: "distinct (map tid es) \<Longrightarrow> e \<in> set es \<Longrightarrow> by_id es (tid e) = Some e"
  by (induction es) (auto simp: image_iff)

lemma ledger_of_wf: "ids_exact c \<Longrightarrow> ledger_wf (ledger_of c)"
proof -
  assume "ids_exact c"
  then have n: "1 \<le> cp_next c" and s: "set (trial_ids c) = {1..<cp_next c}" by (auto simp: ids_exact_iff)
  have "ld_trial (ledger_of c) i \<noteq> None \<longleftrightarrow> i \<in> set (trial_ids c)" for i
  proof -
    have "ld_trial (ledger_of c) i = None \<longleftrightarrow> by_id (cp_observations c) i = None \<and> by_id (cp_pending c) i = None"
      by (auto simp: ledger_of_def split: option.splits)
    then show ?thesis unfolding by_id_None by (auto simp: trial_ids_def)
  qed
  with n s show ?thesis by (auto simp: ledger_wf_def ledger_of_def)
qed

text \<open>A step of the lifecycle is at most one step of the ledger.\<close>

lemma move_ledger:
  assumes "move c c'" "ids_exact c"
  shows "ledger_of c' = ledger_of c \<or> ledger_step (ledger_of c) (ledger_of c')"
proof -
  have d: "distinct (trial_ids c)" and "cp_next c \<notin> set (trial_ids c)"
    using assms(2) by (auto simp: ids_exact_iff)
  then have fresh: "by_id (cp_observations c) (cp_next c) = None" "by_id (cp_pending c) (cp_next c) = None"
    unfolding by_id_None by (auto simp: trial_ids_def)
  show ?thesis
    using assms(1)
  proof (cases rule: move.cases)
    case (allocate e)
    have "ledger_of c' = ledger_of c\<lparr>ld_next := ld_next (ledger_of c) + 1,
        ld_trial := (ld_trial (ledger_of c))(ld_next (ledger_of c) \<mapsto> Open (jget e ''params''))\<rparr>"
      using fresh allocate(3)
      by (auto simp: ledger_of_def allocate(1) add_suggestion_def fun_eq_iff split: option.splits)
    then show ?thesis by (metis open_trial)
  next
    case (finish xs p ys r)
    have i: "by_id (cp_observations c) (tid p) = None" "by_id xs (tid p) = None" "by_id ys (tid p) = None"
      unfolding by_id_None using d by (auto simp: trial_ids_def finish(2))
    then have "ld_trial (ledger_of c) (tid p) = Some (Open (jget p ''params''))"
      by (auto simp: ledger_of_def finish(2) split: option.splits)
    moreover have "ledger_of c' = ledger_of c\<lparr>ld_trial := (ld_trial (ledger_of c))(tid p \<mapsto> Closed r)\<rparr>"
      using i finish(4)
      by (auto simp: ledger_of_def finish(1,2) fun_eq_iff split: option.splits)
    ultimately show ?thesis by (metis close_trial)
  next
    case (refresh xs p ys e)
    then show ?thesis by (simp add: ledger_of_def fun_eq_iff split: option.splits)
  next
    case (record_row r)
    have "ledger_of c' = ledger_of c\<lparr>ld_next := ld_next (ledger_of c) + 1,
        ld_trial := (ld_trial (ledger_of c))(ld_next (ledger_of c) \<mapsto> Closed r)\<rparr>"
      using fresh record_row(3)
      by (auto simp: ledger_of_def record_row(1) fun_eq_iff split: option.splits)
    then show ?thesis by (metis record_trial)
  next
    case bookkeep
    then show ?thesis unfolding ledger_of_def by presburger
  qed
qed

lemma moves_ledger:
  assumes "moves c c'" "ids_exact c"
  shows "ledger_step\<^sup>*\<^sup>* (ledger_of c) (ledger_of c')"
  using assms
proof (induction rule: rtranclp_induct)
  case (step d e)
  then have "ids_exact d" using moves_ids by blast
  from move_ledger [OF step.hyps(2) this] step show ?case
    by (metis rtranclp.rtrancl_into_rtrancl)
qed simp

lemma ledger_steps_wf: "ledger_step\<^sup>*\<^sup>* l l' \<Longrightarrow> ledger_wf l \<Longrightarrow> ledger_wf l'"
  by (induction rule: rtranclp_induct) (auto intro: ledger_step_wf)

text \<open>Closed trials stay as they are; open trials stay open with their parameters or are closed.\<close>

lemma ledger_steps_closed:
  assumes "ledger_step\<^sup>*\<^sup>* l l'" "ledger_wf l" "ld_trial l i = Some (Closed r)"
  shows "ld_trial l' i = Some (Closed r)"
  using assms
proof (induction rule: rtranclp_induct)
  case (step l' l'')
  then show ?case using ledger_steps_wf [OF step.hyps(1)] by (blast intro: ledger_step_closed)
qed simp

lemma ledger_steps_open:
  assumes "ledger_step\<^sup>*\<^sup>* l l'" "ledger_wf l" "ld_trial l i = Some (Open p)"
  shows "ld_trial l' i = Some (Open p) \<or> (\<exists>r. ld_trial l' i = Some (Closed r))"
  using assms
proof (induction rule: rtranclp_induct)
  case (step l' l'')
  note wf = ledger_steps_wf [OF step.hyps(1) step.prems(1)]
  from step.IH [OF step.prems] show ?case
    using ledger_step_open [OF step.hyps(2) wf] ledger_step_closed [OF step.hyps(2) wf] by blast
qed simp

end
