(* ===== verification/Refinement.thy ===== *)
theory Refinement
  imports Lifecycle
begin

text \<open>
  Every command refines the lifecycle steps: a small calculus for the effects of a command
  on the state file and the observation table, and for each command the proof that what it
  writes is reached by lifecycle steps from what it read.
\<close>

subsection \<open>Effects on the state file and the table\<close>

type_synonym core = "campaign option \<times> jdict list"

definition core :: "world \<Rightarrow> core" where
  "core w = (w_state w, w_rows w)"

definition quiet :: "'a cmd \<Rightarrow> bool" where
  "quiet m \<longleftrightarrow> (\<forall>w. core (snd (m w)) = core w)"

definition yields :: "'a cmd \<Rightarrow> ('a \<Rightarrow> bool) \<Rightarrow> bool" where
  "yields m R \<longleftrightarrow> (\<forall>w x. fst (m w) = Inr x \<longrightarrow> R x)"

text \<open>From the files \<open>k\<close>, the command ends normally in \<open>Q\<close> or raises in \<open>E\<close>.\<close>

definition ends :: "('a \<Rightarrow> core \<Rightarrow> bool) \<Rightarrow> (exn \<Rightarrow> core \<Rightarrow> bool) \<Rightarrow> 'a res \<times> world \<Rightarrow> bool" where
  "ends Q E r = (case fst r of Inl e \<Rightarrow> E e (core (snd r)) | Inr x \<Rightarrow> Q x (core (snd r)))"

definition runs :: "core \<Rightarrow> 'a cmd \<Rightarrow> ('a \<Rightarrow> core \<Rightarrow> bool) \<Rightarrow> (exn \<Rightarrow> core \<Rightarrow> bool) \<Rightarrow> bool" where
  "runs k m Q E \<longleftrightarrow> (\<forall>w. core w = k \<longrightarrow> ends Q E (m w))"

lemma runsI: "(\<And>w. core w = k \<Longrightarrow> ends Q E (m w)) \<Longrightarrow> runs k m Q E"
  by (simp add: runs_def)

lemma runsD: "runs k m Q E \<Longrightarrow> core w = k \<Longrightarrow> ends Q E (m w)"
  by (simp add: runs_def)

named_theorems quiet_intros

lemma quiet_basic [quiet_intros]:
  "quiet (retC x)" "quiet (liftC r)" "quiet (getC f)" "quiet (observeC g)"
  by (simp_all add: quiet_def retC_def liftC_def getC_def observeC_def core_def)

lemma quiet_updC: "(\<And>w. core (f w) = core w) \<Longrightarrow> quiet (updC f)"
  by (simp add: quiet_def updC_def)

lemma quiet_bindC [quiet_intros]: "quiet m \<Longrightarrow> (\<And>x. quiet (f x)) \<Longrightarrow> quiet (bindC m f)"
  unfolding quiet_def bindC_def by (auto split: prod.splits sum.splits) (metis snd_conv)+

lemma quiet_thenC [quiet_intros]: "quiet m \<Longrightarrow> quiet m' \<Longrightarrow> quiet (thenC m m')"
  unfolding thenC_def by (rule quiet_bindC)

lemma quiet_finallyC [quiet_intros]: "quiet m \<Longrightarrow> quiet c \<Longrightarrow> quiet (finallyC m c)"
  unfolding quiet_def finallyC_def by (auto split: prod.splits sum.splits) (metis snd_conv)+

lemma quiet_whenC [quiet_intros]: "quiet m \<Longrightarrow> quiet (whenC b m)"
  by (simp add: whenC_def quiet_basic)

lemma quiet_forC [quiet_intros]: "(\<And>x. quiet (f x)) \<Longrightarrow> quiet (forC f xs)"
  by (induction xs) (auto intro: quiet_intros)

lemma quiet_events [quiet_intros]:
  "quiet (append_event s ev extra)" "quiet (append_acquisition s i d l)"
  unfolding append_event_def append_acquisition_def
  by (intro quiet_intros quiet_updC; simp add: core_def)+

lemma quiet_governance [quiet_intros]:
  "quiet (append_governance_override_event s cmd i st src reason)"
  "quiet (override_events_for s cmd src rows)"
  "quiet (append_governance_violation_event s c cmd)"
proof -
  show a: "quiet (append_governance_override_event s cmd i st src reason)" for s :: "'x settings" and cmd i st src reason
    unfolding append_governance_override_event_def Let_def
    by (intro quiet_intros) (auto intro: quiet_intros split: if_splits)
  show "quiet (override_events_for s cmd src rows)"
    unfolding override_events_for_def by (intro quiet_intros) (auto intro: quiet_intros a split: json.splits)
  show "quiet (append_governance_violation_event s c cmd)"
    unfolding append_governance_violation_event_def Let_def
    by (intro quiet_intros) (auto intro: quiet_intros)
qed

lemma quiet_files [quiet_intros]:
  "quiet (load_stateC s)" "quiet (update_bestC s c)"
  "quiet (ensure_pending_manifest s e now)" "quiet (ensure_terminal_manifest s r copy now)"
  "quiet (audit_start s cmd)" "quiet (audit_end s cmd)"
  unfolding load_stateC_def update_bestC_def ensure_pending_manifest_def ensure_terminal_manifest_def audit_start_def audit_end_def
  by (intro quiet_intros quiet_updC; simp add: core_def)+

subsection \<open>Running a command\<close>

lemma runs_quiet: "quiet m \<Longrightarrow> (\<And>x. Q x k) \<Longrightarrow> (\<And>e. E e k) \<Longrightarrow> runs k m Q E"
  by (auto simp: quiet_def ends_def intro!: runsI split: sum.splits)

lemma runs_ret: "Q x k \<Longrightarrow> runs k (retC x) Q E"
  by (simp add: runs_def retC_def ends_def)

lemma runs_mono:
  "runs k m Q E \<Longrightarrow> (\<And>x k'. Q x k' \<Longrightarrow> Q' x k') \<Longrightarrow> (\<And>e k'. E e k' \<Longrightarrow> E' e k') \<Longrightarrow> runs k m Q' E'"
  by (auto simp: runs_def ends_def split: sum.splits)

lemma runs_if: "(b \<Longrightarrow> runs k m Q E) \<Longrightarrow> (\<not> b \<Longrightarrow> runs k m' Q E) \<Longrightarrow> runs k (if b then m else m') Q E"
  by simp

lemma runs_bind: "runs k m (\<lambda>x k'. runs k' (f x) Q E) E \<Longrightarrow> runs k (bindC m f) Q E"
  unfolding runs_def ends_def bindC_def
  by (intro allI impI) (drule spec, drule (1) mp, auto split: prod.splits sum.splits)

lemma runs_bind_quiet:
  assumes "quiet m" "yields m R" "\<And>e. E e k" "\<And>x. R x \<Longrightarrow> runs k (f x) Q E"
  shows "runs k (bindC m f) Q E"
  using assms by (intro runs_bind runsI) (auto simp: quiet_def yields_def ends_def split: sum.splits)

lemma yields_True: "yields m (\<lambda>_. True)"
  by (simp add: yields_def)

lemma yields_lift: "yields (liftC r) (\<lambda>x. r = Inr x)"
  by (auto simp: yields_def liftC_def)

lemmas runs_bind_any = runs_bind_quiet [OF _ yields_True]
lemmas runs_bind_lift = runs_bind_quiet [OF quiet_basic(2) yields_lift]

lemma runs_then_quiet: "quiet m \<Longrightarrow> (\<And>e. E e k) \<Longrightarrow> runs k m' Q E \<Longrightarrow> runs k (thenC m m') Q E"
  unfolding thenC_def by (rule runs_bind_any)

lemma runs_load:
  assumes "\<And>e. E e k" "\<And>now c. load_state (fst k) now = Inr c \<Longrightarrow> runs k (f c) Q E"
  shows "runs k (bindC (load_stateC s) f) Q E"
proof (rule runsI)
  fix w assume k: "core w = k"
  have "ends Q E (bindC (liftC (load_state (w_state w) (s_clock s (w_tick w)))) f (w\<lparr>w_tick := Suc (w_tick w)\<rparr>))"
    using assms k by (intro runsD [where k = k] runs_bind_lift) (auto simp: core_def)
  then show "ends Q E (bindC (load_stateC s) f w)"
    by (simp add: load_stateC_def bindC_def getC_def observeC_def)
qed

lemma yields_best: "yields (update_bestC s c) (\<lambda>c'. \<exists>now. update_best c (s_objective s) now = Inr c')"
  by (auto simp: yields_def update_bestC_def bindC_def observeC_def liftC_def)

lemmas runs_best = runs_bind_quiet [OF quiet_files(2) yields_best]

lemma runs_save: "runs (Some (persisted c), snd k) m Q E \<Longrightarrow> runs k (thenC (save_state c) m) Q E"
  by (rule runsI) (simp add: thenC_def bindC_def save_state_def updC_def, erule runsD, auto simp: core_def)

lemma runs_rows: "observation_rows c = Inr rows \<Longrightarrow> runs (fst k, rows) m Q E \<Longrightarrow> runs k (thenC (write_obs_csv c) m) Q E"
  by (rule runsI) (simp add: thenC_def bindC_def write_obs_csv_def updC_def liftC_def, erule runsD, auto simp: core_def)

lemma thenC_assoc: "thenC (thenC a b) c = thenC a (thenC b c)"
  by (simp add: thenC_def bindC_def fun_eq_iff split: prod.splits sum.splits)

lemma runs_save_rows:
  "observation_rows c = Inr rows \<Longrightarrow> runs (Some (persisted c), rows) m Q E \<Longrightarrow> runs k (thenC (save_state_and_rows c) m) Q E"
  unfolding save_state_and_rows_def thenC_assoc by (rule runs_save, erule runs_rows) simp

lemma runs_finally:
  assumes "quiet c" "\<And>x k e. Q x k \<Longrightarrow> E e k" "\<And>e e' k. E e k \<Longrightarrow> E e' k" "runs k m Q E"
  shows "runs k (finallyC m c) Q E"
proof (rule runsI)
  fix w assume "core w = k"
  with assms(4) have m: "ends Q E (m w)" by (rule runsD)
  from assms(1) have "core (snd (c (snd (m w)))) = core (snd (m w))" by (simp add: quiet_def)
  with m assms(2) [of _ "core (snd (m w))"] assms(3) [of _ "core (snd (m w))"] show "ends Q E (finallyC m c w)"
    by (auto simp: ends_def finallyC_def split: prod.splits sum.splits)
qed

lemma runs_locked:
  "runs k m (\<lambda>_. P) (\<lambda>_. P) \<Longrightarrow> P k \<Longrightarrow> runs k (locked s cmd m) (\<lambda>_. P) (\<lambda>_. P)"
  unfolding locked_def by (intro runs_then_quiet runs_finally quiet_intros)

subsection \<open>Commits\<close>

definition source :: "campaign option \<Rightarrow> pyfloat \<Rightarrow> campaign" where
  "source st now = (case st of None \<Rightarrow> fresh_state now | Some c \<Rightarrow> c)"

text \<open>A consistent pair of files: well-formed entries, and the table that belongs to the state.\<close>

definition core_ok :: "core \<Rightarrow> bool" where
  "core_ok k = (case fst k of None \<Rightarrow> snd k = [] | Some c \<Rightarrow> cp_wf c \<and> observation_rows c = Inr (snd k))"

text \<open>The files after a command: unchanged, or the result of lifecycle steps with the best record kept right.\<close>

definition advance :: "objective_cfg \<Rightarrow> core \<Rightarrow> core \<Rightarrow> bool" where
  "advance cfg k k' \<longleftrightarrow> core_ok k' \<and> (k' = k \<or>
     (\<exists>now c'. fst k' = Some c' \<and> moves (source (fst k) now) c' \<and>
        (best_current cfg (source (fst k) now) \<longrightarrow> best_current cfg c')))"

definition loaded :: "core \<Rightarrow> campaign \<Rightarrow> bool" where
  "loaded k c \<longleftrightarrow> core_ok k \<and> (\<exists>now. sidelines (source (fst k) now) c)"

lemma fresh_wf [simp]: "cp_wf (fresh_state now)"
  by (simp add: cp_wf_def fresh_state_def)

lemma sidelines_wf: "sidelines c c' \<Longrightarrow> cp_wf c \<Longrightarrow> cp_wf c'"
  by (auto simp: sidelines_def intro: moves_wf)

lemma loaded_wf: "loaded k c \<Longrightarrow> cp_wf c"
  by (auto simp: loaded_def core_ok_def source_def split: option.splits intro: sidelines_wf)

lemma loaded_sidelines: "loaded k c \<Longrightarrow> sidelines c c' \<Longrightarrow> loaded k c'"
  unfolding loaded_def by (blast intro: sidelines_trans)

lemma advance_refl: "core_ok k \<Longrightarrow> advance cfg k k"
  by (simp add: advance_def)

lemma loaded_advance: "loaded k c \<Longrightarrow> advance cfg k k"
  by (simp add: loaded_def advance_def)

lemma persisted_simps [simp]:
  "cp_observations (persisted c) = cp_observations c" "cp_pending (persisted c) = cp_pending c"
  "cp_next (persisted c) = cp_next c" "cp_best (persisted c) = cp_best c" "cp_wf (persisted c) = cp_wf c"
  "observation_rows (persisted c) = observation_rows c" "ok_rows (persisted c) = ok_rows c"
  by (simp_all add: persisted_def cp_wf_def observation_rows_def ok_rows_def)

lemma commit:
  assumes "loaded k c" "moves c c'" "best_current cfg c \<longrightarrow> best_current cfg c'" "observation_rows c' = Inr rows"
  shows "advance cfg k (Some (persisted c'), rows)"
proof -
  from assms(1) obtain now where now: "sidelines (source (fst k) now) c" by (auto simp: loaded_def)
  have "moves (source (fst k) now) (persisted c')"
    using now assms(2) persisted_moves [of c'] by (meson rtranclp_trans sidelines_def)
  moreover have "best_current cfg (source (fst k) now) \<longrightarrow> best_current cfg (persisted c')"
    using now assms(3) best_current_cong [of c "source (fst k) now" cfg] best_current_cong [of "persisted c'" c' cfg]
    by (auto simp: sidelines_def)
  moreover have "cp_wf c'" using moves_wf [OF assms(2) loaded_wf [OF assms(1)]] .
  ultimately show ?thesis using assms(4) by (auto simp: advance_def core_ok_def)
qed

text \<open>A state just loaded has the rows of the stored table.\<close>

lemma runs_loaded:
  assumes "core_ok k"
    and "\<And>c. loaded k c \<Longrightarrow> observation_rows c = Inr (snd k) \<Longrightarrow> runs k (f c) (\<lambda>_. advance cfg k) (\<lambda>_. advance cfg k)"
  shows "runs k (bindC (load_stateC s) f) (\<lambda>_. advance cfg k) (\<lambda>_. advance cfg k)"
proof (rule runs_load)
  show "advance cfg k k" using assms(1) by (rule advance_refl)
  show "runs k (f c) (\<lambda>_. advance cfg k) (\<lambda>_. advance cfg k)" if c: "load_state (fst k) now = Inr c" for now c
  proof (rule assms(2))
    show "loaded k c" using load_state_moves [OF c] assms(1) by (auto simp: loaded_def source_def)
    have "cp_observations c = cp_observations (source (fst k) now)"
      using c by (auto simp: load_state_def source_def return_iff Let_def)
    with assms(1) show "observation_rows c = Inr (snd k)"
      by (auto simp: observation_rows_def core_ok_def source_def fresh_state_def split: option.splits)
  qed
qed

text \<open>A commit of new rows: the table can be written, and what follows leaves both files alone.\<close>

lemma runs_commit:
  assumes "loaded k c" "moves c c'" "best_current cfg c'" "quiet m"
  shows "runs k (thenC (save_state_and_rows c') m) (\<lambda>_. advance cfg k) (\<lambda>_. advance cfg k)"
proof -
  obtain rows where rows: "observation_rows c' = Inr rows"
    using observation_rows_total [OF moves_wf [OF assms(2) loaded_wf [OF assms(1)]]] ..
  show ?thesis
    by (rule runs_save_rows [OF rows]) (auto intro!: runs_quiet assms(4) commit [OF assms(1,2)] simp: rows assms(3))
qed

subsection \<open>cancel, retire and heartbeat\<close>

text \<open>What a command that finishes trials hands to the commit.\<close>

lemma finish_commit:
  assumes "loaded k c" "pop_pending c i = Inr (Some p, c1)" "row_wf r" "tid r = i"
    and "\<exists>now. update_best (c1\<lparr>cp_observations := cp_observations c1 @ [r]\<rparr>) cfg now = Inr c2"
  shows "moves c c2" "best_current cfg c2"
  using pop_finish [OF loaded_wf [OF assms(1)] assms(2-4)] assms(5)
  by (auto dest: update_best_current(1,4) intro: converse_rtranclp_into_rtranclp)

lemma killed_commit:
  assumes "loaded k c" "pop_pending c i = Inr (Some p, c1)" "new_terminal_observation p cfg reason now = Inr r"
    and "\<exists>now. update_best (c1\<lparr>cp_observations := cp_observations c1 @ [r]\<rparr>) cfg now = Inr c2"
  shows "moves c c2" "best_current cfg c2"
proof -
  from pop_pending_wf [OF loaded_wf [OF assms(1)] assms(2)] have "entry_wf p" "tid p = i" by auto
  with new_terminal_wf [OF _ assms(3)] have "row_wf r" "tid r = i" by auto
  from finish_commit [OF assms(1,2) this assms(4)] show "moves c c2" "best_current cfg c2" .
qed

lemma cancel_refines:
  assumes "core_ok k"
  shows "runs k (cancel_body s i reason) (\<lambda>_. advance (s_objective s) k) (\<lambda>_. advance (s_objective s) k)"
  unfolding cancel_body_def
proof (rule runs_loaded [OF assms], rule runs_bind_lift, goal_cases)
  case (1 c e)
  show ?case by (rule loaded_advance [OF 1(1)])
next
  case (2 c x)
  note refl = loaded_advance [OF 2(1)] and pop = 2(3)
  show ?case
  proof (cases x)
    case (Pair popped c1)
    show ?thesis
    proof (cases popped)
      case None
      then show ?thesis by (simp add: Pair) (intro runs_quiet quiet_intros refl)
    next
      case (Some p)
      show ?thesis
        unfolding Pair Some prod.case option.case
        by (intro runs_bind_any runs_bind_lift runs_best runs_then_quiet runs_commit [OF 2(1)] quiet_intros refl)
          (rule killed_commit [OF 2(1) pop [unfolded Pair Some]]; assumption)+
    qed
  qed
qed

lemma retire_refines:
  assumes "core_ok k"
  shows "runs k (retire_body s explicit limit reason) (\<lambda>_. advance (s_objective s) k) (\<lambda>_. advance (s_objective s) k)"
  unfolding retire_body_def
proof (rule runs_loaded [OF assms], rule runs_bind_any [OF quiet_basic(4)], rule_tac [2] runs_bind_lift,
    rule_tac [3] runs_bind_lift, goal_cases)
  case (4 c now stale x)
  note refl = loaded_advance [OF 4(1)]
  obtain c1 rows where x: "x = (c1, rows)" by (cases x)
  have step: "sidelines c c1" using retire_targets_step(1) 4(5) loaded_wf [OF 4(1)] unfolding x by blast
  have moves: "moves c c2" "best_current (s_objective s) c2" if "\<exists>now. update_best c1 (s_objective s) now = Inr c2" for c2
    using that step by (auto simp: sidelines_def dest: update_best_current(1,4) intro: rtranclp_trans)
  show ?case
  proof (cases "rows = []")
    case True
    then show ?thesis by (simp add: x) (intro runs_quiet quiet_intros refl)
  next
    case False
    show ?thesis
      unfolding x prod.case if_not_P [OF False]
      by (intro runs_best runs_then_quiet runs_commit [OF 4(1)] quiet_intros refl) (rule moves; assumption)+
  qed
qed (auto intro: loaded_advance)

text \<open>A heartbeat replaces one pending entry and leaves the rows alone.\<close>

lemma heartbeat_commit:
  assumes "loaded k c" "observation_rows c = Inr (snd k)" "pending_index (cp_pending c) t = Inr (Some i)"
    and "heartbeat_entry (cp_pending c ! i) beat remark extra = Inr e"
  shows "advance cfg k (Some (persisted (c\<lparr>cp_pending := (cp_pending c)[i := e]\<rparr>)), snd k)"
proof (rule commit [OF assms(1)])
  have wf: "list_all entry_wf (cp_pending c)" using loaded_wf [OF assms(1)] by (simp add: cp_wf_def)
  from pending_index_wf [OF this, of t] assms(3) have i: "i < length (cp_pending c)" by simp
  with wf have "entry_wf (cp_pending c ! i)" by (simp add: list_all_length)
  note e = heartbeat_entry_wf [OF this assms(4)]
  have "move c (c\<lparr>cp_pending := take i (cp_pending c) @ e # drop (Suc i) (cp_pending c)\<rparr>)"
    using e by (intro refresh [OF id_take_nth_drop [OF i]]) auto
  then show "moves c (c\<lparr>cp_pending := (cp_pending c)[i := e]\<rparr>)" by (simp add: upd_conv_take_nth_drop i r_into_rtranclp)
  show "best_current cfg c \<longrightarrow> best_current cfg (c\<lparr>cp_pending := (cp_pending c)[i := e]\<rparr>)"
    using best_current_cong [of "c\<lparr>cp_pending := (cp_pending c)[i := e]\<rparr>" c cfg] by (simp add: ok_rows_def)
  show "observation_rows (c\<lparr>cp_pending := (cp_pending c)[i := e]\<rparr>) = Inr (snd k)"
    using assms(2) by (simp add: observation_rows_def)
qed

lemma heartbeat_refines:
  assumes "core_ok k"
  shows "runs k (heartbeat_body s t given remark extra lease) (\<lambda>_. advance (s_objective s) k) (\<lambda>_. advance (s_objective s) k)"
  unfolding heartbeat_body_def
proof (rule runs_loaded [OF assms], rule runs_bind_lift, goal_cases)
  case (1 c e)
  show ?case by (rule loaded_advance [OF 1(1)])
next
  case (2 c idx)
  note refl = loaded_advance [OF 2(1)]
  show ?case
  proof (cases idx)
    case None
    then show ?thesis by simp (intro runs_quiet quiet_intros refl)
  next
    case (Some i)
    have q: "quiet (case given of None \<Rightarrow> nowC s | Some x \<Rightarrow> retC x)" by (cases given) (simp_all add: quiet_basic)
    have commit: "advance (s_objective s) k (Some (persisted (c\<lparr>cp_pending := (cp_pending c)[i := e]\<rparr>)), snd k)"
      if "heartbeat_entry (cp_pending c ! i) beat remark m = Inr e" for e beat m
      using heartbeat_commit [OF 2(1,2) 2(3) [unfolded Some] that] .
    have main: "runs k
       (bindC (liftC (parse_heartbeat_meta extra)) (\<lambda>m.
         thenC (liftC (require_matching_lease_token (cp_pending c ! i) lease))
         (bindC (liftC (heartbeat_entry (cp_pending c ! i) beat remark m)) (\<lambda>e.
         let c' = c\<lparr>cp_pending := (cp_pending c)[i := e]\<rparr> in
         thenC (bindC (nowC s) (ensure_pending_manifest s e))
         (thenC (save_state c')
         (thenC (append_event s ''heartbeat'' [(''trial_id'', JInt t), (''heartbeat_at'', JFloat beat)])
         (append_governance_violation_event s c' ''heartbeat''))))))) (\<lambda>_. advance (s_objective s) k) (\<lambda>_. advance (s_objective s) k)"
      for beat
      unfolding Let_def
      by (intro runs_bind_lift runs_then_quiet runs_save quiet_intros refl runs_quiet commit; assumption)
    show ?thesis
      unfolding Some option.case
      by (intro runs_bind_any q refl) (auto intro: main runs_quiet quiet_intros refl)
  qed
qed

subsection \<open>ingest\<close>

lemma ingest_commit:
  assumes "loaded k c" "ingest_payload s raw = Inr (payload, i, beats)" "pop_pending c i = Inr (Some p, c1)"
    and "ingested_observation (s_objective s) p payload i beats now = Inr row"
    and "\<exists>now. update_best (c1\<lparr>cp_observations := cp_observations c1 @ [row]\<rparr>) (s_objective s) now = Inr c2"
  shows "moves c (c2\<lparr>cp_observations := cp_observations c1 @ [dset ''artifact_path'' v row]\<rparr>)"
    "best_current (s_objective s) (c2\<lparr>cp_observations := cp_observations c1 @ [dset ''artifact_path'' v row]\<rparr>)"
proof -
  let ?row' = "dset ''artifact_path'' v row"
  have "token_ok p" using pop_pending_wf [OF loaded_wf [OF assms(1)] assms(3)] by (auto simp: entry_wf_def)
  then have "row_wf ?row'" "tid ?row' = i" using ingested_row_wf [OF assms(2,4)] by auto
  note mv = pop_finish [OF loaded_wf [OF assms(1)] assms(3) this]
  from assms(5) obtain t where up: "update_best (c1\<lparr>cp_observations := cp_observations c1 @ [row]\<rparr>) (s_objective s) t = Inr c2" ..
  obtain b where b: "c2 = c1\<lparr>cp_observations := cp_observations c1 @ [row], cp_best := b\<rparr>"
    using update_best_current(2) [OF up] by simp
  have "move (c1\<lparr>cp_observations := cp_observations c1 @ [?row']\<rparr>) (c2\<lparr>cp_observations := cp_observations c1 @ [?row']\<rparr>)"
    by (rule bookkeep) (simp_all add: b)
  with mv show "moves c (c2\<lparr>cp_observations := cp_observations c1 @ [?row']\<rparr>)"
    by (auto intro: converse_rtranclp_into_rtranclp)
  have "c2 = c2\<lparr>cp_observations := cp_observations c1 @ [row]\<rparr>" by (simp add: b)
  with update_best_current(1) [OF up] best_current_artifact [where c = c2 and rs = "cp_observations c1" and r = row]
  show "best_current (s_objective s) (c2\<lparr>cp_observations := cp_observations c1 @ [?row']\<rparr>)" by simp
qed

lemma ingest_apply_refines:
  assumes "loaded k c" "ingest_payload s raw = Inr (payload, i, beats)"
  shows "runs k (ingest_apply s c payload i beats) (\<lambda>_. advance (s_objective s) k) (\<lambda>_. advance (s_objective s) k)"
  unfolding ingest_apply_def
proof (rule runs_bind_lift, goal_cases)
  case (1 e)
  show ?case by (rule loaded_advance [OF assms(1)])
next
  case (2 x)
  note refl = loaded_advance [OF assms(1)]
  obtain popped c1 where x: "x = (popped, c1)" by (cases x)
  show ?case
  proof (cases popped)
    case None
    then show ?thesis by (simp add: x) (intro runs_quiet quiet_intros refl)
  next
    case (Some p)
    have q: "quiet (updC (\<lambda>w. w\<lparr>w_payloads := dset i payload (w_payloads w)\<rparr>))" by (rule quiet_updC) (simp add: core_def)
    show ?thesis
      unfolding x Some prod.case option.case Let_def
      by (intro runs_bind_any runs_bind_lift runs_best runs_then_quiet runs_commit [OF assms(1)] quiet_intros q refl)
        (rule ingest_commit [OF assms 2 [unfolded x Some]]; assumption)+
  qed
qed

lemma ingest_refines:
  assumes "core_ok k"
  shows "runs k (ingest_body s raw lease) (\<lambda>_. advance (s_objective s) k) (\<lambda>_. advance (s_objective s) k)"
  unfolding ingest_body_def
proof (rule runs_loaded [OF assms], rule runs_bind_lift, goal_cases)
  case (1 c e)
  show ?case by (rule loaded_advance [OF 1(1)])
next
  case (2 c x)
  note refl = loaded_advance [OF 2(1)]
  obtain payload i beats where x: "x = (payload, i, beats)" by (cases x)
  have main: "runs k (case map_of pending i of
         None \<Rightarrow> thenC (liftC (ingest_replay s c payload i))
           (thenC (append_event s ''ingest_duplicate_noop'' [(''trial_id'', JInt i)]) (retC (Duplicate i)))
       | Some entry \<Rightarrow> thenC (liftC (ingest_guard s c entry payload lease)) (ingest_apply s c payload i beats))
       (\<lambda>_. advance (s_objective s) k) (\<lambda>_. advance (s_objective s) k)" for pending
    using ingest_apply_refines [OF 2(1) 2(3) [unfolded x]]
    by (cases "map_of pending i") (simp_all, intro runs_quiet quiet_intros refl, intro runs_then_quiet quiet_intros refl)
  show ?case
    unfolding x prod.case by (intro runs_bind_lift refl main)
qed

subsection \<open>suggest\<close>

lemma runs_after:
  assumes "runs k m (\<lambda>_. P) (\<lambda>_. P)" "quiet m'"
  shows "runs k (thenC m m') (\<lambda>_. P) (\<lambda>_. P)"
proof (unfold thenC_def, rule runs_bind, rule runsI)
  fix w assume "core w = k"
  with assms(1) have "ends (\<lambda>_. P) (\<lambda>_. P) (m w)" by (rule runsD)
  then show "ends (\<lambda>x k'. runs k' m' (\<lambda>_. P) (\<lambda>_. P)) (\<lambda>_. P) (m w)"
    by (auto simp: ends_def intro: runs_quiet [OF assms(2)] split: sum.splits)
qed

lemma runs_save_end: "Q () (Some (persisted c), snd k) \<Longrightarrow> runs k (save_state c) Q E"
  by (auto simp: runs_def ends_def save_state_def updC_def core_def)

lemma thenC_ret [simp]: "thenC (retC ()) m = m"
  by (simp add: thenC_def bindC_def retC_def fun_eq_iff)

lemma thenC_retC: "thenC m (retC ()) = m"
proof
  fix w
  show "thenC m (retC ()) w = m w"
    by (cases "m w"; cases "fst (m w)") (simp_all add: thenC_def bindC_def retC_def)
qed

lemma yields_bind: "(\<And>x. yields (f x) R) \<Longrightarrow> yields (bindC m f) R"
  by (auto simp: yields_def bindC_def split: prod.splits sum.splits)

lemma yields_bind_lift: "(\<And>x. r = Inr x \<Longrightarrow> yields (f x) R) \<Longrightarrow> yields (bindC (liftC r) f) R"
  by (cases r) (auto simp: yields_def bindC_def liftC_def)

lemma yields_then: "yields m' R \<Longrightarrow> yields (thenC m m') R"
  unfolding thenC_def by (rule yields_bind)

lemma yields_ret: "R x \<Longrightarrow> yields (retC x) R"
  by (simp add: yields_def retC_def)

definition retired_from :: "campaign \<Rightarrow> campaign \<times> jdict list \<Rightarrow> bool" where
  "retired_from c x = (sidelines c (fst x) \<and> cp_observations (fst x) = cp_observations c @ snd x)"

lemma retire_stale_now_facts:
  assumes "cp_wf c"
  shows "quiet (retire_stale_now s max_age c)" "yields (retire_stale_now s max_age c) (retired_from c)"
proof -
  show "quiet (retire_stale_now s max_age c)"
    unfolding retire_stale_now_def
    by (cases max_age) (auto intro!: quiet_intros split: prod.splits)
  have "retired_from c x" if "retire_stale_pending c (s_objective s) limit now ''retired_stale_auto'' = Inr x" for limit now x
    using retire_stale_step [of c _ limit now _ "fst x" "snd x"] that assms by (simp add: retired_from_def)
  then show "yields (retire_stale_now s max_age c) (retired_from c)"
    unfolding retire_stale_now_def
    by (cases max_age)
      (auto intro!: yields_bind yields_bind_lift yields_then yields_ret simp: retired_from_def split: prod.splits)
qed

definition planned_from :: "campaign \<Rightarrow> plan \<Rightarrow> bool" where
  "planned_from c p = (case p of Planned c' _ \<Rightarrow> sidelines c c' \<and> cp_observations c' = cp_observations c | Exhausted _ _ _ \<Rightarrow> True)"

lemma plan_batch_quiet: "quiet (plan_batch s leases n c planned)"
  by (induction n arbitrary: c planned)
    (auto intro!: quiet_intros simp: Let_def split: proposal.splits if_splits)

lemma plan_batch_yields: "yields (plan_batch s leases n c planned) (planned_from c)"
proof (induction n arbitrary: c planned)
  case 0
  then show ?case by (auto intro: yields_ret simp: planned_from_def)
next
  case (Suc n)
  have "yields (plan_batch s leases n (add_suggestion c e) ps) (planned_from c)"
    if "e = suggestion_of c version cand now lease" for e ps version cand now lease
    using Suc.IH [of "add_suggestion c e" ps] suggestion_sidelines [of c version cand now lease] that
    by (fastforce simp: yields_def planned_from_def add_suggestion_def split: plan.splits intro: sidelines_trans)
  moreover have "planned_from c (Exhausted c' d l)" for c' d l by (simp add: planned_from_def)
  ultimately show ?case
    by (auto intro!: yields_bind yields_ret simp: Let_def split: proposal.splits)
qed


lemma suggest_nothing_refines:
  assumes "loaded k c" "rows = [] \<Longrightarrow> observation_rows c = Inr (snd k)"
  shows "runs k (suggest_nothing s c rows why) (\<lambda>_. advance (s_objective s) k) (\<lambda>_. advance (s_objective s) k)"
  unfolding suggest_nothing_def
proof (rule runs_after)
  note refl = loaded_advance [OF assms(1)]
  have upd: "runs k (thenC (save_state_and_rows c') (append_governance_violation_event s c' ''suggest''))
      (\<lambda>_. advance (s_objective s) k) (\<lambda>_. advance (s_objective s) k)"
    if "\<exists>now. update_best c (s_objective s) now = Inr c'" for c'
    using that by (intro runs_commit [OF assms(1)] quiet_intros) (auto dest: update_best_current(1,4))
  have save: "runs k (save_state c) (\<lambda>_. advance (s_objective s) k) (\<lambda>_. advance (s_objective s) k)" if "rows = []"
    using assms(2) [OF that] by (intro runs_save_end commit [OF assms(1)]) auto
  show "runs k (if rows \<noteq> [] then bindC (update_bestC s c) (\<lambda>c'. thenC (save_state_and_rows c') (append_governance_violation_event s c' ''suggest''))
            else whenC (cp_upgrade c) (save_state c)) (\<lambda>_. advance (s_objective s) k) (\<lambda>_. advance (s_objective s) k)"
    unfolding whenC_def by (intro runs_if runs_best upd refl runs_ret save; simp)
qed (rule quiet_basic)

text \<open>The state is saved, and the table when rows were added.\<close>

lemma runs_save_when:
  assumes "loaded k c" "sidelines c c'" "observation_rows c' = Inr r" "rows = [] \<Longrightarrow> r = snd k" "quiet q" "quiet m"
  shows "runs k (thenC (save_state c') (thenC (whenC (rows \<noteq> []) (thenC (write_obs_csv c') q)) m))
    (\<lambda>_. advance (s_objective s) k) (\<lambda>_. advance (s_objective s) k)"
proof -
  have "moves c c'" "best_current (s_objective s) c \<longrightarrow> best_current (s_objective s) c'"
    using assms(2) best_current_cong [of c' c "s_objective s"] by (simp_all add: sidelines_def)
  from commit [OF assms(1) this assms(3)] have adv: "advance (s_objective s) k (Some (persisted c'), r)" .
  have "runs (Some (persisted c'), snd k) (thenC (write_obs_csv c') (thenC q m)) (\<lambda>_. advance (s_objective s) k) (\<lambda>_. advance (s_objective s) k)"
    by (rule runs_rows [OF assms(3)]) (auto intro!: runs_quiet quiet_intros assms(5,6) adv)
  moreover have "runs (Some (persisted c'), snd k) m (\<lambda>_. advance (s_objective s) k) (\<lambda>_. advance (s_objective s) k)" if "rows = []"
    using adv assms(4) [OF that] by (intro runs_quiet assms(6)) auto
  ultimately show ?thesis
    by (cases "rows = []") (auto simp: whenC_def thenC_assoc intro!: runs_save)
qed

lemma suggest_commit_refines:
  assumes "loaded k c" "sidelines c c'" "observation_rows c' = Inr r" "rows = [] \<Longrightarrow> r = snd k"
  shows "runs k (suggest_commit s c' rows planned) (\<lambda>_. advance (s_objective s) k) (\<lambda>_. advance (s_objective s) k)"
proof -
  have w: "whenC (rows \<noteq> []) (write_obs_csv c') = whenC (rows \<noteq> []) (thenC (write_obs_csv c') (retC ()))"
    by (simp only: thenC_retC)
  have "quiet (case x of (e, _, _) \<Rightarrow> bindC (nowC s) (ensure_pending_manifest s e))"
    "quiet (case x of (e, decision, latency) \<Rightarrow> bindC (liftC (entry_id e)) (\<lambda>tid.
         thenC (append_acquisition s tid decision latency) (append_event s ''suggestion_created'' [(''trial_id'', JInt tid)])))"
    for x :: "jdict \<times> jdict \<times> pyfloat"
    by (auto intro!: quiet_intros split: prod.splits)
  then show ?thesis
    unfolding suggest_commit_def w
    by (intro runs_then_quiet runs_save_when [OF assms] quiet_intros loaded_advance [OF assms(1)])
qed

lemma suggest_exhausted_refines:
  assumes "loaded k c" "observation_rows c = Inr r" "rows = [] \<Longrightarrow> r = snd k"
  shows "runs k (suggest_exhausted s c rows planning decision latency) (\<lambda>_. advance (s_objective s) k) (\<lambda>_. advance (s_objective s) k)"
  unfolding suggest_exhausted_def
  by (intro runs_then_quiet runs_save_when [OF assms(1) sidelines_refl assms(2,3)] quiet_intros loaded_advance [OF assms(1)])


lemma suggest_refines:
  assumes "core_ok k"
  shows "runs k (suggest_body s max_age max_pending leases requested) (\<lambda>_. advance (s_objective s) k) (\<lambda>_. advance (s_objective s) k)"
  unfolding suggest_body_def
proof (rule runs_loaded [OF assms], rule runs_bind_lift, goal_cases)
  case (1 c0 e)
  show ?case by (rule loaded_advance [OF 1(1)])
next
  case (2 c0 c1)
  note refl = loaded_advance [OF 2(1)]
  have obs: "cp_observations c1 = cp_observations c0" using 2(3) by (auto simp: seeded_state_def return_iff split: option.splits)
  have c1: "loaded k c1" using loaded_sidelines [OF 2(1) seeded_moves [OF 2(3)]] .
  note retire = retire_stale_now_facts [OF loaded_wf [OF c1]]
  show ?case
  proof (rule runs_bind_quiet [OF retire], rule refl, goal_cases)
    case (1 x)
    obtain c rows where x: "x = (c, rows)" by (cases x)
    have c: "loaded k c" and ro: "cp_observations c = cp_observations c0 @ rows"
      using 1 loaded_sidelines [OF c1] obs by (auto simp: retired_from_def x)
    obtain r where r: "observation_rows c = Inr r" using observation_rows_total [OF loaded_wf [OF c]] ..
    have same: "r = snd k" if "rows = []" using ro r 2(2) that by (simp add: observation_rows_def)
    have idle: "runs k (suggest_nothing s c rows why) (\<lambda>_. advance (s_objective s) k) (\<lambda>_. advance (s_objective s) k)" for why
      using same r by (intro suggest_nothing_refines [OF c]) auto
    have plan: "runs k (case p of Planned planning planned \<Rightarrow> suggest_commit s planning rows planned
       | Exhausted planning decision latency \<Rightarrow> suggest_exhausted s c rows planning decision latency)
       (\<lambda>_. advance (s_objective s) k) (\<lambda>_. advance (s_objective s) k)" if "planned_from c p" for p
    proof (cases p)
      case (Planned planning planned)
      with that have p: "sidelines c planning" "observation_rows planning = Inr r"
        using r by (auto simp: planned_from_def observation_rows_def)
      show ?thesis unfolding Planned plan.case by (rule suggest_commit_refines [OF c p same])
    next
      case (Exhausted planning decision latency)
      then show ?thesis using suggest_exhausted_refines [OF c r same] by simp
    qed
    have rest: "runs k (bindC (plan_batch s leases (nat requested) c []) (\<lambda>p. case p of
         Planned planning planned \<Rightarrow> suggest_commit s planning rows planned
       | Exhausted planning decision latency \<Rightarrow> suggest_exhausted s c rows planning decision latency))
       (\<lambda>_. advance (s_objective s) k) (\<lambda>_. advance (s_objective s) k)"
      by (rule runs_bind_quiet [OF plan_batch_quiet plan_batch_yields refl plan])
    show ?case
      unfolding x prod.case Let_def
      by (intro runs_if idle runs_bind_lift refl rest)
  qed
qed


subsection \<open>Executing a command\<close>

text \<open>Rewrite rules that run a command on a given world, one effect at a time.\<close>

lemma exec_simps:
  "bindC (observeC f) k w = k (f (w_tick w)) (w\<lparr>w_tick := Suc (w_tick w)\<rparr>)"
  "bindC (liftC (Inr x)) k1 w = k1 x w"
  "bindC (retC x) k1 w = k1 x w"
  "bindC (getC g) k2 w = k2 (g w) w"
  "bindC (updC u) k3 w = k3 () (u w)"
  "bindC (bindC m k4) k5 w = bindC m (\<lambda>x. bindC (k4 x) k5) w"
  "observeC f w = (Inr (f (w_tick w)), w\<lparr>w_tick := Suc (w_tick w)\<rparr>)"
  "liftC r w = (r, w)" "retC y w = (Inr y, w)" "updC u w = (Inr (), u w)"
  by (auto simp: bindC_def observeC_def liftC_def retC_def getC_def updC_def fun_eq_iff split: prod.splits sum.splits)

end
