(* ===== verification/AxSpace.thy ===== *)
theory AxSpace
  imports Contract RuntimeCfg
begin

text \<open>
  The codec between public parameter values and the parameters handed to the Ax optimizer
  (\<open>templates/_shared/ax_space.py\<close>): its construction for finite conditional trees, encoding,
  decoding, the enumeration of finite spaces and the capacity check.
\<close>

abbreviation ax_err :: "string \<Rightarrow> 'a res" where
  "ax_err s \<equiv> Inl (ValueError s)"

subsection \<open>Keys\<close>

fun json_finite :: "json \<Rightarrow> bool" where
  "json_finite (JFloat f) = is_finite f"
| "json_finite (JArr xs) = list_all json_finite xs"
| "json_finite (JObj d) = list_all (\<lambda>(_, v). json_finite v) d"
| "json_finite _ = True"

text \<open>
  \<open>key(value)\<close> is the JSON text with sorted keys; two texts are equal exactly when the values
  are, after sorting. A non-finite float has no text.
\<close>

definition ax_key :: "json \<Rightarrow> json res" where
  "ax_key v = (if json_finite v then Inr (sort_keys v) else ax_err ''Out of range float values are not JSON compliant'')"

definition same_key :: "json \<Rightarrow> json \<Rightarrow> bool" where
  "same_key a b = (sort_keys a = sort_keys b)"

text \<open>The first index whose element has the key of \<open>v\<close>.\<close>

definition token_index :: "json list \<Rightarrow> json \<Rightarrow> nat option res" where
  "token_index cs v = bindE (ax_key v) (\<lambda>k. Inr (find (\<lambda>i. sort_keys (cs ! i) = k) [0..<length cs]))"

definition key_member :: "json list \<Rightarrow> json \<Rightarrow> bool res" where
  "key_member vs v = bindE (ax_key v) (\<lambda>k. Inr (list_ex (\<lambda>x. sort_keys x = k) vs))"

subsection \<open>The codec\<close>

record entry =
  en_name :: string
  en_raw :: "string option"
  en_type :: string
  en_values :: "json list option"
  en_raw_values :: "json list option"
  en_bounds :: "(json \<times> json) option"
  en_log :: bool
  en_dependents :: "(json \<times> string list) list"

text \<open>A translated linear rule; the source renders it as text.\<close>

record ax_linear =
  al_terms :: "(pyfloat \<times> string) list"
  al_op :: relation
  al_bound :: pyfloat

record codec =
  cd_definitions :: "param list"
  cd_parameters :: "entry list"
  cd_order :: "string list"
  cd_dummy :: bool
  cd_linear :: "ax_linear list"
  cd_constraints :: "constraint_cfg option"
  cd_generation :: "entry list option"

type_synonym parents = "(string, string \<times> json) dict"

text \<open>\<open>aliases\<close>: the name of the \<open>i\<close>-th definition is \<open>p<i>\<close>.\<close>

definition aliases :: "param list \<Rightarrow> (string, string) dict" where
  "aliases ps = map (\<lambda>(i, p). (p_name p, ''p'' @ int_str (int i))) (enum ps)"

definition alias_of :: "param list \<Rightarrow> string \<Rightarrow> string" where
  "alias_of ps n = dict_get (aliases ps) n []"

text \<open>The parent of a conditional parameter and the value that activates it.\<close>

definition parent_of :: "param list \<Rightarrow> param \<Rightarrow> (string \<times> json) option res" where
  "parent_of ps p = (case p_when p of
     None \<Rightarrow> Inr None
   | Some [] \<Rightarrow> Inr None
   | Some [(q, vs)] \<Rightarrow>
       if length vs \<noteq> 1 then ax_err ''dependents need one parent value''
       else if \<not> List.member (map p_name ps) q then ax_err ''Unknown conditional parent''
       else Inr (Some (q, hd vs))
   | _ \<Rightarrow> ax_err ''multiparent conditional'')"

definition parents_of :: "param list \<Rightarrow> parents res" where
  "parents_of ps = bindE (mapE (\<lambda>p. bindE (parent_of ps p) (\<lambda>q. Inr (p_name p, q))) ps) (\<lambda>xs.
     Inr (concat (map (\<lambda>(n, q). case q of None \<Rightarrow> [] | Some r \<Rightarrow> [(n, r)]) xs)))"

text \<open>\<open>visit\<close>: \<open>act\<close> holds the names of the pending calls; the fuel bounds their number.\<close>

fun tree_visit :: "parents \<Rightarrow> nat \<Rightarrow> string list \<Rightarrow> string \<Rightarrow> string list \<Rightarrow> string list res" where
  "tree_visit ps 0 act n ord = Inl (OverflowError ''recursion depth'')"
| "tree_visit ps (Suc fuel) act n ord =
     (if List.member act n then ax_err ''cycle''
      else if List.member ord n then Inr ord
      else bindE (case map_of ps n of None \<Rightarrow> Inr ord | Some (q, _) \<Rightarrow> tree_visit ps fuel (n # act) q ord)
             (\<lambda>ord'. Inr (ord' @ [n])))"

definition tree_order :: "param list \<Rightarrow> parents \<Rightarrow> string list res" where
  "tree_order defs ps = foldE (tree_visit ps (Suc (length defs)) []) (map p_name defs) []"

definition no_entry :: entry where
  "no_entry = \<lparr>en_name = [], en_raw = None, en_type = ''str'', en_values = None, en_raw_values = None,
     en_bounds = None, en_log = False, en_dependents = []\<rparr>"

definition entry_of :: "param list \<Rightarrow> parents \<Rightarrow> param \<Rightarrow> entry res" where
  "entry_of defs ps p =
     (let e = no_entry\<lparr>en_name := alias_of defs (p_name p), en_raw := Some (p_name p)\<rparr>;
          parent = list_ex (\<lambda>(_, q, _). q = p_name p) ps
      in case p_dom p of
        CatDom cs \<Rightarrow> Inr (e\<lparr>en_values := Some (map (\<lambda>i. JStr (CHR ''c'' # int_str (int i))) [0..<length cs]), en_raw_values := Some cs\<rparr>)
      | BoolDom \<Rightarrow> Inr (e\<lparr>en_type := ''bool'', en_values := Some [JBool False, JBool True]\<rparr>)
      | IntDom lo hi s \<Rightarrow>
          if parent then
            (if lo = hi then Inr (e\<lparr>en_type := ''int'', en_values := Some [JInt lo]\<rparr>)
             else if s = Linear \<and> hi - lo + 1 \<le> 256 then Inr (e\<lparr>en_type := ''int'', en_values := Some (map JInt [lo..hi])\<rparr>)
             else ax_err ''tree parents must have a bounded finite domain'')
          else Inr (e\<lparr>en_type := ''int'', en_bounds := Some (JInt lo, JInt hi), en_log := (s = Log)\<rparr>)
      | FloatDom lo hi s \<Rightarrow>
          if parent then
            (if feq lo hi then Inr (e\<lparr>en_type := ''float'', en_values := Some [JFloat lo]\<rparr>)
             else ax_err ''tree parents must have a bounded finite domain'')
          else Inr (e\<lparr>en_type := ''float'', en_bounds := Some (JFloat lo, JFloat hi), en_log := (s = Log)\<rparr>))"

text \<open>\<open>encode_value\<close>\<close>

definition encode_parent_value :: "entry \<Rightarrow> json \<Rightarrow> json res" where
  "encode_parent_value e v = (case (en_raw_values e, en_values e) of
     (Some cs, Some ts) \<Rightarrow> bindE (token_index cs v) (\<lambda>i. case i of
        None \<Rightarrow> ax_err ''not a declared typed choice'' | Some i \<Rightarrow> Inr (ts ! i))
   | (None, Some vs) \<Rightarrow> bindE (key_member vs v) (\<lambda>b. if b then Inr v else ax_err ''not in its finite domain'')
   | _ \<Rightarrow> ax_err ''not in its finite domain'')"

fun add_child :: "json \<Rightarrow> string \<Rightarrow> (json \<times> string list) list \<Rightarrow> (json \<times> string list) list" where
  "add_child v c [] = [(v, [c])]"
| "add_child v c ((w, cs) # ds) = (if same_key w v then (w, cs @ [c]) # ds else (w, cs) # add_child v c ds)"

definition add_dependent :: "param list \<Rightarrow> string \<times> string \<times> json \<Rightarrow> entry list \<Rightarrow> entry list res" where
  "add_dependent defs c es = (case c of (child, parent, v) \<Rightarrow>
     mapE (\<lambda>e. if en_raw e = Some parent
         then bindE (encode_parent_value e v) (\<lambda>w.
           Inr (e\<lparr>en_dependents := add_child w (alias_of defs child) (en_dependents e)\<rparr>))
         else Inr e) es)"

definition root_entry :: "param list \<Rightarrow> parents \<Rightarrow> string list \<Rightarrow> entry" where
  "root_entry defs ps ord = no_entry\<lparr>en_name := ''root'', en_values := Some [JStr ''all''],
     en_dependents := [(JStr ''all'', map (alias_of defs) (filter (\<lambda>n. \<not> has_key ps n) ord))]\<rparr>"

text \<open>Bounds of a numeric definition; the other types have none.\<close>

definition bounds_of :: "pdomain \<Rightarrow> (json \<times> json) res" where
  "bounds_of dm = (case dm of
     IntDom lo hi _ \<Rightarrow> Inr (JInt lo, JInt hi)
   | FloatDom lo hi _ \<Rightarrow> Inr (JFloat lo, JFloat hi)
   | _ \<Rightarrow> Inl (KeyError ''bounds''))"

definition is_log :: "pdomain \<Rightarrow> bool" where
  "is_log dm = (case dm of IntDom _ _ s \<Rightarrow> s = Log | FloatDom _ _ s \<Rightarrow> s = Log | _ \<Rightarrow> False)"

text \<open>One term of a linear rule; the accumulator is the constant part and the terms kept.\<close>

definition linear_term :: "param list \<Rightarrow> entry list \<Rightarrow> string \<times> pyfloat \<Rightarrow> pyfloat \<times> (pyfloat \<times> string) list \<Rightarrow>
    (pyfloat \<times> (pyfloat \<times> string) list) res" where
  "linear_term defs es t acc = (case t of (n, coefficient) \<Rightarrow>
     case map_of (by_name defs) n of
       None \<Rightarrow> Inl (KeyError n)
     | Some p \<Rightarrow>
         if p_when p \<noteq> None \<and> p_when p \<noteq> Some [] then ax_err ''linear rules referencing conditional parameters''
         else bindE (bounds_of (p_dom p)) (\<lambda>(lo, hi).
           if py_eq lo hi then bindE (py_float lo) (\<lambda>x. Inr (fadd (fst acc) (fmul coefficient x), snd acc))
           else if is_log (p_dom p) \<and> \<not> feq coefficient (Fin 0) then ax_err ''linear rules on log-scaled parameters''
           else if list_ex (\<lambda>e. en_raw e = Some n \<and> en_values e \<noteq> None) es \<and> \<not> feq coefficient (Fin 0)
           then ax_err ''linear terms cannot reference enumerated tree controllers''
           else Inr (fst acc, if feq coefficient (Fin 0) then snd acc else snd acc @ [(coefficient, alias_of defs n)])))"

text \<open>The values of a rule whose parameters are all fixed.\<close>

definition fixed_point :: "param list \<Rightarrow> linear_rule \<Rightarrow> jdict res" where
  "fixed_point defs r = bindE (mapE (\<lambda>(n, _). case map_of (by_name defs) n of
       None \<Rightarrow> Inl (KeyError n)
     | Some p \<Rightarrow> bindE (bounds_of (p_dom p)) (\<lambda>b. Inr (n, fst b))) (ln_terms r)) (\<lambda>vs. Inr (dict_of vs))"

definition linear_entry :: "param list \<Rightarrow> entry list \<Rightarrow> linear_rule \<Rightarrow> ax_linear list res" where
  "linear_entry defs es r =
     bindE (foldE (linear_term defs es) (ln_terms r) (Fin 0, [])) (\<lambda>(constant, terms).
     let bound = fsub (ln_rhs r) constant in
     if \<not> is_finite bound then ax_err ''nonfinite arithmetic''
     else if terms \<noteq> [] then Inr [\<lparr>al_terms = terms, al_op = ln_op r, al_bound = bound\<rparr>]
     else bindE (fixed_point defs r) (\<lambda>vs.
       bindE (evaluate_constraints vs \<lparr>bound_tightening = [], linear_inequalities = [r], forbidden_combinations = []\<rparr>) (\<lambda>ev.
       if ev_feasible ev then Inr [] else ax_err ''No feasible point satisfies the fixed linear rule'')))"

subsection \<open>Choices left for generation\<close>

text \<open>\<open>ancestors\<close> of a parameter with their activating values; a tree path has no more steps than there are parents.\<close>

fun ancestors_of :: "parents \<Rightarrow> nat \<Rightarrow> string \<Rightarrow> jdict" where
  "ancestors_of ps 0 n = []"
| "ancestors_of ps (Suc fuel) n = (case map_of ps n of None \<Rightarrow> [] | Some (q, v) \<Rightarrow> (q, v) # ancestors_of ps fuel q)"

text \<open>A rule prunes a parameter when activation proves every other term of the rule.\<close>

definition rule_prunes :: "jdict \<Rightarrow> string \<Rightarrow> forbidden_rule \<Rightarrow> bool" where
  "rule_prunes ancestors n r = (has_key (fb_when r) n \<and>
     list_all (\<lambda>(m, allowed). m = n \<or> (case map_of ancestors m of None \<Rightarrow> False | Some v \<Rightarrow> list_ex (same_key v) allowed)) (fb_when r))"

definition prune_values :: "(json \<times> json) list \<Rightarrow> json list \<Rightarrow> string \<Rightarrow> forbidden_rule \<Rightarrow> json list \<Rightarrow> json list" where
  "prune_values choices controlling n r vs =
     (let forbidden = dict_get (fb_when r) n [];
          kept = filter (\<lambda>v. list_ex (same_key v) controlling \<or>
            \<not> (case find (\<lambda>(t, _). same_key t v) choices of None \<Rightarrow> False | Some (_, x) \<Rightarrow> list_ex (same_key x) forbidden)) vs
      in if kept = [] then vs else kept)"

definition generation_entry :: "parents \<Rightarrow> constraint_cfg option \<Rightarrow> entry \<Rightarrow> entry" where
  "generation_entry ps constraints e = (case (en_raw e, en_values e) of
     (Some n, Some vs) \<Rightarrow>
       let ancestors = ancestors_of ps (length ps) n;
           choices = zip vs (case en_raw_values e of None \<Rightarrow> vs | Some cs \<Rightarrow> cs);
           rules = (case constraints of None \<Rightarrow> [] | Some c \<Rightarrow> filter (rule_prunes ancestors n) (forbidden_combinations c))
       in e\<lparr>en_values := Some (fold (prune_values choices (map fst (en_dependents e)) n) rules vs)\<rparr>
   | _ \<Rightarrow> e)"

definition generation_choices :: "entry list \<Rightarrow> parents \<Rightarrow> constraint_cfg option \<Rightarrow> entry list option" where
  "generation_choices es ps constraints =
     (let es' = map (generation_entry ps constraints) es in if es' = es then None else Some es')"

definition build_codec :: "param list \<Rightarrow> constraint_cfg option \<Rightarrow> codec res" where
  "build_codec params constraints =
     bindE (apply_bound_tightening (map (\<lambda>p. p\<lparr>p_description := None\<rparr>) params) constraints) (\<lambda>defs.
     bindE (parents_of defs) (\<lambda>ps.
     bindE (tree_order defs ps) (\<lambda>ord.
     bindE (mapE (entry_of defs ps) defs) (\<lambda>es0.
     bindE (foldE (add_dependent defs) ps es0) (\<lambda>es1.
     let es = (if ps = [] then es1 else root_entry defs ps ord # es1) in
     bindE (mapE (linear_entry defs es) (case constraints of None \<Rightarrow> [] | Some c \<Rightarrow> linear_inequalities c)) (\<lambda>lin.
     Inr \<lparr>cd_definitions = defs, cd_parameters = es, cd_order = ord, cd_dummy = (ps \<noteq> []), cd_linear = concat lin,
          cd_constraints = constraints, cd_generation = generation_choices es ps constraints\<rparr>))))))"

subsection \<open>Encoding and decoding\<close>

text \<open>\<open>a <= b\<close> of the numbers of one kind.\<close>

definition num_le :: "json \<Rightarrow> json \<Rightarrow> bool" where
  "num_le a b = (case (a, b) of
     (JInt i, JInt j) \<Rightarrow> i \<le> j
   | _ \<Rightarrow> (case (num_value a, num_value b) of (Some x, Some y) \<Rightarrow> fle x y | _ \<Rightarrow> False))"

fun kind_ok :: "string \<Rightarrow> json \<Rightarrow> bool" where
  "kind_ok k (JBool _) = (k = ''bool'')"
| "kind_ok k (JInt _) = (k = ''int'' \<or> k = ''float'')"
| "kind_ok k (JFloat _) = (k = ''float'')"
| "kind_ok k (JStr _) = (k = ''str'')"
| "kind_ok k _ = False"

definition encode_entry_value :: "entry \<Rightarrow> json \<Rightarrow> json res" where
  "encode_entry_value e v = (case en_raw_values e of
     Some cs \<Rightarrow> bindE (token_index cs v) (\<lambda>i. case i of
       None \<Rightarrow> ax_err ''Invalid typed choice'' | Some i \<Rightarrow> Inr ((case en_values e of Some ts \<Rightarrow> ts | None \<Rightarrow> []) ! i))
   | None \<Rightarrow>
       if \<not> kind_ok (en_type e) v \<or> (case v of JFloat x \<Rightarrow> \<not> is_finite x | _ \<Rightarrow> False)
       then ax_err ''Invalid raw parameter type''
       else bindE (if en_type e = ''float'' then bindE (py_float v) (\<lambda>x. Inr (JFloat x)) else Inr v) (\<lambda>v'.
         bindE (case en_values e of None \<Rightarrow> Inr True | Some vs \<Rightarrow> key_member vs v') (\<lambda>declared.
         if \<not> declared then ax_err ''not a declared value''
         else if (case en_bounds e of None \<Rightarrow> False | Some (lo, hi) \<Rightarrow> \<not> (num_le lo v' \<and> num_le v' hi))
         then ax_err ''outside its bounds''
         else Inr v')))"

definition encode_entry :: "jdict \<Rightarrow> string list \<Rightarrow> entry \<Rightarrow> jdict \<Rightarrow> jdict res" where
  "encode_entry values expected e out = (case en_raw e of
     None \<Rightarrow> Inr out
   | Some n \<Rightarrow>
       if \<not> List.member expected n then Inr out
       else bindE (jitem values n) (\<lambda>v. bindE (encode_entry_value e v) (\<lambda>w. Inr (dset (en_name e) w out))))"

definition ax_encode :: "codec \<Rightarrow> jdict \<Rightarrow> jdict res" where
  "ax_encode cd values =
     bindE (active_parameters (cd_definitions cd) values) (\<lambda>act.
     let expected = map p_name act in
     if \<not> same_set (map fst values) expected then ax_err ''exactly the active public parameters''
     else foldE (encode_entry values expected) (cd_parameters cd)
            (if cd_dummy cd then [(''root'', JStr ''all'')] else []))"

definition decode_entry_value :: "entry \<Rightarrow> json \<Rightarrow> json res" where
  "decode_entry_value e v = (case en_raw_values e of
     Some cs \<Rightarrow>
       (case find (\<lambda>i. (case en_values e of Some ts \<Rightarrow> ts | None \<Rightarrow> []) ! i = v)
               [0..<length (case en_values e of Some ts \<Rightarrow> ts | None \<Rightarrow> [])] of
          None \<Rightarrow> ax_err ''unknown categorical token''
        | Some i \<Rightarrow> Inr (cs ! i))
   | None \<Rightarrow> (case v of
       JInt _ \<Rightarrow> if en_type e = ''float'' then bindE (py_float v) (\<lambda>x. Inr (JFloat x)) else Inr v
     | _ \<Rightarrow> Inr v))"

definition entry_named :: "codec \<Rightarrow> string \<Rightarrow> entry option" where
  "entry_named cd n = find (\<lambda>e. en_raw e = Some n) (cd_parameters cd)"

definition decode_entry :: "codec \<Rightarrow> jdict \<Rightarrow> string \<Rightarrow> jdict \<Rightarrow> jdict res" where
  "decode_entry cd values n raw = (case entry_named cd n of
     None \<Rightarrow> Inl (KeyError n)
   | Some e \<Rightarrow> (case map_of values (en_name e) of
       None \<Rightarrow> Inr raw
     | Some v \<Rightarrow> bindE (decode_entry_value e v) (\<lambda>w. Inr (dset n w raw))))"

definition ax_decode :: "codec \<Rightarrow> jdict \<Rightarrow> jdict res" where
  "ax_decode cd values =
     bindE (foldE (decode_entry cd values) (cd_order cd) []) (\<lambda>raw.
     bindE (ax_encode cd raw) (\<lambda>enc.
     if \<not> py_eq (JObj enc) (JObj values) then ax_err ''round trip'' else Inr raw))"

subsection \<open>Finite spaces\<close>

definition no_rules :: constraint_cfg where
  "no_rules = \<lparr>bound_tightening = [], linear_inequalities = [], forbidden_combinations = []\<rparr>"

definition ax_feasible :: "codec \<Rightarrow> jdict \<Rightarrow> evaluation res" where
  "ax_feasible cd values = evaluate_constraints values (case cd_constraints cd of None \<Rightarrow> no_rules | Some c \<Rightarrow> c)"

text \<open>The values to try for an active parameter; a space that is too large overflows.\<close>

definition finite_choices :: "nat \<Rightarrow> param \<Rightarrow> json list res" where
  "finite_choices limit p = (case p_dom p of
     CatDom cs \<Rightarrow> Inr cs
   | BoolDom \<Rightarrow> Inr [JBool False, JBool True]
   | IntDom lo hi _ \<Rightarrow>
       if lo = hi then Inr [JInt lo]
       else if int limit < hi - lo + 1 then Inl (OverflowError ''finite_points'')
       else Inr (map JInt [lo..hi])
   | FloatDom lo hi _ \<Rightarrow> if feq lo hi then Inr [JFloat lo] else Inl (OverflowError ''finite_points''))"

definition add_point :: "json \<Rightarrow> json list \<Rightarrow> json list" where
  "add_point k points = (if List.member points k then points else points @ [k])"

text \<open>\<open>walk\<close>: the state is the set of points and the number of visits.\<close>

fun walk :: "codec \<Rightarrow> nat \<Rightarrow> string list \<Rightarrow> jdict \<Rightarrow> json list \<times> nat \<Rightarrow> (json list \<times> nat) res" where
  "walk cd limit [] values (points, visits) =
     (if 4 * limit < Suc visits \<or> limit < length points then Inl (OverflowError ''finite_points'')
      else bindE (ax_feasible cd values) (\<lambda>ev.
        if \<not> ev_feasible ev then Inr (points, Suc visits)
        else bindE (ax_key (JObj values)) (\<lambda>k.
          if limit < length (add_point k points) then Inl (OverflowError ''finite_points'')
          else Inr (add_point k points, Suc visits))))"
| "walk cd limit (n # rest) values (points, visits) =
     (if 4 * limit < Suc visits \<or> limit < length points then Inl (OverflowError ''finite_points'')
      else bindE (ax_feasible cd values) (\<lambda>ev.
        if \<not> ev_feasible ev then Inr (points, Suc visits)
        else case map_of (by_name (cd_definitions cd)) n of
          None \<Rightarrow> Inl (KeyError n)
        | Some p \<Rightarrow>
            if \<not> is_parameter_active p values then walk cd limit rest values (points, Suc visits)
            else bindE (finite_choices limit p) (\<lambda>cs.
              foldE (\<lambda>v. walk cd limit rest (dset n v values)) cs (points, Suc visits))))"

definition finite_points :: "codec \<Rightarrow> nat \<Rightarrow> json list option res" where
  "finite_points cd limit = (case walk cd limit (cd_order cd) [] ([], 0) of
     Inr (points, _) \<Rightarrow> Inr (Some points)
   | Inl (OverflowError _) \<Rightarrow> Inr None
   | Inl e \<Rightarrow> Inl e)"

text \<open>\<open>check_capacity\<close>: the rows are those of the campaign with their status and parameters.\<close>

definition blocked_keys :: "bool \<Rightarrow> jdict list \<Rightarrow> json list res" where
  "blocked_keys repeats rows =
     bindE (mapE (\<lambda>r. bindE (jitem r ''status'') (\<lambda>st.
        if st = JStr ''pending'' \<or> \<not> repeats
        then bindE (jitem r ''params'') (\<lambda>v. bindE (ax_key v) (\<lambda>k. Inr [k])) else Inr [])) rows) (\<lambda>ks.
     Inr (concat ks))"

definition check_capacity :: "codec \<Rightarrow> jdict list \<Rightarrow> nat \<Rightarrow> bool \<Rightarrow> unit res" where
  "check_capacity cd rows n repeats =
     (if n = 0 then Inr ()
      else bindE (finite_points cd 65536) (\<lambda>points. case points of
        None \<Rightarrow> Inr ()
      | Some ps \<Rightarrow> bindE (blocked_keys repeats rows) (\<lambda>blocked.
          guardE (n \<le> length (filter (\<lambda>k. \<not> List.member blocked k) ps)) (ValueError ''Ax finite feasible space''))))"

subsection \<open>One value\<close>

text \<open>What the codec accepts for a domain, and the public value it stands for.\<close>

definition ax_member :: "pdomain \<Rightarrow> json \<Rightarrow> bool" where
  "ax_member dm v = (case dm of
     CatDom cs \<Rightarrow> json_finite v \<and> v \<in> set cs
   | BoolDom \<Rightarrow> is_bool v
   | IntDom lo hi _ \<Rightarrow> (\<exists>n. v = JInt n \<and> lo \<le> n \<and> n \<le> hi)
   | FloatDom lo hi _ \<Rightarrow> strict_num v \<and> (\<exists>x. py_float v = Inr x \<and> is_finite x \<and> fle lo x \<and> fle x hi))"

definition ax_typed :: "pdomain \<Rightarrow> json \<Rightarrow> json" where
  "ax_typed dm v = (case (dm, py_float v) of (FloatDom _ _ _, Inr x) \<Rightarrow> JFloat x | _ \<Rightarrow> v)"

definition ax_code :: "pdomain \<Rightarrow> json \<Rightarrow> json" where
  "ax_code dm v = (case dm of
     CatDom cs \<Rightarrow> JStr (CHR ''c'' # int_str (int (length (takeWhile (\<lambda>c. c \<noteq> v) cs))))
   | _ \<Rightarrow> ax_typed dm v)"

fun scalar_choices :: "pdomain \<Rightarrow> bool" where
  "scalar_choices (CatDom cs) = list_all scalar_json cs"
| "scalar_choices _ = True"

text \<open>An entry that stands for a domain.\<close>

definition codes :: "pdomain \<Rightarrow> entry \<Rightarrow> bool" where
  "codes dm e = (case dm of
     CatDom cs \<Rightarrow> en_raw_values e = Some cs \<and> en_values e = Some (map (\<lambda>i. JStr (CHR ''c'' # int_str (int i))) [0..<length cs])
   | BoolDom \<Rightarrow> en_raw_values e = None \<and> en_type e = ''bool'' \<and> en_values e = Some [JBool False, JBool True] \<and> en_bounds e = None
   | IntDom lo hi _ \<Rightarrow> en_raw_values e = None \<and> en_type e = ''int'' \<and>
       (en_values e = Some (map JInt [lo..hi]) \<and> en_bounds e = None \<or> en_values e = None \<and> en_bounds e = Some (JInt lo, JInt hi))
   | FloatDom lo hi _ \<Rightarrow> en_raw_values e = None \<and> en_type e = ''float'' \<and> en_values e = None \<and>
       en_bounds e = Some (JFloat lo, JFloat hi))"

lemma int_str_inject: "int_str (int i) = int_str (int j) \<longleftrightarrow> i = j"
proof
  assume "int_str (int i) = int_str (int j)"
  then have "numeral_val (nat_digits i) = numeral_val (nat_digits j)" by (simp add: int_str_def)
  then show "i = j" by simp
qed simp

lemma sort_keys_scalar: "scalar_json c \<Longrightarrow> sort_keys v = sort_keys c \<longleftrightarrow> v = c"
  by (cases c; cases v) auto

lemma find_upt: "find P [0..<n] = Some i \<longleftrightarrow> i < n \<and> P i \<and> (\<forall>j<i. \<not> P j)"
  unfolding find_Some_iff by (auto intro: exI [of _ i])

lemma find_upt_None: "find P [0..<n] = None \<longleftrightarrow> (\<forall>i<n. \<not> P i)"
  by (auto simp: find_None_iff)

lemma takeWhile_index:
  assumes "v \<in> set cs"
  shows "length (takeWhile (\<lambda>c. c \<noteq> v) cs) < length cs" "cs ! length (takeWhile (\<lambda>c. c \<noteq> v) cs) = v"
    "j < length (takeWhile (\<lambda>c. c \<noteq> v) cs) \<Longrightarrow> cs ! j \<noteq> v"
proof -
  show "length (takeWhile (\<lambda>c. c \<noteq> v) cs) < length cs" using assms by (induction cs) auto
  show "cs ! length (takeWhile (\<lambda>c. c \<noteq> v) cs) = v" using assms by (induction cs) auto
  show "cs ! j \<noteq> v" if "j < length (takeWhile (\<lambda>c. c \<noteq> v) cs)"
    using that nth_mem [OF that] takeWhile_nth [OF that] by (metis set_takeWhileD)
qed

lemma token_index_scalar:
  assumes "list_all scalar_json cs"
  shows "token_index cs v = Inr (Some i) \<longleftrightarrow> json_finite v \<and> v \<in> set cs \<and> i = length (takeWhile (\<lambda>c. c \<noteq> v) cs)"
proof -
  have eq: "sort_keys (cs ! i) = sort_keys v \<longleftrightarrow> cs ! i = v" if "i < length cs" for i
    using assms that sort_keys_scalar [of "cs ! i" v] by (auto simp: list_all_length)
  have "find (\<lambda>i. sort_keys (cs ! i) = sort_keys v) [0..<length cs] = find (\<lambda>i. cs ! i = v) [0..<length cs]"
    by (rule find_cong) (simp_all add: eq)
  moreover have "find (\<lambda>i. cs ! i = v) [0..<length cs] = Some i \<longleftrightarrow> v \<in> set cs \<and> i = length (takeWhile (\<lambda>c. c \<noteq> v) cs)" for i
  proof
    assume "find (\<lambda>i. cs ! i = v) [0..<length cs] = Some i"
    then have i: "i < length cs" "cs ! i = v" "\<forall>j<i. cs ! j \<noteq> v" by (auto simp: find_upt)
    then have mem: "v \<in> set cs" by auto
    have "\<not> i < length (takeWhile (\<lambda>c. c \<noteq> v) cs)" using takeWhile_index(3) [OF mem] i(2) by blast
    moreover have "\<not> length (takeWhile (\<lambda>c. c \<noteq> v) cs) < i" using takeWhile_index(2) [OF mem] i(3) by blast
    ultimately show "v \<in> set cs \<and> i = length (takeWhile (\<lambda>c. c \<noteq> v) cs)" using mem by linarith
  next
    assume "v \<in> set cs \<and> i = length (takeWhile (\<lambda>c. c \<noteq> v) cs)"
    then show "find (\<lambda>i. cs ! i = v) [0..<length cs] = Some i"
      unfolding find_upt using takeWhile_index [of v cs] by blast
  qed
  ultimately show ?thesis by (auto simp: token_index_def ax_key_def)
qed

lemma encode_value_exact:
  assumes "codes dm e" "scalar_choices dm"
  shows "encode_entry_value e v = Inr w \<longleftrightarrow> ax_member dm v \<and> w = ax_code dm v"
proof (cases dm)
  case (CatDom cs)
  with assms have cs: "en_raw_values e = Some cs" "en_values e = Some (map (\<lambda>i. JStr (CHR ''c'' # int_str (int i))) [0..<length cs])"
    "list_all scalar_json cs" by (auto simp: codes_def)
  have "encode_entry_value e v = Inr w \<longleftrightarrow> (\<exists>i. token_index cs v = Inr (Some i) \<and>
      w = (map (\<lambda>i. JStr (CHR ''c'' # int_str (int i))) [0..<length cs]) ! i)"
    unfolding encode_entry_value_def cs option.case bindE_Inr_iff by (auto split: option.splits)
  also have "\<dots> \<longleftrightarrow> ax_member dm v \<and> w = ax_code dm v"
    unfolding token_index_scalar [OF cs(3)] using takeWhile_index(1) [of v cs]
    by (auto simp: ax_member_def ax_code_def CatDom simp del: upt_Suc)
  finally show ?thesis .
next
  case (IntDom lo hi s)
  with assms(1) have e: "en_raw_values e = None" "en_type e = ''int''"
    and "en_values e = Some (map JInt [lo..hi]) \<and> en_bounds e = None \<or> en_values e = None \<and> en_bounds e = Some (JInt lo, JInt hi)"
    by (auto simp: codes_def)
  then consider "en_values e = Some (map JInt [lo..hi])" "en_bounds e = None" | "en_values e = None" "en_bounds e = Some (JInt lo, JInt hi)"
    by (elim disjE conjE)
  then show ?thesis
  proof cases
    case 1
    have "list_ex (\<lambda>x. sort_keys x = JInt n) (map JInt [lo..hi]) \<longleftrightarrow> lo \<le> n \<and> n \<le> hi" for n
      by (auto simp: list_ex_iff)
    with 1 e show ?thesis
      by (cases v) (simp_all add: encode_entry_value_def key_member_def ax_key_def ax_member_def ax_code_def ax_typed_def IntDom eq_commute)
  next
    case 2
    with e show ?thesis
      by (cases v) (auto simp: encode_entry_value_def ax_member_def ax_code_def ax_typed_def num_le_def IntDom)
  qed
next
  case (FloatDom lo hi s)
  with assms(1) have e: "en_raw_values e = None" "en_type e = ''float''" "en_values e = None" "en_bounds e = Some (JFloat lo, JFloat hi)"
    by (auto simp: codes_def)
  note simps = encode_entry_value_def ax_member_def ax_code_def ax_typed_def num_le_def FloatDom e
  show ?thesis
  proof (cases v)
    case (JInt n)
    then show ?thesis by (cases "float_of_int n") (auto simp: simps dest: float_of_int_finite)
  qed (auto simp: simps)
next
  case BoolDom
  with assms show ?thesis
    by (cases v) (auto simp: codes_def encode_entry_value_def key_member_def ax_key_def ax_member_def ax_code_def ax_typed_def)
qed

lemma decode_code:
  assumes "codes dm e" "ax_member dm v"
  shows "decode_entry_value e (ax_code dm v) = Inr (ax_typed dm v)"
proof (cases dm)
  case (CatDom cs)
  with assms have cs: "en_raw_values e = Some cs" "en_values e = Some (map (\<lambda>i. JStr (CHR ''c'' # int_str (int i))) [0..<length cs])" and v: "v \<in> set cs"
    by (auto simp: codes_def ax_member_def)
  let ?i = "length (takeWhile (\<lambda>c. c \<noteq> v) cs)"
  have "find (\<lambda>i. (map (\<lambda>i. JStr (CHR ''c'' # int_str (int i))) [0..<length cs]) ! i = ax_code dm v) [0..<length cs] = Some ?i"
    using takeWhile_index(1) [OF v] by (auto simp: find_upt ax_code_def CatDom int_str_inject)
  with takeWhile_index(2) [OF v] show ?thesis
    by (simp add: decode_entry_value_def cs) (simp add: ax_typed_def CatDom)
qed (use assms in \<open>auto simp: codes_def decode_entry_value_def ax_code_def ax_typed_def ax_member_def split: json.splits\<close>)

lemma typed_member:
  assumes "ax_member dm v"
  shows "ax_member dm (ax_typed dm v)" "ax_code dm (ax_typed dm v) = ax_code dm v"
  using assms by (auto simp: ax_member_def ax_typed_def ax_code_def split: pdomain.splits)

subsection \<open>What a built codec looks like\<close>

fun same_kind :: "pdomain \<Rightarrow> pdomain \<Rightarrow> bool" where
  "same_kind (IntDom _ _ s) dm = (case dm of IntDom _ _ s' \<Rightarrow> s' = s | _ \<Rightarrow> False)"
| "same_kind (FloatDom _ _ s) dm = (case dm of FloatDom _ _ s' \<Rightarrow> s' = s | _ \<Rightarrow> False)"
| "same_kind dm dm' = (dm' = dm)"

lemma same_kind_refl: "same_kind dm dm" by (cases dm) auto

lemma same_kind_choices: "same_kind dm dm' \<Longrightarrow> scalar_choices dm \<Longrightarrow> scalar_choices dm'"
  and same_kind_float: "same_kind dm dm' \<Longrightarrow> is_float_domain dm' = is_float_domain dm"
  by (cases dm; cases dm'; auto)+

lemma tightening_shape:
  assumes "apply_bound_tightening ps c = Inr ds"
  shows "list_all2 (\<lambda>p q. p_name q = p_name p \<and> p_when q = p_when p \<and> same_kind (p_dom p) (p_dom q)) ps ds"
proof (cases c)
  case None
  with assms show ?thesis by (simp add: apply_bound_tightening_def list.rel_refl same_kind_refl)
next
  case (Some k)
  have "p_name q = p_name p \<and> p_when q = p_when p \<and> same_kind (p_dom p) (p_dom q)"
    if "(case map_of tt (p_name p) of None \<Rightarrow> Inr p
       | Some b \<Rightarrow> bindE (tighten_domain b (p_dom p)) (\<lambda>dm. Inr (p\<lparr>p_dom := dm\<rparr>))) = Inr q" for tt p q
    using that by (auto simp: tighten_domain_def return_iff same_kind_refl split: option.splits pdomain.splits if_splits)
  with assms Some show ?thesis
    by (auto simp: apply_bound_tightening_def Let_def mapE_Inr_iff elim!: list_all2_mono)
qed

text \<open>The entries keep everything but their dependents while the tree is linked.\<close>

definition same_entry :: "entry \<Rightarrow> entry \<Rightarrow> bool" where
  "same_entry e e' = (\<exists>ds. e' = e\<lparr>en_dependents := ds\<rparr>)"

lemma same_entry_trans: "same_entry a b \<Longrightarrow> same_entry b c \<Longrightarrow> same_entry a c"
  by (auto simp: same_entry_def)

lemma add_dependent_same: "add_dependent defs c es = Inr es' \<Longrightarrow> list_all2 same_entry es es'"
proof -
  obtain child parent v where c: "c = (child, parent, v)" by (cases c)
  have "same_entry e e'" if "(if en_raw e = Some parent
         then bindE (encode_parent_value e v) (\<lambda>w. Inr (e\<lparr>en_dependents := add_child w (alias_of defs child) (en_dependents e)\<rparr>))
         else Inr e) = Inr e'" for e e'
    using that unfolding same_entry_def by (auto simp: return_iff split: if_splits intro: exI [of _ "en_dependents e"])
  then show "add_dependent defs c es = Inr es' \<Longrightarrow> list_all2 same_entry es es'"
    by (auto simp: add_dependent_def c mapE_Inr_iff elim!: list_all2_mono)
qed

lemma fold_dependent_same: "foldE (add_dependent defs) cs es = Inr es' \<Longrightarrow> list_all2 same_entry es es'"
proof (induction cs arbitrary: es)
  case Nil
  then show ?case by (auto simp: same_entry_def intro!: list.rel_refl) (metis entry.surjective entry.update_convs(8) old.unit.exhaust)
next
  case (Cons c cs)
  then obtain es1 where "add_dependent defs c es = Inr es1" "foldE (add_dependent defs) cs es1 = Inr es'" by (auto simp: return_iff)
  from add_dependent_same [OF this(1)] Cons.IH [OF this(2)] show ?case
    by (rule list_all2_trans [rotated]) (rule same_entry_trans)
qed

lemma entry_of_codes:
  assumes "entry_of defs ps p = Inr e" "is_float_domain (p_dom p) \<longrightarrow> \<not> list_ex (\<lambda>(_, q, _). q = p_name p) ps"
  shows "en_raw e = Some (p_name p) \<and> en_name e = alias_of defs (p_name p) \<and> codes (p_dom p) e"
  using assms by (auto simp: entry_of_def codes_def no_entry_def Let_def split: pdomain.splits if_splits)

lemma same_entry_codes:
  assumes "same_entry e e'"
  shows "en_raw e' = en_raw e" "en_name e' = en_name e" "codes dm e' = codes dm e"
  using assms by (auto simp: same_entry_def codes_def split: pdomain.splits)

lemma alias_nth:
  assumes "distinct (map p_name defs)" "i < length defs"
  shows "alias_of defs (p_name (defs ! i)) = ''p'' @ int_str (int i)"
proof -
  have "map fst (aliases defs) = map p_name (map snd (enum defs))"
    by (simp add: aliases_def case_prod_unfold comp_def del: enum_simps)
  then have "distinct (map fst (aliases defs))" using assms(1) by simp
  moreover have "(p_name (defs ! i), ''p'' @ int_str (int i)) \<in> set (aliases defs)"
    using assms(2) by (force simp: aliases_def set_enum_iff)
  ultimately show ?thesis by (simp add: alias_of_def dict_get_def)
qed

lemma alias_inject:
  assumes "distinct (map p_name defs)" "p \<in> set defs" "q \<in> set defs"
  shows "alias_of defs (p_name p) = alias_of defs (p_name q) \<longleftrightarrow> p = q"
proof -
  from assms(2,3) obtain i j where "i < length defs" "defs ! i = p" "j < length defs" "defs ! j = q"
    by (auto simp: in_set_conv_nth)
  with alias_nth [OF assms(1)] show ?thesis by (auto simp: int_str_inject)
qed

lemma alias_not_root: "distinct (map p_name defs) \<Longrightarrow> p \<in> set defs \<Longrightarrow> alias_of defs (p_name p) \<noteq> ''root''"
proof -
  assume d: "distinct (map p_name defs)" and "p \<in> set defs"
  then obtain i where "i < length defs" "defs ! i = p" by (auto simp: in_set_conv_nth)
  with alias_nth [OF d] show ?thesis by auto
qed

text \<open>The tree order visits every parameter.\<close>

lemma tree_visit_keeps:
  "tree_visit ps fuel act n ord = Inr ord' \<Longrightarrow> set ord \<subseteq> set ord' \<and> n \<in> set ord' \<and>
     set ord' \<subseteq> set ord \<union> {n} \<union> fst ` ran (map_of ps)"
proof (induction ps fuel act n ord arbitrary: ord' rule: tree_visit.induct)
  case (2 ps fuel act n ord)
  show ?case
  proof (cases "map_of ps n")
    case None
    with "2.prems" show ?thesis by (auto simp: return_iff split: if_splits)
  next
    case (Some q)
    obtain m v where q: "q = (m, v)" by (cases q)
    have "m \<in> fst ` ran (map_of ps)" using Some q by (force simp: ran_def)
    show ?thesis
    proof (cases "List.member ord n")
      case False
      with "2.prems" Some q obtain o1 where o1: "\<not> List.member act n" "tree_visit ps fuel (n # act) m ord = Inr o1" "ord' = o1 @ [n]"
        by (auto simp: return_iff split: if_splits)
      from "2.IH" [OF o1(1) False Some q [symmetric] o1(2)] o1(3) \<open>m \<in> fst ` ran (map_of ps)\<close> show ?thesis by auto
    qed (use "2.prems" in \<open>auto split: if_splits\<close>)
  qed
qed simp

lemma tree_order_set:
  assumes "tree_order defs ps = Inr ord" "fst ` ran (map_of ps) \<subseteq> p_name ` set defs"
  shows "set ord = p_name ` set defs"
proof -
  have "set acc \<subseteq> set out \<and> set ns \<subseteq> set out \<and> set out \<subseteq> set acc \<union> set ns \<union> fst ` ran (map_of ps)"
    if "foldE (tree_visit ps f []) ns acc = Inr out" for f ns acc out
    using that
  proof (induction ns arbitrary: acc)
    case (Cons n ns)
    then obtain a where a: "tree_visit ps f [] n acc = Inr a" "foldE (tree_visit ps f []) ns a = Inr out" by (auto simp: return_iff)
    from tree_visit_keeps [OF a(1)] Cons.IH [OF a(2)] show ?case by auto
  qed simp
  from this [OF assms(1) [unfolded tree_order_def]] assms(2) show ?thesis by (simp add: equalityI) blast
qed

lemma parents_of_Inr:
  assumes "parents_of ds = Inr ps"
  shows "fst ` ran (map_of ps) \<subseteq> p_name ` set ds"
    and "(n, q, v) \<in> set ps \<Longrightarrow> \<exists>p\<in>set ds. p_name p = n \<and> p_when p = Some [(q, [v])]"
proof -
  obtain xs where xs: "list_all2 (\<lambda>p x. bindE (parent_of ds p) (\<lambda>q. Inr (p_name p, q)) = Inr x) ds xs"
    and ps: "ps = concat (map (\<lambda>(n, q). case q of None \<Rightarrow> [] | Some r \<Rightarrow> [(n, r)]) xs)"
    using assms by (auto simp: parents_of_def return_iff mapE_Inr_iff)
  have mem: "\<exists>p\<in>set ds. p_name p = n \<and> p_when p = Some [(q, [v])] \<and> q \<in> p_name ` set ds" if "(n, q, v) \<in> set ps" for n q v
  proof -
    from that have "(n, Some (q, v)) \<in> set xs" by (auto simp: ps split: option.splits)
    then obtain i where i: "i < length xs" "xs ! i = (n, Some (q, v))" by (auto simp: in_set_conv_nth)
    with xs have "parent_of ds (ds ! i) = Inr (Some (q, v))" "p_name (ds ! i) = n" "ds ! i \<in> set ds"
      by (auto simp: list_all2_conv_all_nth return_iff)
    then show ?thesis
      by (intro bexI [of _ "ds ! i"])
        (auto simp: parent_of_def return_iff length_Suc_conv split: option.splits list.splits if_splits)
  qed
  show "fst ` ran (map_of ps) \<subseteq> p_name ` set ds" using mem by (force simp: ran_def dest: map_of_SomeD)
  show "(n, q, v) \<in> set ps \<Longrightarrow> \<exists>p\<in>set ds. p_name p = n \<and> p_when p = Some [(q, [v])]" using mem by blast
qed

text \<open>What the proofs about encoding use of a codec.\<close>

definition codec_wf :: "codec \<Rightarrow> bool" where
  "codec_wf cd \<longleftrightarrow>
     distinct (map p_name (cd_definitions cd)) \<and> list_all (\<lambda>p. scalar_choices (p_dom p)) (cd_definitions cd) \<and>
     set (cd_order cd) = p_name ` set (cd_definitions cd) \<and>
     (\<exists>ps. ordered_parameters (cd_definitions cd) = Inr ps \<and> set ps = set (cd_definitions cd)) \<and>
     (\<forall>p\<in>set (cd_definitions cd). \<forall>c\<in>set (controllers p). \<exists>q\<in>set (cd_definitions cd). p_name q = c \<and> \<not> is_float_domain (p_dom q)) \<and>
     (\<exists>pre es. cd_parameters cd = pre @ es \<and> list_all (\<lambda>e. en_raw e = None) pre \<and>
        list_all2 (\<lambda>p e. en_raw e = Some (p_name p) \<and> en_name e = alias_of (cd_definitions cd) (p_name p) \<and> codes (p_dom p) e)
          (cd_definitions cd) es)"

lemma ordered_same_shape:
  assumes "list_all2 (\<lambda>p q. p_name q = p_name p \<and> p_when q = p_when p) ps ds" "distinct (map p_name ps)"
  shows "visit_all ds = visit_all ps"
proof -
  have names: "map p_name ds = map p_name ps" using assms(1) by (induction) auto
  have len: "length ds = length ps" using assms(1) by (simp add: list_all2_lengthD)
  have look: "rel_option (\<lambda>p q. controllers q = controllers p) (map_of (map (\<lambda>p. (p_name p, p)) ps) n) (map_of (map (\<lambda>p. (p_name p, p)) ds) n)" for n
    using assms(1) by induction (auto simp: controllers_def)
  have "dependencies ds n = dependencies ps n" for n
    using look [of n] by_name_distinct(1) [of ps] by_name_distinct(1) [of ds] assms(2) names
    by (auto simp: dependencies_def elim!: option.rel_cases)
  then have "dependencies ds = dependencies ps" by (rule ext)
  then show ?thesis by (simp add: visit_all_def names len)
qed

lemma build_codec_wf:
  assumes "build_codec ps c = Inr cd" "params_wf ps"
  shows "codec_wf cd" "map p_name (cd_definitions cd) = map p_name ps" "map p_when (cd_definitions cd) = map p_when ps"
proof -
  let ?ps = "map (\<lambda>p. p\<lparr>p_description := None\<rparr>) ps"
  from assms(1) obtain ds pa ord es0 es1 lin where
    ds: "apply_bound_tightening ?ps c = Inr ds" and pa: "parents_of ds = Inr pa" and ord: "tree_order ds pa = Inr ord"
    and es0: "mapE (entry_of ds pa) ds = Inr es0" and es1: "foldE (add_dependent ds) pa es0 = Inr es1"
    and cd: "cd_definitions cd = ds" "cd_order cd = ord" "cd_parameters cd = (if pa = [] then es1 else root_entry ds pa ord # es1)"
    by (auto simp: build_codec_def return_iff Let_def)
  have shape: "list_all2 (\<lambda>p q. p_name q = p_name p \<and> p_when q = p_when p \<and> same_kind (p_dom p) (p_dom q)) ps ds"
    using tightening_shape [OF ds] by (simp add: list.rel_map)
  show names: "map p_name (cd_definitions cd) = map p_name ps" and whens: "map p_when (cd_definitions cd) = map p_when ps"
    unfolding cd using shape by (induction, auto)
  have d: "distinct (map p_name ps)" using assms(2) by (simp add: params_wf_def)
  have dd: "distinct (map p_name ds)" using d names by (simp add: cd)
  have "visit_all ds = visit_all ps"
    by (rule ordered_same_shape [OF _ d]) (use shape in \<open>auto elim: list_all2_mono\<close>)
  then obtain vo where "visit_all ds = Inr vo" using assms(2) by (auto simp: params_wf_def elim: res_okE)
  from ordered_parameters_topological [OF this dd] obtain qs where qs: "ordered_parameters ds = Inr qs" "set qs = set ds"
    by (metis set_mset_mset)
  have from_ps: "\<exists>p\<in>set ps. p_name q = p_name p \<and> p_when q = p_when p \<and> same_kind (p_dom p) (p_dom q)" if "q \<in> set ds" for q
    using shape that by (auto simp: list_all2_conv_all_nth in_set_conv_nth) (metis nth_mem)
  have to_ds: "\<exists>q\<in>set ds. p_name q = p_name p \<and> same_kind (p_dom p) (p_dom q)" if "p \<in> set ps" for p
    using shape that by (auto simp: list_all2_conv_all_nth in_set_conv_nth) (metis nth_mem)
  have choices: "list_all (\<lambda>p. scalar_choices (p_dom p)) ds"
    unfolding list_all_iff
  proof
    fix q assume "q \<in> set ds"
    from from_ps [OF this] obtain p where p: "p \<in> set ps" "same_kind (p_dom p) (p_dom q)" by blast
    then have "domain_wf (p_dom p)" using assms(2) by (simp add: params_wf_def)
    then have "scalar_choices (p_dom p)" by (cases "p_dom p") auto
    with p(2) show "scalar_choices (p_dom q)" by (rule same_kind_choices)
  qed
  have ctrl: "\<exists>r\<in>set ds. p_name r = cc \<and> \<not> is_float_domain (p_dom r)" if q: "q \<in> set ds" "cc \<in> set (controllers q)" for q cc
  proof -
    from from_ps [OF q(1)] obtain p where p: "p \<in> set ps" "p_when q = p_when p" by blast
    with q(2) obtain w vs where w: "p_when p = Some w" "(cc, vs) \<in> set w" by (cases "p_when p") (auto simp: controllers_def)
    then have "condition_wf ps p (cc, vs)" using assms(2) p(1) by (fastforce simp: params_wf_def list_all_iff)
    then obtain r where "r \<in> set ps" "p_name r = cc" "\<not> is_float_domain (p_dom r)" by (auto simp: condition_wf_def)
    with to_ds [of r] same_kind_float show ?thesis by metis
  qed
  have notfloat: "is_float_domain (p_dom q) \<longrightarrow> \<not> list_ex (\<lambda>(_, m, _). m = p_name q) pa" if "q \<in> set ds" for q
  proof (intro impI notI)
    assume f: "is_float_domain (p_dom q)" and "list_ex (\<lambda>(_, m, _). m = p_name q) pa"
    then obtain n v where "(n, p_name q, v) \<in> set pa" by (auto simp: list_ex_iff)
    from parents_of_Inr(2) [OF pa this] obtain p where "p \<in> set ds" "p_when p = Some [(p_name q, [v])]" by blast
    with ctrl [of p "p_name q"] obtain r where "r \<in> set ds" "p_name r = p_name q" "\<not> is_float_domain (p_dom r)"
      by (auto simp: controllers_def)
    with f that dd show False by (metis distinct_map inj_on_eq_iff)
  qed
  have "list_all2 (\<lambda>p e. en_raw e = Some (p_name p) \<and> en_name e = alias_of ds (p_name p) \<and> codes (p_dom p) e) ds es0"
    using es0 unfolding mapE_Inr_iff
  proof (rule list.rel_mono_strong)
    fix p e assume "p \<in> set ds" "entry_of ds pa p = Inr e"
    from entry_of_codes [OF this(2) notfloat [OF this(1)]]
    show "en_raw e = Some (p_name p) \<and> en_name e = alias_of ds (p_name p) \<and> codes (p_dom p) e" .
  qed
  from list_all2_trans [OF _ this fold_dependent_same [OF es1]]
  have es: "list_all2 (\<lambda>p e. en_raw e = Some (p_name p) \<and> en_name e = alias_of ds (p_name p) \<and> codes (p_dom p) e) ds es1"
    by (simp add: same_entry_codes)
  show "codec_wf cd"
    unfolding codec_wf_def cd
  proof (intro conjI)
    show "\<exists>pre es. (if pa = [] then es1 else root_entry ds pa ord # es1) = pre @ es \<and> list_all (\<lambda>e. en_raw e = None) pre \<and>
        list_all2 (\<lambda>p e. en_raw e = Some (p_name p) \<and> en_name e = alias_of ds (p_name p) \<and> codes (p_dom p) e) ds es"
      using es by (intro exI [of _ "if pa = [] then [] else [root_entry ds pa ord]"] exI [of _ es1]) (simp add: root_entry_def no_entry_def)
  qed (use dd choices qs ctrl tree_order_set [OF ord parents_of_Inr(1) [OF pa]] in \<open>auto simp: cd\<close>)
qed

subsection \<open>Encoding is exact\<close>

text \<open>A complete public point: the active parameters, each with a value the codec accepts.\<close>

definition ax_valid :: "codec \<Rightarrow> jdict \<Rightarrow> bool" where
  "ax_valid cd values \<longleftrightarrow> fst ` set values \<subseteq> p_name ` set (cd_definitions cd) \<and>
     (\<forall>p\<in>set (cd_definitions cd). (has_key values (p_name p) \<longleftrightarrow> is_parameter_active p values) \<and>
        (\<forall>v. map_of values (p_name p) = Some v \<longrightarrow> ax_member (p_dom p) v))"

definition put_code :: "param list \<Rightarrow> jdict \<Rightarrow> string list \<Rightarrow> param \<Rightarrow> jdict \<Rightarrow> jdict" where
  "put_code ds values expected p out =
     (if List.member expected (p_name p) then dset (alias_of ds (p_name p)) (ax_code (p_dom p) (jget values (p_name p))) out else out)"

lemma encode_fold_exact:
  assumes "list_all2 (\<lambda>p e. en_raw e = Some (p_name p) \<and> en_name e = alias_of ds (p_name p) \<and> codes (p_dom p) e) qs es"
    and "list_all (\<lambda>p. scalar_choices (p_dom p)) qs"
  shows "foldE (encode_entry values expected) es out = Inr enc \<longleftrightarrow>
    (\<forall>p\<in>set qs. p_name p \<in> set expected \<longrightarrow> (\<exists>v. map_of values (p_name p) = Some v \<and> ax_member (p_dom p) v)) \<and>
    enc = fold (put_code ds values expected) qs out"
  using assms
proof (induction arbitrary: out rule: list_all2_induct)
  case (Cons p ps e es)
  have one: "encode_entry values expected e out = Inr out' \<longleftrightarrow>
      (p_name p \<in> set expected \<longrightarrow> (\<exists>v. map_of values (p_name p) = Some v \<and> ax_member (p_dom p) v)) \<and> out' = put_code ds values expected p out" for out'
  proof (cases "map_of values (p_name p)")
    case None
    with Cons.hyps(1) show ?thesis by (auto simp: encode_entry_def put_code_def jitem_def)
  next
    case (Some v)
    with Cons.hyps(1) Cons.prems encode_value_exact [of "p_dom p" e v] show ?thesis
      by (auto simp: encode_entry_def put_code_def jitem_def return_iff)
  qed
  show ?case using Cons.IH Cons.prems by (auto simp: bindE_Inr_iff one)
qed auto

lemma encode_prefix: "list_all (\<lambda>e. en_raw e = None) pre \<Longrightarrow> foldE (encode_entry values expected) (pre @ es) out = foldE (encode_entry values expected) es out"
  by (induction pre) (auto simp: encode_entry_def)

lemma active_names:
  assumes "codec_wf cd"
  obtains act where "active_parameters (cd_definitions cd) values = Inr act"
    "set act = {p \<in> set (cd_definitions cd). is_parameter_active p values}"
  using assms by (auto simp: codec_wf_def active_parameters_def)

definition ax_encoded :: "codec \<Rightarrow> jdict \<Rightarrow> jdict" where
  "ax_encoded cd values = fold (put_code (cd_definitions cd) values (map p_name (filter (\<lambda>p. is_parameter_active p values) (cd_definitions cd))))
     (cd_definitions cd) (if cd_dummy cd then [(''root'', JStr ''all'')] else [])"

lemma ax_encode_iff:
  assumes "codec_wf cd"
  shows "ax_encode cd values = Inr enc \<longleftrightarrow> ax_valid cd values \<and> enc = ax_encoded cd values"
proof -
  let ?ds = "cd_definitions cd"
  obtain act where act: "active_parameters ?ds values = Inr act" "set act = {p \<in> set ?ds. is_parameter_active p values}"
    using active_names [OF assms] by blast
  obtain pre es where es: "cd_parameters cd = pre @ es" "list_all (\<lambda>e. en_raw e = None) pre"
    "list_all2 (\<lambda>p e. en_raw e = Some (p_name p) \<and> en_name e = alias_of ?ds (p_name p) \<and> codes (p_dom p) e) ?ds es"
    using assms unfolding codec_wf_def by (elim conjE exE)
  have d: "distinct (map p_name ?ds)" and ch: "list_all (\<lambda>p. scalar_choices (p_dom p)) ?ds" using assms by (auto simp: codec_wf_def)
  let ?ex = "map p_name act" and ?ex' = "map p_name (filter (\<lambda>p. is_parameter_active p values) ?ds)"
  have ex: "set ?ex = set ?ex'" using act(2) by auto
  have mem: "p_name p \<in> set ?ex \<longleftrightarrow> is_parameter_active p values" if "p \<in> set ?ds" for p
    using d that act(2) by (auto simp: distinct_map inj_on_def)
  have keys: "same_set (map fst values) ?ex \<longleftrightarrow> fst ` set values = set ?ex"
    by (auto simp: same_set_def list_all_iff)
  have "fold (put_code ?ds values ?ex) ?ds out = fold (put_code ?ds values ?ex') ?ds out" for out
    using ex by (intro fold_cong refl) (auto simp: put_code_def fun_eq_iff)
  then have "ax_encode cd values = Inr enc \<longleftrightarrow> fst ` set values = set ?ex \<and>
      (\<forall>p\<in>set ?ds. p_name p \<in> set ?ex \<longrightarrow> (\<exists>v. map_of values (p_name p) = Some v \<and> ax_member (p_dom p) v)) \<and>
      enc = ax_encoded cd values"
    unfolding ax_encode_def act(1) bindE_simps Let_def keys es(1) encode_prefix [OF es(2)]
    by (simp add: encode_fold_exact [OF es(3) ch] if_Inr_Inl ax_encoded_def del: set_map)
  also have "\<dots> \<longleftrightarrow> ax_valid cd values \<and> enc = ax_encoded cd values"
  proof -
    have hk: "has_key values n \<longleftrightarrow> n \<in> fst ` set values" for n by (rule has_key_iff)
    have sub: "set ?ex \<subseteq> p_name ` set ?ds" using act(2) by auto
    have keys_eq: "fst ` set values = set ?ex \<longleftrightarrow> fst ` set values \<subseteq> p_name ` set ?ds \<and>
        (\<forall>p\<in>set ?ds. has_key values (p_name p) \<longleftrightarrow> is_parameter_active p values)"
      (is "?K = ?X \<longleftrightarrow> _")
    proof
      assume "?K = ?X"
      with sub mem show "?K \<subseteq> p_name ` set ?ds \<and> (\<forall>p\<in>set ?ds. has_key values (p_name p) \<longleftrightarrow> is_parameter_active p values)"
        unfolding hk by blast
    next
      assume r: "?K \<subseteq> p_name ` set ?ds \<and> (\<forall>p\<in>set ?ds. has_key values (p_name p) \<longleftrightarrow> is_parameter_active p values)"
      have same: "p_name p \<in> ?K \<longleftrightarrow> p_name p \<in> ?X" if "p \<in> set ?ds" for p
        using mem [OF that] conjunct2 [OF r] that unfolding hk by simp
      show "?K = ?X"
      proof (intro subset_antisym subsetI)
        fix n assume n: "n \<in> ?K"
        from subsetD [OF conjunct1 [OF r] n] obtain p where "p \<in> set ?ds" "p_name p = n" by (rule imageE) simp
        with n same [of p] show "n \<in> ?X" by simp
      next
        fix n assume n: "n \<in> ?X"
        from subsetD [OF sub n] obtain p where "p \<in> set ?ds" "p_name p = n" by (rule imageE) simp
        with n same [of p] show "n \<in> ?K" by simp
      qed
    qed
    have member_eq: "(p_name p \<in> ?X \<longrightarrow> (\<exists>v. map_of values (p_name p) = Some v \<and> ax_member (p_dom p) v)) \<longleftrightarrow>
        (\<forall>v. map_of values (p_name p) = Some v \<longrightarrow> ax_member (p_dom p) v)"
      if "p \<in> set ?ds" "has_key values (p_name p) \<longleftrightarrow> is_parameter_active p values" for p
      using that(2) unfolding mem [OF that(1)] by (cases "map_of values (p_name p)") simp_all
    show ?thesis
    proof (cases "\<forall>p\<in>set ?ds. has_key values (p_name p) \<longleftrightarrow> is_parameter_active p values")
      case True
      have "(\<forall>p\<in>set ?ds. p_name p \<in> ?X \<longrightarrow> (\<exists>v. map_of values (p_name p) = Some v \<and> ax_member (p_dom p) v)) \<longleftrightarrow>
          (\<forall>p\<in>set ?ds. \<forall>v. map_of values (p_name p) = Some v \<longrightarrow> ax_member (p_dom p) v)"
      proof (rule ball_cong [OF refl])
        fix p assume "p \<in> set ?ds"
        then show "(p_name p \<in> ?X \<longrightarrow> (\<exists>v. map_of values (p_name p) = Some v \<and> ax_member (p_dom p) v)) =
            (\<forall>v. map_of values (p_name p) = Some v \<longrightarrow> ax_member (p_dom p) v)"
          using member_eq [OF _ bspec [OF True]] by simp
      qed
      with True show ?thesis unfolding keys_eq ax_valid_def ball_conj_distrib by simp
    next
      case False
      then have "fst ` set values \<noteq> set ?ex" "\<not> ax_valid cd values" unfolding keys_eq ax_valid_def by blast+
      then show ?thesis by (simp only: simp_thms)
    qed
  qed
  finally show ?thesis .
qed

subsection \<open>Decoding inverts encoding\<close>

lemma put_code_get:
  assumes "distinct (map p_name ds)" "set qs \<subseteq> set ds" "distinct qs" "p \<in> set ds"
  shows "map_of (fold (put_code ds values expected) qs out) (alias_of ds (p_name p)) =
    (if p \<in> set qs \<and> p_name p \<in> set expected then Some (ax_code (p_dom p) (jget values (p_name p)))
     else map_of out (alias_of ds (p_name p)))"
  using assms(2,3)
proof (induction qs arbitrary: out)
  case (Cons q qs)
  with alias_inject [OF assms(1) assms(4), of q] show ?case by (auto simp: put_code_def)
qed simp

lemma encoded_get:
  assumes "codec_wf cd" "p \<in> set (cd_definitions cd)"
  shows "map_of (ax_encoded cd values) (alias_of (cd_definitions cd) (p_name p)) =
    (if is_parameter_active p values then Some (ax_code (p_dom p) (jget values (p_name p))) else None)"
proof -
  have d: "distinct (map p_name (cd_definitions cd))" using assms(1) by (simp add: codec_wf_def)
  have mem: "p_name p \<in> set (map p_name (filter (\<lambda>p. is_parameter_active p values) (cd_definitions cd))) \<longleftrightarrow> is_parameter_active p values"
    using d assms(2) by (auto simp: distinct_map inj_on_def)
  have "map_of (if cd_dummy cd then [(''root'', JStr ''all'')] else []) (alias_of (cd_definitions cd) (p_name p)) = None"
    using alias_not_root [OF d assms(2)] by simp
  moreover have dd: "distinct (cd_definitions cd)" using d by (simp add: distinct_map)
  ultimately show ?thesis
    unfolding ax_encoded_def put_code_get [OF d subset_refl dd assms(2)] mem using assms(2) by simp
qed

lemma encoded_wf:
  assumes "codec_wf cd" "ax_valid cd values"
  shows "json_wf (JObj (ax_encoded cd values))"
proof -
  have wf: "json_wf (JObj (fold (put_code ds values expected) qs out))"
    if "json_wf (JObj out)" "\<And>p. p \<in> set qs \<Longrightarrow> p_name p \<in> set expected \<Longrightarrow> json_wf (ax_code (p_dom p) (jget values (p_name p)))" for ds expected qs out
    using that
  proof (induction qs arbitrary: out)
    case (Cons q qs)
    have "json_wf (JObj (put_code ds values expected q out))"
      using Cons.prems by (simp add: put_code_def json_wf_dset del: json_wf.simps)
    with Cons show ?case by simp
  qed simp
  show ?thesis
    unfolding ax_encoded_def
  proof (rule wf)
    fix p assume p: "p \<in> set (cd_definitions cd)"
      and "p_name p \<in> set (map p_name (filter (\<lambda>p. is_parameter_active p values) (cd_definitions cd)))"
    moreover have "distinct (map p_name (cd_definitions cd))" using assms(1) by (simp add: codec_wf_def)
    ultimately have "is_parameter_active p values" by (auto simp: distinct_map inj_on_def)
    with assms(2) p obtain v where "map_of values (p_name p) = Some v" "ax_member (p_dom p) v"
      unfolding ax_valid_def by (metis not_Some_eq)
    then show "json_wf (ax_code (p_dom p) (jget values (p_name p)))"
      by (cases "p_dom p"; cases v) (auto simp: ax_code_def ax_typed_def ax_member_def split: sum.splits dest: float_of_int_finite)
  qed simp
qed

lemma put_code_cong:
  assumes "\<And>p. p \<in> set qs \<Longrightarrow> p_name p \<in> set expected \<Longrightarrow> ax_code (p_dom p) (jget a (p_name p)) = ax_code (p_dom p) (jget b (p_name p))"
  shows "fold (put_code ds a expected) qs out = fold (put_code ds b expected) qs out"
  using assms by (intro fold_cong refl) (auto simp: put_code_def fun_eq_iff)

lemma find_named: "distinct (map p_name ds) \<Longrightarrow> p \<in> set ds \<Longrightarrow> find (\<lambda>q. p_name q = p_name p) ds = Some p"
  by (induction ds) auto

lemma entry_found:
  assumes "codec_wf cd" "p \<in> set (cd_definitions cd)"
  shows "\<exists>e. entry_named cd (p_name p) = Some e \<and> en_name e = alias_of (cd_definitions cd) (p_name p) \<and> codes (p_dom p) e"
proof -
  let ?ds = "cd_definitions cd"
  obtain pre es where es: "cd_parameters cd = pre @ es" "list_all (\<lambda>e. en_raw e = None) pre"
    "list_all2 (\<lambda>p e. en_raw e = Some (p_name p) \<and> en_name e = alias_of ?ds (p_name p) \<and> codes (p_dom p) e) ?ds es"
    using assms unfolding codec_wf_def by (elim conjE exE)
  have d: "distinct (map p_name ?ds)" using assms by (simp add: codec_wf_def)
  have "find (\<lambda>e. en_raw e = Some n) (pre @ es) = find (\<lambda>e. en_raw e = Some n) es" for n
    using es(2) by (induction pre) auto
  moreover have "\<exists>e. find (\<lambda>e. en_raw e = Some (p_name p)) es = Some e \<and> en_name e = alias_of ?ds (p_name p) \<and> codes (p_dom p) e"
    if "list_all2 (\<lambda>p e. en_raw e = Some (p_name p) \<and> en_name e = alias_of ?ds (p_name p) \<and> codes (p_dom p) e) qs es"
      "distinct (map p_name qs)" "p \<in> set qs" for qs
    using that by (induction rule: list_all2_induct) auto
  note this [OF es(3) d assms(2)]
  ultimately show ?thesis by (simp add: entry_named_def es(1))
qed

lemma decode_fold:
  assumes "codec_wf cd" "ax_valid cd values" "set ns \<subseteq> p_name ` set (cd_definitions cd)"
    and "\<And>n. map_of raw n \<noteq> None \<Longrightarrow> \<exists>p\<in>set (cd_definitions cd). p_name p = n \<and> map_of raw n = map_option (ax_typed (p_dom p)) (map_of values n)"
  shows "\<exists>raw'. foldE (decode_entry cd (ax_encoded cd values)) ns raw = Inr raw' \<and>
    (\<forall>n. map_of raw' n = (if n \<in> set ns \<and> has_key values n
       then (case find (\<lambda>p. p_name p = n) (cd_definitions cd) of Some p \<Rightarrow> map_option (ax_typed (p_dom p)) (map_of values n) | None \<Rightarrow> None)
       else map_of raw n))"
  using assms(3,4)
proof (induction ns arbitrary: raw)
  case (Cons n ns)
  let ?ds = "cd_definitions cd"
  from Cons.prems(1) obtain p where p: "p \<in> set ?ds" "p_name p = n" by auto
  obtain e where e: "entry_named cd n = Some e" "en_name e = alias_of ?ds n" "codes (p_dom p) e"
    using entry_found [OF assms(1) p(1)] p(2) by blast
  have d: "distinct (map p_name ?ds)" using assms(1) by (simp add: codec_wf_def)
  have fp: "find (\<lambda>q. p_name q = n) ?ds = Some p"
    using find_named [OF d p(1)] p(2) by simp
  have act: "has_key values n \<longleftrightarrow> is_parameter_active p values" using assms(2) p unfolding ax_valid_def by blast
  show ?case
  proof (cases "map_of values n")
    case None
    then have "decode_entry cd (ax_encoded cd values) n raw = Inr raw"
      using act encoded_get [OF assms(1) p(1), of "values"] p(2) by (simp add: decode_entry_def e)
    with Cons.IH [of raw] Cons.prems None show ?thesis by auto
  next
    case (Some v)
    then have m: "ax_member (p_dom p) v" using assms(2) p unfolding ax_valid_def by blast
    let ?raw = "dset n (ax_typed (p_dom p) v) raw"
    have one: "decode_entry cd (ax_encoded cd values) n raw = Inr ?raw"
      using act encoded_get [OF assms(1) p(1), of "values"] p(2) Some decode_code [OF e(3) m] by (simp add: decode_entry_def e)
    have "\<exists>q\<in>set ?ds. p_name q = k \<and> map_of ?raw k = map_option (ax_typed (p_dom q)) (map_of values k)"
      if "map_of ?raw k \<noteq> None" for k
      using Cons.prems(2) [of k] that p Some by (cases "k = n") auto
    from Cons.IH [of ?raw, OF _ this] Cons.prems(1) obtain raw' where
      r: "foldE (decode_entry cd (ax_encoded cd values)) ns ?raw = Inr raw'"
      "\<forall>k. map_of raw' k = (if k \<in> set ns \<and> has_key values k
         then (case find (\<lambda>p. p_name p = k) ?ds of Some p \<Rightarrow> map_option (ax_typed (p_dom p)) (map_of values k) | None \<Rightarrow> None)
         else map_of ?raw k)" by auto
    show ?thesis
    proof (intro exI [of _ raw'] conjI allI)
      show "foldE (decode_entry cd (ax_encoded cd values)) (n # ns) raw = Inr raw'" by (simp add: one r(1))
      show "map_of raw' k = (if k \<in> set (n # ns) \<and> has_key values k
         then (case find (\<lambda>p. p_name p = k) ?ds of Some p \<Rightarrow> map_option (ax_typed (p_dom p)) (map_of values k) | None \<Rightarrow> None)
         else map_of raw k)" for k
        using r(2) fp Some by (cases "k = n") auto
    qed
  qed
qed simp

text \<open>C38: decoding inverts encoding. Whatever public point encodes decodes to the same point, key for
  key, where an integer given for a float parameter comes back as that float; so a point that
  went through the optimizer is the point the campaign stored.\<close>

theorem ax_roundtrip:
  assumes "params_wf params" "build_codec params constraints = Inr cd" "ax_encode cd values = Inr enc"
  shows "\<exists>raw. ax_decode cd enc = Inr raw \<and> fst ` set raw = fst ` set values \<and>
    (\<forall>p\<in>set (cd_definitions cd). map_of raw (p_name p) = map_option (ax_typed (p_dom p)) (map_of values (p_name p)))"
proof -
  let ?ds = "cd_definitions cd"
  have wf: "codec_wf cd" by (rule build_codec_wf(1) [OF assms(2,1)])
  have valid: "ax_valid cd values" and enc: "enc = ax_encoded cd values" using assms(3) unfolding ax_encode_iff [OF wf] by auto
  have d: "distinct (map p_name ?ds)" and ord: "set (cd_order cd) = p_name ` set ?ds" using wf by (auto simp: codec_wf_def)
  have look: "find (\<lambda>q. p_name q = p_name p) ?ds = Some p" if "p \<in> set ?ds" for p
    using find_named [OF d that] .
  have "\<exists>raw. foldE (decode_entry cd enc) (cd_order cd) [] = Inr raw \<and>
    (\<forall>n. map_of raw n = (if n \<in> set (cd_order cd) \<and> has_key values n
       then (case find (\<lambda>p. p_name p = n) ?ds of Some p \<Rightarrow> map_option (ax_typed (p_dom p)) (map_of values n) | None \<Rightarrow> None)
       else map_of [] n))"
    unfolding enc by (rule decode_fold [OF wf valid]) (simp_all add: ord)
  then obtain raw where raw: "foldE (decode_entry cd enc) (cd_order cd) [] = Inr raw"
    "\<And>n. map_of raw n = (if n \<in> set (cd_order cd) \<and> has_key values n
       then (case find (\<lambda>p. p_name p = n) ?ds of Some p \<Rightarrow> map_option (ax_typed (p_dom p)) (map_of values n) | None \<Rightarrow> None)
       else map_of [] n)"
    by blast
  have get: "map_of raw (p_name p) = map_option (ax_typed (p_dom p)) (map_of values (p_name p))" if "p \<in> set ?ds" for p
    using raw(2) [of "p_name p"] that ord look [OF that] by (cases "map_of values (p_name p)") auto
  have sub: "fst ` set values \<subseteq> p_name ` set ?ds" using valid by (simp add: ax_valid_def)
  have keys: "map_of raw n = None \<longleftrightarrow> map_of values n = None" for n
  proof (cases "n \<in> p_name ` set ?ds")
    case True
    then obtain p where "p \<in> set ?ds" "p_name p = n" by auto
    with get [of p] show ?thesis by simp
  next
    case False
    then have "map_of values n = None" using sub by (auto simp: map_of_eq_None_iff)
    with raw(2) [of n] show ?thesis by simp
  qed
  have keyset: "fst ` set raw = fst ` set values" using keys by (auto simp: map_of_eq_None_iff)
  have same: "is_parameter_active p raw = is_parameter_active p values" if p: "p \<in> set ?ds" for p
  proof (rule active_cong)
    fix c assume c: "c \<in> set (controllers p)"
    have "\<exists>q\<in>set ?ds. p_name q = c \<and> \<not> is_float_domain (p_dom q)"
      using wf p c unfolding codec_wf_def by blast
    then obtain q where q: "q \<in> set ?ds" "p_name q = c" "\<not> is_float_domain (p_dom q)" by blast
    from q(3) have "ax_typed (p_dom q) v = v" for v by (cases "p_dom q") (auto simp: ax_typed_def)
    with get [OF q(1)] q(2) show "map_of raw c = map_of values c" by (simp add: option.map_ident_strong)
  qed
  have rvalid: "ax_valid cd raw"
    unfolding ax_valid_def keyset
  proof (intro conjI ballI allI impI sub)
    fix p assume p: "p \<in> set ?ds"
    show "has_key raw (p_name p) = is_parameter_active p raw"
      using valid p keys same [OF p] by (simp add: ax_valid_def)
    fix v assume "map_of raw (p_name p) = Some v"
    with get [OF p] obtain u where "map_of values (p_name p) = Some u" "v = ax_typed (p_dom p) u"
      by (cases "map_of values (p_name p)") auto
    with valid p show "ax_member (p_dom p) v" by (auto simp: ax_valid_def intro: typed_member)
  qed
  have filt: "filter (\<lambda>p. is_parameter_active p raw) ?ds = filter (\<lambda>p. is_parameter_active p values) ?ds"
    by (rule filter_cong [OF refl same])
  have code: "ax_code (p_dom p) (jget raw (p_name p)) = ax_code (p_dom p) (jget values (p_name p))"
    if p: "p \<in> set ?ds" "is_parameter_active p values" for p
  proof -
    obtain v where "map_of values (p_name p) = Some v" "ax_member (p_dom p) v"
      using valid p unfolding ax_valid_def by (metis not_Some_eq)
    with get [OF p(1)] show ?thesis by (simp add: typed_member)
  qed
  have "ax_encoded cd raw = ax_encoded cd values"
    unfolding ax_encoded_def filt
  proof (rule put_code_cong)
    fix p assume p: "p \<in> set ?ds" and "p_name p \<in> set (map p_name (filter (\<lambda>p. is_parameter_active p values) ?ds))"
    then have "is_parameter_active p values" using d by (auto simp: distinct_map inj_on_def)
    with p show "ax_code (p_dom p) (jget raw (p_name p)) = ax_code (p_dom p) (jget values (p_name p))" by (rule code)
  qed
  then have "ax_encode cd raw = Inr enc" using ax_encode_iff [OF wf] rvalid by (simp add: enc)
  moreover have "py_eq (JObj enc) (JObj enc)" unfolding enc by (rule py_eq_refl [OF encoded_wf [OF wf valid]])
  ultimately have "ax_decode cd enc = Inr raw" by (simp add: ax_decode_def raw(1))
  with keyset get show ?thesis by blast
qed

text \<open>C39: encoding is exact. A point encodes exactly when it is a complete point of the space: it
  assigns the active parameters and no others, each with a value of its type inside its
  (tightened) domain.\<close>

theorem ax_encode_exact:
  assumes "params_wf params" "build_codec params constraints = Inr cd"
  shows "res_ok (ax_encode cd values) \<longleftrightarrow> ax_valid cd values"
proof -
  have "codec_wf cd" by (rule build_codec_wf(1) [OF assms(2,1)])
  from ax_encode_iff [OF this, of "values"] show ?thesis by (cases "ax_encode cd values") (auto simp: res_ok_def)
qed

subsection \<open>Concrete instances\<close>

text \<open>A float beside the conditional parameters, and a rule that rules out one branch value.\<close>

definition ax_params :: "param list" where
  "ax_params = example_params @ [param_of ''rate'' (FloatDom (Fin 0) (Fin 1) Linear) None]"

definition ax_rules :: constraint_cfg where
  "ax_rules = \<lparr>bound_tightening = [], linear_inequalities = [],
     forbidden_combinations = [\<lparr>fb_id = ''forbidden_combinations[0]'', fb_when = [(''tuned'', [JBool True]), (''kind'', [JStr ''net''])]\<rparr>]\<rparr>"

definition ax_demo :: codec where
  "ax_demo = (case build_codec ax_params (Some ax_rules) of Inr cd \<Rightarrow> cd
     | Inl _ \<Rightarrow> \<lparr>cd_definitions = [], cd_parameters = [], cd_order = [], cd_dummy = False, cd_linear = [], cd_constraints = None, cd_generation = None\<rparr>)"

lemma ax_demo_built: "build_codec ax_params (Some ax_rules) = Inr ax_demo"
  by code_simp

lemma ax_params_wf: "params_wf ax_params"
  unfolding params_wf_def
proof (intro conjI)
  show "\<forall>p\<in>set ax_params. p_name p \<noteq> [] \<and> domain_wf (p_dom p) \<and>
         (\<forall>w. p_when p = Some w \<longrightarrow> w \<noteq> [] \<and> list_all (condition_wf ax_params p) w)"
    by (simp add: ax_params_def example_params_def param_of_def condition_wf_def fle_def flt_def)
qed code_simp+

definition ax_point :: jdict where
  "ax_point = [(''rate'', JInt 1), (''tuned'', JBool True), (''kind'', JStr ''tree''), (''depth'', JInt 3)]"

definition ax_point_code :: jdict where
  "ax_point_code = [(''root'', JStr ''all''), (''p0'', JInt 3), (''p1'', JStr ''c0''), (''p2'', JBool True), (''p3'', JFloat (Fin 1))]"

lemma ax_demo_encode: "ax_encode ax_demo ax_point = Inr ax_point_code"
  by code_simp

theorem ax_roundtrip_witness:
  "\<exists>raw. ax_decode ax_demo ax_point_code = Inr raw \<and> fst ` set raw = {''rate'', ''tuned'', ''kind'', ''depth''}"
  using ax_roundtrip [OF ax_params_wf ax_demo_built ax_demo_encode] by (auto simp: ax_point_def)

theorem ax_encode_exact_witness:
  "ax_valid ax_demo ax_point \<and> \<not> ax_valid ax_demo [(''rate'', JInt 1), (''tuned'', JBool False), (''kind'', JStr ''tree'')]"
proof
  show "ax_valid ax_demo ax_point"
    by (subst ax_encode_exact [OF ax_params_wf ax_demo_built, symmetric]) (simp add: ax_demo_encode res_ok_def)
  have "\<not> res_ok (ax_encode ax_demo [(''rate'', JInt 1), (''tuned'', JBool False), (''kind'', JStr ''tree'')])" by code_simp
  then show "\<not> ax_valid ax_demo [(''rate'', JInt 1), (''tuned'', JBool False), (''kind'', JStr ''tree'')]"
    by (subst ax_encode_exact [OF ax_params_wf ax_demo_built, symmetric])
qed

end
