(* ===== verification/ObsImport.thy ===== *)
theory ObsImport
  imports AxSpace Campaign "HOL-Library.Sublist"
begin

text \<open>
  Import and export of observations (\<open>templates/_shared/observations_io.py\<close>): normalization of
  JSON-lines and CSV records, the planning of trial ids, the permissive mode with its reject
  records, and the exported records and tables.
\<close>

abbreviation imp_err :: "string \<Rightarrow> 'a res" where
  "imp_err s \<equiv> Inl (ValueError s)"

text \<open>
  The text conversions of the standard library: \<open>int(s)\<close> and \<open>float(s)\<close> of a stripped text,
  \<open>json.loads\<close>, and \<open>json.dumps\<close> in its default and its compact form with sorted keys.
\<close>

record text_ops =
  t_int :: "string \<Rightarrow> int option"
  t_float :: "string \<Rightarrow> pyfloat option"
  t_loads :: "string \<Rightarrow> json option"
  t_dumps :: "json \<Rightarrow> string"
  t_compact :: "json \<Rightarrow> string"

datatype row_format = Csv | Jsonl

definition require_supported_format :: "string \<Rightarrow> row_format res" where
  "require_supported_format s = (let f = py_lower (py_strip s) in
     if f = ''csv'' then Inr Csv else if f = ''jsonl'' then Inr Jsonl else imp_err ''row_format'')"

definition format_text :: "row_format \<Rightarrow> string" where
  "format_text f = (case f of Csv \<Rightarrow> ''csv'' | Jsonl \<Rightarrow> ''jsonl'')"

subsection \<open>Fields\<close>

definition require_object :: "json \<Rightarrow> string \<Rightarrow> jdict res" where
  "require_object v field = (case v of JObj d \<Rightarrow> Inr d | _ \<Rightarrow> imp_err (field @ '' must be an object''))"

definition require_trial_id :: "json \<Rightarrow> string \<Rightarrow> int res" where
  "require_trial_id v field = (case v of
     JInt n \<Rightarrow> if n < 1 then imp_err (field @ '' must be >= 1'') else Inr n
   | _ \<Rightarrow> imp_err (field @ '' must be an integer''))"

definition normalize_terminal_status :: "json \<Rightarrow> string res" where
  "normalize_terminal_status v = (case v of
     JStr s \<Rightarrow> let st = py_lower (py_strip s) in
       if List.member canonical_statuses st then Inr st else imp_err ''status''
   | _ \<Rightarrow> imp_err ''status must be a string'')"

text \<open>Blank text counts as absent; that is the only mode the callers use.\<close>

definition normalize_optional_string :: "json \<Rightarrow> string \<Rightarrow> string option res" where
  "normalize_optional_string v field = (case v of
     JNull \<Rightarrow> Inr None
   | JStr s \<Rightarrow> Inr (if py_strip s = [] then None else Some (py_strip s))
   | _ \<Rightarrow> imp_err (field @ '' must be a string or null''))"

definition finite_or_error :: "json \<Rightarrow> string \<Rightarrow> pyfloat res" where
  "finite_or_error v field =
     bindE (is_finite_number v) (\<lambda>ok. if ok then py_float v else imp_err (field @ '' must be a finite number''))"

definition normalize_optional_float :: "text_ops \<Rightarrow> json \<Rightarrow> string \<Rightarrow> pyfloat option res" where
  "normalize_optional_float t v field = (case v of
     JNull \<Rightarrow> Inr None
   | JStr s \<Rightarrow>
       if py_strip s = [] then Inr None
       else (case t_float t (py_strip s) of
         None \<Rightarrow> imp_err (field @ '' must be a finite number or null'')
       | Some x \<Rightarrow> bindE (finite_or_error (JFloat x) field) (\<lambda>y. Inr (Some y)))
   | _ \<Rightarrow> bindE (finite_or_error v field) (\<lambda>y. Inr (Some y)))"

definition normalize_optional_int :: "text_ops \<Rightarrow> json \<Rightarrow> string \<Rightarrow> int option res" where
  "normalize_optional_int t v field = (case v of
     JNull \<Rightarrow> Inr None
   | JStr s \<Rightarrow>
       if py_strip s = [] then Inr None
       else (case t_int t (py_strip s) of None \<Rightarrow> imp_err (field @ '' must be an integer or null'') | Some n \<Rightarrow> Inr (Some n))
   | JInt n \<Rightarrow> Inr (Some n)
   | _ \<Rightarrow> imp_err (field @ '' must be an integer or null''))"

definition normalize_optional_nonnegative_int :: "text_ops \<Rightarrow> json \<Rightarrow> string \<Rightarrow> int option res" where
  "normalize_optional_nonnegative_int t v field =
     bindE (normalize_optional_int t v field) (\<lambda>n. case n of
       Some i \<Rightarrow> if i < 0 then imp_err (field @ '' must be >= 0'') else Inr n
     | None \<Rightarrow> Inr None)"

subsection \<open>Parameter values\<close>

definition parse_bool_value :: "json \<Rightarrow> bool res" where
  "parse_bool_value v = (case v of
     JBool b \<Rightarrow> Inr b
   | JStr s \<Rightarrow> let x = py_lower (py_strip s) in
       if x = ''true'' \<or> x = ''1'' \<or> x = ''yes'' then Inr True
       else if x = ''false'' \<or> x = ''0'' \<or> x = ''no'' then Inr False
       else imp_err ''must be a boolean value''
   | _ \<Rightarrow> imp_err ''must be a boolean value'')"

text \<open>The number of a numeric cell: text is parsed by the parameter's type.\<close>

definition numeric_cell :: "text_ops \<Rightarrow> bool \<Rightarrow> json \<Rightarrow> json res" where
  "numeric_cell t int_type v = (case v of
     JStr s \<Rightarrow>
       if py_strip s = [] then imp_err ''must not be blank''
       else if int_type then (case t_int t (py_strip s) of None \<Rightarrow> imp_err ''must be a valid int value'' | Some n \<Rightarrow> Inr (JInt n))
       else (case t_float t (py_strip s) of None \<Rightarrow> imp_err ''must be a valid float value'' | Some x \<Rightarrow> Inr (JFloat x))
   | _ \<Rightarrow> Inr v)"

definition normalize_int_param :: "text_ops \<Rightarrow> json \<Rightarrow> json res" where
  "normalize_int_param t v = bindE (numeric_cell t True v) (\<lambda>w.
     if \<not> strict_num w then imp_err ''must be an integer value''
     else bindE (is_integral w) (\<lambda>ok. if \<not> ok then imp_err ''must be an integer value''
       else bindE (py_int w) (\<lambda>n. Inr (JInt n))))"

definition normalize_float_param :: "text_ops \<Rightarrow> json \<Rightarrow> json res" where
  "normalize_float_param t v = bindE (numeric_cell t False v) (\<lambda>w.
     bindE (finite_or_error w ''parameter'') (\<lambda>x. Inr (JFloat x)))"

text \<open>The first numeric choice equal to the number a text stands for.\<close>

fun numeric_choice :: "text_ops \<Rightarrow> string \<Rightarrow> json list \<Rightarrow> json option" where
  "numeric_choice t s [] = None"
| "numeric_choice t s (c # cs) = (case c of
     JInt i \<Rightarrow> (case t_int t s of Some n \<Rightarrow> if n = i then Some c else numeric_choice t s cs | None \<Rightarrow> numeric_choice t s cs)
   | JFloat f \<Rightarrow> (case t_float t s of Some x \<Rightarrow> if feq x f then Some c else numeric_choice t s cs | None \<Rightarrow> numeric_choice t s cs)
   | _ \<Rightarrow> numeric_choice t s cs)"

text \<open>\<open>value in choices\<close> compares with \<open>==\<close>, and the present_cell value is kept.\<close>

definition normalize_categorical_value :: "text_ops \<Rightarrow> json list \<Rightarrow> json \<Rightarrow> json res" where
  "normalize_categorical_value t choices v =
     (if list_ex (\<lambda>c. py_eq v c) choices then Inr v
      else case v of
        JStr s \<Rightarrow>
          if py_strip s = [] then imp_err ''must not be blank''
          else if List.member choices (JStr (py_strip s)) then Inr (JStr (py_strip s))
          else (case numeric_choice t (py_strip s) choices of Some c \<Rightarrow> Inr c | None \<Rightarrow> imp_err ''must match one of the choices'')
      | _ \<Rightarrow> imp_err ''must match one of the choices'')"

definition blank_cell :: "json \<Rightarrow> bool" where
  "blank_cell v = (case v of JNull \<Rightarrow> True | JStr s \<Rightarrow> py_strip s = [] | _ \<Rightarrow> False)"

definition normalize_param_value :: "text_ops \<Rightarrow> json \<Rightarrow> pdomain \<Rightarrow> json option res" where
  "normalize_param_value t v dm =
     (if blank_cell v then Inr None
      else bindE (case dm of
          BoolDom \<Rightarrow> bindE (parse_bool_value v) (\<lambda>b. Inr (JBool b))
        | IntDom _ _ _ \<Rightarrow> normalize_int_param t v
        | FloatDom _ _ _ \<Rightarrow> normalize_float_param t v
        | CatDom cs \<Rightarrow> normalize_categorical_value t cs v) (\<lambda>w. Inr (Some w)))"

definition parse_param :: "text_ops \<Rightarrow> (string \<Rightarrow> json option) \<Rightarrow> param \<Rightarrow> jdict \<Rightarrow> jdict res" where
  "parse_param t cell p parsed = (case cell (p_name p) of
     None \<Rightarrow> Inr parsed
   | Some v \<Rightarrow> bindE (normalize_param_value t v (p_dom p)) (\<lambda>w.
       Inr (case w of None \<Rightarrow> parsed | Some x \<Rightarrow> dset (p_name p) x parsed)))"

text \<open>Canonical parameters, with every active parameter present.\<close>

definition complete_params :: "jdict \<Rightarrow> param list \<Rightarrow> jdict res" where
  "complete_params parsed params =
     bindE (canonicalize_conditional_params parsed params) (\<lambda>canonical.
     bindE (active_parameters params canonical) (\<lambda>act.
     if list_ex (\<lambda>p. \<not> has_key canonical (p_name p)) act then imp_err ''missing required active params''
     else Inr canonical))"

definition typed_params :: "jdict \<Rightarrow> param list \<Rightarrow> jdict res" where
  "typed_params payload params =
     bindE (build_codec params None) (\<lambda>cd.
     bindE (canonicalize_conditional_params payload params) (\<lambda>canonical.
     bindE (ax_encode cd canonical) (ax_decode cd)))"

definition normalize_param_payload :: "text_ops \<Rightarrow> json \<Rightarrow> param list \<Rightarrow> bool \<Rightarrow> jdict res" where
  "normalize_param_payload t raw params ax2 =
     bindE (require_object raw ''params'') (\<lambda>payload.
     if ax2 then typed_params payload params
     else if list_ex (\<lambda>k. \<not> List.member (map p_name params) k) (map fst payload) then imp_err ''unknown params''
     else bindE (foldE (parse_param t (map_of payload)) params []) (\<lambda>parsed. complete_params parsed params))"

subsection \<open>CSV parameters\<close>

definition known_row_fields :: "string list" where
  "known_row_fields = [''trial_id'', ''source_trial_id'', ''status'', ''suggested_at'', ''completed_at'', ''runtime_seconds'',
     ''terminal_reason'', ''penalty_objective'', ''artifact_path'', ''last_heartbeat_at'', ''heartbeat_count'', ''heartbeat_note'',
     ''lease_token'', ''heartbeat_meta'', ''heartbeat_meta_json'', ''ax_objective_sems_json'', ''ax_measurements_json'',
     ''ax_measurement_sems_json'', ''ax_scalarized_sem'', ''ax_csv_version'', ''ax_params_json'']"

definition param_column :: "string \<Rightarrow> string" where
  "param_column n = ''param_'' @ n"

definition present_cell :: "json \<Rightarrow> bool" where
  "present_cell v = (v \<noteq> JNull \<and> v \<noteq> JStr [])"

definition mixed_choices :: "json list \<Rightarrow> bool" where
  "mixed_choices cs = (List.member cs (JStr []) \<or>
     \<not> (list_all is_str cs \<or> list_all strict_int cs \<or> list_all is_bool cs \<or>
        list_all (\<lambda>c. case c of JFloat _ \<Rightarrow> True | _ \<Rightarrow> False) cs))"

definition known_column :: "param list \<Rightarrow> string \<times> json \<Rightarrow> bool" where
  "known_column params c = (List.member known_row_fields (fst c) \<or> List.member (map (\<lambda>p. param_column (p_name p)) params) (fst c) \<or>
     starts_with ''objective_'' (fst c) \<or> blank_cell (snd c))"

definition typed_csv_params :: "text_ops \<Rightarrow> jdict \<Rightarrow> param list \<Rightarrow> bool \<Rightarrow> jdict res" where
  "typed_csv_params t row params ax2 =
     (if \<not> ax2 \<or> is_bool (jget row ''ax_csv_version'') \<or> py_str (jget row ''ax_csv_version'') \<noteq> ''2''
      then imp_err ''Typed CSV version2''
      else if list_ex (\<lambda>(k, v). starts_with ''param_'' k \<and> present_cell v) row then imp_err ''must not mix''
      else case dict_get row ''ax_params_json'' (JStr []) of
        JStr s \<Rightarrow> (case t_loads t s of
          None \<Rightarrow> imp_err ''ax_params_json''
        | Some v \<Rightarrow> normalize_param_payload t v params True)
      | _ \<Rightarrow> imp_err ''ax_params_json'')"

definition normalize_csv_param_payload :: "text_ops \<Rightarrow> jdict \<Rightarrow> param list \<Rightarrow> bool \<Rightarrow> jdict res" where
  "normalize_csv_param_payload t row params ax2 =
     (if list_ex (\<lambda>c. \<not> known_column params c) row then imp_err ''unknown column''
      else if present_cell (jget row ''ax_csv_version'') then typed_csv_params t row params ax2
      else if present_cell (jget row ''ax_params_json'') then imp_err ''ax_params_json requires ax_csv_version=2''
      else if ax2 \<and> list_ex (\<lambda>p. case p_dom p of CatDom cs \<Rightarrow> mixed_choices cs | _ \<Rightarrow> False) params
      then imp_err ''Mixed/empty categorical choices''
      else bindE (foldE (parse_param t (\<lambda>n. map_of row (param_column n))) params []) (\<lambda>parsed.
        bindE (complete_params parsed params) (\<lambda>canonical.
        if ax2 then normalize_param_payload t (JObj canonical) params True else Inr canonical)))"

subsection \<open>Objectives\<close>

definition normalize_objective_payload :: "json \<Rightarrow> objective_cfg \<Rightarrow> string \<Rightarrow> jdict res" where
  "normalize_objective_payload raw cfg status =
     bindE (nullable_objective_vector raw cfg) (\<lambda>objectives.
     if status = ''ok''
     then bindE (canonical_objective_vector (nullable_json objectives) cfg) (\<lambda>v. Inr (map (\<lambda>(n, x). (n, JFloat x)) v))
     else if list_ex (\<lambda>(_, v). v \<noteq> None) objectives then imp_err ''must be null for all configured objectives''
     else Inr (map (\<lambda>(n, v). (n, jfloat_opt v)) objectives))"

definition normalize_csv_objective_payload :: "text_ops \<Rightarrow> jdict \<Rightarrow> objective_cfg \<Rightarrow> string \<Rightarrow> jdict res" where
  "normalize_csv_objective_payload t row cfg status =
     bindE (mapE (\<lambda>n. bindE (normalize_optional_float t (jget row (''objective_'' @ n)) n) (\<lambda>x. Inr (n, jfloat_opt x)))
              (objective_names cfg)) (\<lambda>payload.
     normalize_objective_payload (JObj payload) cfg status)"

subsection \<open>Where a row came from\<close>

definition normalize_source_trial_id :: "json \<Rightarrow> json option res" where
  "normalize_source_trial_id v = (case v of
     JNull \<Rightarrow> Inr None
   | JInt n \<Rightarrow> Inr (Some (JInt n))
   | JFloat x \<Rightarrow> if \<not> is_finite x \<or> \<not> float_is_integer x then imp_err ''source trial id must be integer-like''
                else bindE (int_of_float x) (\<lambda>n. Inr (Some (JInt n)))
   | JStr s \<Rightarrow> Inr (if py_strip s = [] then None else Some (JStr (py_strip s)))
   | JBool _ \<Rightarrow> imp_err ''source trial id must not be boolean''
   | _ \<Rightarrow> imp_err ''source trial id must be a string, integer, or null'')"

text \<open>Both formats read the same two fields.\<close>

definition source_trial_id :: "jdict \<Rightarrow> json option res" where
  "source_trial_id row =
     (if has_key row ''source_trial_id'' then normalize_source_trial_id (jget row ''source_trial_id'')
      else if has_key row ''trial_id'' then normalize_source_trial_id (jget row ''trial_id'')
      else Inr None)"

text \<open>\<open>path.suffix\<close> of the last component of a path.\<close>

definition path_suffix :: "string \<Rightarrow> string" where
  "path_suffix name = (let tail = rev (takeWhile (\<lambda>c. c \<noteq> CHR ''.'') (rev name)) in
     if length tail = 0 \<or> length name \<le> Suc (length tail) then [] else CHR ''.'' # tail)"

definition infer_observation_format :: "string \<Rightarrow> row_format res" where
  "infer_observation_format name = (let s = py_lower (path_suffix name) in
     if s = ''.csv'' then Inr Csv
     else if s = ''.jsonl'' \<or> s = ''.ndjson'' then Inr Jsonl
     else imp_err ''Unsupported observation file format'')"

text \<open>Lines of a text; a carriage return before a line feed only adds a blank line, which is skipped.\<close>

definition is_line_break :: "char \<Rightarrow> bool" where
  "is_line_break c = (of_char c \<in> {10 :: nat, 11, 12, 13, 28, 29, 30, 133})"

fun text_lines :: "string \<Rightarrow> string list" where
  "text_lines [] = [[]]"
| "text_lines (c # s) = (if is_line_break c then [] # text_lines s
     else case text_lines s of [] \<Rightarrow> [[c]] | l # ls \<Rightarrow> (c # l) # ls)"

definition load_jsonl_rows :: "text_ops \<Rightarrow> string \<Rightarrow> jdict list res" where
  "load_jsonl_rows t text = mapE (\<lambda>l. case t_loads t l of
       Some (JObj d) \<Rightarrow> Inr d
     | Some _ \<Rightarrow> imp_err ''must decode to an object''
     | None \<Rightarrow> imp_err ''invalid JSON'') (filter (\<lambda>l. l \<noteq> []) (map py_strip (text_lines text)))"

text \<open>\<open>contents\<close> is the text of the file if it exists; \<open>csv_rows\<close> is what \<open>csv.DictReader\<close> yields for it.\<close>

definition load_observation_rows :: "text_ops \<Rightarrow> (string \<Rightarrow> jdict list) \<Rightarrow> string option \<Rightarrow> row_format \<Rightarrow> jdict list res" where
  "load_observation_rows t csv_rows contents f = (case contents of
     None \<Rightarrow> imp_err ''Observation input file does not exist''
   | Some text \<Rightarrow> (case f of Jsonl \<Rightarrow> load_jsonl_rows t text | Csv \<Rightarrow> Inr (csv_rows text)))"

subsection \<open>Planning trial ids\<close>

definition next_import_trial_id :: "campaign \<Rightarrow> int res" where
  "next_import_trial_id c =
     (if cp_pending c \<noteq> [] then imp_err ''import-observations requires zero pending trials''
      else require_trial_id (JInt (cp_next c)) ''state.next_trial_id'')"

definition plan_import_trial_ids :: "campaign \<Rightarrow> nat \<Rightarrow> int list res" where
  "plan_import_trial_ids c n = bindE (next_import_trial_id c) (\<lambda>i. Inr (map (\<lambda>k. i + int k) [0..<n]))"

subsection \<open>Export\<close>

definition export_field_order :: "string list" where
  "export_field_order = [''trial_id'', ''source_trial_id'', ''params'', ''objectives''] @ measurement_fields @
     [''status'', ''suggested_at'', ''completed_at'', ''runtime_seconds'', ''terminal_reason'', ''penalty_objective'',
      ''artifact_path'', ''last_heartbeat_at'', ''heartbeat_count'', ''heartbeat_note'', ''heartbeat_meta'', ''lease_token'']"

definition export_observation_json_record :: "jdict \<Rightarrow> jdict res" where
  "export_observation_json_record r =
     bindE (require_trial_id (jget r ''trial_id'') ''observation.trial_id'') (\<lambda>_.
     bindE (normalize_terminal_status (jget r ''status'')) (\<lambda>_.
     bindE (require_object (jget r ''params'') ''observation.params'') (\<lambda>_.
     bindE (require_object (jget r ''objectives'') ''observation.objectives'') (\<lambda>_.
     Inr (copy_keys export_field_order r)))))"

definition typed_parameter_csv_fields :: "text_ops \<Rightarrow> jdict \<Rightarrow> jdict res" where
  "typed_parameter_csv_fields t params =
     (if \<not> json_finite (JObj params) then imp_err ''Out of range float values are not JSON compliant''
      else Inr [(''ax_csv_version'', JInt 2), (''ax_params_json'', JStr (t_compact t (JObj params)))])"

definition measurement_cells :: "text_ops \<Rightarrow> jdict \<Rightarrow> jdict" where
  "measurement_cells t r = concat (map (\<lambda>(field, column). case map_of r field of
     None \<Rightarrow> []
   | Some v \<Rightarrow> [(column, if field = ''scalarized_sem'' then v else JStr (t_compact t v))]) measurement_columns)"

definition flatten_observation_for_csv :: "text_ops \<Rightarrow> bool \<Rightarrow> jdict \<Rightarrow> jdict res" where
  "flatten_observation_for_csv t ax2 observation =
     bindE (export_observation_json_record observation) (\<lambda>r.
     bindE (require_object (jget r ''params'') ''observation.params'') (\<lambda>params.
     bindE (require_object (jget r ''objectives'') ''observation.objectives'') (\<lambda>objectives.
     let out = filter (\<lambda>(k, _). k \<noteq> ''params'' \<and> k \<noteq> ''objectives'' \<and> \<not> List.member measurement_fields k) r in
     bindE (case map_of out ''heartbeat_meta'' of
         None \<Rightarrow> Inr out
       | Some JNull \<Rightarrow> Inr (dset ''heartbeat_meta_json'' JNull (dpop ''heartbeat_meta'' out))
       | Some (JObj m) \<Rightarrow> Inr (dset ''heartbeat_meta_json'' (JStr (t_compact t (JObj m))) (dpop ''heartbeat_meta'' out))
       | Some _ \<Rightarrow> imp_err ''observation.heartbeat_meta'') (\<lambda>out1.
     bindE (if ax2 then bindE (typed_parameter_csv_fields t params) (\<lambda>fs. Inr (dict_update out1 fs))
            else Inr (dict_update out1 (map (\<lambda>(k, v). (''param_'' @ k, v)) params))) (\<lambda>out2.
     Inr (dict_update (dict_update out2 (map (\<lambda>(k, v). (''objective_'' @ k, v)) objectives)) (measurement_cells t r)))))))"

definition flatten_observations_for_csv :: "text_ops \<Rightarrow> bool \<Rightarrow> jdict list \<Rightarrow> jdict list res" where
  "flatten_observations_for_csv t ax2 rows = mapE (flatten_observation_for_csv t ax2) rows"

definition render_observations_jsonl :: "text_ops \<Rightarrow> jdict list \<Rightarrow> string res" where
  "render_observations_jsonl t rows =
     bindE (mapE export_observation_json_record rows) (\<lambda>rs. Inr (concat (map (\<lambda>r. t_dumps t (JObj r) @ [CHR 0x0A]) rs)))"

text \<open>
  The table handed to \<open>csv.DictWriter\<close>: the sorted columns and a cell for each, absent cells
  empty; without rows the text is empty.
\<close>

type_synonym csv_text = "(string list \<times> json option list list) option"

definition render_observations_csv :: "text_ops \<Rightarrow> bool \<Rightarrow> jdict list \<Rightarrow> csv_text res" where
  "render_observations_csv t ax2 rows =
     bindE (flatten_observations_for_csv t ax2 rows) (\<lambda>fs.
     if fs = [] then Inr None
     else let keys = sort_by str_less (remdups (concat (map (map fst) fs)))
     in Inr (Some (keys, map (\<lambda>r. map (map_of r) keys) fs)))"

subsection \<open>Normalized records\<close>

text \<open>The hint swallows a value that cannot be a source id.\<close>

definition source_trial_id_hint :: "json \<Rightarrow> json option res" where
  "source_trial_id_hint raw = (case raw of
     JObj row \<Rightarrow> (case source_trial_id row of Inl e \<Rightarrow> if is_value_error e then Inr None else Inl e | Inr s \<Rightarrow> Inr s)
   | _ \<Rightarrow> Inr None)"

definition build_import_reject_record :: "json \<Rightarrow> row_format \<Rightarrow> nat \<Rightarrow> string \<Rightarrow> jdict res" where
  "build_import_reject_record raw f row_number error =
     (if row_number < 1 then imp_err ''row_number must be an integer >= 1''
      else bindE (source_trial_id_hint raw) (\<lambda>hint.
        Inr ([(''row_number'', JInt (int row_number)), (''row_format'', JStr (format_text f)), (''error'', JStr error), (''row'', raw)] @
             (case hint of None \<Rightarrow> [] | Some s \<Rightarrow> [(''source_trial_id'', s)]))))"

definition heartbeat_meta_of :: "text_ops \<Rightarrow> json \<Rightarrow> jdict option res" where
  "heartbeat_meta_of t v = (case v of
     JNull \<Rightarrow> Inr None
   | JStr s \<Rightarrow>
       if py_strip s = [] then Inr None
       else (case t_loads t (py_strip s) of Some (JObj d) \<Rightarrow> Inr (Some d) | _ \<Rightarrow> imp_err ''heartbeat_meta_json'')
   | JObj d \<Rightarrow> Inr (Some d)
   | _ \<Rightarrow> imp_err ''heartbeat_meta'')"

definition opt_field :: "string \<Rightarrow> json option \<Rightarrow> jdict" where
  "opt_field k v = (case v of None \<Rightarrow> [] | Some x \<Rightarrow> [(k, x)])"

text \<open>\<open>row\<close> is read with \<open>get\<close>; the name of the heartbeat metadata field depends on the format.\<close>

definition normalize_common_observation_fields :: "text_ops \<Rightarrow> jdict \<Rightarrow> string \<Rightarrow> int \<Rightarrow> pyfloat \<Rightarrow> jdict res" where
  "normalize_common_observation_fields t row meta_field local_id imported_at =
     bindE (normalize_terminal_status (jget row ''status'')) (\<lambda>status.
     bindE (normalize_optional_float t (jget row ''suggested_at'') ''suggested_at'') (\<lambda>suggested.
     bindE (normalize_optional_float t (jget row ''completed_at'') ''completed_at'') (\<lambda>completed.
     bindE (normalize_optional_string (jget row ''terminal_reason'') ''terminal_reason'') (\<lambda>reason.
     bindE (normalize_optional_float t (jget row ''penalty_objective'') ''penalty_objective'') (\<lambda>penalty.
     if status = ''ok'' \<and> penalty \<noteq> None then imp_err ''penalty_objective must be null when status=ok''
     else
     bindE (normalize_optional_string (jget row ''artifact_path'') ''artifact_path'') (\<lambda>artifact.
     bindE (normalize_optional_float t (jget row ''last_heartbeat_at'') ''last_heartbeat_at'') (\<lambda>beat.
     bindE (normalize_optional_nonnegative_int t (jget row ''heartbeat_count'') ''heartbeat_count'') (\<lambda>beats.
     bindE (normalize_optional_string (jget row ''heartbeat_note'') ''heartbeat_note'') (\<lambda>remark.
     bindE (normalize_optional_string (jget row ''lease_token'') ''lease_token'') (\<lambda>lease.
     bindE (normalize_optional_float t (jget row ''runtime_seconds'') ''runtime_seconds'') (\<lambda>runtime.
     bindE (heartbeat_meta_of t (jget row meta_field)) (\<lambda>meta.
     let reason' = (if status \<noteq> ''ok'' \<and> reason = None then Some (''status='' @ status) else reason) in
     Inr ([(''trial_id'', JInt local_id), (''status'', JStr status), (''suggested_at'', jfloat_opt suggested),
           (''completed_at'', JFloat (case completed of None \<Rightarrow> imported_at | Some x \<Rightarrow> x)),
           (''artifact_path'', jopt (map_option JStr artifact))] @
          opt_field ''terminal_reason'' (map_option JStr reason') @
          (if penalty \<noteq> None \<or> status \<noteq> ''ok'' then [(''penalty_objective'', jfloat_opt penalty)] else []) @
          opt_field ''last_heartbeat_at'' (map_option JFloat beat) @
          opt_field ''heartbeat_count'' (map_option JInt beats) @
          opt_field ''heartbeat_note'' (map_option JStr remark) @
          opt_field ''heartbeat_meta'' (map_option JObj meta) @
          opt_field ''lease_token'' (map_option JStr lease) @
          opt_field ''runtime_seconds'' (map_option JFloat runtime))))))))))))))"

definition validate_import_parameters :: "jdict \<Rightarrow> codec option \<Rightarrow> unit res" where
  "validate_import_parameters params cd = (case cd of
     None \<Rightarrow> Inr ()
   | Some c \<Rightarrow> bindE (ax_encode c params) (\<lambda>_. bindE (ax_feasible c params) (\<lambda>ev.
       guardE (ev_feasible ev) (ValueError ''import params violate current parameter constraints''))))"

definition jsonl_known_fields :: "string list" where
  "jsonl_known_fields = [''trial_id'', ''source_trial_id'', ''params'', ''objectives'', ''status'', ''suggested_at'', ''completed_at'',
     ''runtime_seconds'', ''terminal_reason'', ''penalty_objective'', ''artifact_path'', ''last_heartbeat_at'', ''heartbeat_count'',
     ''heartbeat_note'', ''heartbeat_meta'', ''lease_token''] @ measurement_fields"

record import_settings =
  im_params :: "param list"
  im_objective :: objective_cfg
  im_codec :: "codec option"
  im_at :: pyfloat

text \<open>The normalized observation with its source id, when it has one.\<close>

type_synonym import_record = "json option \<times> jdict"

definition finish_import :: "import_settings \<Rightarrow> json option \<Rightarrow> jdict \<Rightarrow> jdict res \<Rightarrow> jdict res \<Rightarrow> jdict res \<Rightarrow> import_record res" where
  "finish_import m src common params objectives extensions =
     bindE params (\<lambda>ps.
     bindE (validate_import_parameters ps (im_codec m)) (\<lambda>_.
     bindE objectives (\<lambda>objs.
     bindE extensions (\<lambda>ext.
     let observation = common @ [(''params'', JObj ps), (''objectives'', JObj objs)] in
     bindE (normalize_measurements (dict_update observation ext) (im_objective m)) (\<lambda>measured.
     Inr (src, dict_update observation (measured_json measured)))))))"

definition normalize_jsonl_record :: "text_ops \<Rightarrow> import_settings \<Rightarrow> jdict \<Rightarrow> int \<Rightarrow> import_record res" where
  "normalize_jsonl_record t m row local_id =
     bindE (source_trial_id row) (\<lambda>src.
     if list_ex (\<lambda>k. \<not> List.member jsonl_known_fields k) (map fst row) then imp_err ''unknown fields''
     else
     bindE (normalize_common_observation_fields t row ''heartbeat_meta'' local_id (im_at m)) (\<lambda>common.
     finish_import m src common
       (normalize_param_payload t (jget row ''params'') (im_params m) (ax_contract_version (im_objective m) = 2))
       (normalize_objective_payload (jget row ''objectives'') (im_objective m) (str_of (jget common ''status'')))
       (Inr (copy_keys measurement_fields row))))"

definition csv_extension :: "text_ops \<Rightarrow> jdict \<Rightarrow> string \<times> string \<Rightarrow> jdict res" where
  "csv_extension t row c = (case c of (field, column) \<Rightarrow>
     let v = jget row column in
     if blank_cell v then Inr []
     else if field = ''scalarized_sem'' then bindE (normalize_optional_float t v column) (\<lambda>x. Inr [(field, jfloat_opt x)])
     else (case v of
       JStr s \<Rightarrow> (case t_loads t s of Some w \<Rightarrow> Inr [(field, w)] | None \<Rightarrow> imp_err (column @ '' must contain a JSON metric map''))
     | _ \<Rightarrow> imp_err (column @ '' must contain a JSON metric map'')))"

definition normalize_csv_record :: "text_ops \<Rightarrow> import_settings \<Rightarrow> jdict \<Rightarrow> int \<Rightarrow> import_record res" where
  "normalize_csv_record t m row local_id =
     bindE (source_trial_id row) (\<lambda>src.
     bindE (normalize_common_observation_fields t row ''heartbeat_meta_json'' local_id (im_at m)) (\<lambda>common.
     finish_import m src common
       (normalize_csv_param_payload t row (im_params m) (ax_contract_version (im_objective m) = 2))
       (normalize_csv_objective_payload t row (im_objective m) (str_of (jget common ''status'')))
       (bindE (mapE (csv_extension t row) measurement_columns) (\<lambda>es. Inr (concat es)))))"

definition normalize_import_record :: "text_ops \<Rightarrow> import_settings \<Rightarrow> row_format \<Rightarrow> json \<Rightarrow> int \<Rightarrow> import_record res" where
  "normalize_import_record t m f raw local_id =
     bindE (require_trial_id (JInt local_id) ''local_trial_id'') (\<lambda>_.
     if \<not> is_finite (im_at m) then imp_err ''imported_at must be a finite number''
     else bindE (require_object raw ''observation row'') (\<lambda>row. case f of
       Jsonl \<Rightarrow> normalize_jsonl_record t m row local_id
     | Csv \<Rightarrow> normalize_csv_record t m row local_id))"

subsection \<open>Permissive mode\<close>

record permissive =
  pm_accepted :: "import_record list"
  pm_rejected :: "jdict list"
  pm_next :: int

definition error_text :: "exn \<Rightarrow> string" where
  "error_text e = (case e of ValueError s \<Rightarrow> s | SamplingFailure s \<Rightarrow> s | ValidationError f s \<Rightarrow> f @ '': '' @ s | _ \<Rightarrow> [])"

text \<open>Only a \<open>ValueError\<close> rejects a row; any other exception ends the import.\<close>

definition permissive_row :: "text_ops \<Rightarrow> import_settings \<Rightarrow> row_format \<Rightarrow> nat \<times> json \<Rightarrow> permissive \<Rightarrow> permissive res" where
  "permissive_row t m f r s = (case r of (i, raw) \<Rightarrow>
     case normalize_import_record t m f raw (pm_next s) of
       Inr a \<Rightarrow> Inr (s\<lparr>pm_accepted := pm_accepted s @ [a], pm_next := pm_next s + 1\<rparr>)
     | Inl e \<Rightarrow>
         if is_value_error e
         then bindE (build_import_reject_record raw f (Suc i) (error_text e)) (\<lambda>x. Inr (s\<lparr>pm_rejected := pm_rejected s @ [x]\<rparr>))
         else Inl e)"

definition normalize_import_records_permissive :: "text_ops \<Rightarrow> import_settings \<Rightarrow> row_format \<Rightarrow> json list \<Rightarrow> int \<Rightarrow> permissive res" where
  "normalize_import_records_permissive t m f raws next_id =
     bindE (require_trial_id (JInt next_id) ''next_trial_id'') (\<lambda>i.
     foldE (permissive_row t m f) (enum raws) \<lparr>pm_accepted = [], pm_rejected = [], pm_next = i\<rparr>)"

text \<open>Strict mode: the first row that does not normalize ends the import.\<close>

definition normalize_import_records_strict :: "text_ops \<Rightarrow> import_settings \<Rightarrow> row_format \<Rightarrow> json list \<Rightarrow> int list \<Rightarrow> import_record list res" where
  "normalize_import_records_strict t m f raws ids =
     mapE (\<lambda>(raw, i). normalize_import_record t m f raw i) (zip raws ids)"

subsection \<open>Permissive and strict mode\<close>

lemma map_of_opt_field [simp]: "map_of (opt_field k v) k' = (if k' = k then v else None)"
  by (simp add: opt_field_def split: option.splits)

lemma require_trial_id_Inr [return_iff]: "require_trial_id (JInt n) field = Inr i \<longleftrightarrow> i = n \<and> 1 \<le> n"
  by (auto simp: require_trial_id_def)

lemma optional_float_finite: "normalize_optional_float t v field = Inr (Some x) \<Longrightarrow> is_finite x"
  by (auto simp: normalize_optional_float_def finite_or_error_def return_iff split: json.splits if_splits option.splits)

lemma optional_string_normal: "normalize_optional_string v field = Inr (Some r) \<Longrightarrow> normal_reason r"
  by (auto simp: normalize_optional_string_def normal_reason_def split: json.splits if_splits)

lemma terminal_status_canonical: "normalize_terminal_status v = Inr st \<Longrightarrow> st \<in> set canonical_statuses"
  by (auto simp: normalize_terminal_status_def Let_def split: json.splits if_splits)

lemma common_fields:
  assumes "normalize_common_observation_fields t row mf i now = Inr c" "is_finite now"
  shows "map_of c ''trial_id'' = Some (JInt i)" "map_of c ''params'' = None" "map_of c ''objectives'' = None"
    "\<exists>x. map_of c ''completed_at'' = Some (JFloat x) \<and> is_finite x"
    "\<exists>st\<in>set canonical_statuses. map_of c ''status'' = Some (JStr st) \<and>
       (if st = ''ok'' then map_of c ''penalty_objective'' = None
        else (\<exists>r. map_of c ''terminal_reason'' = Some (JStr r) \<and> normal_reason r) \<and>
             (\<exists>v. map_of c ''penalty_objective'' = Some (jfloat_opt v) \<and> (\<forall>x. v = Some x \<longrightarrow> is_finite x)))"
    "k \<in> set measurement_fields \<Longrightarrow> map_of c k = None"
    "map_of c ''lease_token'' = None \<or> (\<exists>r. map_of c ''lease_token'' = Some (JStr r) \<and> normal_reason r)"
proof -
  from assms(1) obtain st suggested completed reason penalty artifact beat beats remark lease runtime meta where
    st: "normalize_terminal_status (jget row ''status'') = Inr st"
    and completed: "normalize_optional_float t (jget row ''completed_at'') ''completed_at'' = Inr completed"
    and reason: "normalize_optional_string (jget row ''terminal_reason'') ''terminal_reason'' = Inr reason"
    and penalty: "normalize_optional_float t (jget row ''penalty_objective'') ''penalty_objective'' = Inr penalty"
    and lease: "normalize_optional_string (jget row ''lease_token'') ''lease_token'' = Inr lease"
    and ok: "\<not> (st = ''ok'' \<and> penalty \<noteq> None)"
    and c: "c = [(''trial_id'', JInt i), (''status'', JStr st), (''suggested_at'', jfloat_opt suggested),
           (''completed_at'', JFloat (case completed of None \<Rightarrow> now | Some x \<Rightarrow> x)),
           (''artifact_path'', jopt (map_option JStr artifact))] @
          opt_field ''terminal_reason'' (map_option JStr (if st \<noteq> ''ok'' \<and> reason = None then Some (''status='' @ st) else reason)) @
          (if penalty \<noteq> None \<or> st \<noteq> ''ok'' then [(''penalty_objective'', jfloat_opt penalty)] else []) @
          opt_field ''last_heartbeat_at'' (map_option JFloat beat) @
          opt_field ''heartbeat_count'' (map_option JInt beats) @
          opt_field ''heartbeat_note'' (map_option JStr remark) @
          opt_field ''heartbeat_meta'' (map_option JObj meta) @
          opt_field ''lease_token'' (map_option JStr lease) @
          opt_field ''runtime_seconds'' (map_option JFloat runtime)"
    unfolding normalize_common_observation_fields_def Let_def bindE_Inr_iff if_Inr_Inl by (simp add: bindE_Inr_iff) blast
  have canonical: "st \<in> set canonical_statuses" by (rule terminal_status_canonical [OF st])
  show "map_of c ''trial_id'' = Some (JInt i)" "map_of c ''params'' = None" "map_of c ''objectives'' = None"
    unfolding c by (simp_all add: map_add_def)
  show "\<exists>x. map_of c ''completed_at'' = Some (JFloat x) \<and> is_finite x"
    unfolding c using optional_float_finite completed assms(2) by (cases completed) auto
  show "\<exists>st\<in>set canonical_statuses. map_of c ''status'' = Some (JStr st) \<and>
       (if st = ''ok'' then map_of c ''penalty_objective'' = None
        else (\<exists>r. map_of c ''terminal_reason'' = Some (JStr r) \<and> normal_reason r) \<and>
             (\<exists>v. map_of c ''penalty_objective'' = Some (jfloat_opt v) \<and> (\<forall>x. v = Some x \<longrightarrow> is_finite x)))"
  proof (intro bexI [OF _ canonical] conjI)
    show "map_of c ''status'' = Some (JStr st)" unfolding c by simp
    show "if st = ''ok'' then map_of c ''penalty_objective'' = None
        else (\<exists>r. map_of c ''terminal_reason'' = Some (JStr r) \<and> normal_reason r) \<and>
             (\<exists>v. map_of c ''penalty_objective'' = Some (jfloat_opt v) \<and> (\<forall>x. v = Some x \<longrightarrow> is_finite x))"
      using ok status_reason_normal [OF canonical] optional_string_normal reason optional_float_finite penalty
      unfolding c by (cases reason) (auto simp: map_add_def)
  qed
  show "map_of c ''lease_token'' = None \<or> (\<exists>r. map_of c ''lease_token'' = Some (JStr r) \<and> normal_reason r)"
    using optional_string_normal lease unfolding c by (cases lease) (auto simp: map_add_def)
  have "list_all (\<lambda>k. map_of c k = None) measurement_fields"
    unfolding c by (simp add: measurement_fields_def map_add_def)
  then show "map_of c k = None" if "k \<in> set measurement_fields" for k
    using that by (simp add: list_all_iff)
qed

lemma finish_import_fields:
  assumes "finish_import m src common params objectives extensions = Inr (src', obs)"
  shows "\<exists>ps objs. params = Inr ps \<and> objectives = Inr objs \<and> src' = src \<and>
    (\<forall>k. k \<notin> set measurement_fields \<longrightarrow> map_of obs k = map_of (common @ [(''params'', JObj ps), (''objectives'', JObj objs)]) k)"
  using assms
  by (auto simp: finish_import_def return_iff Let_def map_of_dict_update_distinct [OF measured_json_keys(2)] measured_json_get(5))

text \<open>Both formats normalize the common fields first and assemble the row the same way.\<close>

lemma import_parts:
  assumes "normalize_import_record t m f raw i = Inr (src, obs)"
  shows "\<exists>row mf common src0 params objectives extensions. is_finite (im_at m) \<and> 1 \<le> i \<and>
    normalize_common_observation_fields t row mf i (im_at m) = Inr common \<and>
    finish_import m src0 common params objectives extensions = Inr (src, obs) \<and>
    (params = normalize_param_payload t (jget row ''params'') (im_params m) (ax_contract_version (im_objective m) = 2) \<or>
     params = normalize_csv_param_payload t row (im_params m) (ax_contract_version (im_objective m) = 2)) \<and>
    (objectives = normalize_objective_payload (jget row ''objectives'') (im_objective m) (str_of (jget common ''status'')) \<or>
     objectives = normalize_csv_objective_payload t row (im_objective m) (str_of (jget common ''status'')))"
proof -
  obtain row where fin: "is_finite (im_at m)" "1 \<le> i"
    and row: "(case f of Jsonl \<Rightarrow> normalize_jsonl_record t m row i | Csv \<Rightarrow> normalize_csv_record t m row i) = Inr (src, obs)"
    using assms by (auto simp: normalize_import_record_def return_iff)
  show ?thesis
  proof (cases f)
    case Jsonl
    with row obtain src0 common where "normalize_common_observation_fields t row ''heartbeat_meta'' i (im_at m) = Inr common"
      "finish_import m src0 common (normalize_param_payload t (jget row ''params'') (im_params m) (ax_contract_version (im_objective m) = 2))
       (normalize_objective_payload (jget row ''objectives'') (im_objective m) (str_of (jget common ''status'')))
       (Inr (copy_keys measurement_fields row)) = Inr (src, obs)"
      by (auto simp: normalize_jsonl_record_def return_iff)
    with fin show ?thesis by blast
  next
    case Csv
    with row obtain src0 common where "normalize_common_observation_fields t row ''heartbeat_meta_json'' i (im_at m) = Inr common"
      "finish_import m src0 common (normalize_csv_param_payload t row (im_params m) (ax_contract_version (im_objective m) = 2))
       (normalize_csv_objective_payload t row (im_objective m) (str_of (jget common ''status'')))
       (bindE (mapE (csv_extension t row) measurement_columns) (\<lambda>es. Inr (concat es))) = Inr (src, obs)"
      by (auto simp: normalize_csv_record_def return_iff)
    with fin show ?thesis by blast
  qed
qed

lemma import_record_id:
  assumes "normalize_import_record t m f raw i = Inr a"
  shows "map_of (snd a) ''trial_id'' = Some (JInt i)"
proof -
  obtain src obs where a: "a = (src, obs)" by (cases a)
  from import_parts [OF assms [unfolded a]] obtain row mf common src0 params objectives extensions where
    fin: "is_finite (im_at m)" and c: "normalize_common_observation_fields t row mf i (im_at m) = Inr common"
    and fi: "finish_import m src0 common params objectives extensions = Inr (src, obs)" by blast
  obtain p o' where po: "\<And>k. k \<notin> set measurement_fields \<Longrightarrow> map_of obs k = map_of (common @ [(''params'', JObj p), (''objectives'', JObj o')]) k"
    using finish_import_fields [OF fi] by blast
  show ?thesis using common_fields(1) [OF c fin] by (simp add: a po measurement_fields_def)
qed

lemma permissive_fold:
  assumes "foldE (permissive_row t m f) irs s = Inr s'"
  shows "\<exists>acc rej. pm_accepted s' = pm_accepted s @ acc \<and> pm_rejected s' = pm_rejected s @ rej \<and>
    length acc + length rej = length irs \<and> pm_next s' = pm_next s + int (length acc) \<and>
    map (\<lambda>a. jget (snd a) ''trial_id'') acc = map (\<lambda>k. JInt (pm_next s + int k)) [0..<length acc] \<and>
    subseq (map (\<lambda>r. jget r ''row_number'') rej) (map (\<lambda>r. JInt (int (Suc (fst r)))) irs) \<and>
    (rej = [] \<longrightarrow> normalize_import_records_strict t m f (map snd irs) (map (\<lambda>k. pm_next s + int k) [0..<length irs]) = Inr acc)"
  using assms
proof (induction irs arbitrary: s)
  case Nil
  then show ?case by (intro exI [of _ "[]"]) (auto simp: normalize_import_records_strict_def)
next
  case (Cons ir irs)
  obtain i raw where ir: "ir = (i, raw)" by (cases ir)
  from Cons.prems obtain s1 where s1: "permissive_row t m f ir s = Inr s1" and rest: "foldE (permissive_row t m f) irs s1 = Inr s'"
    by (auto simp: return_iff)
  note IH = Cons.IH [OF rest]
  have shift: "map (\<lambda>k. g (n + int k)) [0..<Suc l] = g n # map (\<lambda>k. g (n + 1 + int k)) [0..<l]" for g :: "int \<Rightarrow> 'x" and n l
    by (subst upt_conv_Cons) (auto simp: map_Suc_upt [symmetric] simp del: upt_Suc intro: arg_cong [where f = g])
  show ?case
  proof (cases "normalize_import_record t m f raw (pm_next s)")
    case (Inr a)
    with s1 have s1: "s1 = s\<lparr>pm_accepted := pm_accepted s @ [a], pm_next := pm_next s + 1\<rparr>"
      by (simp add: permissive_row_def ir)
    from import_record_id [OF Inr] have id: "jget (snd a) ''trial_id'' = JInt (pm_next s)" by simp
    from IH obtain acc rej where r: "pm_accepted s' = pm_accepted s @ a # acc" "pm_rejected s' = pm_rejected s @ rej"
      "length acc + length rej = length irs" "pm_next s' = pm_next s + 1 + int (length acc)"
      "map (\<lambda>a. jget (snd a) ''trial_id'') acc = map (\<lambda>k. JInt (pm_next s + 1 + int k)) [0..<length acc]"
      "subseq (map (\<lambda>r. jget r ''row_number'') rej) (map (\<lambda>r. JInt (int (Suc (fst r)))) irs)"
      "rej = [] \<longrightarrow> normalize_import_records_strict t m f (map snd irs) (map (\<lambda>k. pm_next s + 1 + int k) [0..<length irs]) = Inr acc"
      by (auto simp: s1)
    show ?thesis
    proof (intro exI [of _ "a # acc"] exI [of _ rej] conjI impI)
      show "map (\<lambda>a. jget (snd a) ''trial_id'') (a # acc) = map (\<lambda>k. JInt (pm_next s + int k)) [0..<length (a # acc)]"
        using r(5) id shift [of JInt "pm_next s" "length acc"] by simp
      show "subseq (map (\<lambda>r. jget r ''row_number'') rej) (map (\<lambda>r. JInt (int (Suc (fst r)))) (ir # irs))"
        using r(6) by auto
      assume "rej = []"
      with r(7) Inr shift [of "\<lambda>x. x" "pm_next s" "length irs"]
      show "normalize_import_records_strict t m f (map snd (ir # irs)) (map (\<lambda>k. pm_next s + int k) [0..<length (ir # irs)]) = Inr (a # acc)"
        by (simp add: normalize_import_records_strict_def ir del: upt_Suc)
    qed (use r in auto)
  next
    case (Inl e)
    with s1 obtain x where x: "build_import_reject_record raw f (Suc i) (error_text e) = Inr x" and s1: "s1 = s\<lparr>pm_rejected := pm_rejected s @ [x]\<rparr>"
      by (auto simp: permissive_row_def ir return_iff split: if_splits)
    have num: "jget x ''row_number'' = JInt (int (Suc i))"
    proof -
      from x obtain hint where "x = [(''row_number'', JInt (int (Suc i))), (''row_format'', JStr (format_text f)), (''error'', JStr (error_text e)), (''row'', raw)] @ hint"
        unfolding build_import_reject_record_def by (auto simp: bindE_Inr_iff if_Inr_Inl simp del: of_nat_Suc)
      then show ?thesis by simp
    qed
    from IH obtain acc rej where r: "pm_accepted s' = pm_accepted s @ acc" "pm_rejected s' = pm_rejected s @ x # rej"
      "length acc + length rej = length irs" "pm_next s' = pm_next s + int (length acc)"
      "map (\<lambda>a. jget (snd a) ''trial_id'') acc = map (\<lambda>k. JInt (pm_next s + int k)) [0..<length acc]"
      "subseq (map (\<lambda>r. jget r ''row_number'') rej) (map (\<lambda>r. JInt (int (Suc (fst r)))) irs)"
      by (auto simp: s1)
    show ?thesis
      using r num by (intro exI [of _ acc] exI [of _ "x # rej"]) (auto simp: ir)
  qed
qed

subsection \<open>Imported rows are contract rows\<close>

definition complete_point :: "param list \<Rightarrow> jdict \<Rightarrow> bool" where
  "complete_point ps vals = list_all (\<lambda>p. is_parameter_active p vals \<longrightarrow> has_key vals (p_name p)) ps"

lemma complete_params_point:
  assumes "complete_params parsed ps = Inr out" "params_wf ps"
  shows "complete_point ps out"
proof -
  from assms(1) obtain act where act: "active_parameters ps out = Inr act" "\<not> list_ex (\<lambda>p. \<not> has_key out (p_name p)) act"
    by (auto simp: complete_params_def return_iff)
  then obtain qs where "ordered_parameters ps = Inr qs" "act = filter (\<lambda>p. is_parameter_active p out) qs"
    by (auto simp: active_parameters_def return_iff)
  with params_wf_ordered(3) [OF assms(2) this(1)] act(2) show ?thesis
    by (auto simp: complete_point_def list_all_iff list_ex_iff)
qed

lemma typed_params_point:
  assumes "typed_params payload ps = Inr out" "params_wf ps"
  shows "complete_point ps out"
proof -
  from assms(1) obtain cd enc canonical where cd: "build_codec ps None = Inr cd" and dec: "ax_decode cd enc = Inr out"
    by (auto simp: typed_params_def return_iff)
  note wf = build_codec_wf [OF cd assms(2)]
  from dec obtain enc' where "ax_encode cd out = Inr enc'" by (auto simp: ax_decode_def return_iff)
  then have valid: "ax_valid cd out" using ax_encode_iff [OF wf(1)] by blast
  have "has_key out (p_name p)" if p: "p \<in> set ps" "is_parameter_active p out" for p
  proof -
    from p(1) obtain j where j: "j < length ps" "ps ! j = p" by (auto simp: in_set_conv_nth)
    let ?q = "cd_definitions cd ! j"
    have len: "length (cd_definitions cd) = length ps" using wf(2) by (metis length_map)
    have "p_name ?q = p_name p" "p_when ?q = p_when p"
      using wf(2,3) j len by (metis nth_map)+
    moreover have "?q \<in> set (cd_definitions cd)" using j len by simp
    ultimately show ?thesis using valid p(2) unfolding ax_valid_def by (metis is_parameter_active_def)
  qed
  then show ?thesis by (simp add: complete_point_def list_all_iff)
qed

lemma param_payload_point: "normalize_param_payload t raw ps ax2 = Inr out \<Longrightarrow> params_wf ps \<Longrightarrow> complete_point ps out"
  by (auto simp: normalize_param_payload_def return_iff split: if_splits dest: complete_params_point typed_params_point)

lemma csv_payload_point:
  assumes "normalize_csv_param_payload t row ps ax2 = Inr out" "params_wf ps"
  shows "complete_point ps out"
  using assms
  by (auto simp: normalize_csv_param_payload_def typed_csv_params_def return_iff split: if_splits json.splits option.splits
      dest: complete_params_point param_payload_point)

lemma mapE_names:
  "mapE (\<lambda>n. bindE (g n) (\<lambda>v. Inr (n, h v))) ns = Inr xs \<Longrightarrow> map fst xs = ns \<and> (\<forall>(n, y)\<in>set xs. \<exists>v. g n = Inr v \<and> y = h v)"
  by (induction ns arbitrary: xs) (auto simp: return_iff)

lemma keys_map_pair: "map fst v = ns \<Longrightarrow> fst ` set (map (\<lambda>(n, x). (n, f x)) v) = set ns"
  by (drule sym) (simp add: image_image case_prod_unfold)

lemma map_of_map_pair: "map_of (map (\<lambda>(n, x). (n, f x)) v) k = map_option f (map_of v k)"
  by (induction v) auto

lemma canonical_vector_floats:
  assumes "canonical_objective_vector raw cfg = Inr v" "n \<in> set (objective_names cfg)"
  shows "\<exists>x. map_of v n = Some x \<and> is_finite x" "map fst v = objective_names cfg"
proof -
  from assms(1) obtain d where m: "mapE (\<lambda>n. bindE (obj_require_finite (jget d n) (''objectives.'' @ n)) (\<lambda>v. Inr (n, v))) (objective_names cfg) = Inr v"
    by (auto simp: canonical_objective_vector_def return_iff Let_def split: if_splits)
  show names: "map fst v = objective_names cfg" using m by (rule mapE_names [THEN conjunct1])
  then obtain x where x: "map_of v n = Some x" using assms(2) by (metis image_set map_of_eq_None_iff not_None_eq)
  then have "(n, x) \<in> set v" by (rule map_of_SomeD)
  with mapE_names [THEN conjunct2, OF m] obtain y where "obj_require_finite (jget d n) (''objectives.'' @ n) = Inr y" "x = y"
    by auto
  then have "is_finite x" by (auto simp: obj_require_finite_def return_iff split: if_splits)
  with x show "\<exists>x. map_of v n = Some x \<and> is_finite x" by blast
qed

lemma nullable_vector_names:
  "nullable_objective_vector raw cfg = Inr v \<Longrightarrow> map fst v = objective_names cfg"
proof -
  have "map fst v = ns" if "mapE (\<lambda>n. if jget d n = JNull then Inr (n, None) else bindE (g n) (\<lambda>v. Inr (n, Some v))) ns = Inr v" for d g ns and v :: "(string, pyfloat option) dict"
    using that by (induction ns arbitrary: v) (auto simp: return_iff split: if_splits)
  then show "nullable_objective_vector raw cfg = Inr v \<Longrightarrow> map fst v = objective_names cfg"
    by (auto simp: nullable_objective_vector_def return_iff Let_def comp_def split: if_splits)
qed

lemma objective_payload_normal:
  assumes "normalize_objective_payload raw cfg st = Inr objs"
  shows "normal_objectives cfg st objs"
proof -
  from assms obtain objectives where o': "nullable_objective_vector raw cfg = Inr objectives"
    and r: "(if st = ''ok'' then bindE (canonical_objective_vector (nullable_json objectives) cfg) (\<lambda>v. Inr (map (\<lambda>(n, x). (n, JFloat x)) v))
     else if list_ex (\<lambda>(_, v). v \<noteq> None) objectives then imp_err ''must be null for all configured objectives''
     else Inr (map (\<lambda>(n, v). (n, jfloat_opt v)) objectives)) = Inr objs"
    by (auto simp: normalize_objective_payload_def bindE_Inr_iff)
  show ?thesis
  proof (cases "st = ''ok''")
    case True
    with r obtain v where v: "canonical_objective_vector (nullable_json objectives) cfg = Inr v" "objs = map (\<lambda>(n, x). (n, JFloat x)) v"
      by (auto simp: return_iff)
    have "fst ` set objs = set (objective_names cfg)"
      unfolding v(2) by (rule keys_map_pair [OF canonical_vector_floats(2) [OF v(1) hd_in_set [OF objective_names_ne]]])
    moreover have "float_objective objs n" if "n \<in> set (objective_names cfg)" for n
      using canonical_vector_floats(1) [OF v(1) that] by (auto simp: float_objective_def v(2) map_of_map_pair)
    ultimately show ?thesis using True by (simp add: normal_objectives_def)
  next
    case False
    with r have none: "\<forall>x\<in>set objectives. snd x = None" and objs: "objs = map (\<lambda>(n, v). (n, jfloat_opt v)) objectives"
      by (auto simp: list_ex_iff split: if_splits)
    have names: "map fst objectives = objective_names cfg" by (rule nullable_vector_names [OF o'])
    have "map_of objs n = Some JNull" if "n \<in> set (objective_names cfg)" for n
    proof -
      from that names obtain x where x: "map_of objectives n = Some x" by (metis image_set map_of_eq_None_iff not_None_eq)
      with none have "x = None" using map_of_SomeD [OF x] by fastforce
      with x show ?thesis by (simp add: objs map_of_map_pair jfloat_opt_def)
    qed
    moreover have "fst ` set objs = set (objective_names cfg)"
      unfolding objs using names by (rule keys_map_pair)
    ultimately show ?thesis using False by (simp add: normal_objectives_def)
  qed
qed

lemma csv_objectives_normal: "normalize_csv_objective_payload t row cfg st = Inr objs \<Longrightarrow> normal_objectives cfg st objs"
  by (auto simp: normalize_csv_objective_payload_def return_iff intro: objective_payload_normal)

lemma normalize_import_objectives:
  assumes "normalize_import_record t m f raw i = Inr (src, obs)"
    and "map_of obs ''status'' = Some (JStr st)" "map_of obs ''objectives'' = Some (JObj objs)"
  shows "normal_objectives (im_objective m) st objs"
proof -
  from import_parts [OF assms(1)] obtain row mf common src0 params objectives extensions where
    fin: "is_finite (im_at m)" and c: "normalize_common_observation_fields t row mf i (im_at m) = Inr common"
    and fi: "finish_import m src0 common params objectives extensions = Inr (src, obs)"
    and objectives: "objectives = normalize_objective_payload (jget row ''objectives'') (im_objective m) (str_of (jget common ''status'')) \<or>
     objectives = normalize_csv_objective_payload t row (im_objective m) (str_of (jget common ''status''))"
    by blast
  obtain p o' where po: "objectives = Inr o'"
    "\<And>k. k \<notin> set measurement_fields \<Longrightarrow> map_of obs k = map_of (common @ [(''params'', JObj p), (''objectives'', JObj o')]) k"
    using finish_import_fields [OF fi] by blast
  note cf = common_fields [OF c fin]
  have "map_of obs ''objectives'' = Some (JObj o')" "map_of obs ''status'' = map_of common ''status''"
    using cf(1-3) by (simp_all add: po(2) measurement_fields_def map_add_def split: option.splits)
  with assms have "o' = objs" "jget common ''status'' = JStr st" by (simp_all add: jget_def)
  with objectives po(1) show ?thesis using objective_payload_normal csv_objectives_normal by auto
qed

subsection \<open>A concrete import\<close>

definition plain_text :: text_ops where
  "plain_text = \<lparr>t_int = (\<lambda>_. None), t_float = (\<lambda>_. None), t_loads = (\<lambda>_. None), t_dumps = (\<lambda>_. []), t_compact = (\<lambda>_. [])\<rparr>"

definition import_demo :: import_settings where
  "import_demo = \<lparr>im_params = [param_of ''tuned'' BoolDom None],
     im_objective = \<lparr>primary_objective = \<lparr>obj_name = ''loss'', obj_direction = Minimize, obj_tolerance = Fin 0, obj_failure = ''record_and_continue''\<rparr>,
       secondary_objectives = [], scalarization_of = PrimaryOnly, ax_contract_version = 1, acquisition_of = ScalarAcq, outcome = no_outcome\<rparr>,
     im_codec = None, im_at = Fin 9\<rparr>"

definition import_ok :: jdict where
  "import_ok = [(''trial_id'', JInt 40), (''params'', JObj [(''tuned'', JStr '' yes'')]), (''objectives'', JObj [(''loss'', JInt 3)]), (''status'', JStr ''OK'')]"

definition import_failed :: jdict where
  "import_failed = [(''params'', JObj [(''tuned'', JBool False)]), (''objectives'', JObj [(''loss'', JNull)]), (''status'', JStr ''failed'')]"

definition import_unknown :: jdict where
  "import_unknown = [(''status'', JStr ''ok''), (''surprise'', JNull)]"

definition imported_ok :: jdict where
  "imported_ok = [(''trial_id'', JInt 7), (''status'', JStr ''ok''), (''suggested_at'', JNull), (''completed_at'', JFloat (Fin 9)),
     (''artifact_path'', JNull), (''params'', JObj [(''tuned'', JBool True)]), (''objectives'', JObj [(''loss'', JFloat (Fin 3))])]"

lemma import_demo_wf: "params_wf (im_params import_demo)"
  unfolding params_wf_def
proof (intro conjI)
  show "\<forall>p\<in>set (im_params import_demo). p_name p \<noteq> [] \<and> domain_wf (p_dom p) \<and>
         (\<forall>w. p_when p = Some w \<longrightarrow> w \<noteq> [] \<and> list_all (condition_wf (im_params import_demo) p) w)"
    by (simp add: import_demo_def param_of_def)
qed code_simp+

definition permissive_demo :: permissive where
  "permissive_demo = (case normalize_import_records_permissive plain_text import_demo Jsonl
     [JObj import_ok, JObj import_unknown, JObj import_failed, JNull] 7 of
       Inr s \<Rightarrow> s | _ \<Rightarrow> \<lparr>pm_accepted = [], pm_rejected = [], pm_next = 0\<rparr>)"

text \<open>C12: whatever a row said, its import is a finished trial of the campaign's contract: it has the
  planned id, a canonical status and a finite completion time; an ok row has a finite value for
  exactly the configured objectives and no penalty, any other row has null objectives, a reason
  and at most a finite penalty; and every active parameter has a value.\<close>

theorem import_record_form:
  assumes "normalize_import_record t m f raw i = Inr (src, obs)" "params_wf (im_params m)"
  shows "1 \<le> i \<and> map_of obs ''trial_id'' = Some (JInt i) \<and>
    (\<exists>ps. map_of obs ''params'' = Some (JObj ps) \<and> complete_point (im_params m) ps) \<and>
    (\<exists>x. map_of obs ''completed_at'' = Some (JFloat x) \<and> is_finite x) \<and>
    (\<exists>st\<in>set canonical_statuses. \<exists>objs. map_of obs ''status'' = Some (JStr st) \<and>
       map_of obs ''objectives'' = Some (JObj objs) \<and> normal_objectives (im_objective m) st objs \<and>
       (if st = ''ok'' then map_of obs ''penalty_objective'' = None
        else (\<exists>r. map_of obs ''terminal_reason'' = Some (JStr r) \<and> normal_reason r) \<and>
             (\<exists>v. map_of obs ''penalty_objective'' = Some (jfloat_opt v) \<and> (\<forall>x. v = Some x \<longrightarrow> is_finite x))))"
proof -
  from import_parts [OF assms(1)] obtain row mf common src0 params objectives extensions where
    fin: "is_finite (im_at m)" and i: "1 \<le> i"
    and c: "normalize_common_observation_fields t row mf i (im_at m) = Inr common"
    and fi: "finish_import m src0 common params objectives extensions = Inr (src, obs)"
    and params: "params = normalize_param_payload t (jget row ''params'') (im_params m) (ax_contract_version (im_objective m) = 2) \<or>
     params = normalize_csv_param_payload t row (im_params m) (ax_contract_version (im_objective m) = 2)"
    and objectives: "objectives = normalize_objective_payload (jget row ''objectives'') (im_objective m) (str_of (jget common ''status'')) \<or>
     objectives = normalize_csv_objective_payload t row (im_objective m) (str_of (jget common ''status''))"
    by blast
  have ps: "complete_point (im_params m) ps" if "params = Inr ps" for ps
    using params that param_payload_point [OF _ assms(2)] csv_payload_point [OF _ assms(2)] by metis
  have objs: "normal_objectives (im_objective m) (str_of (jget common ''status'')) objs" if "objectives = Inr objs" for objs
    using objectives that objective_payload_normal csv_objectives_normal by metis
  obtain p o' where po: "params = Inr p" "objectives = Inr o'"
    "\<And>k. k \<notin> set measurement_fields \<Longrightarrow> map_of obs k = map_of (common @ [(''params'', JObj p), (''objectives'', JObj o')]) k"
    using finish_import_fields [OF fi] by blast
  note cf = common_fields [OF c fin]
  obtain st where st: "st \<in> set canonical_statuses" "map_of common ''status'' = Some (JStr st)"
    "if st = ''ok'' then map_of common ''penalty_objective'' = None
        else (\<exists>r. map_of common ''terminal_reason'' = Some (JStr r) \<and> normal_reason r) \<and>
             (\<exists>v. map_of common ''penalty_objective'' = Some (jfloat_opt v) \<and> (\<forall>x. v = Some x \<longrightarrow> is_finite x))"
    using cf(5) by blast
  obtain x where x: "map_of common ''completed_at'' = Some (JFloat x)" "is_finite x" using cf(4) by blast
  have fields: "map_of obs ''trial_id'' = Some (JInt i)" "map_of obs ''params'' = Some (JObj p)" "map_of obs ''objectives'' = Some (JObj o')"
    "map_of obs ''completed_at'' = Some (JFloat x)" "map_of obs ''status'' = Some (JStr st)"
    "map_of obs ''penalty_objective'' = map_of common ''penalty_objective''" "map_of obs ''terminal_reason'' = map_of common ''terminal_reason''"
    using cf(1-3) x(1) st(2) by (simp_all add: po(3) measurement_fields_def map_add_def split: option.splits)
  have "normal_objectives (im_objective m) st o'" using objs [OF po(2)] st(2) by simp
  with i fields ps [OF po(1)] x(2) st(1,3) show ?thesis by auto
qed

lemma import_record_form_witness:
  "map_of imported_ok ''trial_id'' = Some (JInt 7) \<and> (\<exists>x. map_of imported_ok ''completed_at'' = Some (JFloat x) \<and> is_finite x)"
proof -
  have "normalize_import_record plain_text import_demo Jsonl (JObj import_ok) 7 = Inr (Some (JInt 40), imported_ok)" by code_simp
  moreover note import_demo_wf
  ultimately show ?thesis using import_record_form [of plain_text import_demo Jsonl "JObj import_ok" 7 "Some (JInt 40)" imported_ok] by blast
qed

text \<open>C13: the permissive mode accounts for every row: each is accepted or rejected, accepted rows get
  consecutive ids, rejects are reported in order with their row number; and when nothing is
  rejected the result is exactly that of the strict mode.\<close>

theorem permissive_accounts:
  assumes "normalize_import_records_permissive t m f raws n = Inr s"
  shows "length (pm_accepted s) + length (pm_rejected s) = length raws \<and> pm_next s = n + int (length (pm_accepted s)) \<and>
    map (\<lambda>a. jget (snd a) ''trial_id'') (pm_accepted s) = map (\<lambda>k. JInt (n + int k)) [0..<length (pm_accepted s)] \<and>
    subseq (map (\<lambda>r. jget r ''row_number'') (pm_rejected s)) (map (\<lambda>i. JInt (int (Suc i))) [0..<length raws]) \<and>
    (pm_rejected s = [] \<longrightarrow>
       normalize_import_records_strict t m f raws (map (\<lambda>k. n + int k) [0..<length raws]) = Inr (pm_accepted s))"
proof -
  have idx: "map (\<lambda>r. JInt (int (Suc (fst r)))) (enum raws) = map (\<lambda>i. JInt (int (Suc i))) [0..<length raws]"
    by (rule nth_equalityI) (simp_all add: enum_def)
  from assms have "foldE (permissive_row t m f) (enum raws) \<lparr>pm_accepted = [], pm_rejected = [], pm_next = n\<rparr> = Inr s"
    by (auto simp: normalize_import_records_permissive_def return_iff)
  from permissive_fold [OF this, unfolded idx] show ?thesis by (auto simp: comp_def)
qed

lemma permissive_accounts_witness:
  "length (pm_accepted permissive_demo) = 2 \<and> length (pm_rejected permissive_demo) = 2 \<and> pm_next permissive_demo = 9"
proof -
  have run: "normalize_import_records_permissive plain_text import_demo Jsonl
     [JObj import_ok, JObj import_unknown, JObj import_failed, JNull] 7 = Inr permissive_demo" by code_simp
  have "length (pm_accepted permissive_demo) = 2" by code_simp
  with permissive_accounts [OF run] show ?thesis by simp
qed

end
