(* ===== verification/ImportCommands.thy ===== *)
theory ImportCommands
  imports Refinement ObsImport
begin

text \<open>
  The commands \<open>import-observations\<close> and \<open>export-observations\<close> of \<open>bo_client/run_bo.py\<close>, with
  every file they write, and the proof that they refine the lifecycle steps.
\<close>

subsection \<open>import-observations\<close>

text \<open>
  What the command line and the file system give: \<open>iq_contents\<close> is the text of the input file, if
  it exists, \<open>iq_csv\<close> is \<open>csv.DictReader\<close>, and \<open>iq_report_path\<close> is the path of a report, which
  has the time of the import in its name.
\<close>

record import_request =
  iq_text :: text_ops
  iq_source :: string
  iq_name :: string
  iq_contents :: "string option"
  iq_csv :: "string \<Rightarrow> jdict list"
  iq_format :: "row_format option"
  iq_mode :: "string option"
  iq_report_path :: "pyfloat \<Rightarrow> string"

text \<open>The format, whether the mode is permissive, and the rows.\<close>

definition import_rows :: "import_request \<Rightarrow> (row_format \<times> bool \<times> jdict list) res" where
  "import_rows q =
     bindE (case iq_format q of Some f \<Rightarrow> Inr f | None \<Rightarrow> infer_observation_format (iq_name q)) (\<lambda>f.
     let mode = py_lower (py_strip (case iq_mode q of None \<Rightarrow> ''strict'' | Some m \<Rightarrow> if m = [] then ''strict'' else m)) in
     bindE (load_observation_rows (iq_text q) (iq_csv q) (iq_contents q) f) (\<lambda>raws.
     if raws = [] then imp_err ''No observation rows found''
     else if mode \<noteq> ''strict'' \<and> mode \<noteq> ''permissive'' then imp_err ''import-observations requires --import-mode strict|permissive''
     else Inr (f, mode = ''permissive'', raws)))"

definition import_settings_of :: "'r settings \<Rightarrow> pyfloat \<Rightarrow> import_settings" where
  "import_settings_of s now = \<lparr>im_params = s_params s, im_objective = s_objective s, im_codec = None, im_at = now\<rparr>"

text \<open>The rows to add and the next id; the history with them must still be consistent.\<close>

definition import_strict :: "'r settings \<Rightarrow> import_request \<Rightarrow> row_format \<Rightarrow> jdict list \<Rightarrow> campaign \<Rightarrow> pyfloat \<Rightarrow> permissive res" where
  "import_strict s q f raws c now =
     bindE (plan_import_trial_ids c (length raws)) (\<lambda>ids.
     bindE (normalize_import_records_strict (iq_text q) (import_settings_of s now) f (map JObj raws) ids) (\<lambda>recs.
     bindE (validate_measurement_coverage (cp_observations c @ map snd recs) (s_objective s)) (\<lambda>_.
     Inr \<lparr>pm_accepted = recs, pm_rejected = [], pm_next = last ids + 1\<rparr>)))"

definition import_permissive :: "'r settings \<Rightarrow> import_request \<Rightarrow> row_format \<Rightarrow> jdict list \<Rightarrow> campaign \<Rightarrow> pyfloat \<Rightarrow> permissive res" where
  "import_permissive s q f raws c now =
     bindE (next_import_trial_id c) (\<lambda>i.
     bindE (normalize_import_records_permissive (iq_text q) (import_settings_of s now) f (map JObj raws) i) (\<lambda>p.
     bindE (validate_measurement_coverage (cp_observations c @ map snd (pm_accepted p)) (s_objective s)) (\<lambda>_.
     Inr p)))"

definition import_report :: "import_request \<Rightarrow> row_format \<Rightarrow> nat \<Rightarrow> permissive \<Rightarrow> pyfloat \<Rightarrow> jdict" where
  "import_report q f requested p now =
     [(''mode'', JStr ''permissive''), (''import_source'', JStr (iq_source q)), (''row_format'', JStr (format_text f)),
      (''imported_at'', JFloat now), (''requested_count'', JInt (int requested)),
      (''accepted_count'', JInt (int (length (pm_accepted p)))), (''rejected_count'', JInt (int (length (pm_rejected p)))),
      (''accepted_trial_ids'', JArr (map (\<lambda>a. jget (snd a) ''trial_id'') (pm_accepted p))),
      (''rejected_rows'', JArr (map JObj (pm_rejected p)))]"

definition import_event :: "import_request \<Rightarrow> row_format \<Rightarrow> bool \<Rightarrow> nat \<Rightarrow> permissive \<Rightarrow> pyfloat \<Rightarrow> jdict" where
  "import_event q f lenient requested p now =
     [(''import_source'', JStr (iq_source q)), (''imported_at'', JFloat now), (''row_format'', JStr (format_text f)),
      (''import_mode'', JStr (if lenient then ''permissive'' else ''strict'')), (''requested_count'', JInt (int requested)),
      (''accepted_count'', JInt (int (length (pm_accepted p)))), (''rejected_count'', JInt (int (length (pm_rejected p))))] @
     (if lenient then [(''import_report_path'', JStr (iq_report_path q now))] else []) @
     (if lenient \<and> pm_rejected p \<noteq> [] then [(''reject_report_path'', JStr (iq_report_path q now))] else [])"

definition imported_observation :: "import_record \<Rightarrow> jdict" where
  "imported_observation a = (case fst a of None \<Rightarrow> snd a | Some v \<Rightarrow> dset ''source_trial_id'' v (snd a))"

definition annotated_manifest :: "import_request \<Rightarrow> row_format \<Rightarrow> pyfloat \<Rightarrow> json option \<Rightarrow> jdict \<Rightarrow> jdict" where
  "annotated_manifest q f now src m =
     (let m1 = set_all [(''import_source'', JStr (iq_source q)), (''import_format'', JStr (format_text f)), (''imported_at'', JFloat now)] m
      in dset ''updated_at'' (JFloat now) (case src of Some v \<Rightarrow> dset ''source_trial_id'' v m1 | None \<Rightarrow> dpop ''source_trial_id'' m1))"

definition store_import :: "'r settings \<Rightarrow> import_request \<Rightarrow> row_format \<Rightarrow> pyfloat \<Rightarrow> import_record \<Rightarrow> unit cmd" where
  "store_import s q f now a =
     thenC (ensure_terminal_manifest s (imported_observation a) None now)
     (bindC (liftC (entry_id (imported_observation a))) (\<lambda>i.
      updC (\<lambda>w. w\<lparr>w_manifests := dset i (annotated_manifest q f now (fst a) (old_manifest w i)) (w_manifests w)\<rparr>)))"

definition write_report :: "string \<Rightarrow> jdict \<Rightarrow> unit cmd" where
  "write_report path report = updC (\<lambda>w. w\<lparr>w_reports := dset path report (w_reports w)\<rparr>)"

text \<open>The report is written before it is known whether any row can be imported.\<close>

definition import_apply :: "'r settings \<Rightarrow> import_request \<Rightarrow> row_format \<Rightarrow> bool \<Rightarrow> nat \<Rightarrow> campaign \<Rightarrow> pyfloat \<Rightarrow> permissive \<Rightarrow> nat cmd" where
  "import_apply s q f lenient requested c now p =
     thenC (whenC lenient (write_report (iq_report_path q now) (import_report q f requested p now)))
     (if pm_accepted p = []
      then thenC (append_event s ''observations_imported'' (import_event q f lenient requested p now))
             (liftC (imp_err ''No observations imported''))
      else
        thenC (forC (store_import s q f now) (pm_accepted p))
        (bindC (update_bestC s (c\<lparr>cp_observations := cp_observations c @ map imported_observation (pm_accepted p), cp_next := pm_next p\<rparr>)) (\<lambda>c'.
         thenC (save_state_and_rows c')
         (thenC (append_event s ''observations_imported'' (import_event q f lenient requested p now))
         (thenC (append_governance_violation_event s c' ''import-observations'')
         (retC (length (pm_accepted p))))))))"

definition import_body :: "'r settings \<Rightarrow> import_request \<Rightarrow> row_format \<Rightarrow> bool \<Rightarrow> jdict list \<Rightarrow> nat cmd" where
  "import_body s q f lenient raws =
     bindC (load_stateC s) (\<lambda>c.
     bindC (nowC s) (\<lambda>now.
     bindC (liftC (if lenient then import_permissive s q f raws c now else import_strict s q f raws c now)) (\<lambda>p.
     import_apply s q f lenient (length raws) c now p)))"

definition cmd_import_observations :: "'r settings \<Rightarrow> import_request \<Rightarrow> nat cmd" where
  "cmd_import_observations s q =
     bindC (liftC (import_rows q)) (\<lambda>(f, lenient, raws). locked s ''import-observations'' (import_body s q f lenient raws))"

subsection \<open>export-observations\<close>

record export_request =
  xq_text :: text_ops
  xq_path :: string
  xq_name :: string
  xq_format :: "row_format option"

definition export_contents :: "export_request \<Rightarrow> row_format \<Rightarrow> jdict list \<Rightarrow> export_file res" where
  "export_contents q f rows = (case f of
     Jsonl \<Rightarrow> bindE (render_observations_jsonl (xq_text q) rows) (\<lambda>x. Inr (JsonLines x))
   | Csv \<Rightarrow> bindE (render_observations_csv (xq_text q) False rows) (\<lambda>x. Inr (CsvTable x)))"

definition export_body :: "'r settings \<Rightarrow> export_request \<Rightarrow> row_format \<Rightarrow> nat cmd" where
  "export_body s q f =
     bindC (load_stateC s) (\<lambda>c.
     bindC (nowC s) (\<lambda>now.
     bindC (liftC (export_contents q f (cp_observations c))) (\<lambda>x.
     thenC (updC (\<lambda>w. w\<lparr>w_exports := dset (xq_path q) x (w_exports w)\<rparr>))
     (thenC (append_event s ''observations_exported''
        [(''export_path'', JStr (xq_path q)), (''exported_at'', JFloat now), (''row_format'', JStr (format_text f)),
         (''exported_count'', JInt (int (length (cp_observations c))))])
     (thenC (append_governance_violation_event s c ''export-observations'')
     (retC (length (cp_observations c))))))))"

definition cmd_export_observations :: "'r settings \<Rightarrow> export_request \<Rightarrow> nat cmd" where
  "cmd_export_observations s q =
     bindC (liftC (case xq_format q of Some f \<Rightarrow> Inr f | None \<Rightarrow> infer_observation_format (xq_name q))) (\<lambda>f.
     locked s ''export-observations'' (export_body s q f))"

subsection \<open>Imported rows\<close>

text \<open>A record that was imported, whatever its row and its id.\<close>

definition import_result :: "import_record \<Rightarrow> bool" where
  "import_result a \<longleftrightarrow> (\<exists>t m f raw i. normalize_import_record t m f raw i = Inr a)"

lemma import_result_row:
  assumes "import_result a"
  shows "row_wf (imported_observation a)" "JInt (tid (imported_observation a)) = jget (snd a) ''trial_id''"
proof -
  obtain src obs where a: "a = (src, obs)" by (cases a)
  from assms obtain t m f raw i where "normalize_import_record t m f raw i = Inr (src, obs)"
    unfolding import_result_def a by blast
  note imp = this
  from import_parts [OF this] obtain row mf common src0 params objectives extensions where
    fin: "is_finite (im_at m)" and c: "normalize_common_observation_fields t row mf i (im_at m) = Inr common"
    and fi: "finish_import m src0 common params objectives extensions = Inr (src, obs)" by blast
  obtain p o' where po: "\<And>k. k \<notin> set measurement_fields \<Longrightarrow> map_of obs k = map_of (common @ [(''params'', JObj p), (''objectives'', JObj o')]) k"
    using finish_import_fields [OF fi] by blast
  note cf = common_fields [OF c fin]
  obtain st where st: "st \<in> set canonical_statuses" "map_of common ''status'' = Some (JStr st)" using cf(5) by blast
  obtain x where x: "map_of common ''completed_at'' = Some (JFloat x)" using cf(4) by blast
  have fields: "map_of obs ''trial_id'' = Some (JInt i)" "map_of obs ''params'' = Some (JObj p)" "map_of obs ''objectives'' = Some (JObj o')"
    "map_of obs ''completed_at'' = Some (JFloat x)" "map_of obs ''status'' = Some (JStr st)"
    using cf(1-3) x st(2) by (simp_all add: po measurement_fields_def map_add_def)
  then have row: "map_of (imported_observation a) k = map_of obs k" if "k \<noteq> ''source_trial_id''" for k
    using that by (auto simp: imported_observation_def a split: option.splits)
  then have id: "map_of (imported_observation a) ''trial_id'' = Some (JInt i)" using fields by simp
  then show "JInt (tid (imported_observation a)) = jget (snd a) ''trial_id''" using fields by (simp add: tid_of a)
  have "map_of obs ''lease_token'' = map_of common ''lease_token''"
    by (simp add: po measurement_fields_def map_add_def split: option.splits)
  with cf(7) have tk: "token_ok (imported_observation a)"
    by (auto simp: token_ok_def jget_def row normal_reason_def)
  have nulls: "all_null o'" if "st \<noteq> ''ok''"
    using normalize_import_objectives [OF imp, of st o'] fields that by (auto intro: normal_all_null)
  from id tid_of [OF id] fields st(1) tk nulls show "row_wf (imported_observation a)"
    by (auto simp: row_wf_def has_tid_iff row row_ok_def dict_get_def jget_def)
qed

lemma strict_results:
  "normalize_import_records_strict t m f raws ids = Inr recs \<Longrightarrow> length ids = length raws \<Longrightarrow>
   list_all import_result recs \<and> length recs = length raws \<and> map (\<lambda>a. jget (snd a) ''trial_id'') recs = map JInt ids"
proof (induction raws arbitrary: ids recs)
  case (Cons raw raws)
  then obtain i js where ids: "ids = i # js" "length js = length raws" by (cases ids) auto
  with Cons.prems obtain a recs' where "normalize_import_record t m f raw i = Inr a" "recs = a # recs'"
    "normalize_import_records_strict t m f raws js = Inr recs'"
    by (auto simp: normalize_import_records_strict_def return_iff)
  moreover from this(1) have "import_result a" unfolding import_result_def by blast
  ultimately show ?case using Cons.IH [of js recs'] import_record_id [of t m f raw i a] ids by simp
qed (simp add: normalize_import_records_strict_def)

lemma permissive_results:
  "foldE (permissive_row t m f) irs s = Inr s' \<Longrightarrow> list_all import_result (pm_accepted s) \<Longrightarrow> list_all import_result (pm_accepted s')"
proof (induction irs arbitrary: s)
  case (Cons ir irs)
  obtain i raw where ir: "ir = (i, raw)" by (cases ir)
  from Cons.prems obtain s1 where s1: "permissive_row t m f ir s = Inr s1" and rest: "foldE (permissive_row t m f) irs s1 = Inr s'"
    by (auto simp: return_iff)
  have "list_all import_result (pm_accepted s1)"
  proof (cases "normalize_import_record t m f raw (pm_next s)")
    case (Inl e)
    with s1 Cons.prems(2) show ?thesis by (auto simp: permissive_row_def ir return_iff split: if_splits)
  next
    case (Inr a)
    then have "import_result a" unfolding import_result_def by blast
    with s1 Cons.prems(2) Inr show ?thesis by (auto simp: permissive_row_def ir)
  qed
  from Cons.IH [OF rest this] show ?case .
qed simp

text \<open>What an import hands to its commit: finished rows with the ids that follow.\<close>

definition import_plan :: "campaign \<Rightarrow> permissive \<Rightarrow> bool" where
  "import_plan c p \<longleftrightarrow> cp_pending c = [] \<and> 1 \<le> cp_next c \<and> list_all import_result (pm_accepted p) \<and>
     map (\<lambda>a. tid (imported_observation a)) (pm_accepted p) = map (\<lambda>k. cp_next c + int k) [0..<length (pm_accepted p)] \<and>
     pm_next p = cp_next c + int (length (pm_accepted p))"

lemma import_tids:
  assumes "list_all import_result recs" "map (\<lambda>a. jget (snd a) ''trial_id'') recs = map JInt ids"
  shows "map (\<lambda>a. tid (imported_observation a)) recs = ids"
proof -
  have "map (\<lambda>a. JInt (tid (imported_observation a))) recs = map (\<lambda>a. jget (snd a) ''trial_id'') recs"
    using assms(1) import_result_row(2) by (simp add: list_all_iff)
  with assms(2) have "map JInt (map (\<lambda>a. tid (imported_observation a)) recs) = map JInt ids" by (simp add: comp_def)
  then show ?thesis by (rule map_injective) (simp add: inj_def)
qed

lemma next_import_Inr [return_iff]: "next_import_trial_id c = Inr i \<longleftrightarrow> cp_pending c = [] \<and> 1 \<le> cp_next c \<and> i = cp_next c"
  by (auto simp: next_import_trial_id_def return_iff)

lemma import_strict_plan:
  assumes "import_strict s q f raws c now = Inr p" "raws \<noteq> []"
  shows "import_plan c p \<and> length (pm_accepted p) = length raws \<and> pm_rejected p = []"
proof -
  define ids where "ids = map (\<lambda>k. cp_next c + int k) [0..<length raws]"
  from assms(1) obtain recs where c: "cp_pending c = []" "1 \<le> cp_next c"
    and recs: "normalize_import_records_strict (iq_text q) (import_settings_of s now) f (map JObj raws) ids = Inr recs"
    and p: "p = \<lparr>pm_accepted = recs, pm_rejected = [], pm_next = last ids + 1\<rparr>"
    by (auto simp: import_strict_def plan_import_trial_ids_def return_iff ids_def)
  from strict_results [OF recs] have r: "list_all import_result recs" "length recs = length raws"
    "map (\<lambda>a. jget (snd a) ''trial_id'') recs = map JInt ids"
    by (simp_all add: ids_def)
  have "last ids = cp_next c + int (length raws) - 1" using assms(2) by (cases raws) (simp_all add: ids_def)
  with c r import_tids [OF r(1,3)] show ?thesis by (simp add: import_plan_def p ids_def)
qed

lemma import_permissive_plan:
  assumes "import_permissive s q f raws c now = Inr p"
  shows "import_plan c p \<and> length (pm_accepted p) + length (pm_rejected p) = length raws"
proof -
  from assms have c: "cp_pending c = []" "1 \<le> cp_next c"
    and fold: "foldE (permissive_row (iq_text q) (import_settings_of s now) f) (enum (map JObj raws))
      \<lparr>pm_accepted = [], pm_rejected = [], pm_next = cp_next c\<rparr> = Inr p"
    by (auto simp: import_permissive_def normalize_import_records_permissive_def return_iff)
  have "list_all import_result (pm_accepted p)" by (rule permissive_results [OF fold]) simp
  moreover from permissive_fold [OF fold] have "pm_next p = cp_next c + int (length (pm_accepted p))"
    "map (\<lambda>a. jget (snd a) ''trial_id'') (pm_accepted p) = map JInt (map (\<lambda>k. cp_next c + int k) [0..<length (pm_accepted p)])"
    "length (pm_accepted p) + length (pm_rejected p) = length raws"
    by (auto simp: comp_def enum_def)
  ultimately show ?thesis using c import_tids by (simp add: import_plan_def)
qed

lemma record_rows:
  "list_all row_wf rs \<Longrightarrow> map tid rs = map (\<lambda>k. cp_next c + int k) [0..<length rs] \<Longrightarrow>
   moves c (c\<lparr>cp_observations := cp_observations c @ rs, cp_next := cp_next c + int (length rs)\<rparr>)"
proof (induction rs rule: rev_induct)
  case (snoc r rs)
  let ?d = "c\<lparr>cp_observations := cp_observations c @ rs, cp_next := cp_next c + int (length rs)\<rparr>"
  have d: "moves c ?d" using snoc by simp
  have "row_wf r" "tid r = cp_next ?d" using snoc.prems by simp_all
  from record_row [OF this] have "move ?d (c\<lparr>cp_observations := cp_observations c @ rs @ [r], cp_next := cp_next c + int (length (rs @ [r]))\<rparr>)"
    by (simp add: algebra_simps)
  with d show ?case by (simp add: rtranclp.rtrancl_into_rtrancl)
qed simp

lemma import_moves:
  assumes "import_plan c p"
    and "\<exists>now. update_best (c\<lparr>cp_observations := cp_observations c @ map imported_observation (pm_accepted p), cp_next := pm_next p\<rparr>) cfg now = Inr c'"
  shows "moves c c'" "best_current cfg c'"
proof -
  let ?d = "c\<lparr>cp_observations := cp_observations c @ map imported_observation (pm_accepted p), cp_next := pm_next p\<rparr>"
  have "list_all row_wf (map imported_observation (pm_accepted p))"
    using assms(1) import_result_row(1) by (auto simp: import_plan_def list_all_iff)
  from record_rows [OF this, of c] assms(1) have "moves c ?d" by (simp add: import_plan_def comp_def)
  with assms(2) show "moves c c'" "best_current cfg c'"
    by (auto dest: update_best_current(1,4) intro: rtranclp_trans)
qed

subsection \<open>Both commands refine the lifecycle\<close>

lemma quiet_store [quiet_intros]: "quiet (store_import s q f now a)" "quiet (write_report path report)"
  unfolding store_import_def write_report_def by (intro quiet_intros quiet_updC; simp add: core_def)+

lemma import_apply_refines:
  assumes "loaded k c" "import_plan c p"
  shows "runs k (import_apply s q f lenient requested c now p) (\<lambda>_. advance (s_objective s) k) (\<lambda>_. advance (s_objective s) k)"
  unfolding import_apply_def
  by (intro runs_then_quiet runs_if runs_best runs_commit [OF assms(1)] quiet_intros loaded_advance [OF assms(1)])
    (rule import_moves [OF assms(2)] runs_quiet, assumption | intro runs_quiet quiet_intros loaded_advance [OF assms(1)])+

lemma import_refines:
  assumes "core_ok k" "raws \<noteq> []"
  shows "runs k (import_body s q f lenient raws) (\<lambda>_. advance (s_objective s) k) (\<lambda>_. advance (s_objective s) k)"
  unfolding import_body_def
proof (rule runs_loaded [OF assms(1)], rule runs_bind_any [OF quiet_basic(4)], rule_tac [2] runs_bind_lift, goal_cases)
  case (3 c now p)
  from 3(4) assms(2) have "import_plan c p" by (cases lenient) (simp_all add: import_strict_plan import_permissive_plan)
  then show ?case by (rule import_apply_refines [OF 3(1)])
qed (auto intro: loaded_advance)

lemma export_refines:
  assumes "core_ok k"
  shows "runs k (export_body s q f) (\<lambda>_. advance (s_objective s) k) (\<lambda>_. advance (s_objective s) k)"
proof -
  have "quiet (updC (\<lambda>w. w\<lparr>w_exports := dset path x (w_exports w)\<rparr>))" for path x by (rule quiet_updC) (simp add: core_def)
  then show ?thesis
    unfolding export_body_def by (intro runs_quiet quiet_intros advance_refl [OF assms])
qed

lemma import_rows_some: "import_rows q = Inr (f, lenient, raws) \<Longrightarrow> raws \<noteq> []"
  by (auto simp: import_rows_def Let_def return_iff split: if_splits)

lemma cmd_import_refines:
  assumes "core_ok k"
  shows "runs k (cmd_import_observations s q) (\<lambda>_. advance (s_objective s) k) (\<lambda>_. advance (s_objective s) k)"
  unfolding cmd_import_observations_def
proof (rule runs_bind_lift, goal_cases)
  case (2 x)
  obtain f lenient raws where x: "x = (f, lenient, raws)" by (cases x)
  from import_rows_some [OF 2 [unfolded x]] show ?case
    unfolding x prod.case by (intro runs_locked import_refines assms advance_refl)
qed (rule advance_refl [OF assms])

lemma cmd_export_refines:
  assumes "core_ok k"
  shows "runs k (cmd_export_observations s q) (\<lambda>_. advance (s_objective s) k) (\<lambda>_. advance (s_objective s) k)"
  unfolding cmd_export_observations_def by (intro runs_bind_lift runs_locked export_refines assms advance_refl)

end
