(* ===== verification/Machine.thy ===== *)
theory Machine
  imports ImportCommands
begin

text \<open>
  The campaign as a state machine: any sequence of commands, with any arguments and
  settings, each of which may fail halfway; and the invariants of every reachable state.
\<close>

subsection \<open>Sequences of commands\<close>

datatype command =
    Suggest "int option"
  | Ingest json "string option"
  | Cancel int "string option"
  | Retire "int option" bool "pyfloat option" "string option"
  | Heartbeat int "pyfloat option" "string option" "stored option" "string option"
  | Import import_request
  | Export export_request

text \<open>The files after a command, whether it succeeded or raised.\<close>

definition run_command :: "'r settings \<Rightarrow> command \<Rightarrow> world \<Rightarrow> world" where
  "run_command s cmd w = (case cmd of
     Suggest n \<Rightarrow> snd (cmd_suggest s n w)
   | Ingest raw lease \<Rightarrow> snd (cmd_ingest s raw lease w)
   | Cancel i reason \<Rightarrow> snd (cmd_cancel s i reason w)
   | Retire i stale age reason \<Rightarrow> snd (cmd_retire s i stale age reason w)
   | Heartbeat i given remark extra lease \<Rightarrow> snd (cmd_heartbeat s i given remark extra lease w)
   | Import q \<Rightarrow> snd (cmd_import_observations s q w)
   | Export q \<Rightarrow> snd (cmd_export_observations s q w))"

definition empty_world :: "nat \<Rightarrow> world" where
  "empty_world n = \<lparr>w_tick = n, w_state = None, w_manifests = [], w_rows = [], w_payloads = [],
     w_acquisition = [], w_events = [], w_reports = [], w_exports = []\<rparr>"

inductive reachable :: "('r settings \<Rightarrow> bool) \<Rightarrow> world \<Rightarrow> bool" for S where
  start: "reachable S (empty_world n)"
| step: "reachable S w \<Longrightarrow> S s \<Longrightarrow> reachable S (run_command s cmd w)"

inductive_cases reachableE: "reachable S w"

lemma core_empty [simp]: "core (empty_world n) = (None, [])"
  by (simp add: core_def empty_world_def)

lemma core_ok_empty [simp]: "core_ok (None, [])"
  by (simp add: core_ok_def)

text \<open>A command with its preparation and its lock runs like its body.\<close>

lemma runs_result: "runs k m (\<lambda>_. P) (\<lambda>_. P) \<Longrightarrow> core w = k \<Longrightarrow> P (core (snd (m w)))"
  by (drule (1) runsD) (auto simp: ends_def split: sum.splits)

lemma command_advance:
  assumes "core_ok (core w)"
  shows "advance (s_objective s) (core w) (core (run_command s cmd w))"
proof -
  let ?P = "advance (s_objective s) (core w)"
  note refl = advance_refl [OF assms]
  show ?thesis
  proof (cases cmd)
    case (Suggest n)
    have "runs (core w) (cmd_suggest s n) (\<lambda>_. ?P) (\<lambda>_. ?P)"
      unfolding cmd_suggest_def by (intro runs_bind_lift runs_locked suggest_refines assms refl)
    from runs_result [OF this] show ?thesis by (simp add: run_command_def Suggest)
  next
    case (Ingest raw lease)
    have "runs (core w) (cmd_ingest s raw lease) (\<lambda>_. ?P) (\<lambda>_. ?P)"
      unfolding cmd_ingest_def by (intro runs_bind_lift runs_locked ingest_refines assms refl)
    from runs_result [OF this] show ?thesis by (simp add: run_command_def Ingest)
  next
    case (Cancel i reason)
    have "runs (core w) (cmd_cancel s i reason) (\<lambda>_. ?P) (\<lambda>_. ?P)"
      unfolding cmd_cancel_def by (intro runs_locked cancel_refines assms refl)
    from runs_result [OF this] show ?thesis by (simp add: run_command_def Cancel)
  next
    case (Retire i stale age reason)
    have "runs (core w) (cmd_retire s i stale age reason) (\<lambda>_. ?P) (\<lambda>_. ?P)"
      unfolding cmd_retire_def
      by (intro runs_if runs_bind_lift runs_locked retire_refines runs_quiet quiet_basic assms refl)
    from runs_result [OF this] show ?thesis by (simp add: run_command_def Retire)
  next
    case (Heartbeat i given remark extra lease)
    have "runs (core w) (cmd_heartbeat s i given remark extra lease) (\<lambda>_. ?P) (\<lambda>_. ?P)"
      unfolding cmd_heartbeat_def by (intro runs_bind_lift runs_locked heartbeat_refines assms refl)
    from runs_result [OF this] show ?thesis by (simp add: run_command_def Heartbeat)
  next
    case (Import q)
    from runs_result [OF cmd_import_refines [OF assms] HOL.refl] show ?thesis by (simp add: run_command_def Import)
  next
    case (Export q)
    from runs_result [OF cmd_export_refines [OF assms] HOL.refl] show ?thesis by (simp add: run_command_def Export)
  qed
qed

subsection \<open>Invariants\<close>

text \<open>
  The interface between the commands and an invariant of the files: it holds of a new
  campaign, and every advance of the lifecycle keeps it.
\<close>

locale campaign_invariant =
  fixes S :: "'r settings \<Rightarrow> bool" and I :: "core \<Rightarrow> bool"
  assumes initially: "I (None, [])"
    and advances: "S s \<Longrightarrow> core_ok k \<Longrightarrow> I k \<Longrightarrow> advance (s_objective s) k k' \<Longrightarrow> I k'"
begin

lemma reachable_inv: "reachable S w \<Longrightarrow> core_ok (core w) \<and> I (core w)"
proof (induction rule: reachable.induct)
  case (start n)
  show ?case by (simp add: initially)
next
  case (step w s cmd)
  then have adv: "advance (s_objective s) (core w) (core (run_command s cmd w))" by (intro command_advance) simp
  then have "core_ok (core (run_command s cmd w))" unfolding advance_def by blast
  with step advances [OF step.hyps(2) _ _ adv] show ?case by simp
qed

end

definition ids_inv :: "core \<Rightarrow> bool" where
  "ids_inv k = (case fst k of None \<Rightarrow> True | Some c \<Rightarrow> ids_exact c)"

definition best_inv :: "objective_cfg \<Rightarrow> core \<Rightarrow> bool" where
  "best_inv cfg k = (case fst k of None \<Rightarrow> True | Some c \<Rightarrow> best_current cfg c)"

lemma fresh_ids [simp]: "ids_exact (fresh_state now)" and fresh_best [simp]: "best_current cfg (fresh_state now)"
  by (simp_all add: fresh_state_def ids_exact_def trial_ids_def best_current_def ok_rows_def best_ranked_def)

interpretation ids: campaign_invariant S ids_inv for S :: "'r settings \<Rightarrow> bool"
proof
  show "ids_inv k'" if "ids_inv k" "advance (s_objective s) k k'" for s :: "'r settings" and k k'
  proof -
    have "ids_exact (source (fst k) now)" for now using that(1) by (simp add: source_def ids_inv_def split: option.splits)
    with that show ?thesis by (auto simp: advance_def ids_inv_def dest: moves_ids)
  qed
qed (simp add: ids_inv_def)

interpretation best: campaign_invariant "\<lambda>s :: 'r settings. s_objective s = cfg" "best_inv cfg" for cfg
proof
  show "best_inv cfg k'" if "s_objective s = cfg" "best_inv cfg k" "advance (s_objective s) k k'"
    for s :: "'r settings" and k k'
  proof -
    have "best_current cfg (source (fst k) now)" for now using that(2) by (simp add: source_def best_inv_def split: option.splits)
    with that show ?thesis by (auto simp: advance_def best_inv_def)
  qed
qed (simp add: best_inv_def)

end
