(* ===== verification/Scenario.thy ===== *)
theory Scenario
  imports Machine
begin

text \<open>
  One campaign run through the model: a suggestion, its result and a second suggestion.
  The states it reaches witness that the guarantees are not vacuous.
\<close>

lemma quiet_state: "quiet m \<Longrightarrow> w_state (snd (m w)) = w_state w"
  by (simp add: quiet_def core_def)

lemma finally_state: "quiet c \<Longrightarrow> w_state (snd (finallyC m c w)) = w_state (snd (m w))"
proof -
  assume "quiet c"
  from quiet_state [OF this, of "snd (m w)"] show ?thesis
    by (auto simp: finallyC_def split: prod.splits sum.splits)
qed

definition loss_cfg :: objective_cfg where
  "loss_cfg = \<lparr>
     primary_objective = \<lparr>obj_name = ''loss'', obj_direction = Minimize, obj_tolerance = Fin 0, obj_failure = ''record_and_continue''\<rparr>,
     secondary_objectives = [], scalarization_of = PrimaryOnly,
     ax_contract_version = 1, acquisition_of = ScalarAcq, outcome = no_outcome\<rparr>"

definition demo_cfg :: jdict where
  "demo_cfg = [(''seed'', JInt 7), (''max_trials'', JInt 5), (''initial_random_trials'', JInt 5), (''candidate_pool_size'', JInt 4)]"

definition demo :: "unit settings" where
  "demo = \<lparr>s_cfg = demo_cfg, s_params = [param_of ''tuned'' BoolDom None], s_objective = loss_cfg, s_constraints = None,
     s_rng = first_rng, s_seeded = (\<lambda>_. ()), s_math = flat_math, s_gp = (\<lambda>_ _ _ _. Inl (TypeError ''gp'')),
     s_fullmatch = (\<lambda>_ _. True), s_suggestion_schema = JObj [], s_ingest_schema = JObj [], s_trials_dir = ''state/trials'',
     s_pid = 1, s_wait = (\<lambda>_. Fin 0), s_clock = (\<lambda>_. Fin 1), s_perf = (\<lambda>_. Fin 0),
     s_token = (\<lambda>k. k), s_files = (\<lambda>_. \<lparr>log_sizes = [], reset_archives = None\<rparr>)\<rparr>"

lemma demo_simps [simp]:
  "s_cfg demo = demo_cfg" "s_objective demo = loss_cfg" "s_clock demo n = Fin 1" "s_perf demo n = Fin 0"
  "s_wait demo n = Fin 0" "s_pid demo = 1" "s_files demo n = \<lparr>log_sizes = [], reset_archives = None\<rparr>"
  "s_fullmatch demo = (\<lambda>_ _. True)" "s_suggestion_schema demo = JObj []" "s_ingest_schema demo = JObj []"
  by (simp_all add: demo_def)

definition seeded0 :: campaign where "seeded0 = fresh_state (Fin 1)\<lparr>cp_seed := Some 7\<rparr>"

definition cand1 :: jdict where "cand1 = [(''tuned'', JBool False)]"
definition decision1 :: jdict where
  "decision1 = (case propose_next demo seeded0 of Inr (Proposed _ d) \<Rightarrow> d | _ \<Rightarrow> [])"
definition entry1 :: jdict where "entry1 = suggestion_of seeded0 state_version cand1 (Fin 1) None"
definition pending1 :: campaign where "pending1 = add_suggestion seeded0 entry1"
definition manifest1 :: jdict where
  "manifest1 = (case pending_manifest [] entry1 loss_cfg (Fin 1) of Inr m \<Rightarrow> m | _ \<Rightarrow> [])"

lemma demo_limits:
  "resolve_max_pending_age_seconds demo_cfg = Inr (Some (Fin 86400))"
  "resolve_max_pending_trials demo_cfg = Inr None"
  "resolve_worker_leases_enabled demo_cfg = Inr False"
  "effective_suggest_count demo_cfg (Some 1) = Inr 1"
  "cfg_int demo_cfg ''max_trials'' = Inr 5"
  by code_simp+

lemma demo_seeded: "seeded_state demo (fresh_state (Fin 1)) = Inr seeded0"
  by (simp add: seeded_state_def seeded0_def fresh_state_def, simp add: cfg_int_def demo_cfg_def jitem_def)

lemma demo_fresh: "load_state None (Fin 1) = Inr (fresh_state (Fin 1))" by code_simp
lemma demo_version: "campaign_version seeded0 = Inr state_version" by code_simp
lemma demo_len: "cp_pending seeded0 = []" "cp_observations seeded0 = []" "cp_next seeded0 = 1"
  by (simp_all add: seeded0_def fresh_state_def)
lemma demo_propose: "propose_next demo seeded0 = Inr (Proposed cand1 decision1)" by code_simp
lemma demo_schema: "validate_schema rx f (JObj []) v = Inr ()"
  by (subst validate_schema.simps, cases v) (simp_all add: check_type_def check_enum_def check_pattern_def check_range_def check_required_def check_extras_def check_length_def jget_def schema_props_def)
lemma demo_retire: "retire_stale_pending seeded0 loss_cfg limit now reason = Inr (seeded0, [])"
  by (simp add: retire_stale_pending_def stale_ids_def demo_len)

lemma entry1_simps: "entry_id entry1 = Inr 1"  "map_of entry1 ''params'' = Some (JObj cand1)" "map_of entry1 ''suggested_at'' = Some (JFloat (Fin 1))"
  "map_of entry1 ''heartbeat_count'' = None"
  by (simp_all add: entry1_def suggestion_of_def entry_id_def jitem_def demo_len)

lemma build_null_metadata: "\<exists>om. build_objective_metadata JNull cfg = Inr om"
  by (simp add: build_objective_metadata_def nullable_objective_vector_def Let_def)

lemma demo_manifest: "pending_manifest [] entry1 loss_cfg (Fin 1) = Inr manifest1"
proof -
  have "\<exists>m. pending_manifest [] entry1 loss_cfg (Fin 1) = Inr m"
    using build_null_metadata [of loss_cfg]
    by (auto simp: pending_manifest_def entry1_simps jitem_def dict_get_def heartbeat_count_def Let_def)
  then show ?thesis by (auto simp: manifest1_def)
qed


subsection \<open>A suggestion\<close>

lemma demo_commit1:
  assumes "w_manifests w = []"
  shows "w_state (snd (suggest_commit demo pending1 [] [(entry1, decision1, l)] w)) = Some (persisted pending1)"
  using assms
  apply (simp add: suggest_commit_def thenC_def exec_simps ensure_pending_manifest_def entry1_simps old_manifest_def dict_get_def
      demo_manifest append_acquisition_def append_event_def save_state_def whenC_def)
  apply (subst quiet_state, intro quiet_intros)
  apply simp
  done

lemma demo_suggest1: "w_state (run_command demo (Suggest (Some 1)) (empty_world 0)) = Some (persisted pending1)"
  apply (simp add: run_command_def cmd_suggest_def demo_limits exec_simps locked_def audit_start_def append_event_def thenC_def)
  apply (subst finally_state, rule quiet_files)
  apply (simp add: suggest_body_def load_stateC_def exec_simps empty_world_def demo_fresh demo_seeded retire_stale_now_def demo_retire Let_def
     thenC_def override_events_for_def demo_len demo_limits demo_propose demo_version entry1_def [symmetric] demo_schema pending1_def [symmetric]
     demo_commit1)
  done

subsection \<open>Its result\<close>


definition raw1 :: json where
  "raw1 = JObj [(''trial_id'', JInt 1), (''params'', JObj [(''tuned'', JBool False)]),
     (''objectives'', JObj [(''loss'', JInt 3)]), (''status'', JStr ''ok'')]"

definition payload1 :: jdict where
  "payload1 = [(''trial_id'', JInt 1), (''params'', JObj [(''tuned'', JBool False)]),
     (''objectives'', JObj [(''loss'', JFloat (Fin 3))]), (''status'', JStr ''ok'')]"

lemma demo_payload_norm: "normalize_ingest_payload payload_version_ok payload1 loss_cfg = Inr (payload1, 1)"
  by code_simp

lemma demo_canon: "canonicalize_conditional_params [(''tuned'', JBool False)] (s_params demo) = Inr [(''tuned'', JBool False)]"
  by code_simp

lemma demo_payload: "ingest_payload demo raw1 = Inr (payload1, 1, [])"
  apply (simp add: ingest_payload_def raw1_def demo_schema)
  apply code_simp
  done

definition row1 :: jdict where
  "row1 = (case ingested_observation loss_cfg entry1 payload1 1 [] (Fin 1) of Inr r \<Rightarrow> r | _ \<Rightarrow> [])"

lemma demo_load1: "load_state (Some (persisted pending1)) (Fin 1) = Inr (persisted pending1)"
  by code_simp

lemma demo_row1: "ingested_observation loss_cfg entry1 payload1 1 [] (Fin 1) = Inr row1"
  by code_simp

definition done1 :: campaign where
  "done1 = (persisted pending1)\<lparr>cp_pending := [], cp_observations := [row1]\<rparr>"
definition best1 :: campaign where
  "best1 = (case update_best done1 loss_cfg (Fin 1) of Inr c \<Rightarrow> c | _ \<Rightarrow> done1)"

lemma demo_best1: "update_best done1 loss_cfg (Fin 1) = Inr best1"
  by code_simp
lemma demo_guard1: "ingest_guard demo (persisted pending1) entry1 payload1 None = Inr ()"
  by code_simp
lemma demo_pop1: "pop_pending (persisted pending1) 1 = Inr (Some entry1, (persisted pending1)\<lparr>cp_pending := []\<rparr>)"
  by code_simp

definition row1' :: jdict where "row1' = dset ''artifact_path'' (JStr (payload_copy_path demo 1)) row1"
definition final1 :: campaign where "final1 = best1\<lparr>cp_observations := [row1']\<rparr>"

lemma terminal_manifest_any: "res_ok (terminal_manifest [] row cfg copy now) \<Longrightarrow> \<exists>m. terminal_manifest old row cfg copy now = Inr m"
  by (auto simp: terminal_manifest_def return_iff Let_def elim!: res_okE)

lemma demo_manifest_row1: "\<exists>m. terminal_manifest old row1' loss_cfg (Some (payload_copy_path demo 1)) (Fin 1) = Inr m"
  by (rule terminal_manifest_any) code_simp
lemma demo_id_row1: "entry_id row1' = Inr 1" by code_simp
lemma demo_table1: "res_ok (observation_rows final1)" by code_simp
lemma demo_governance1: "res_ok (build_governance_snapshot \<lparr>log_sizes = [], reset_archives = None\<rparr> (cp_pending best1) (cp_observations pending1 @ [row1']) (JObj demo_cfg) (Fin 1))"
  by code_simp
lemma demo_pending_ids: "by_trial_id (cp_pending pending1) = Inr [(1, entry1)]"
  by code_simp

lemma demo_ingest1:
  assumes "w_state w = Some (persisted pending1)"
  shows "fst (cmd_ingest demo raw1 None w) = Inr (Ingested 1)"
    "w_state (snd (cmd_ingest demo raw1 None w)) = Some (persisted final1)"
proof -
  obtain rows where rows: "observation_rows final1 = Inr rows" using demo_table1 by (auto elim: res_okE)
  obtain sn where sn: "build_governance_snapshot \<lparr>log_sizes = [], reset_archives = None\<rparr> (cp_pending best1) (cp_observations pending1 @ [row1']) (JObj demo_cfg) (Fin 1) = Inr sn"
    using demo_governance1 by (auto elim: res_okE)
  obtain m where m: "terminal_manifest (dict_get (w_manifests w) 1 []) row1' loss_cfg (Some (payload_copy_path demo 1)) (Fin 1) = Inr m"
    using demo_manifest_row1 ..
  have parse: "parse_cli_lease_token None = Inr None" by code_simp
  have d: "(persisted pending1)\<lparr>cp_pending := [], cp_observations := cp_observations pending1 @ [row1]\<rparr> = done1" by code_simp
  have f: "best1\<lparr>cp_observations := cp_observations pending1 @ [row1']\<rparr> = final1" by code_simp
  have "fst (cmd_ingest demo raw1 None w) = Inr (Ingested 1) \<and>
    w_state (snd (cmd_ingest demo raw1 None w)) = Some (persisted final1)"
    using assms
    apply (simp add: cmd_ingest_def exec_simps locked_def audit_start_def audit_end_def append_event_def thenC_def parse finallyC_def
      ingest_body_def load_stateC_def demo_load1 demo_payload demo_pending_ids demo_guard1 ingest_apply_def demo_pop1 demo_row1
      update_bestC_def d demo_best1 row1'_def [symmetric] f Let_def ensure_terminal_manifest_def demo_id_row1 old_manifest_def m
      save_state_and_rows_def save_state_def write_obs_csv_def rows append_governance_violation_event_def sn exec_simps)
    done
  then show "fst (cmd_ingest demo raw1 None w) = Inr (Ingested 1)"
    "w_state (snd (cmd_ingest demo raw1 None w)) = Some (persisted final1)" by simp_all
qed

subsection \<open>The worlds of the run\<close>

definition demo1 :: world where "demo1 = run_command demo (Suggest (Some 1)) (empty_world 0)"
definition demo2 :: world where "demo2 = run_command demo (Ingest raw1 None) demo1"

lemma demo1_state: "w_state demo1 = Some (persisted pending1)"
  by (simp add: demo1_def demo_suggest1)

lemma demo2_state: "w_state demo2 = Some (persisted final1)"
  by (simp add: demo2_def run_command_def demo_ingest1 [OF demo1_state])

lemma demo1_reachable: "S demo \<Longrightarrow> reachable S demo1"
  unfolding demo1_def by (intro reachable.intros)

lemma demo2_reachable: "S demo \<Longrightarrow> reachable S demo2"
  unfolding demo2_def by (intro reachable.step demo1_reachable)

end
