(* ===== verification/Guarantees.thy ===== *)
theory Guarantees
  imports Scenario Ledger
begin

text \<open>
  What every sequence of commands guarantees: trial ids, finished rows, the best record and
  the observation table, for any arguments and settings and whichever commands fail.
\<close>

lemmas reachable_state = ids.reachable_inv

lemma reachable_stored:
  assumes "reachable S w" "w_state w = Some c"
  shows "cp_wf c" "observation_rows c = Inr (w_rows w)" "ids_exact c"
  using reachable_state [OF assms(1)] assms(2) by (simp_all add: core_def core_ok_def ids_inv_def)

lemma command_moves:
  assumes "reachable S w" "w_state w = Some c"
  shows "\<exists>c'. w_state (run_command s cmd w) = Some c' \<and> moves c c'"
proof -
  have "core_ok (core w)" using reachable_state [OF assms(1)] by simp
  from command_advance [OF this, of s cmd] assms(2) show ?thesis
    by (auto simp: advance_def core_def source_def)
qed

text \<open>C1: trial ids are handed out once and never lost. In every state reachable by any commands,
  failing ones included, the finished and the pending trials have pairwise different ids, these
  are exactly 1 up to the next id, and every entry has the fields the other commands read.\<close>

theorem trial_ids_exact:
  assumes "reachable S w" "w_state w = Some c"
  shows "1 \<le> cp_next c \<and> distinct (trial_ids c) \<and> set (trial_ids c) = {1..<cp_next c} \<and>
    list_all entry_wf (cp_pending c) \<and> list_all row_wf (cp_observations c)"
  using reachable_stored [OF assms] by (simp add: ids_exact_iff cp_wf_def)

text \<open>C2: the controller implements the abstract ledger. Whatever one command does to a reachable
  campaign is a sequence of ledger steps on its abstraction; therefore a closed trial keeps its
  row for ever, and an open trial keeps its parameters until it is closed.\<close>

theorem command_refines_ledger:
  assumes "reachable S w" "w_state w = Some c"
  shows "\<exists>c'. w_state (run_command s cmd w) = Some c' \<and>
    ledger_step\<^sup>*\<^sup>* (ledger_of c) (ledger_of c') \<and>
    (\<forall>i r. ld_trial (ledger_of c) i = Some (Closed r) \<longrightarrow> ld_trial (ledger_of c') i = Some (Closed r)) \<and>
    (\<forall>i p. ld_trial (ledger_of c) i = Some (Open p) \<longrightarrow>
       ld_trial (ledger_of c') i = Some (Open p) \<or> (\<exists>r. ld_trial (ledger_of c') i = Some (Closed r)))"
proof -
  obtain c' where c': "w_state (run_command s cmd w) = Some c'" "moves c c'" using command_moves [OF assms] by blast
  note ids = reachable_stored(3) [OF assms]
  note steps = moves_ledger [OF c'(2) ids] and wf = ledger_of_wf [OF ids]
  show ?thesis
    using c'(1) steps ledger_steps_closed [OF steps wf] ledger_steps_open [OF steps wf] by blast
qed

text \<open>C3: finished trials are immutable. A command only appends to the observations of a reachable
  campaign, so every row written once is in every later state at the same position, and the
  next id never goes back.\<close>

theorem finished_rows_immutable:
  assumes "reachable S w" "w_state w = Some c"
  shows "\<exists>c' rows. w_state (run_command s cmd w) = Some c' \<and>
    cp_observations c' = cp_observations c @ rows \<and> cp_next c \<le> cp_next c' \<and>
    (\<forall>i < length (cp_observations c). cp_observations c' ! i = cp_observations c ! i)"
proof -
  obtain c' where c': "w_state (run_command s cmd w) = Some c'" "moves c c'" using command_moves [OF assms] by blast
  with moves_terminal [OF c'(2)] moves_next [OF c'(2)] show ?thesis by (auto simp: nth_append)
qed

text \<open>C5: the observation table is the table of the stored observations. In every reachable world
  the rows last written to the CSV file are the rows of the observations in the state file, one
  per observation and in their order.\<close>

theorem table_mirrors_state:
  assumes "reachable S w"
  shows "case w_state w of None \<Rightarrow> w_rows w = []
    | Some c \<Rightarrow> list_all2 (\<lambda>r row. observation_row r = Inr row) (cp_observations c) (w_rows w)"
proof (cases "w_state w")
  case None
  with reachable_state [OF assms] show ?thesis by (simp add: core_def core_ok_def)
next
  case (Some c)
  with reachable_stored(2) [OF assms] show ?thesis by (simp add: observation_rows_def mapE_Inr_iff)
qed

subsection \<open>The best record\<close>

definition row_vector :: "objective_cfg \<Rightarrow> jdict \<Rightarrow> vector res" where
  "row_vector cfg r = canonical_objective_vector (dict_get r ''objectives'' (JObj [])) cfg"

text \<open>\<open>r\<close> is not outranked by any row.\<close>

definition outranks_all :: "objective_cfg \<Rightarrow> jdict \<Rightarrow> vector \<Rightarrow> jdict list \<Rightarrow> bool" where
  "outranks_all cfg r v rows = list_all (\<lambda>r'. case row_vector cfg r' of Inl _ \<Rightarrow> False
     | Inr v' \<Rightarrow> \<not> rank_lt (best_rank_key v' cfg (tid r')) (best_rank_key v cfg (tid r))) rows"

text \<open>Values that floats can hold, in the range where the scalarization does not overflow.\<close>

definition in_range :: "objective_cfg \<Rightarrow> jdict \<Rightarrow> bool" where
  "in_range cfg r = (case row_vector cfg r of Inl _ \<Rightarrow> True
     | Inr v \<Rightarrow> exact_vector (objective_names cfg) v \<and> scal_in_range (scalarization_of cfg) v cfg)"

lemma build_best_fields:
  assumes "build_best_record row cfg t = Inr b" "has_tid row" "row_vector cfg row = Inr v"
  shows "br_trial_id b = tid row" "br_objective_value b = scalarize_objectives v cfg"
  using assms by (auto simp: build_best_record_def return_iff row_vector_def has_tid_def)

lemma best_current_ranks:
  assumes "best_current cfg c" "list_all has_tid (ok_rows c)" "cfg_wf cfg" "list_all (in_range cfg) (ok_rows c)"
  shows "case cp_best c of None \<Rightarrow> ok_rows c = []
    | Some b \<Rightarrow> (\<exists>r v. r \<in> set (ok_rows c) \<and> row_vector cfg r = Inr v \<and> br_trial_id b = tid r \<and>
        br_objective_value b = scalarize_objectives v cfg \<and> outranks_all cfg r v (ok_rows c))"
proof -
  obtain ps where ps: "mapE (ranked_row cfg) (ok_rows c) = Inr ps"
    and best: "case (best_ranked cfg ps, cp_best c) of (None, None) \<Rightarrow> True
       | (Some p, Some b) \<Rightarrow> build_best_record (fst p) cfg (br_updated_at b) = Inr b | _ \<Rightarrow> False"
    using assms(1) by (auto simp: best_current_def split: sum.splits)
  have elem: "fst p \<in> set (ok_rows c) \<and> fst (snd p) = tid (fst p) \<and> row_vector cfg (fst p) = Inr (prepared_vector p)"
    if "p \<in> set ps" for p
  proof -
    from mapE_Inr_set [OF ps that] obtain r where r: "r \<in> set (ok_rows c)" "ranked_row cfg r = Inr p" by blast
    with assms(2) show ?thesis
      by (auto simp: list_all_iff ranked_row_def return_iff row_vector_def prepared_vector_def)
  qed
  have cover: "\<exists>p\<in>set ps. fst p = r" if "r \<in> set (ok_rows c)" for r
  proof -
    from that obtain i where "i < length (ok_rows c)" "ok_rows c ! i = r" by (auto simp: in_set_conv_nth)
    moreover have "list_all2 (\<lambda>x y. ranked_row cfg x = Inr y) (ok_rows c) ps" using ps by (simp add: mapE_Inr_iff)
    ultimately have "ranked_row cfg r = Inr (ps ! i)" "ps ! i \<in> set ps"
      by (auto dest: list_all2_nthD list_all2_lengthD)
    then show ?thesis by (intro bexI [of _ "ps ! i"]) (auto simp: ranked_row_def return_iff dest: sym)
  qed
  have rank: "rank_ok (length (objective_names cfg)) (prepared_key cfg p)" if "p \<in> set ps" for p
    using elem [OF that] assms(3,4) by (auto simp: in_range_def list_all_iff prepared_key_def intro!: best_rank_key_ok)
  show ?thesis
  proof (cases ps)
    case Nil
    with best cover show ?thesis by (cases "cp_best c"; cases "ok_rows c") (auto simp: best_ranked_def)
  next
    case (Cons p0 qs)
    define m where "m = min_by (\<lambda>a b. rank_lt (prepared_key cfg a) (prepared_key cfg b)) p0 qs"
    have mem: "m \<in> set ps" using prepared_order.min_by_in [of cfg p0 qs] by (auto simp: m_def Cons)
    have least: "\<not> rank_lt (prepared_key cfg p) (prepared_key cfg m)" if "p \<in> set ps" for p
      unfolding m_def using rank that by (intro prepared_order.min_by_least [of "length (objective_names cfg)"]) (auto simp: Cons)
    from best obtain b where b: "cp_best c = Some b" "build_best_record (fst m) cfg (br_updated_at b) = Inr b"
      by (auto simp: best_ranked_def Cons m_def split: option.splits)
    have m: "fst m \<in> set (ok_rows c)" "row_vector cfg (fst m) = Inr (prepared_vector m)" "prepared_key cfg m = best_rank_key (prepared_vector m) cfg (tid (fst m))"
      using elem [OF mem] by (auto simp: prepared_key_def)
    have "has_tid (fst m)" using assms(2) m(1) by (simp add: list_all_iff)
    note rec = build_best_fields [OF b(2) this m(2)]
    have "outranks_all cfg (fst m) (prepared_vector m) (ok_rows c)"
      unfolding outranks_all_def list_all_iff
    proof
      fix r assume "r \<in> set (ok_rows c)"
      then obtain p where p: "p \<in> set ps" "fst p = r" using cover by blast
      from elem [OF p(1)] least [OF p(1)] p(2) m(3)
      show "case row_vector cfg r of Inl _ \<Rightarrow> False
        | Inr v' \<Rightarrow> \<not> rank_lt (best_rank_key v' cfg (tid r)) (best_rank_key (prepared_vector m) cfg (tid (fst m)))"
        by (simp add: prepared_key_def)
    qed
    with b(1) m rec show ?thesis by auto
  qed
qed

text \<open>C4: the best record is a best trial. In every state a campaign with one objective
  configuration can reach, there is a best record exactly when there is an \<open>ok\<close> row, it names
  the id and the scalarized value of such a row, and no \<open>ok\<close> row has a smaller rank key (for
  rows whose values do not overflow in the scalarization).\<close>

theorem best_record_minimal:
  assumes "reachable (\<lambda>s. s_objective s = cfg) w" "w_state w = Some c"
    and "cfg_wf cfg" "list_all (in_range cfg) (ok_rows c)"
  shows "case cp_best c of None \<Rightarrow> ok_rows c = []
    | Some b \<Rightarrow> (\<exists>r v. r \<in> set (ok_rows c) \<and> row_vector cfg r = Inr v \<and> br_trial_id b = tid r \<and>
        br_objective_value b = scalarize_objectives v cfg \<and> outranks_all cfg r v (ok_rows c))"
proof (rule best_current_ranks [OF _ _ assms(3,4)])
  show "best_current cfg c" using best.reachable_inv [OF assms(1)] assms(2) by (simp add: best_inv_def core_def)
  show "list_all has_tid (ok_rows c)"
    using reachable_stored(1) [OF assms(1,2)] by (auto simp: ok_rows_def cp_wf_def list_all_iff row_wf_def)
qed

subsection \<open>Concrete instances\<close>

theorem trial_ids_exact_witness: "set (trial_ids (persisted final1)) = {1..<cp_next (persisted final1)}"
  using trial_ids_exact [OF demo2_reachable demo2_state, of "\<lambda>_. True"] by simp

theorem command_refines_ledger_witness:
  "\<exists>c'. w_state (run_command demo (Ingest raw1 None) demo1) = Some c' \<and>
     ledger_step\<^sup>*\<^sup>* (ledger_of (persisted pending1)) (ledger_of c')"
  using command_refines_ledger [OF demo1_reachable demo1_state, of "\<lambda>_. True" demo "Ingest raw1 None"] by blast

theorem finished_rows_immutable_witness:
  "\<exists>c'. w_state (run_command demo (Cancel 1 None) demo2) = Some c' \<and> cp_observations c' ! 0 = row1'"
proof -
  have "cp_observations (persisted final1) = [row1']" by (simp add: final1_def)
  with finished_rows_immutable [OF demo2_reachable demo2_state, of "\<lambda>_. True" demo "Cancel 1 None"]
  show ?thesis by auto
qed

theorem table_mirrors_state_witness: "list_all2 (\<lambda>r row. observation_row r = Inr row) [row1'] (w_rows demo2)"
  using table_mirrors_state [OF demo2_reachable, of "\<lambda>_. True"] by (simp add: demo2_state final1_def)

lemma demo_ok_rows: "ok_rows final1 = [row1']"
  by code_simp

theorem best_record_minimal_witness:
  "case cp_best final1 of None \<Rightarrow> False
   | Some b \<Rightarrow> br_trial_id b = tid row1' \<and> br_trial_id b = 1 \<and> br_objective_value b = Fin 3"
proof -
  have "case cp_best (persisted final1) of None \<Rightarrow> ok_rows (persisted final1) = []
    | Some b \<Rightarrow> (\<exists>r v. r \<in> set (ok_rows (persisted final1)) \<and> row_vector loss_cfg r = Inr v \<and> br_trial_id b = tid r \<and>
        br_objective_value b = scalarize_objectives v loss_cfg \<and> outranks_all loss_cfg r v (ok_rows (persisted final1)))"
  proof (rule best_record_minimal [OF demo2_reachable demo2_state])
    show "cfg_wf loss_cfg" by code_simp
    show "list_all (in_range loss_cfg) (ok_rows (persisted final1))" by (simp add: demo_ok_rows) code_simp
  qed simp
  moreover have "row_vector loss_cfg row1' = Inr [(''loss'', Fin 3)]" "tid row1' = 1"
     "scalarize_objectives [(''loss'', Fin 3)] loss_cfg = Fin 3" by code_simp+
  ultimately show ?thesis by (auto simp: demo_ok_rows split: option.splits)
qed

end
