(* ===== verification/Replay.thy ===== *)
theory Replay
  imports Scenario
begin

text \<open>
  Ingesting the same result twice: the second ingest is recognised as a duplicate and
  changes nothing but the event log.
\<close>

subsection \<open>Loading what was saved\<close>

lemma load_again:
  assumes "load_state st now = Inr c" "cp_version c' = cp_version c" "\<not> cp_upgrade c'"
  shows "load_state (Some c') now' = Inr c'"
proof -
  from assms(1) obtain v d where d: "normalize_state_schema_version (when_some v ''schema_version'') = Inr d"
    and c: "cp_version c = jget d ''schema_version''"
    by (auto simp: load_state_def return_iff Let_def)
  obtain x where x: "map_of d ''schema_version'' = Some (JStr x)" using normalized_version [OF d] by auto
  have "state_for_persist d = [(''schema_version'', jget d ''schema_version'')]"
    using d by (auto simp: normalize_state_schema_version_def Let_def return_iff when_some_def upgrade_state_def
        state_for_persist_def jget_def split: if_splits)
  then have "state_for_persist d = [(''schema_version'', JStr x)]" using x by (simp add: jget_def)
  with normalize_persisted [OF d] have "normalize_state_schema_version [(''schema_version'', JStr x)] = Inr [(''schema_version'', JStr x)]"
    by simp
  with assms(2,3) c x show ?thesis
    by (simp add: load_state_def when_some_def state_schema_upgrade_pending_def)
qed

subsection \<open>What a successful ingest leaves behind\<close>

definition ingested :: "'r settings \<Rightarrow> json \<Rightarrow> int \<Rightarrow> campaign \<Rightarrow> bool" where
  "ingested s raw i c \<longleftrightarrow> (\<exists>payload beats entry now row v rows.
     ingest_payload s raw = Inr (payload, i, beats) \<and>
     ingested_observation (s_objective s) entry payload i beats now = Inr row \<and>
     cp_observations c = rows @ [dset ''artifact_path'' v row] \<and>
     i \<notin> tid ` set rows \<and> i \<notin> tid ` set (cp_pending c) \<and> cp_wf c \<and> (\<forall>now. load_state (Some c) now = Inr c))"

lemma ingest_apply_leaves:
  assumes load: "load_state st now = Inr c" and wf: "cp_wf c" and ids: "ids_exact c"
    and payload: "ingest_payload s raw = Inr (payload, i, beats)"
  shows "runs k (ingest_apply s c payload i beats)
    (\<lambda>out k'. \<forall>j. out = Ingested j \<longrightarrow> j = i \<and> (\<exists>c'. fst k' = Some c' \<and> ingested s raw i c')) (\<lambda>_ _. True)"
  unfolding ingest_apply_def
proof (rule runs_bind_lift, goal_cases)
  case 1
  then show ?case by simp
next
  case (2 x)
  obtain popped c1 where x: "x = (popped, c1)" by (cases x)
  show ?case
  proof (cases popped)
    case None
    then show ?thesis by (simp add: x runs_def ends_def liftC_def)
  next
    case (Some p)
    from pop_pending_wf [OF wf 2 [unfolded x Some]] obtain xs ys where
      c1: "cp_pending c = xs @ p # ys" "c1 = c\<lparr>cp_pending := xs @ ys\<rparr>" "tid p = i" "entry_wf p" by auto
    have fresh: "i \<notin> tid ` set (cp_observations c1)" "i \<notin> tid ` set (cp_pending c1)"
      using ids c1 by (auto simp: ids_exact_iff trial_ids_def)
    have leaves: "ingested s raw i (persisted (c2\<lparr>cp_observations := cp_observations c1 @ [dset ''artifact_path'' v row]\<rparr>))"
      and total: "\<exists>r. observation_rows (c2\<lparr>cp_observations := cp_observations c1 @ [dset ''artifact_path'' v row]\<rparr>) = Inr r"
      if row: "ingested_observation (s_objective s) p payload i beats t = Inr row"
        and best: "\<exists>t. update_best (c1\<lparr>cp_observations := cp_observations c1 @ [row]\<rparr>) (s_objective s) t = Inr c2"
      for row c2 v t
    proof -
      let ?c = "c2\<lparr>cp_observations := cp_observations c1 @ [dset ''artifact_path'' v row]\<rparr>"
      from best obtain b where b: "c2 = c1\<lparr>cp_observations := cp_observations c1 @ [row], cp_best := b\<rparr>"
        using update_best_current(2) by fastforce
      have "row_wf (dset ''artifact_path'' v row)" using ingested_row_wf(2) [OF payload row] c1(4) by (simp add: entry_wf_def)
      then have cwf: "cp_wf ?c" using wf by (auto simp: b c1 cp_wf_def)
      then show "\<exists>r. observation_rows ?c = Inr r" by (rule observation_rows_total)
      have "load_state (Some (persisted ?c)) t' = Inr (persisted ?c)" for t'
        by (rule load_again [OF load]) (simp_all add: persisted_def b c1)
      with payload row fresh cwf show "ingested s raw i (persisted ?c)"
        unfolding ingested_def by (intro exI [of _ payload] exI [of _ beats] exI [of _ p] exI [of _ t] exI [of _ row] exI [of _ v]
            exI [of _ "cp_observations c1"]) (simp add: b)
    qed
    have q: "quiet (updC (\<lambda>w. w\<lparr>w_payloads := dset i payload (w_payloads w)\<rparr>))" by (rule quiet_updC) (simp add: core_def)
    have save: "runs k (thenC (save_state_and_rows (c2\<lparr>cp_observations := cp_observations c1 @ [dset ''artifact_path'' v row]\<rparr>)) m)
        (\<lambda>out k'. \<forall>j. out = Ingested j \<longrightarrow> j = i \<and> (\<exists>c'. fst k' = Some c' \<and> ingested s raw i c')) (\<lambda>_ _. True)"
      if r: "ingested_observation (s_objective s) p payload i beats t = Inr row"
        and u: "\<exists>t. update_best (c1\<lparr>cp_observations := cp_observations c1 @ [row]\<rparr>) (s_objective s) t = Inr c2"
        and m: "m = thenC a (thenC b (retC (Ingested i)))" "quiet a" "quiet b"
      for row c2 v t m a b
    proof -
      note leaves [OF r u, of v]
      moreover obtain rr where "observation_rows (c2\<lparr>cp_observations := cp_observations c1 @ [dset ''artifact_path'' v row]\<rparr>) = Inr rr"
        using total [OF r u, of v] ..
      ultimately show ?thesis
        unfolding m(1) by (intro runs_save_rows runs_then_quiet m(2,3) runs_ret) auto
    qed
    show ?thesis
      unfolding x Some prod.case option.case Let_def
      by (rule runs_bind_any [OF quiet_basic(4)], rule TrueI, rule runs_bind_lift, rule TrueI, rule runs_best, rule TrueI,
          rule runs_then_quiet [OF q], rule TrueI, rule runs_then_quiet [OF quiet_files(4)], rule TrueI,
          rule save, assumption, assumption, rule refl, rule quiet_events, rule quiet_governance)
  qed
qed

lemma ingest_leaves:
  assumes "core_ok k" "ids_inv k"
  shows "runs k (cmd_ingest s raw lease)
    (\<lambda>out k'. \<forall>j. out = Ingested j \<longrightarrow> (\<exists>c'. fst k' = Some c' \<and> ingested s raw j c')) (\<lambda>_ _. True)"
proof -
  let ?Q = "\<lambda>out k'. \<forall>j. out = Ingested j \<longrightarrow> (\<exists>c'. fst k' = Some c' \<and> ingested s raw j c')"
  have body: "runs k (ingest_body s raw lease') ?Q (\<lambda>_ _. True)" for lease'
    unfolding ingest_body_def
  proof (rule runs_load, simp, rule runs_bind_lift, simp, goal_cases)
    case (1 now c x)
    obtain payload i beats where x: "x = (payload, i, beats)" by (cases x)
    from load_state_moves [OF 1(1)] have side: "sidelines (source (fst k) now) c" by (simp add: source_def)
    have "cp_wf (source (fst k) now)" "ids_exact (source (fst k) now)"
      using assms by (auto simp: source_def core_ok_def ids_inv_def split: option.splits)
    with side have c: "cp_wf c" "ids_exact c" by (auto simp: sidelines_def intro: moves_wf moves_ids)
    have app: "runs k (ingest_apply s c payload i beats) ?Q (\<lambda>_ _. True)"
      using ingest_apply_leaves [OF 1(1) c 1(2) [unfolded x], of k] by (rule runs_mono) auto
    have main: "runs k (case map_of pending i of
         None \<Rightarrow> thenC (liftC (ingest_replay s c payload i))
           (thenC (append_event s ''ingest_duplicate_noop'' [(''trial_id'', JInt i)]) (retC (Duplicate i)))
       | Some entry \<Rightarrow> thenC (liftC (ingest_guard s c entry payload lease')) (ingest_apply s c payload i beats))
       ?Q (\<lambda>_ _. True)" for pending
      using app by (cases "map_of pending i")
        (simp_all, (intro runs_then_quiet runs_ret quiet_intros TrueI; simp), intro runs_then_quiet quiet_intros TrueI)
    show ?case
      unfolding x prod.case by (intro runs_bind_lift TrueI main)
  qed
  show ?thesis
    unfolding cmd_ingest_def locked_def
    by (intro runs_bind_lift runs_then_quiet runs_finally quiet_intros TrueI body)
qed

subsection \<open>A normal payload is well-formed JSON\<close>

lemma json_wf_set_opt:
  "json_wf (JObj d) \<Longrightarrow> (\<And>x. v = Some x \<Longrightarrow> json_wf x) \<Longrightarrow> json_wf (JObj (set_opt k v d))"
  by (cases v) (simp_all add: set_opt_def json_wf_dset json_wf_dpop del: json_wf.simps)

lemma json_wf_jget: "json_wf (JObj d) \<Longrightarrow> json_wf (jget d k)"
  using json_wf_map_of [of d k] by (cases "map_of d k") (auto simp: jget_def)

lemma json_wf_entries: "json_wf (JObj d) \<longleftrightarrow> distinct (map fst d) \<and> (\<forall>k v. map_of d k = Some v \<longrightarrow> json_wf v)"
  by (auto simp: list_all_iff dest: map_of_SomeD)

lemma finite_not_nan: "is_finite x \<Longrightarrow> x \<noteq> NaN" by auto

lemma normalize_objectives_wf:
  assumes "normalize_objectives p cfg st = Inr (objs, pen)" "json_wf (JObj p)"
  shows "json_wf (JObj objs)"
proof -
  obtain d where d: "jget p ''objectives'' = JObj d"
    using assms by (cases "jget p ''objectives''") (auto simp: normalize_objectives_def)
  have wf: "json_wf (JObj d)" using json_wf_jget [OF assms(2), of "''objectives''"] by (simp add: d)
  have number: "json_wf (JObj e)" if "foldE number_objective ns d = Inr e" "json_wf (JObj d)" for ns d e
    using that
  proof (induction ns arbitrary: d)
    case (Cons n ns)
    then obtain u where u: "number_objective n d = Inr u" "foldE number_objective ns u = Inr e" by (auto simp: return_iff)
    from u(1) obtain x where "u = dset n (JFloat x) d" "is_finite x" by (auto simp: number_objective_def return_iff)
    then have "json_wf (JObj u)" using Cons.prems(2) by (auto simp del: json_wf.simps(3) intro!: json_wf_dset)
    with Cons.IH [OF u(2)] show ?case by simp
  qed simp
  have null: "json_wf (JObj (fold (set_objective JNull) ns d))" if "json_wf (JObj d)" for ns d
    using that by (induction ns arbitrary: d) (simp_all add: set_objective_def json_wf_dset del: json_wf.simps(3))
  show ?thesis
  proof (cases "st = ''ok''")
    case True
    with assms(1) number [OF _ wf] show ?thesis
      by (auto simp: normalize_objectives_def d Let_def bindE_Inr_iff if_Inr_Inl simp del: json_wf.simps)
  next
    case False
    with assms(1) have "objs = fold (set_objective JNull) (objective_names cfg) d"
      by (cases "filter (\<lambda>n. jget d n \<noteq> JNull) (objective_names cfg)")
         (auto simp: normalize_objectives_def d Let_def bindE_Inr_iff if_Inr_Inl split: if_splits)
    with null [OF wf] show ?thesis by simp
  qed
qed

lemma metric_map_wf:
  assumes "metric_map p key allowed sem = Inr d" "json_wf (JObj p)"
  shows "json_wf (JObj (map (\<lambda>(n, f). (n, JFloat f)) d))"
proof -
  obtain raw where raw: "dict_get p key (JObj []) = JObj raw"
    and m: "mapE (\<lambda>(n, v). bindE (finite_number v (key @ ''.'' @ n) sem) (\<lambda>f. Inr (n, f))) raw = Inr d"
    using assms(1) by (auto simp: metric_map_def if_Inr_Inl split: json.splits)
  have "distinct (map fst raw)"
    using raw json_wf_map_of [OF assms(2), of key] by (cases "map_of p key") (auto simp: dict_get_def)
  moreover have "map fst d = map fst raw \<and> (\<forall>(n, x)\<in>set d. is_finite x)"
    using m by (induction raw arbitrary: d) (auto simp: bindE_Inr_iff finite_number_def split: if_splits sum.splits)
  ultimately show ?thesis
    by (auto simp: list_all_iff case_prod_unfold comp_def)
qed

lemma measured_json_wf:
  assumes "normalize_measurements p cfg = Inr m" "json_wf (JObj p)"
  shows "list_all (\<lambda>(_, v). json_wf v) (measured_json m)"
proof (cases "m = no_measured")
  case True
  then show ?thesis by (simp add: no_measured_def measured_json_def)
next
  case False
  with assms(1) have ax: "ax_contract_version cfg = 2" "status_is_ok p"
    by (auto simp: normalize_measurements_def Let_def bindE_Inr_iff split: if_splits)
  from assms(1) ax obtain osems ms msems ssem where
    o': "metric_map p ''objective_sems'' (objective_names cfg) True = Inr osems" and
    m': "metric_map p ''measurements'' (measurement_metrics (outcome cfg)) False = Inr ms" and
    s': "metric_map p ''measurement_sems'' (measurement_metrics (outcome cfg)) True = Inr msems" and
    c': "(case map_of p ''scalarized_sem'' of None \<Rightarrow> Inr None
         | Some v \<Rightarrow> bindE (finite_number v ''scalarized_sem'' True) (\<lambda>f. Inr (Some f))) = Inr ssem" and
    m: "m = \<lparr>ms_objective_sems = osems, ms_measurements = ms, ms_measurement_sems = msems, ms_scalarized_sem = ssem\<rparr>"
    unfolding normalize_measurements_def Let_def bindE_Inr_iff if_Inr_Inl by (simp add: bindE_Inr_iff if_Inr_Inl) blast
  have "\<And>x. ssem = Some x \<Longrightarrow> x \<noteq> NaN"
    using c' by (auto simp: bindE_Inr_iff finite_number_def split: option.splits if_splits sum.splits)
  with metric_map_wf [OF o' assms(2)] metric_map_wf [OF m' assms(2)] metric_map_wf [OF s' assms(2)]
  show ?thesis by (auto simp: m measured_json_def split: option.splits)
qed

lemma normalize_ingest_wf:
  assumes "normalize_ingest_payload version_ok payload cfg = Inr (p, i)" "json_wf (JObj payload)"
  shows "json_wf (JObj p)"
proof -
  obtain st where
    st: "normalize_status (jget payload ''status'') = Inr st"
    and rest: "(let p1 = dset ''params'' (jget payload ''params'') (dset ''status'' (JStr st) (dset ''trial_id'' (JInt i) payload)) in
     bindE (normalize_objectives p1 cfg st) (\<lambda>(objectives, penalty).
     bindE (normalize_terminal_reason p1 st) (\<lambda>reason.
     let p2 = set_opt ''terminal_reason'' (map_option JStr reason) (dpop ''failure_reason''
                (set_opt ''penalty_objective'' (map_option JFloat penalty) (dset ''objectives'' (JObj objectives) p1))) in
     bindE (normalize_measurements p2 cfg) (\<lambda>extensions.
     Inr (dict_update (fold dpop measurement_fields p2) (measured_json extensions), i))))) = Inr (p, i)"
    using assms by (cases "jget payload ''params''") (auto simp: normalize_ingest_payload_def bindE_Inr_iff Let_def)
  define p1 where "p1 = dset ''params'' (jget payload ''params'') (dset ''status'' (JStr st) (dset ''trial_id'' (JInt i) payload))"
  have wf1: "json_wf (JObj p1)"
    unfolding p1_def using assms(2) json_wf_jget [OF assms(2), of "''params''"] by (intro json_wf_dset) auto
  obtain objs pen reason m p2 where
    o': "normalize_objectives p1 cfg st = Inr (objs, pen)"
    and p2: "p2 = set_opt ''terminal_reason'' (map_option JStr reason) (dpop ''failure_reason''
                (set_opt ''penalty_objective'' (map_option JFloat pen) (dset ''objectives'' (JObj objs) p1)))"
    and m: "normalize_measurements p2 cfg = Inr m" and p: "p = extended p2 m"
    using rest unfolding p1_def [symmetric] Let_def extended_def
    by (auto simp: bindE_Inr_iff)
  have "\<And>x. pen = Some x \<Longrightarrow> x \<noteq> NaN" using normalize_objectives_Inr [OF o'] by auto
  then have wf2: "json_wf (JObj p2)"
    unfolding p2 by (intro json_wf_set_opt json_wf_dpop json_wf_dset wf1 normalize_objectives_wf [OF o']) auto
  show ?thesis
    unfolding p extended_def by (intro json_wf_dict_update json_wf_fold_dpop wf2 measured_json_wf [OF m])
qed

subsection \<open>The two sides of a replay\<close>

text \<open>No parameter of the point is inactive in it.\<close>

definition settled :: "param list \<Rightarrow> jdict \<Rightarrow> bool" where
  "settled ps values = list_all (\<lambda>p. has_key values (p_name p) \<longrightarrow> is_parameter_active p values) ps"

lemma contract_view_parts:
  assumes "has_parts payload i t" "contract_view i t k = Some v"
  shows "map_of payload k = Some v"
proof (cases "k \<in> set measurement_fields")
  case True
  with assms show ?thesis by (simp add: contract_view_def has_parts_def)
next
  case False
  with assms show ?thesis
    by (cases "pt_penalty t"; cases "pt_reason t") (simp_all add: contract_view_def has_parts_def split: if_split_asm)
qed

lemma json_wf_canonical:
  assumes "canonicalize_conditional_params values ps = Inr out" "json_wf (JObj values)"
  shows "json_wf (JObj out)"
proof -
  have keep: "json_wf (JObj (fold (keep_active values) qs out))" if "json_wf (JObj out)" for qs out
    using that
  proof (induction qs arbitrary: out)
    case (Cons q qs)
    then have "json_wf (JObj (keep_active values q out))"
      using json_wf_map_of [OF assms(2), of "p_name q"]
      by (auto simp: keep_active_def simp del: json_wf.simps intro!: json_wf_dset split: option.splits)
    with Cons.IH show ?case by simp
  qed simp
  have extra: "json_wf (JObj (fold (\<lambda>(k, v) out. if P k then out else dset k v out) vs out))"
    if "json_wf (JObj out)" "list_all (\<lambda>(_, v). json_wf v) vs" for P vs out
    using that by (induction vs arbitrary: out) (auto simp del: json_wf.simps simp: json_wf_dset)
  from assms(1) obtain qs where "out = fold (\<lambda>(k, v) out. if List.member (map p_name ps) k then out else dset k v out) values
      (fold (keep_active values) qs [])"
    by (auto simp: canonicalize_conditional_params_def omit_inactive_params_def return_iff)
  with extra [OF keep, of "[]"] assms(2) show ?thesis by simp
qed

lemma ingest_payload_wf:
  assumes "ingest_payload s raw = Inr (payload, i, beats)" "json_wf raw"
  shows "json_wf (JObj payload)"
proof -
  from assms obtain d p vals canonical where
    norm: "normalize_ingest_payload payload_version_ok d (s_objective s) = Inr (p, i)" and d: "raw = JObj d"
    and vals: "dict_item p ''params'' = Inr vals" "canonicalize_conditional_params vals (s_params s) = Inr canonical"
    and payload: "payload = dset ''params'' (JObj canonical) p"
    by (cases raw) (auto simp: ingest_payload_def return_iff Let_def)
  have p: "json_wf (JObj p)" using normalize_ingest_wf [OF norm] assms(2) by (simp add: d)
  have "json_wf (JObj vals)"
    using vals(1) json_wf_map_of [OF p, of "''params''"] by (auto simp: dict_item_def jitem_def split: option.splits json.splits)
  with json_wf_canonical [OF vals(2)] p show ?thesis by (simp only: payload json_wf_dset)
qed

lemma payload_measurements:
  assumes "has_parts payload i t" "measured_from cfg t"
  shows "normalize_measurements payload cfg = Inr (pt_measured t)"
proof -
  obtain src where src: "normalize_measurements src cfg = Inr (pt_measured t)"
     "dict_get src ''status'' (JStr ''ok'') = JStr (pt_status t)" "dict_get src ''objectives'' (JObj []) = JObj (pt_objectives t)"
    using assms(2) by (auto simp: measured_from_def)
  show ?thesis
  proof (rule normalize_measurements_stable [OF src(1)])
    show "dict_get payload ''status'' (JStr ''ok'') = dict_get src ''status'' (JStr ''ok'')"
      "dict_get payload ''objectives'' (JObj []) = dict_get src ''objectives'' (JObj [])"
      unfolding src using assms(1) by (simp_all add: has_parts_def dict_get_def)
  qed (use assms(1) in \<open>simp add: has_parts_def\<close>)
qed

lemma received_view:
  assumes "has_parts payload i t" "measured_from (s_objective s) t"
  shows "\<exists>r. received_contract s payload i = Inr r \<and> map_of r = contract_view i t \<and> distinct (map fst r)"
proof -
  let ?out = "[(''trial_id'', JInt i), (''params'', jget payload ''params''), (''objectives'', JObj (pt_objectives t)), (''status'', JStr (pt_status t))]"
  let ?base = "dict_update ?out (measured_json (pt_measured t))"
  let ?r = "set_all (copy_keys [''penalty_objective'', ''terminal_reason''] payload) ?base"
  have "received_contract s payload i = Inr ?r"
    using assms(1) by (simp add: received_contract_def payload_measurements [OF assms] has_parts_def jitem_def)
  moreover have "map_of ?r k = contract_view i t k" for k
    using assms(1)
    by (cases "pt_penalty t"; cases "pt_reason t";
        simp add: set_all_def copy_keys_def has_parts_def map_of_dict_update_distinct [OF measured_json_keys(2)]
          measured_json_get(5) contract_view_def measurement_fields_def split: option.splits)
  moreover have "distinct (map fst ?r)"
    unfolding set_all_update by (intro distinct_dict_update) simp
  ultimately show ?thesis by blast
qed

subsection \<open>The second ingest\<close>

lemma py_eq_dictI:
  assumes "json_wf (JObj d)" "json_wf (JObj e)" "\<And>k. rel_option py_eq (map_of d k) (map_of e k)"
  shows "py_eq (JObj d) (JObj e)"
proof -
  have dd: "distinct (map fst d)" "distinct (map fst e)" using assms(1,2) by auto
  have "map_of d k = None \<longleftrightarrow> map_of e k = None" for k using assms(3) [of k] by (auto elim: option.rel_cases)
  then have "fst ` set d = fst ` set e" by (auto simp: map_of_eq_None_iff)
  then have "length d = length e" using dd by (metis distinct_card length_map list.set_map)
  moreover have "\<exists>w. map_of e k = Some w \<and> py_eq v w" if "(k, v) \<in> set d" for k v
    using assms(3) [of k] map_of_is_SomeI [OF dd(1) that] by (auto elim: option.rel_cases)
  ultimately show ?thesis by (auto simp: py_eq_dict_iff)
qed

lemma find_row_last:
  assumes "list_all has_tid rows" "i \<notin> tid ` set rows" "has_tid r" "tid r = i"
  shows "find_row (rows @ [r]) i = Inr (Some r)"
  using assms by (induction rows) (auto simp: has_tid_def)

lemma not_pending:
  assumes "list_all has_tid rows" "i \<notin> tid ` set rows"
  shows "\<exists>pending. by_trial_id rows = Inr pending \<and> map_of pending i = None"
proof -
  have "mapE (\<lambda>r. bindE (entry_id r) (\<lambda>i. Inr (i, r))) rows = Inr (map (\<lambda>r. (tid r, r)) rows)"
    using assms(1) by (induction rows) (auto simp: has_tid_def)
  moreover have "map_of (dict_of (map (\<lambda>r. (tid r, r)) rows)) i = None"
    using assms(2) by (auto simp: map_of_eq_None_iff keys_dict_of)
  ultimately show ?thesis by (simp add: by_trial_id_def)
qed

lemma replay_accepts:
  assumes "ingested s raw i c" "params_wf (s_params s)" "json_wf raw"
    and "\<And>payload beats values. ingest_payload s raw = Inr (payload, i, beats) \<Longrightarrow> map_of payload ''params'' = Some (JObj values) \<Longrightarrow>
      settled (s_params s) values"
  shows "\<exists>payload beats pending. ingest_payload s raw = Inr (payload, i, beats) \<and> by_trial_id (cp_pending c) = Inr pending \<and>
    map_of pending i = None \<and> ingest_replay s c payload i = Inr ()"
proof -
  from assms(1) obtain payload beats entry now row v rows where
    payload: "ingest_payload s raw = Inr (payload, i, beats)"
    and row: "ingested_observation (s_objective s) entry payload i beats now = Inr row"
    and obs: "cp_observations c = rows @ [dset ''artifact_path'' v row]"
    and fresh: "i \<notin> tid ` set rows" "i \<notin> tid ` set (cp_pending c)" and wf: "cp_wf c"
    unfolding ingested_def by blast
  obtain t where t: "parts_ok (s_objective s) t" "has_parts payload i t" "measured_from (s_objective s) t"
    using ingest_payload_parts(1) [OF payload] by blast
  let ?row = "dset ''artifact_path'' v row"
  note get = ingested_row [OF t row ingest_payload_parts(2) [OF payload]]
  have wfr: "row_wf ?row" "tid ?row = i"
    using wf ingested_row_wf(1) [OF payload row, of v] by (simp_all add: cp_wf_def obs)
  have found: "find_row (cp_observations c) i = Inr (Some ?row)"
    unfolding obs using wf wfr fresh(1)
    by (intro find_row_last) (auto simp: cp_wf_def obs list_all_iff row_wf_def)
  obtain pending where pending: "by_trial_id (cp_pending c) = Inr pending" "map_of pending i = None"
    using not_pending [of "cp_pending c" i] wf fresh(2) by (auto simp: cp_wf_def list_all_iff entry_wf_def)
  have pwf: "json_wf (JObj payload)" by (rule ingest_payload_wf [OF payload assms(3)])
  have params: "map_of payload ''params'' = Some (JObj (pt_params t))" using t(2) by (simp add: has_parts_def)
  have vals: "json_wf (JObj (pt_params t))" by (rule json_wf_map_of [OF pwf params])
  have "list_all (\<lambda>p. has_key (pt_params t) (p_name p) \<longrightarrow> is_parameter_active p (pt_params t)) (s_params s)"
    using assms(4) [OF payload params] by (simp add: settled_def)
  with canonicalize_again [OF assms(2), of "pt_params t"] vals obtain q where
    q: "canonicalize_conditional_params (pt_params t) (s_params s) = Inr q" "map_of q = map_of (pt_params t)" by auto
  have qwf: "json_wf (JObj q)" by (rule json_wf_canonical [OF q(1) vals])
  have canon: "canonical_params_of s ?row = Inr q" using q(1) get(3) by (simp add: canonical_params_of_def dict_get_def)
  define tq where "tq = t\<lparr>pt_params := q\<rparr>"
  have tq: "parts_ok (s_objective s) tq" "measured_from (s_objective s) tq"
    using t by (auto simp: tq_def parts_ok_def measured_from_def)
  have "\<exists>e. build_observation_contract (dset ''params'' (JObj q) ?row) (s_objective s) = Inr e \<and>
      map_of e = contract_view i tq \<and> distinct (map fst e)"
    by (rule build_contract_of_parts [OF tq]) (use get in \<open>auto simp: tq_def jget_def measurement_fields_def\<close>)
  then obtain e where e: "build_observation_contract (dset ''params'' (JObj q) ?row) (s_objective s) = Inr e"
    "map_of e = contract_view i tq" "distinct (map fst e)" by blast
  obtain r where r: "received_contract s payload i = Inr r" "map_of r = contract_view i t" "distinct (map fst r)"
    using received_view [OF t(2,3)] by blast
  have vwf: "json_wf x" if "contract_view i t k = Some x" for k x
    using contract_view_parts [OF t(2) that] by (rule json_wf_map_of [OF pwf])
  have rwf: "json_wf (JObj r)" unfolding json_wf_entries r(2) using r(3) vwf by blast
  have view: "contract_view i tq k = (if k = ''params'' then Some (JObj q) else contract_view i t k)" for k
    by (auto simp: contract_view_def tq_def split: option.splits)
  have ewf: "json_wf (JObj e)"
    unfolding json_wf_entries [of e] e(2) view using e(3) qwf vwf by (metis option.inject)
  have "rel_option py_eq (map_of e k) (map_of r k)" for k
  proof (cases "k = ''params''")
    case True
    have "rel_option py_eq (map_of q n) (map_of (pt_params t) n)" for n
      using json_wf_map_of [OF vals, of n] q(2) by (cases "map_of (pt_params t) n") (auto simp: py_eq_refl)
    from py_eq_dictI [OF qwf vals this] True show ?thesis
      by (simp add: e(2) r(2) view) (simp add: contract_view_def)
  next
    case False
    with vwf [of k] show ?thesis by (cases "contract_view i t k") (simp_all add: e(2) r(2) view py_eq_refl)
  qed
  from py_eq_dictI [OF ewf rwf this] have "diff_contract_records e r False = []"
    using diff_records_iff [OF ewf rwf] by (simp add: diff_contract_records_def Let_def)
  with found canon e(1) r(1) have "ingest_replay s c payload i = Inr ()" by (simp add: ingest_replay_def)
  with payload pending show ?thesis by blast
qed

text \<open>C8: ingesting a result twice is a no-op. When an ingest of a payload succeeded on a reachable
  campaign, the same payload is recognised as a duplicate afterwards, whatever lease token comes
  with it, and nothing changes but the event log: state, table, manifests and payload copies
  stay. The payload's canonical point has to be settled: no parameter in it is inactive.\<close>

theorem replay_is_noop:
  assumes "reachable S w" "fst (cmd_ingest s raw lease w) = Inr (Ingested i)"
    and "parse_cli_lease_token lease' = Inr token" "params_wf (s_params s)" "json_wf raw"
    and "\<And>payload beats values. ingest_payload s raw = Inr (payload, i, beats) \<Longrightarrow>
      map_of payload ''params'' = Some (JObj values) \<Longrightarrow> settled (s_params s) values"
  shows "\<exists>n events. cmd_ingest s raw lease' (snd (cmd_ingest s raw lease w)) =
    (Inr (Duplicate i), (snd (cmd_ingest s raw lease w))\<lparr>w_tick := n, w_events := events\<rparr>)"
proof -
  let ?w = "snd (cmd_ingest s raw lease w)"
  have "core_ok (core w)" "ids_inv (core w)" using ids.reachable_inv [OF assms(1)] by auto
  from runsD [OF ingest_leaves [OF this] refl]
  have "ends (\<lambda>out k'. \<forall>j. out = Ingested j \<longrightarrow> (\<exists>c'. fst k' = Some c' \<and> ingested s raw j c')) (\<lambda>_ _. True) (cmd_ingest s raw lease w)" .
  with assms(2) obtain c where c: "w_state ?w = Some c" "ingested s raw i c"
    by (auto simp: ends_def core_def split: prod.splits)
  have load: "load_state (Some c) now = Inr c" for now using c(2) by (auto simp: ingested_def)
  obtain payload beats pending where
    body: "ingest_payload s raw = Inr (payload, i, beats)" "by_trial_id (cp_pending c) = Inr pending"
      "map_of pending i = None" "ingest_replay s c payload i = Inr ()"
    using replay_accepts [OF c(2) assms(4,5)] assms(6) by blast
  obtain u where u: "u = ?w" by simp
  show ?thesis
    using c(1) unfolding u [symmetric]
    by (simp add: cmd_ingest_def assms(3) exec_simps locked_def audit_start_def audit_end_def append_event_def thenC_def finallyC_def
        ingest_body_def load_stateC_def load body) blast
qed

theorem replay_is_noop_witness:
  "fst (cmd_ingest demo raw1 (Some ''other'') demo2) = Inr (Duplicate 1) \<and>
   w_state (snd (cmd_ingest demo raw1 (Some ''other'') demo2)) = w_state demo2"
proof -
  have d: "demo2 = snd (cmd_ingest demo raw1 None demo1)" by (simp add: demo2_def run_command_def)
  have "\<exists>n events. cmd_ingest demo raw1 (Some ''other'') (snd (cmd_ingest demo raw1 None demo1)) =
    (Inr (Duplicate 1), (snd (cmd_ingest demo raw1 None demo1))\<lparr>w_tick := n, w_events := events\<rparr>)"
  proof (rule replay_is_noop [OF demo1_reachable [of "\<lambda>_. True", OF TrueI] demo_ingest1(1) [OF demo1_state]])
    show "parse_cli_lease_token (Some ''other'') = Inr (Some ''other'')" by code_simp
    show "params_wf (s_params demo)"
      unfolding params_wf_def
    proof (intro conjI)
      show "\<forall>p\<in>set (s_params demo). p_name p \<noteq> [] \<and> domain_wf (p_dom p) \<and>
         (\<forall>w. p_when p = Some w \<longrightarrow> w \<noteq> [] \<and> list_all (condition_wf (s_params demo) p) w)"
        by (simp add: demo_def param_of_def)
    qed code_simp+
    show "json_wf raw1" by code_simp
    show "settled (s_params demo) values"
      if "ingest_payload demo raw1 = Inr (payload, 1, beats)" "map_of payload ''params'' = Some (JObj values)"
      for payload beats "values"
      using that by (auto simp: demo_payload settled_def demo_def param_of_def is_parameter_active_def)
  qed
  then show ?thesis by (auto simp: d)
qed

end
