(* ===== verification/ImportGuarantees.thy ===== *)
theory ImportGuarantees
  imports Replay
begin

text \<open>
  What imports and exports of whole files promise: an import appends its rows to the campaign or,
  in strict mode, leaves no trace but its log entries; and exported records import to the
  observations they came from.
\<close>

subsection \<open>An import into the example campaign\<close>

definition cell_text :: text_ops where
  "cell_text = \<lparr>t_int = (\<lambda>_. None), t_float = (\<lambda>s. if s = ''2'' then Some (Fin 2) else None), t_loads = (\<lambda>_. None),
     t_dumps = (\<lambda>_. []), t_compact = (\<lambda>_. [])\<rparr>"

definition csv_file :: "jdict list \<Rightarrow> import_request" where
  "csv_file rows = \<lparr>iq_text = cell_text, iq_source = ''rows.csv'', iq_name = ''rows.csv'', iq_contents = Some [],
     iq_csv = (\<lambda>_. rows), iq_format = None, iq_mode = None, iq_report_path = (\<lambda>_. ''report.json'')\<rparr>"

lemma csv_file_simps [simp]: "iq_text (csv_file rows) = cell_text"
  by (simp add: csv_file_def)

definition good_row :: jdict where
  "good_row = [(''status'', JStr ''ok''), (''param_tuned'', JStr ''true''), (''objective_loss'', JStr ''2'')]"

definition bad_row :: jdict where
  "bad_row = [(''status'', JStr ''finished''), (''param_tuned'', JStr ''true''), (''objective_loss'', JStr ''2'')]"

lemma demo_files: "import_rows (csv_file [good_row]) = Inr (Csv, False, [good_row])"
  "import_rows (csv_file [good_row, bad_row]) = Inr (Csv, False, [good_row, bad_row])"
  by code_simp+

definition import2 :: permissive where
  "import2 = (case import_strict demo (csv_file [good_row]) Csv [good_row] (persisted final1) (Fin 1) of
     Inr p \<Rightarrow> p | _ \<Rightarrow> \<lparr>pm_accepted = [], pm_rejected = [], pm_next = 0\<rparr>)"

definition row2 :: jdict where "row2 = (case pm_accepted import2 of a # _ \<Rightarrow> imported_observation a | [] \<Rightarrow> [])"

definition merged2 :: campaign where
  "merged2 = (persisted final1)\<lparr>cp_observations := [row1', row2], cp_next := 3\<rparr>"

definition best2 :: campaign where
  "best2 = (case update_best merged2 loss_cfg (Fin 1) of Inr c \<Rightarrow> c | _ \<Rightarrow> merged2)"

lemma demo_import2:
  "import_strict demo (csv_file [good_row]) Csv [good_row] (persisted final1) (Fin 1) = Inr import2"
  "load_state (Some (persisted final1)) (Fin 1) = Inr (persisted final1)"
  "update_best merged2 loss_cfg (Fin 1) = Inr best2" "entry_id row2 = Inr 2"
  by code_simp+

lemma demo_import2_ok:
  "res_ok (terminal_manifest [] row2 loss_cfg None (Fin 1))" "res_ok (observation_rows best2)"
  "res_ok (build_governance_snapshot \<lparr>log_sizes = [], reset_archives = None\<rparr> (cp_pending best2) (cp_observations best2) (JObj demo_cfg) (Fin 1))"
  by code_simp+

lemma demo_accepted2: "pm_accepted import2 = [(None, row2)]" "pm_next import2 = 3"
  by code_simp+

lemma demo_run2:
  assumes "w_state w = Some (persisted final1)"
  shows "fst (cmd_import_observations demo (csv_file [good_row]) w) = Inr 1"
proof -
  obtain m where m: "\<And>old. \<exists>x. terminal_manifest old row2 loss_cfg None (Fin 1) = Inr x"
    using terminal_manifest_any [OF demo_import2_ok(1)] by blast
  obtain x where x: "terminal_manifest (dict_get (w_manifests w) 2 []) row2 loss_cfg None (Fin 1) = Inr x" using m by blast
  obtain rows where rows: "observation_rows best2 = Inr rows" using demo_import2_ok(2) by (auto elim: res_okE)
  obtain sn where sn: "build_governance_snapshot \<lparr>log_sizes = [], reset_archives = None\<rparr> (cp_pending best2) (cp_observations best2) (JObj demo_cfg) (Fin 1) = Inr sn"
    using demo_import2_ok(3) by (auto elim: res_okE)
  have d: "(persisted final1)\<lparr>cp_observations := cp_observations final1 @ [row2], cp_next := 3\<rparr> = merged2"
    by (simp add: merged2_def final1_def)
  show ?thesis
    using assms
    by (simp add: cmd_import_observations_def demo_files exec_simps locked_def audit_start_def audit_end_def append_event_def thenC_def
      finallyC_def import_body_def load_stateC_def demo_import2 import_apply_def whenC_def demo_accepted2 store_import_def
      imported_observation_def ensure_terminal_manifest_def old_manifest_def x d update_bestC_def save_state_and_rows_def save_state_def
      write_obs_csv_def rows append_governance_violation_event_def sn Let_def)
qed

subsection \<open>A successful import\<close>

definition imported_into :: "campaign \<Rightarrow> objective_cfg \<Rightarrow> nat \<Rightarrow> core \<Rightarrow> bool" where
  "imported_into c cfg n k' \<longleftrightarrow> (\<exists>c' rs. fst k' = Some c' \<and> observation_rows c' = Inr (snd k') \<and> cp_pending c = [] \<and> cp_pending c' = [] \<and>
     cp_observations c' = cp_observations c @ rs \<and> length rs = n \<and> 0 < n \<and> list_all row_wf rs \<and>
     map tid rs = map (\<lambda>j. cp_next c + int j) [0..<n] \<and> cp_next c' = cp_next c + int n \<and> best_current cfg c')"

lemma imported_commit:
  assumes "import_plan c p" "pm_accepted p \<noteq> []"
    and up: "\<exists>now. update_best (c\<lparr>cp_observations := cp_observations c @ map imported_observation (pm_accepted p), cp_next := pm_next p\<rparr>) cfg now = Inr c'"
    and rows: "observation_rows c' = Inr rows"
  shows "imported_into c cfg (length (pm_accepted p)) (Some (persisted c'), rows)"
proof -
  let ?d = "c\<lparr>cp_observations := cp_observations c @ map imported_observation (pm_accepted p), cp_next := pm_next p\<rparr>"
  let ?rs = "map imported_observation (pm_accepted p)"
  from up obtain now where u: "update_best ?d cfg now = Inr c'" ..
  obtain b where b: "c' = ?d\<lparr>cp_best := b\<rparr>" using update_best_current(2) [OF u] by blast
  have "best_current cfg (persisted c')"
    using update_best_current(1) [OF u] best_current_cong [of "persisted c'" c' cfg] by simp
  moreover have "list_all row_wf ?rs" using assms(1) import_result_row(1) by (auto simp: import_plan_def list_all_iff)
  moreover have "map tid ?rs = map (\<lambda>j. cp_next c + int j) [0..<length (pm_accepted p)]" using assms(1) by (simp add: import_plan_def comp_def)
  ultimately show ?thesis
    unfolding imported_into_def using assms(1,2) rows
    by (intro exI [of _ "persisted c'"] exI [of _ ?rs]) (simp add: import_plan_def b)
qed

lemma import_apply_appends:
  assumes "import_plan c p"
  shows "runs k (import_apply s q f lenient requested c now p) (\<lambda>n. imported_into c (s_objective s) n) (\<lambda>_ _. True)"
proof -
  have commit: "runs k (thenC (save_state_and_rows c') m) (\<lambda>n. imported_into c (s_objective s) n) (\<lambda>_ _. True)"
    if up: "\<exists>now. update_best (c\<lparr>cp_observations := cp_observations c @ map imported_observation (pm_accepted p), cp_next := pm_next p\<rparr>) (s_objective s) now = Inr c'"
      and ne: "pm_accepted p \<noteq> []" and m: "\<And>k'. imported_into c (s_objective s) (length (pm_accepted p)) k' \<Longrightarrow> runs k' m (\<lambda>n. imported_into c (s_objective s) n) (\<lambda>_ _. True)"
    for c' and m :: "nat cmd" and k
  proof (cases "observation_rows c'")
    case (Inl e)
    then show ?thesis
      by (auto simp: runs_def ends_def thenC_def save_state_and_rows_def save_state_def write_obs_csv_def bindC_def updC_def liftC_def)
  next
    case (Inr rows)
    from m [OF imported_commit [OF assms ne up Inr]] show ?thesis by (rule runs_save_rows [OF Inr])
  qed
  have tl: "runs k' (thenC (append_event s ev x) (thenC (append_governance_violation_event s c' cmd) (retC n)))
     (\<lambda>n. imported_into c (s_objective s) n) (\<lambda>_ _. True)" if "imported_into c (s_objective s) n k'" for k' ev x c' cmd n
    using that by (intro runs_then_quiet quiet_intros runs_ret) simp_all
  have none: "runs k (thenC (append_event s ev x) (liftC (Inl e))) (\<lambda>n. imported_into c (s_objective s) n) (\<lambda>_ _. True)" for k ev x e
    by (intro runs_then_quiet quiet_intros) (simp_all add: runs_def ends_def liftC_def)
  show ?thesis
    unfolding import_apply_def
    by (intro runs_then_quiet runs_if runs_best quiet_intros none commit tl) simp_all
qed

lemma import_body_appends:
  assumes "raws \<noteq> []" "fst k = Some c"
  shows "runs k (import_body s q f lenient raws) (\<lambda>n. imported_into c (s_objective s) n) (\<lambda>_ _. True)"
  unfolding import_body_def
proof (rule runs_load, simp, rule runs_bind_any [OF quiet_basic(4)], simp, rule runs_bind_lift, simp, goal_cases)
  case (1 t c1 now p)
  from 1(1) assms(2) have same: "imported_into c1 cfg = imported_into c cfg" for cfg
    by (auto simp: load_state_def return_iff Let_def imported_into_def fun_eq_iff)
  from 1(3) assms(1) have "import_plan c1 p" by (cases lenient) (simp_all add: import_strict_plan import_permissive_plan)
  from import_apply_appends [OF this] show ?case unfolding same .
qed

text \<open>C9: an import that returns has appended what it imported and nothing else: at least one
  finished row, with the ids that follow the last one, no trial was or is pending, the best record
  is the recomputed one and the table has a row for each observation.\<close>

theorem import_appends:
  assumes "w_state w = Some c" "fst (cmd_import_observations s q w) = Inr n"
  shows "\<exists>c' rs. w_state (snd (cmd_import_observations s q w)) = Some c' \<and>
    cp_observations c' = cp_observations c @ rs \<and> length rs = n \<and> 0 < n \<and> list_all row_wf rs \<and>
    map tid rs = map (\<lambda>j. cp_next c + int j) [0..<n] \<and> cp_next c' = cp_next c + int n \<and>
    cp_pending c = [] \<and> cp_pending c' = [] \<and> best_current (s_objective s) c' \<and>
    observation_rows c' = Inr (w_rows (snd (cmd_import_observations s q w)))"
proof -
  have "runs (core w) (cmd_import_observations s q) (\<lambda>n. imported_into c (s_objective s) n) (\<lambda>_ _. True)"
    unfolding cmd_import_observations_def
  proof (rule runs_bind_lift, simp, goal_cases)
    case (1 x)
    obtain f lenient raws where x: "x = (f, lenient, raws)" by (cases x)
    note body = import_body_appends [OF import_rows_some [OF 1 [unfolded x]], of _ c]
    have "fst (core w) = Some c" using assms(1) by (simp add: core_def)
    with body show ?case
      unfolding x prod.case locked_def by (intro runs_then_quiet runs_finally quiet_intros) simp_all
  qed
  from runsD [OF this HOL.refl] assms(2) show ?thesis
    by (auto simp: ends_def imported_into_def core_def)
qed

theorem import_appends_witness:
  "\<exists>c'. w_state (snd (cmd_import_observations demo (csv_file [good_row]) demo2)) = Some c' \<and> cp_next c' = cp_next final1 + 1"
  using import_appends [OF demo2_state demo_run2 [OF demo2_state]] by auto

subsection \<open>A rejected file\<close>

lemma exec_raise: "bindC (liftC (Inl e)) k w = (Inl e, w)"
  by (simp add: bindC_def liftC_def)

text \<open>C10: a strict import of a file with a row that cannot be imported raises, and nothing but the
  event log has changed: no state, table, manifest or report was written.\<close>

theorem import_rejects_file:
  assumes "import_rows q = Inr (f, False, raws)" "raw \<in> set raws"
    and "\<And>now i. \<exists>e. normalize_import_record (iq_text q) (import_settings_of s now) f (JObj raw) i = Inl e"
  shows "\<exists>e n events. cmd_import_observations s q w = (Inl e, w\<lparr>w_tick := n, w_events := events\<rparr>)"
proof -
  have bad: "\<exists>e. normalize_import_records_strict (iq_text q) (import_settings_of s now) f (map JObj rs) ids = Inl e"
    if "raw \<in> set rs" "length ids = length rs" for rs ids now
    using that
  proof (induction rs arbitrary: ids)
    case (Cons r rs)
    then obtain i js where ids: "ids = i # js" "length js = length rs" by (cases ids) auto
    show ?case
    proof (cases "r = raw")
      case True
      with assms(3) [of now i] ids show ?thesis by (auto simp: normalize_import_records_strict_def)
    next
      case False
      with Cons.prems(1) Cons.IH [of js] ids show ?thesis
        by (auto simp: normalize_import_records_strict_def bindE_def split: sum.splits)
    qed
  qed simp
  have strict: "\<exists>e. import_strict s q f raws c now = Inl e" for c now
  proof (cases "next_import_trial_id c")
    case (Inr i)
    obtain e where "normalize_import_records_strict (iq_text q) (import_settings_of s now) f (map JObj raws)
        (map (\<lambda>k. i + int k) [0..<length raws]) = Inl e"
      using bad [OF assms(2)] by fastforce
    with Inr show ?thesis by (simp add: import_strict_def plan_import_trial_ids_def)
  qed (simp add: import_strict_def plan_import_trial_ids_def)
  have body: "\<exists>e n. import_body s q f False raws w = (Inl e, w\<lparr>w_tick := n\<rparr>)" for w
  proof (cases "load_state (w_state w) (s_clock s (w_tick w))")
    case (Inl e)
    then show ?thesis
      by (intro exI [of _ e] exI [of _ "Suc (w_tick w)"]) (simp add: import_body_def load_stateC_def exec_simps exec_raise)
  next
    case (Inr c)
    obtain e where "import_strict s q f raws c (s_clock s (Suc (w_tick w))) = Inl e" using strict by blast
    with Inr show ?thesis
      by (intro exI [of _ e] exI [of _ "Suc (Suc (w_tick w))"]) (simp add: import_body_def load_stateC_def exec_simps exec_raise)
  qed
  obtain w1 where w1: "audit_start s ''import-observations'' w = (Inr (), w1)" "\<exists>n events. w1 = w\<lparr>w_tick := n, w_events := events\<rparr>"
    by (simp add: audit_start_def append_event_def exec_simps) (metis world.surjective world.update_convs(1,7))
  obtain e n where "import_body s q f False raws w1 = (Inl e, w1\<lparr>w_tick := n\<rparr>)" using body by blast
  moreover obtain w3 where "audit_end s ''import-observations'' (w1\<lparr>w_tick := n\<rparr>) = (Inr (), w3)" "\<exists>n events. w3 = w1\<lparr>w_tick := n, w_events := events\<rparr>"
    by (simp add: audit_end_def append_event_def exec_simps) (metis world.surjective world.update_convs(1,7))
  ultimately have run: "cmd_import_observations s q w = (Inl e, w3)" and w3: "\<exists>n events. w3 = w1\<lparr>w_tick := n, w_events := events\<rparr>"
    using w1(1) by (simp_all add: cmd_import_observations_def assms(1) exec_simps locked_def thenC_def finallyC_def bindC_def)
  from w1(2) w3 obtain n' events' where "w3 = w\<lparr>w_tick := n', w_events := events'\<rparr>"
    by (elim exE) (rule that, simp)
  with run show ?thesis by blast
qed

theorem import_rejects_file_witness:
  "\<exists>e. fst (cmd_import_observations demo (csv_file [good_row, bad_row]) demo2) = Inl e \<and>
     w_state (snd (cmd_import_observations demo (csv_file [good_row, bad_row]) demo2)) = Some (persisted final1)"
proof -
  have "normalize_terminal_status (jget bad_row ''status'') = Inl (ValueError ''status'')" by code_simp
  then have common: "\<exists>e. normalize_common_observation_fields t bad_row mf i now = Inl e" for t mf i now
    by (simp add: normalize_common_observation_fields_def)
  have row: "\<exists>e. normalize_import_record cell_text m Csv (JObj bad_row) i = Inl e" for m i
  proof (cases "normalize_import_record cell_text m Csv (JObj bad_row) i")
    case (Inr a)
    then obtain c mf where "normalize_common_observation_fields cell_text bad_row mf i (im_at m) = Inr c"
      by (auto simp: normalize_import_record_def normalize_csv_record_def require_object_def return_iff split: if_splits)
    with common show ?thesis by (metis sum.distinct(1))
  qed simp
  have "\<exists>e n events. cmd_import_observations demo (csv_file [good_row, bad_row]) demo2 = (Inl e, demo2\<lparr>w_tick := n, w_events := events\<rparr>)"
    by (rule import_rejects_file [OF demo_files(2), of bad_row]) (simp_all add: row)
  then show ?thesis using demo2_state by auto
qed

end
