(* ===== verification/ObsRoundTrip.thy ===== *)
theory ObsRoundTrip
  imports Replay
begin

text \<open>
  Moving observations between campaigns: what is exported as JSON lines is read back as the same
  records, and importing an exported observation gives the observation again under its new id.
\<close>

subsection \<open>JSON lines\<close>

text \<open>What \<open>json.dumps\<close> writes: one line, with nothing to strip.\<close>

definition json_line :: "string \<Rightarrow> bool" where
  "json_line x = (x \<noteq> [] \<and> py_strip x = x \<and> list_all (\<lambda>c. \<not> is_line_break c) x)"

lemma text_lines_ne: "text_lines s \<noteq> []"
  by (cases s) (auto split: list.splits)

lemma text_lines_line: "list_all (\<lambda>c. \<not> is_line_break c) x \<Longrightarrow> text_lines (x @ CHR 0x0A # s) = x # text_lines s"
proof (induction x)
  case Nil
  then show ?case by (simp add: is_line_break_def)
qed (simp split: list.splits)

lemma text_lines_file: "list_all (\<lambda>x. list_all (\<lambda>c. \<not> is_line_break c) x) xs \<Longrightarrow>
  text_lines (concat (map (\<lambda>x. x @ [CHR 0x0A]) xs)) = xs @ [[]]"
  by (induction xs) (simp_all add: text_lines_line)

lemma strip_Nil [simp]: "py_strip [] = []"
  by (simp add: py_strip_def)

text \<open>C14: reading an exported JSON-lines text gives back the exported records, provided the JSON
  text of a record is a line that parses to it.\<close>

theorem jsonl_roundtrip:
  assumes "mapE export_observation_json_record rows = Inr rs"
    and "\<And>r. r \<in> set rs \<Longrightarrow> t_loads t (t_dumps t (JObj r)) = Some (JObj r)"
    and "\<And>r. r \<in> set rs \<Longrightarrow> json_line (t_dumps t (JObj r))"
  shows "\<exists>text. render_observations_jsonl t rows = Inr text \<and> load_jsonl_rows t text = Inr rs"
proof -
  let ?xs = "map (\<lambda>r. t_dumps t (JObj r)) rs"
  have render: "render_observations_jsonl t rows = Inr (concat (map (\<lambda>x. x @ [CHR 0x0A]) ?xs))"
    by (simp add: render_observations_jsonl_def assms(1) comp_def)
  have lines: "list_all json_line ?xs" using assms(3) by (simp add: list_all_iff)
  then have "text_lines (concat (map (\<lambda>x. x @ [CHR 0x0A]) ?xs)) = ?xs @ [[]]"
    by (intro text_lines_file) (auto simp: json_line_def list_all_iff)
  moreover have "filter (\<lambda>l. l \<noteq> []) (map py_strip (?xs @ [[]])) = ?xs"
    using lines by (auto simp: json_line_def list_all_iff filter_id_conv comp_def intro!: map_idI)
  moreover have "mapE (\<lambda>l. case t_loads t l of Some (JObj d) \<Rightarrow> Inr d | Some _ \<Rightarrow> imp_err ''must decode to an object''
       | None \<Rightarrow> imp_err ''invalid JSON'') (map (\<lambda>r. t_dumps t (JObj r)) rs') = Inr rs'" if "set rs' \<subseteq> set rs" for rs'
    using that assms(2) by (induction rs') auto
  ultimately show ?thesis using render by (simp add: load_jsonl_rows_def)
qed

definition exported_ok :: jdict where
  "exported_ok = copy_keys export_field_order imported_ok"

text \<open>A text for one record; the rest of the world's JSON is not needed here.\<close>

definition line_text :: text_ops where
  "line_text = plain_text\<lparr>t_dumps := (\<lambda>_. ''{7}''), t_loads := (\<lambda>s. if s = ''{7}'' then Some (JObj exported_ok) else None)\<rparr>"

theorem jsonl_roundtrip_witness:
  "\<exists>text. render_observations_jsonl line_text [imported_ok] = Inr text \<and> load_jsonl_rows line_text text = Inr [exported_ok]"
proof (rule jsonl_roundtrip)
  show "mapE export_observation_json_record [imported_ok] = Inr [exported_ok]" by code_simp
  have "t_loads line_text (t_dumps line_text (JObj exported_ok)) = Some (JObj exported_ok)" "json_line (t_dumps line_text (JObj exported_ok))"
    by code_simp+
  then show "t_loads line_text (t_dumps line_text (JObj r)) = Some (JObj r)" "json_line (t_dumps line_text (JObj r))"
    if "r \<in> set [exported_ok]" for r
    using that by simp_all
qed

subsection \<open>Normalized parameters\<close>

lemma numeric_choice_eq: "numeric_choice t s cs = Some c \<Longrightarrow> c \<in> set cs \<and> py_eq c c \<and> \<not> blank_cell c"
proof (induction cs)
  case (Cons a cs)
  then show ?case
    by (cases a) (auto simp: blank_cell_def feq_def opt_feq_def split: option.splits if_splits)
qed simp

lemma categorical_again:
  assumes "normalize_categorical_value t cs v = Inr w" "\<not> blank_cell v"
  shows "normalize_categorical_value t cs w = Inr w \<and> \<not> blank_cell w"
proof (cases "list_ex (\<lambda>c. py_eq v c) cs")
  case True
  with assms show ?thesis by (simp add: normalize_categorical_value_def)
next
  case False
  with assms(1) obtain s where s: "py_strip s \<noteq> []"
    "List.member cs (JStr (py_strip s)) \<and> w = JStr (py_strip s) \<or> numeric_choice t (py_strip s) cs = Some w"
    by (auto simp: normalize_categorical_value_def split: json.splits if_splits option.splits)
  then have "w \<in> set cs \<and> py_eq w w \<and> \<not> blank_cell w"
    using numeric_choice_eq by (auto simp: blank_cell_def)
  then show ?thesis by (auto simp: normalize_categorical_value_def list_ex_iff)
qed

lemma finite_or_error_Inr: "finite_or_error v field = Inr x \<Longrightarrow> is_finite x"
  by (auto simp: finite_or_error_def return_iff)

lemma finite_or_error_float [simp]: "is_finite x \<Longrightarrow> finite_or_error (JFloat x) field = Inr x"
  by (simp add: finite_or_error_def is_finite_number_def)

text \<open>
  A normalized value is a fixed point, whatever it came from. An integer has to be exact as a
  float, because the integrality test converts it.
\<close>

definition small_int :: "json \<Rightarrow> bool" where
  "small_int v = (case v of JInt n \<Rightarrow> \<bar>n\<bar> < 2 ^ 53 | _ \<Rightarrow> True)"

lemma param_value_again:
  assumes "normalize_param_value t v dm = Inr (Some w)" "small_int w"
  shows "normalize_param_value t w dm = Inr (Some w)"
proof (cases dm)
  case (CatDom cs)
  with assms categorical_again [of t cs v w] show ?thesis
    by (auto simp: normalize_param_value_def return_iff split: if_splits)
next
  case BoolDom
  with assms show ?thesis by (auto simp: normalize_param_value_def return_iff blank_cell_def parse_bool_value_def split: if_splits)
next
  case (IntDom lo hi sc)
  with assms obtain n where "w = JInt n" by (auto simp: normalize_param_value_def normalize_int_param_def return_iff split: if_splits)
  with IntDom assms(2) show ?thesis
    by (simp add: normalize_param_value_def blank_cell_def normalize_int_param_def numeric_cell_def is_integral_def small_int_def
        float_of_int_small float_is_integer_def)
next
  case (FloatDom lo hi sc)
  with assms obtain x where "w = JFloat x" "is_finite x"
    by (auto simp: normalize_param_value_def normalize_float_param_def return_iff dest: finite_or_error_Inr split: if_splits)
  with FloatDom show ?thesis
    by (simp add: normalize_param_value_def blank_cell_def normalize_float_param_def numeric_cell_def)
qed

lemma parse_fold:
  "foldE (parse_param t cell) ps acc = Inr parsed \<Longrightarrow> distinct (map p_name ps) \<Longrightarrow>
   (\<forall>n. n \<notin> p_name ` set ps \<longrightarrow> map_of parsed n = map_of acc n) \<and>
   (\<forall>p\<in>set ps. map_of acc (p_name p) = None \<longrightarrow>
      (case cell (p_name p) of None \<Rightarrow> map_of parsed (p_name p) = None
       | Some v \<Rightarrow> normalize_param_value t v (p_dom p) = Inr (map_of parsed (p_name p)))) \<and>
   (distinct (map fst acc) \<longrightarrow> distinct (map fst parsed))"
proof (induction ps arbitrary: acc)
  case (Cons q qs)
  from Cons.prems(1) obtain acc1 where a: "parse_param t cell q acc = Inr acc1" and rest: "foldE (parse_param t cell) qs acc1 = Inr parsed"
    by (auto simp: return_iff)
  have acc1: "map_of acc1 n = map_of acc n" if "n \<noteq> p_name q" for n
    using a that by (auto simp: parse_param_def return_iff split: option.splits)
  have d: "distinct (map p_name qs)" "p_name q \<notin> p_name ` set qs" using Cons.prems(2) by auto
  note IH = Cons.IH [OF rest d(1)]
  have "case cell (p_name q) of None \<Rightarrow> map_of parsed (p_name q) = None
       | Some v \<Rightarrow> normalize_param_value t v (p_dom q) = Inr (map_of parsed (p_name q))" if "map_of acc (p_name q) = None"
  proof -
    have eq: "map_of parsed (p_name q) = map_of acc1 (p_name q)" using IH d(2) by blast
    show ?thesis
    proof (cases "cell (p_name q)")
      case None
      with a that eq show ?thesis by (simp add: parse_param_def)
    next
      case (Some v)
      with a obtain x where "normalize_param_value t v (p_dom q) = Inr x" "acc1 = (case x of None \<Rightarrow> acc | Some y \<Rightarrow> dset (p_name q) y acc)"
        by (auto simp: parse_param_def return_iff)
      with Some that eq show ?thesis by (cases x) simp_all
    qed
  qed
  moreover have "p_name p \<noteq> p_name q" if "p \<in> set qs" for p using d(2) that by (metis imageI)
  moreover have "distinct (map fst acc) \<longrightarrow> distinct (map fst acc1)" using a by (auto simp: parse_param_def return_iff split: option.splits)
  ultimately show ?case using IH acc1 by (auto split: option.splits)
qed (auto split: option.splits)

lemma parse_fold_total:
  "list_all (\<lambda>p. case cell (p_name p) of None \<Rightarrow> True | Some v \<Rightarrow> res_ok (normalize_param_value t v (p_dom p))) ps \<Longrightarrow>
   \<exists>parsed. foldE (parse_param t cell) ps acc = Inr parsed"
  by (induction ps arbitrary: acc) (auto simp: parse_param_def split: option.splits elim!: res_okE)

lemma payload_parsed:
  "normalize_param_payload t raw ps False = Inr out \<Longrightarrow>
   \<exists>cell parsed. foldE (parse_param t cell) ps [] = Inr parsed \<and> complete_params parsed ps = Inr out"
  by (auto simp: normalize_param_payload_def return_iff split: if_splits)

lemma csv_payload_parsed:
  "normalize_csv_param_payload t row ps False = Inr out \<Longrightarrow>
   \<exists>cell parsed. foldE (parse_param t cell) ps [] = Inr parsed \<and> complete_params parsed ps = Inr out"
  by (auto simp: normalize_csv_param_payload_def typed_csv_params_def return_iff split: if_splits)

lemma active_same: "map_of d = map_of e \<Longrightarrow> is_parameter_active p d = is_parameter_active p e"
  by (simp add: is_parameter_active_def split: option.splits)

lemma complete_params_cong:
  assumes "complete_params parsed ps = Inr out" "canonicalize_conditional_params d ps = Inr out'" "map_of out' = map_of out"
  shows "complete_params d ps = Inr out'"
proof -
  from assms(1) obtain act where "active_parameters ps out = Inr act" "\<not> list_ex (\<lambda>p. \<not> has_key out (p_name p)) act"
    by (auto simp: complete_params_def return_iff)
  then have "active_parameters ps out' = Inr act" "\<not> list_ex (\<lambda>p. \<not> has_key out' (p_name p)) act"
    using active_same [OF assms(3)] assms(3) by (simp_all add: active_parameters_def)
  then show ?thesis by (simp add: complete_params_def assms(2))
qed

text \<open>Complete parameters are normal: payloads with the same parameters come out the same.\<close>

lemma params_again:
  assumes "foldE (parse_param t cell) ps [] = Inr parsed" "complete_params parsed ps = Inr out" "params_wf ps"
    and "settled ps out" "list_all (\<lambda>(k, v). small_int v) out"
  shows "\<exists>out'. normalize_param_payload t (JObj out) ps False = Inr out' \<and> map_of out' = map_of out"
proof -
  have names: "distinct (map p_name ps)" using assms(3) by (simp add: params_wf_def)
  note fold = parse_fold [OF assms(1) names, simplified]
  from assms(2) have canon: "canonicalize_conditional_params parsed ps = Inr out" by (auto simp: complete_params_def return_iff)
  note out = canonicalize_map_of [OF assms(3) _ canon]
  have known: "k \<in> p_name ` set ps" if "k \<in> fst ` set out" for k
  proof (rule ccontr)
    assume "k \<notin> p_name ` set ps"
    with out [of k] fold have "map_of out k = None" by auto
    with that show False by (simp add: map_of_eq_None_iff)
  qed
  have value_of: "normalize_param_value t v (p_dom p) = Inr (Some v)" if p: "p \<in> set ps" "map_of out (p_name p) = Some v" for p v
  proof -
    have "map_of parsed (p_name p) = Some v" using out [of "p_name p"] fold p by (auto split: if_splits)
    with fold p(1) obtain u where "normalize_param_value t u (p_dom p) = Inr (Some v)" by (fastforce split: option.splits)
    moreover have "small_int v" using assms(5) map_of_SomeD [OF p(2)] by (auto simp: list_all_iff)
    ultimately show ?thesis by (rule param_value_again)
  qed
  have "list_all (\<lambda>p. case map_of out (p_name p) of None \<Rightarrow> True | Some v \<Rightarrow> res_ok (normalize_param_value t v (p_dom p))) ps"
    using value_of by (auto simp: list_all_iff res_ok_def split: option.splits)
  then obtain parsed2 where fold2: "foldE (parse_param t (map_of out)) ps [] = Inr parsed2" using parse_fold_total by blast
  note p2 = parse_fold [OF fold2 names, simplified]
  have "map_of parsed2 k = map_of out k" for k
  proof (cases "k \<in> p_name ` set ps")
    case True
    then obtain p where p: "p \<in> set ps" "k = p_name p" by auto
    with p2 value_of [OF p(1)] show ?thesis by (cases "map_of out (p_name p)") fastforce+
  next
    case False
    then have "map_of parsed2 k = None" using p2 by (simp add: map_of_eq_None_iff)
    moreover have "map_of out k = None" using known False by (auto simp: map_of_eq_None_iff)
    ultimately show ?thesis by simp
  qed
  then have same: "map_of parsed2 = map_of out" by (simp add: fun_eq_iff)
  with assms(4) have "settled ps parsed2" using active_same [OF same] by (simp add: settled_def)
  with canonicalize_again [OF assms(3), of parsed2] p2 obtain out' where
    c2: "canonicalize_conditional_params parsed2 ps = Inr out'" "map_of out' = map_of parsed2"
    by (auto simp: settled_def)
  have "complete_params parsed2 ps = Inr out'" using complete_params_cong [OF assms(2) c2(1)] c2(2) same by simp
  moreover have "\<not> list_ex (\<lambda>k. \<not> List.member (map p_name ps) k) (map fst out)" using known by (auto simp: list_ex_iff)
  ultimately have "normalize_param_payload t (JObj out) ps False = Inr out'"
    by (simp add: normalize_param_payload_def require_object_def fold2)
  with c2(2) same show ?thesis by auto
qed

subsection \<open>Normalized objectives\<close>

lemma map_of_keyed: "map_of (map (\<lambda>n. (n, f n)) ns) k = (if k \<in> set ns then Some (f k) else None)"
  by (induction ns) auto

definition keyed :: "string list \<Rightarrow> (string, 'a) dict \<Rightarrow> bool" where
  "keyed ns v \<longleftrightarrow> (\<exists>f. v = map (\<lambda>n. (n, f n)) ns)"

lemma keyed_mapE: "mapE k ns = Inr v \<Longrightarrow> (\<And>n y. k n = Inr y \<Longrightarrow> fst y = n) \<Longrightarrow> keyed ns v"
proof -
  assume a: "mapE k ns = Inr v" "\<And>n y. k n = Inr y \<Longrightarrow> fst y = n"
  have "v = map (\<lambda>n. (n, case k n of Inr y \<Rightarrow> snd y)) ns" using a by (induction ns arbitrary: v) (auto simp: return_iff)
  then show "keyed ns v" unfolding keyed_def by (rule exI [of _ "\<lambda>n. case k n of Inr y \<Rightarrow> snd y"])
qed

lemma keyed_map: "keyed ns v \<Longrightarrow> keyed ns (map (\<lambda>(n, x). (n, h x)) v)"
  unfolding keyed_def by (elim exE) (rule_tac x = "\<lambda>n. h (f n)" in exI, simp)

text \<open>Every objective vector is a function of the configured names.\<close>

lemma keyed_payload:
  assumes "normalize_objective_payload raw cfg st = Inr objs"
  shows "\<exists>F. objs = map (\<lambda>n. (n, F n)) (objective_names cfg) \<and>
    (\<forall>n\<in>set (objective_names cfg). if st = ''ok'' then \<exists>x. F n = JFloat x \<and> is_finite x else F n = JNull)"
proof -
  have "keyed (objective_names cfg) objs"
  proof (cases "st = ''ok''")
    case True
    with assms obtain o' v where v: "canonical_objective_vector o' cfg = Inr v" "objs = map (\<lambda>(n, x). (n, JFloat x)) v"
      by (auto simp: normalize_objective_payload_def return_iff)
    then have "keyed (objective_names cfg) v"
      by (auto simp: canonical_objective_vector_def bindE_Inr_iff Let_def split: if_splits intro!: keyed_mapE)
    then show ?thesis unfolding v(2) by (rule keyed_map)
  next
    case False
    with assms obtain v where v: "nullable_objective_vector raw cfg = Inr v" "objs = map (\<lambda>(n, x). (n, jfloat_opt x)) v"
      by (auto simp: normalize_objective_payload_def return_iff split: if_splits)
    have "keyed (objective_names cfg) (map (\<lambda>n. (n, None)) (objective_names cfg))"
      unfolding keyed_def by (rule exI [of _ "\<lambda>_. None"]) simp
    moreover have "keyed (objective_names cfg) v" if "raw \<noteq> JNull"
      using v(1) that by (auto simp: nullable_objective_vector_def bindE_Inr_iff Let_def split: if_splits intro!: keyed_mapE)
    ultimately have "keyed (objective_names cfg) v"
      using v(1) by (cases "raw = JNull") (auto simp: nullable_objective_vector_def)
    then show ?thesis unfolding v(2) by (rule keyed_map)
  qed
  then obtain F where F: "objs = map (\<lambda>n. (n, F n)) (objective_names cfg)" unfolding keyed_def ..
  moreover have "normal_objectives cfg st objs" by (rule objective_payload_normal [OF assms])
  ultimately show ?thesis
    by (intro exI [of _ F]) (auto simp: normal_objectives_def float_objective_def map_of_keyed)
qed

lemma objectives_again:
  assumes "normalize_objective_payload raw cfg st = Inr objs"
  shows "normalize_objective_payload (JObj objs) cfg st = Inr objs"
proof -
  let ?ns = "objective_names cfg"
  from keyed_payload [OF assms] obtain F where objs: "objs = map (\<lambda>n. (n, F n)) ?ns"
    and F: "\<forall>n\<in>set ?ns. if st = ''ok'' then \<exists>x. F n = JFloat x \<and> is_finite x else F n = JNull" by blast
  have keys: "list_all (\<lambda>n. has_key objs n) ?ns" "list_all (\<lambda>k. List.member ?ns k) (map fst objs)"
    and get: "\<And>n. n \<in> set ?ns \<Longrightarrow> jget objs n = F n"
    unfolding objs by (simp_all add: list_all_iff map_of_keyed jget_def)
  have nullable: "nullable_objective_vector (JObj objs) cfg = mapE (\<lambda>n. if jget objs n = JNull then Inr (n, None)
      else bindE (obj_require_finite (jget objs n) (''objectives.'' @ n)) (\<lambda>v. Inr (n, Some v))) ?ns"
    using keys by (auto simp: nullable_objective_vector_def obj_require_object_def Let_def list_all_iff)
  show ?thesis
  proof (cases "st = ''ok''")
    case True
    define f where "f n = (case F n of JFloat x \<Rightarrow> x)" for n
    have f: "F n = JFloat (f n)" "is_finite (f n)" if "n \<in> set ?ns" for n using F True that by (auto simp: f_def)
    have num: "obj_require_finite (F n) field = Inr (f n)" if "n \<in> set ?ns" for n field
      using f [OF that] by (simp add: return_iff)
    have null: "nullable_objective_vector (JObj objs) cfg = Inr (map (\<lambda>n. (n, Some (f n))) ?ns)"
      unfolding nullable by (rule mapE_total) (simp add: get num, simp add: f)
    have same: "nullable_json (map (\<lambda>n. (n, Some (f n))) ?ns) = JObj objs"
      using f(1) by (simp add: nullable_json_def objs jfloat_opt_def)
    have "canonical_objective_vector (JObj objs) cfg =
      mapE (\<lambda>n. bindE (obj_require_finite (jget objs n) (''objectives.'' @ n)) (\<lambda>v. Inr (n, v))) ?ns"
      using keys by (auto simp: canonical_objective_vector_def obj_require_object_def Let_def list_all_iff)
    also have "\<dots> = Inr (map (\<lambda>n. (n, f n)) ?ns)" by (rule mapE_total) (simp add: get num)
    finally show ?thesis using f(1) by (simp add: normalize_objective_payload_def null same True) (simp add: objs)
  next
    case False
    have "nullable_objective_vector (JObj objs) cfg = Inr (map (\<lambda>n. (n, None)) ?ns)"
      unfolding nullable using F False by (intro mapE_total) (simp add: get)
    then show ?thesis using F False by (simp add: normalize_objective_payload_def list_ex_iff) (simp add: objs jfloat_opt_def)
  qed
qed

subsection \<open>Common fields\<close>

definition opt_all :: "('a \<Rightarrow> bool) \<Rightarrow> 'a option \<Rightarrow> bool" where
  "opt_all P v = (case v of None \<Rightarrow> True | Some x \<Rightarrow> P x)"

lemma optional_again:
  "opt_all is_finite x \<Longrightarrow> normalize_optional_float t (jfloat_opt x) field = Inr x"
  "opt_all normal_reason r \<Longrightarrow> normalize_optional_string (jopt (map_option JStr r)) field = Inr r"
  "opt_all (\<lambda>n. 0 \<le> n) n \<Longrightarrow> normalize_optional_nonnegative_int t (jopt (map_option JInt n)) field = Inr n"
  "heartbeat_meta_of t (jopt (map_option JObj d)) = Inr d"
  by (auto simp: opt_all_def normalize_optional_float_def normalize_optional_string_def normalize_optional_nonnegative_int_def
      normalize_optional_int_def jfloat_opt_def normal_reason_def split: option.splits)
    (cases d; simp add: heartbeat_meta_of_def)

lemma optional_normal:
  "normalize_optional_float t v field = Inr x \<Longrightarrow> opt_all is_finite x"
  "normalize_optional_string v field = Inr r \<Longrightarrow> opt_all normal_reason r"
  "normalize_optional_nonnegative_int t v field = Inr n \<Longrightarrow> opt_all (\<lambda>n. 0 \<le> n) n"
  by (auto simp: opt_all_def normalize_optional_nonnegative_int_def return_iff split: option.splits if_splits
      dest: optional_float_finite optional_string_normal)

lemma status_again: "st \<in> set canonical_statuses \<Longrightarrow> normalize_terminal_status (JStr st) = Inr st"
proof -
  have "list_all (\<lambda>s. normalize_terminal_status (JStr s) = Inr s) canonical_statuses" by code_simp
  then show "st \<in> set canonical_statuses \<Longrightarrow> normalize_terminal_status (JStr st) = Inr st" by (simp add: list_all_iff)
qed

definition common_names :: "string list" where
  "common_names = [''status'', ''suggested_at'', ''completed_at'', ''artifact_path'', ''terminal_reason'', ''penalty_objective'',
     ''last_heartbeat_at'', ''heartbeat_count'', ''heartbeat_note'', ''heartbeat_meta'', ''lease_token'', ''runtime_seconds'']"

text \<open>Normalized common fields are read back unchanged, under the new id.\<close>

lemma common_again:
  assumes "normalize_common_observation_fields t row mf i now = Inr c" "is_finite now"
    and "\<And>k. k \<in> set common_names \<Longrightarrow> map_of e k = map_of c k"
  shows "normalize_common_observation_fields t e ''heartbeat_meta'' j now' = Inr ((''trial_id'', JInt j) # tl c)"
    "hd c = (''trial_id'', JInt i)" "c \<noteq> []" "fst ` set c \<subseteq> insert ''trial_id'' (set common_names)"
proof -
  from assms(1) obtain st suggested completed reason penalty artifact beat beats remark lease runtime meta where
    st: "normalize_terminal_status (jget row ''status'') = Inr st"
    and n: "normalize_optional_float t (jget row ''suggested_at'') ''suggested_at'' = Inr suggested"
      "normalize_optional_float t (jget row ''completed_at'') ''completed_at'' = Inr completed"
      "normalize_optional_string (jget row ''terminal_reason'') ''terminal_reason'' = Inr reason"
      "normalize_optional_float t (jget row ''penalty_objective'') ''penalty_objective'' = Inr penalty"
      "normalize_optional_string (jget row ''artifact_path'') ''artifact_path'' = Inr artifact"
      "normalize_optional_float t (jget row ''last_heartbeat_at'') ''last_heartbeat_at'' = Inr beat"
      "normalize_optional_nonnegative_int t (jget row ''heartbeat_count'') ''heartbeat_count'' = Inr beats"
      "normalize_optional_string (jget row ''heartbeat_note'') ''heartbeat_note'' = Inr remark"
      "normalize_optional_string (jget row ''lease_token'') ''lease_token'' = Inr lease"
      "normalize_optional_float t (jget row ''runtime_seconds'') ''runtime_seconds'' = Inr runtime"
    and ok: "\<not> (st = ''ok'' \<and> penalty \<noteq> None)"
    and c: "c = [(''trial_id'', JInt i), (''status'', JStr st), (''suggested_at'', jfloat_opt suggested),
           (''completed_at'', JFloat (case completed of None \<Rightarrow> now | Some x \<Rightarrow> x)),
           (''artifact_path'', jopt (map_option JStr artifact))] @
          opt_field ''terminal_reason'' (map_option JStr (if st \<noteq> ''ok'' \<and> reason = None then Some (''status='' @ st) else reason)) @
          (if penalty \<noteq> None \<or> st \<noteq> ''ok'' then [(''penalty_objective'', jfloat_opt penalty)] else []) @
          opt_field ''last_heartbeat_at'' (map_option JFloat beat) @
          opt_field ''heartbeat_count'' (map_option JInt beats) @
          opt_field ''heartbeat_note'' (map_option JStr remark) @
          opt_field ''heartbeat_meta'' (map_option JObj meta) @
          opt_field ''lease_token'' (map_option JStr lease) @
          opt_field ''runtime_seconds'' (map_option JFloat runtime)"
    unfolding normalize_common_observation_fields_def Let_def bindE_Inr_iff if_Inr_Inl by (simp add: bindE_Inr_iff) blast
  show "hd c = (''trial_id'', JInt i)" "c \<noteq> []" by (simp_all add: c)
  show "fst ` set c \<subseteq> insert ''trial_id'' (set common_names)" by (auto simp: c common_names_def opt_field_def split: option.splits)
  have canonical: "st \<in> set canonical_statuses" by (rule terminal_status_canonical [OF st])
  define x where "x = (case completed of None \<Rightarrow> now | Some x \<Rightarrow> x)"
  define r where "r = (if st \<noteq> ''ok'' \<and> reason = None then Some (''status='' @ st) else reason)"
  note c = c [folded x_def r_def]
  have normal: "opt_all is_finite (Some x)" "opt_all normal_reason r"
    using optional_normal(1) [OF n(2)] optional_normal(2) [OF n(3)] assms(2) status_reason_normal [OF canonical]
    by (auto simp: x_def r_def opt_all_def split: option.splits)
  have e: "jget e k = jget c k" if "List.member common_names k" for k using assms(3) that by (intro jget_cong) simp
  have get: "jget e ''status'' = JStr st" "jget e ''suggested_at'' = jfloat_opt suggested" "jget e ''completed_at'' = jfloat_opt (Some x)"
    "jget e ''artifact_path'' = jopt (map_option JStr artifact)" "jget e ''terminal_reason'' = jopt (map_option JStr r)"
    "jget e ''penalty_objective'' = jfloat_opt penalty" "jget e ''last_heartbeat_at'' = jfloat_opt beat"
    "jget e ''heartbeat_count'' = jopt (map_option JInt beats)" "jget e ''heartbeat_note'' = jopt (map_option JStr remark)"
    "jget e ''heartbeat_meta'' = jopt (map_option JObj meta)" "jget e ''lease_token'' = jopt (map_option JStr lease)"
    "jget e ''runtime_seconds'' = jfloat_opt runtime"
    by (subst e, simp add: common_names_def, simp add: c jget_def map_add_def jfloat_opt_def split: option.splits)+
  note a1 = optional_again(1) [OF optional_normal(1)] and a2 = optional_again(2) [OF optional_normal(2)]
    and a3 = optional_again(3) [OF optional_normal(3)]
  have reason: "(if st \<noteq> ''ok'' \<and> r = None then Some (''status='' @ st) else r) = r" by (simp add: r_def)
  show "normalize_common_observation_fields t e ''heartbeat_meta'' j now' = Inr ((''trial_id'', JInt j) # tl c)"
    using ok
    by (simp add: normalize_common_observation_fields_def get status_again [OF canonical] a1 [OF n(1)] a1 [OF n(4)] a1 [OF n(6)]
      a2 [OF n(5)] a3 [OF n(7)] a2 [OF n(8)] a2 [OF n(9)] a1 [OF n(10)] optional_again(1) [OF normal(1)]
      optional_again(2) [OF normal(2)] optional_again(4) Let_def reason c)
qed

subsection \<open>The whole record\<close>

definition plain_settings :: "import_settings \<Rightarrow> bool" where
  "plain_settings m = (im_codec m = None \<and> ax_contract_version (im_objective m) \<noteq> 2)"




lemma measured_none [simp]: "measured_json no_measured = []"
  by (simp add: measured_json_def no_measured_def)

lemma finish_plain:
  assumes "finish_import m src common params objectives extensions = Inr (src', obs)" "plain_settings m"
  shows "\<exists>ps objs. params = Inr ps \<and> objectives = Inr objs \<and> src' = src \<and>
    obs = common @ [(''params'', JObj ps), (''objectives'', JObj objs)]"
  using assms by (auto simp: finish_import_def plain_settings_def return_iff Let_def normalize_measurements_def split: if_splits)

text \<open>What a record that was imported looks like.\<close>

lemma import_shape:
  assumes "normalize_import_record t m f raw i = Inr (src, obs)" "plain_settings m"
  shows "\<exists>row mf common ps objs raw' cell parsed. is_finite (im_at m) \<and> 1 \<le> i \<and> source_trial_id row = Inr src \<and>
    normalize_common_observation_fields t row mf i (im_at m) = Inr common \<and>
    foldE (parse_param t cell) (im_params m) [] = Inr parsed \<and> complete_params parsed (im_params m) = Inr ps \<and>
    normalize_objective_payload raw' (im_objective m) (str_of (jget common ''status'')) = Inr objs \<and>
    obs = common @ [(''params'', JObj ps), (''objectives'', JObj objs)]"
proof -
  have v: "(ax_contract_version (im_objective m) = 2) = False" using assms(2) by (simp add: plain_settings_def)
  obtain row where fin: "is_finite (im_at m)" "1 \<le> i"
    and row: "(case f of Jsonl \<Rightarrow> normalize_jsonl_record t m row i | Csv \<Rightarrow> normalize_csv_record t m row i) = Inr (src, obs)"
    using assms(1) by (auto simp: normalize_import_record_def return_iff)
  show ?thesis
  proof (cases f)
    case Jsonl
    with row obtain common src0 where "source_trial_id row = Inr src0"
      and c: "normalize_common_observation_fields t row ''heartbeat_meta'' i (im_at m) = Inr common"
      and fi: "finish_import m src0 common (normalize_param_payload t (jget row ''params'') (im_params m) False)
       (normalize_objective_payload (jget row ''objectives'') (im_objective m) (str_of (jget common ''status'')))
       (Inr (copy_keys measurement_fields row)) = Inr (src, obs)"
      by (auto simp: normalize_jsonl_record_def return_iff v)
    from finish_plain [OF fi assms(2)] obtain ps objs where "normalize_param_payload t (jget row ''params'') (im_params m) False = Inr ps"
      "normalize_objective_payload (jget row ''objectives'') (im_objective m) (str_of (jget common ''status'')) = Inr objs" "src = src0"
      "obs = common @ [(''params'', JObj ps), (''objectives'', JObj objs)]" by auto
    then show ?thesis using fin c payload_parsed [of t "jget row ''params''" "im_params m" ps] \<open>source_trial_id row = Inr src0\<close> by blast
  next
    case Csv
    with row obtain common src0 ext where "source_trial_id row = Inr src0"
      and c: "normalize_common_observation_fields t row ''heartbeat_meta_json'' i (im_at m) = Inr common"
      and fi: "finish_import m src0 common (normalize_csv_param_payload t row (im_params m) False)
       (normalize_csv_objective_payload t row (im_objective m) (str_of (jget common ''status''))) ext = Inr (src, obs)"
      by (auto simp: normalize_csv_record_def return_iff v)
    from finish_plain [OF fi assms(2)] obtain ps objs where "normalize_csv_param_payload t row (im_params m) False = Inr ps"
      "normalize_csv_objective_payload t row (im_objective m) (str_of (jget common ''status'')) = Inr objs" "src = src0"
      "obs = common @ [(''params'', JObj ps), (''objectives'', JObj objs)]" by auto
    moreover from this(2) obtain raw' where "normalize_objective_payload raw' (im_objective m) (str_of (jget common ''status'')) = Inr objs"
      by (auto simp: normalize_csv_objective_payload_def return_iff)
    ultimately show ?thesis using fin c csv_payload_parsed [of t row "im_params m" ps] \<open>source_trial_id row = Inr src0\<close> by blast
  qed
qed

lemma source_again: "source_trial_id row = Inr (Some s) \<Longrightarrow> normalize_source_trial_id s = Inr (Some s)"
  by (auto simp: source_trial_id_def normalize_source_trial_id_def return_iff split: if_splits json.splits)

lemma copy_keys_none: "(\<And>k. k \<in> set ks \<Longrightarrow> map_of d k = None) \<Longrightarrow> copy_keys ks d = []"
  by (induction ks) (auto simp: copy_keys_def)

lemma export_known: "k \<in> set export_field_order \<Longrightarrow> List.member jsonl_known_fields k"
  "k \<in> set common_names \<Longrightarrow> k \<in> set export_field_order"
proof -
  have "list_all (List.member jsonl_known_fields) export_field_order" "list_all (List.member export_field_order) common_names" by code_simp+
  then show "k \<in> set export_field_order \<Longrightarrow> List.member jsonl_known_fields k"
    "k \<in> set common_names \<Longrightarrow> k \<in> set export_field_order"
    by (auto simp: list_all_iff)
qed

lemma field_names:
  "''params'' \<notin> set common_names" "''objectives'' \<notin> set common_names" "''trial_id'' \<notin> set common_names"
  "''source_trial_id'' \<notin> set common_names" "set measurement_fields \<inter> set common_names = {}"
  by (simp_all add: common_names_def measurement_fields_def)

text \<open>The numbers and parameters of a row survive the trip: integers are exact as floats, and
  no parameter is inactive.\<close>

definition portable :: "param list \<Rightarrow> jdict \<Rightarrow> bool" where
  "portable ps values = (settled ps values \<and> list_all (\<lambda>(k, v). small_int v) values)"

text \<open>The fields of an imported observation, and of its exported record.\<close>

lemma exported_fields:
  fixes src obs
  defines "e \<equiv> copy_keys export_field_order (imported_observation (src, obs))"
  assumes c: "normalize_common_observation_fields t row mf i now = Inr common" "is_finite now"
    and obs: "obs = common @ [(''params'', JObj ps), (''objectives'', JObj objs)]"
  shows "map_of e ''source_trial_id'' = src" "k \<in> set common_names \<Longrightarrow> map_of e k = map_of common k"
    "map_of e ''trial_id'' = Some (JInt i)" "map_of e ''params'' = Some (JObj ps)" "map_of e ''objectives'' = Some (JObj objs)"
    "k \<in> set measurement_fields \<Longrightarrow> map_of common k = None \<and> map_of e k = None"
    "\<not> list_ex (\<lambda>k. \<not> List.member jsonl_known_fields k) (map fst e)"
    "k \<noteq> ''source_trial_id'' \<Longrightarrow> map_of (imported_observation (src, obs)) k = map_of obs k"
    "map_of common ''params'' = None" "map_of common ''trial_id'' = Some (JInt i)"
proof -
  have common_key: "map_of common k = None" if "k \<notin> insert ''trial_id'' (set common_names)" for k
    using common_again(4) [OF c HOL.refl] that by (auto simp: map_of_eq_None_iff)
  have obs_key: "map_of obs k = map_of common k" if "k \<noteq> ''params''" "k \<noteq> ''objectives''" for k
    using that by (simp add: obs map_add_def split: option.splits)
  have row_key: "map_of (imported_observation (src, obs)) k = map_of obs k" if "k \<noteq> ''source_trial_id''" for k
    using that by (simp add: imported_observation_def split: option.splits)
  then show "k \<noteq> ''source_trial_id'' \<Longrightarrow> map_of (imported_observation (src, obs)) k = map_of obs k" .
  have e_key: "map_of e k = map_of (imported_observation (src, obs)) k" if "k \<in> set export_field_order" for k
    using that by (simp add: e_def map_of_copy_keys)
  show none: "map_of common ''params'' = None" and id: "map_of common ''trial_id'' = Some (JInt i)"
    using common_key [of "''params''"] common_fields(1) [OF c] field_names by simp_all
  have "map_of common ''objectives'' = None" using common_key field_names by simp
  with none have "map_of obs ''params'' = Some (JObj ps)" "map_of obs ''objectives'' = Some (JObj objs)"
    by (simp_all add: obs map_add_def)
  then show "map_of e ''trial_id'' = Some (JInt i)" "map_of e ''params'' = Some (JObj ps)" "map_of e ''objectives'' = Some (JObj objs)"
    using id by (simp_all add: e_key row_key obs_key export_field_order_def)
  have "map_of obs ''source_trial_id'' = None" using obs_key common_key field_names by simp
  then show "map_of e ''source_trial_id'' = src"
    by (simp add: e_key export_field_order_def imported_observation_def split: option.splits)
  show "map_of e k = map_of common k" if "k \<in> set common_names"
  proof -
    have "k \<noteq> ''params''" "k \<noteq> ''objectives''" "k \<noteq> ''source_trial_id''" using that field_names by auto
    with export_known(2) [OF that] show ?thesis by (simp add: e_key row_key obs_key)
  qed
  show "map_of common k = None \<and> map_of e k = None" if "k \<in> set measurement_fields"
  proof -
    have k: "k \<notin> insert ''trial_id'' (set common_names)" "k \<noteq> ''params''" "k \<noteq> ''objectives''" "k \<noteq> ''source_trial_id''"
      using that field_names(5) by (auto simp: measurement_fields_def)
    with common_key show ?thesis by (simp add: e_def map_of_copy_keys row_key obs_key)
  qed
  have "map_of e k = None" if "k \<notin> set export_field_order" for k using that by (simp add: e_def map_of_copy_keys)
  then have "fst ` set e \<subseteq> set export_field_order" unfolding map_of_eq_None_iff by blast
  with export_known(1) show "\<not> list_ex (\<lambda>k. \<not> List.member jsonl_known_fields k) (map fst e)" by (auto simp: list_ex_iff)
qed

text \<open>Assembling a record whose parts are normal.\<close>

lemma finish_again:
  assumes "plain_settings m" "params = Inr ps" "objectives = Inr objs" "ext = Inr []"
    and "\<And>k. k \<in> set measurement_fields \<Longrightarrow> map_of common k = None"
  shows "finish_import m s common params objectives ext = Inr (s, common @ [(''params'', JObj ps), (''objectives'', JObj objs)])"
proof -
  have "map_of (common @ [(''params'', JObj ps), (''objectives'', JObj objs)]) k = None" if "k \<in> set measurement_fields" for k
    using assms(5) [OF that] that by (auto simp: measurement_fields_def)
  then have "normalize_measurements (common @ [(''params'', JObj ps), (''objectives'', JObj objs)]) (im_objective m) = Inr no_measured"
    using assms(1) by (auto simp: normalize_measurements_def plain_settings_def list_ex_iff)
  with assms(1-4) show ?thesis by (simp add: finish_import_def validate_import_parameters_def plain_settings_def Let_def)
qed

text \<open>C11: an exported observation that had been imported imports again, under any new id: it
  remembers where it first came from, its parameters have the same values, and every other field
  is unchanged, the time of completion included.\<close>

theorem export_import_roundtrip:
  assumes "normalize_import_record t m f raw i = Inr (src, obs)" "plain_settings m" "params_wf (im_params m)"
    and port: "\<And>values. map_of obs ''params'' = Some (JObj values) \<Longrightarrow> portable (im_params m) values"
    and j: "1 \<le> j" "is_finite now"
  shows "\<exists>e obs' ps ps'. export_observation_json_record (imported_observation (src, obs)) = Inr e \<and>
    normalize_import_record t (m\<lparr>im_at := now\<rparr>) Jsonl (JObj e) j = Inr (Some (case src of None \<Rightarrow> JInt i | Some s \<Rightarrow> s), obs') \<and>
    map_of obs' ''trial_id'' = Some (JInt j) \<and>
    map_of obs ''params'' = Some (JObj ps) \<and> map_of obs' ''params'' = Some (JObj ps') \<and> map_of ps' = map_of ps \<and>
    (\<forall>k. k \<noteq> ''trial_id'' \<and> k \<noteq> ''params'' \<longrightarrow> map_of obs' k = map_of obs k)"
proof -
  from import_shape [OF assms(1,2)] obtain row mf common ps objs raw' cell parsed where
    shape: "is_finite (im_at m)" "1 \<le> i" "source_trial_id row = Inr src"
      "normalize_common_observation_fields t row mf i (im_at m) = Inr common"
      "foldE (parse_param t cell) (im_params m) [] = Inr parsed" "complete_params parsed (im_params m) = Inr ps"
      "normalize_objective_payload raw' (im_objective m) (str_of (jget common ''status'')) = Inr objs"
    and obs: "obs = common @ [(''params'', JObj ps), (''objectives'', JObj objs)]"
    by blast
  note ef = exported_fields(1-5,7,8) [where src = src, OF shape(4,1) obs] and bare = exported_fields(9) [OF shape(4,1) obs]
  let ?row = "imported_observation (src, obs)"
  define e where "e = copy_keys export_field_order ?row"
  note ef = ef [folded e_def]
  have unmeasured: "map_of common k = None" "map_of e k = None" if "k \<in> set measurement_fields" for k
    using exported_fields(6) [OF shape(4,1) obs that, of src] by (simp_all add: e_def)
  obtain st where st: "st \<in> set canonical_statuses" "map_of common ''status'' = Some (JStr st)"
    using common_fields(5) [OF shape(4,1)] by blast
  have row: "map_of ?row k = map_of e k" if "List.member export_field_order k" for k
    using that by (simp add: e_def map_of_copy_keys)
  have "map_of e ''status'' = Some (JStr st)" using ef(2) [of "''status''"] st(2) by (simp add: common_names_def)
  then have export: "export_observation_json_record ?row = Inr e"
    using ef(3-5) shape(2) status_again [OF st(1)] row [of "''trial_id''"] row [of "''status''"] row [of "''params''"] row [of "''objectives''"]
    by (simp add: export_observation_json_record_def require_trial_id_def require_object_def e_def export_field_order_def)
  have source: "source_trial_id e = Inr (Some (case src of None \<Rightarrow> JInt i | Some s \<Rightarrow> s))"
    using ef(1,3) source_again [OF shape(3) [THEN trans]]
    by (cases src) (simp_all add: source_trial_id_def normalize_source_trial_id_def)
  define common' where "common' = (''trial_id'', JInt j) # tl common"
  have again: "normalize_common_observation_fields t e ''heartbeat_meta'' j now = Inr common'"
    unfolding common'_def by (rule common_again(1) [OF shape(4,1)]) (rule ef(2))
  have common': "map_of common' k = map_of common k" if "k \<noteq> ''trial_id''" for k
    using common_again(2,3) [OF shape(4,1) HOL.refl] that by (cases common) (auto simp: common'_def)
  have "map_of obs ''params'' = Some (JObj ps)" using bare by (simp add: obs map_add_def)
  with params_again [OF shape(5,6) assms(3)] port obtain ps' where
    ps': "normalize_param_payload t (jget e ''params'') (im_params m) False = Inr ps'" "map_of ps' = map_of ps"
    using ef(4) by (auto simp: portable_def)
  have objs': "normalize_objective_payload (jget e ''objectives'') (im_objective m) (str_of (jget common' ''status'')) = Inr objs"
    using objectives_again [OF shape(7)] jget_cong [OF common', of "''status''"] ef(5) by simp
  have none: "map_of common' k = None" if "k \<in> set measurement_fields" for k
    using unmeasured(1) [OF that] common' [of k] that by (auto simp: measurement_fields_def)
  define obs' where "obs' = common' @ [(''params'', JObj ps'), (''objectives'', JObj objs)]"
  have "plain_settings (m\<lparr>im_at := now\<rparr>)" and v: "(ax_contract_version (im_objective m) = 2) = False"
    using assms(2) by (simp_all add: plain_settings_def)
  from finish_again [OF this(1) ps'(1) objs' _ none] have "finish_import (m\<lparr>im_at := now\<rparr>) s common'
      (normalize_param_payload t (jget e ''params'') (im_params m) False)
      (normalize_objective_payload (jget e ''objectives'') (im_objective m) (str_of (jget common' ''status'')))
      (Inr (copy_keys measurement_fields e)) = Inr (s, obs')" for s
    using copy_keys_none [of measurement_fields e] unmeasured(2) by (simp add: obs'_def)
  then have imp: "normalize_import_record t (m\<lparr>im_at := now\<rparr>) Jsonl (JObj e) j = Inr (Some (case src of None \<Rightarrow> JInt i | Some s \<Rightarrow> s), obs')"
    using j source again v ef(6)
    by (simp add: normalize_import_record_def require_trial_id_def require_object_def normalize_jsonl_record_def)
  have keys: "map_of obs' k = map_of obs k" if "k \<noteq> ''trial_id''" "k \<noteq> ''params''" for k
    using that common' by (simp add: obs'_def obs map_add_def split: option.splits)
  have ids: "map_of obs' ''trial_id'' = Some (JInt j)" "map_of obs' ''params'' = Some (JObj ps')" "map_of obs ''params'' = Some (JObj ps)"
    using common' [of "''params''"] bare by (simp_all add: obs'_def obs common'_def map_add_def split: option.splits)
  show ?thesis
    using export imp keys ids ps'(2)
    by (intro exI [of _ e] exI [of _ obs'] exI [of _ ps] exI [of _ ps'] conjI) simp_all
qed

theorem export_import_roundtrip_witness:
  "\<exists>e obs'. export_observation_json_record (imported_observation (Some (JInt 40), imported_ok)) = Inr e \<and>
     normalize_import_record plain_text (import_demo\<lparr>im_at := Fin 20\<rparr>) Jsonl (JObj e) 3 = Inr (Some (JInt 40), obs') \<and>
     map_of obs' ''completed_at'' = Some (JFloat (Fin 9))"
proof -
  have row: "normalize_import_record plain_text import_demo Jsonl (JObj import_ok) 7 = Inr (Some (JInt 40), imported_ok)" by code_simp
  have plain: "plain_settings import_demo" by code_simp
  have "portable (im_params import_demo) [(''tuned'', JBool True)]" "map_of imported_ok ''params'' = Some (JObj [(''tuned'', JBool True)])"
    "map_of imported_ok ''completed_at'' = Some (JFloat (Fin 9))"
    by code_simp+
  with export_import_roundtrip [OF row plain import_demo_wf, of 3 "Fin 20"] show ?thesis by simp fastforce
qed

end
