(* ===== verification/FileTree.thy ===== *)
theory FileTree
  imports Prelude RuntimeCfg "HOL-Library.Sublist"
begin

text \<open>
  The part of the file system the archive commands work on: a tree of files and directories
  without symbolic links, and the operations of \<open>pathlib\<close> and \<open>shutil\<close> on it. Any operation
  that writes may fail; then it may leave anything at the path it works on. What an operation
  did is observed through the view of the tree, which says what each path is.
\<close>

subsection \<open>Trees\<close>

text \<open>An absolute path is the list of its components; \<open>/\<close> is the empty list.\<close>

type_synonym path = "string list"

datatype node = RegFile string | Folder "(string, node) dict"

fun node_at :: "node \<Rightarrow> path \<Rightarrow> node option" where
  "node_at n [] = Some n"
| "node_at (RegFile _) (c # p) = None"
| "node_at (Folder es) (c # p) = (case map_of es c of None \<Rightarrow> None | Some n \<Rightarrow> node_at n p)"

datatype kind = IsFile string | IsFolder

fun kind_of :: "node \<Rightarrow> kind" where
  "kind_of (RegFile s) = IsFile s"
| "kind_of (Folder _) = IsFolder"

definition view :: "node \<Rightarrow> path \<Rightarrow> kind option" where
  "view n p = map_option kind_of (node_at n p)"

definition path_exists :: "node \<Rightarrow> path \<Rightarrow> bool" where
  "path_exists n p = (node_at n p \<noteq> None)"

definition is_folder :: "node \<Rightarrow> path \<Rightarrow> bool" where
  "is_folder n p = (view n p = Some IsFolder)"

text \<open>The names in a directory are distinct.\<close>

fun distinct_names :: "node \<Rightarrow> bool" where
  "distinct_names (RegFile _) = True"
| "distinct_names (Folder es) = (distinct (map fst es) \<and> list_all (\<lambda>e. distinct_names (snd e)) es)"

text \<open>The tree with \<open>m\<close> at a path, its parents created; \<open>None\<close> when a parent is a file.\<close>

fun graft :: "path \<Rightarrow> node \<Rightarrow> node \<Rightarrow> node option" where
  "graft [] m n = Some m"
| "graft (c # p) m (RegFile _) = None"
| "graft (c # p) m (Folder es) =
     (case graft p m (case map_of es c of None \<Rightarrow> Folder [] | Some x \<Rightarrow> x) of
        None \<Rightarrow> None | Some x \<Rightarrow> Some (Folder (dset c x es)))"

text \<open>The tree without what is at a path.\<close>

fun cut :: "path \<Rightarrow> node \<Rightarrow> node" where
  "cut [] n = n"
| "cut (c # p) (RegFile s) = RegFile s"
| "cut (c # p) (Folder es) = (if p = [] then Folder (dpop c es)
     else case map_of es c of None \<Rightarrow> Folder es | Some x \<Rightarrow> Folder (dset c (cut p x) es))"

text \<open>
  \<open>shutil.copy2\<close> and \<open>shutil.copytree(..., dirs_exist_ok=True)\<close> of a node with a given name onto
  what is at the destination: a file copied onto a directory goes into it, a directory onto
  a directory is merged, and what cannot be copied is skipped and reported at the end.
\<close>

function copy_over :: "string \<Rightarrow> node \<Rightarrow> node option \<Rightarrow> node \<times> bool"
  and copy_entries :: "(string, node) dict \<Rightarrow> (string, node) dict \<Rightarrow> node \<times> bool" where
  "copy_over name (RegFile s) dst = (case dst of
     Some (Folder es) \<Rightarrow> (case map_of es name of
       Some (Folder _) \<Rightarrow> (Folder es, False)
     | _ \<Rightarrow> (Folder (dset name (RegFile s) es), True))
   | _ \<Rightarrow> (RegFile s, True))"
| "copy_over name (Folder es) dst = (case dst of
     None \<Rightarrow> copy_entries es []
   | Some (Folder ds) \<Rightarrow> copy_entries es ds
   | Some (RegFile s) \<Rightarrow> (RegFile s, False))"
| "copy_entries [] ds = (Folder ds, True)"
| "copy_entries ((c, m) # es) ds =
     (case copy_over c m (map_of ds c) of (x, ok) \<Rightarrow>
      case copy_entries es (dset c x ds) of (n, ok') \<Rightarrow> (n, ok \<and> ok'))"
  by pat_completeness auto
termination
  by (relation "measure (case_sum (\<lambda>(_, m, _). size m) (\<lambda>(es, _). size_list (size_prod (\<lambda>_. 0) size) es))") auto

subsection \<open>Operations that may fail\<close>

text \<open>
  The writing operations are numbered; \<open>f k = Some r\<close> says that number \<open>k\<close> raises \<open>OSError\<close> and
  leaves \<open>r\<close> at its path (\<open>None\<close>: nothing is there).
\<close>

record disk =
  d_root :: node
  d_tick :: nat

type_synonym faults = "nat \<Rightarrow> node option option"
type_synonym 'a fs = "disk \<Rightarrow> 'a res \<times> disk"

definition retF :: "'a \<Rightarrow> 'a fs" where
  "retF x d = (Inr x, d)"

definition liftF :: "'a res \<Rightarrow> 'a fs" where
  "liftF r d = (r, d)"

definition bindF :: "'a fs \<Rightarrow> ('a \<Rightarrow> 'b fs) \<Rightarrow> 'b fs" where
  "bindF m k d = (case m d of (Inl e, d') \<Rightarrow> (Inl e, d') | (Inr x, d') \<Rightarrow> k x d')"

definition thenF :: "unit fs \<Rightarrow> 'b fs \<Rightarrow> 'b fs" where
  "thenF m k = bindF m (\<lambda>_. k)"

definition getF :: "(node \<Rightarrow> 'a) \<Rightarrow> 'a fs" where
  "getF g d = (Inr (g (d_root d)), d)"

fun forF :: "('a \<Rightarrow> unit fs) \<Rightarrow> 'a list \<Rightarrow> unit fs" where
  "forF g [] = retF ()"
| "forF g (x # xs) = thenF (g x) (forF g xs)"

text \<open>\<open>try: m except Exception: h; raise finally: c\<close>\<close>

definition guardedF :: "'a fs \<Rightarrow> unit fs \<Rightarrow> unit fs \<Rightarrow> 'a fs" where
  "guardedF m h c d = (case (case m d of
       (Inr x, d1) \<Rightarrow> (Inr x, d1)
     | (Inl e, d1) \<Rightarrow> (case h d1 of (Inl e', d2) \<Rightarrow> (Inl e', d2) | (Inr _, d2) \<Rightarrow> (Inl e, d2))) of
     (r, d3) \<Rightarrow> (case c d3 of (Inl e, d4) \<Rightarrow> (Inl e, d4) | (Inr _, d4) \<Rightarrow> (r, d4)))"

definition leave :: "path \<Rightarrow> node option \<Rightarrow> node \<Rightarrow> node" where
  "leave p r n = (case r of None \<Rightarrow> cut p n
     | Some m \<Rightarrow> (case graft p m n of None \<Rightarrow> n | Some n' \<Rightarrow> n'))"

definition attempt :: "faults \<Rightarrow> path \<Rightarrow> (node \<Rightarrow> unit res \<times> node) \<Rightarrow> unit fs" where
  "attempt f p g d = (case f (d_tick d) of
     Some r \<Rightarrow> (Inl (OSError ''''), \<lparr>d_root = leave p r (d_root d), d_tick = Suc (d_tick d)\<rparr>)
   | None \<Rightarrow> (case g (d_root d) of (r, n) \<Rightarrow> (r, \<lparr>d_root = n, d_tick = Suc (d_tick d)\<rparr>)))"

text \<open>\<open>p.mkdir(parents=True, exist_ok=True)\<close>\<close>

definition make_folders :: "path \<Rightarrow> node \<Rightarrow> unit res \<times> node" where
  "make_folders p n = (case node_at n p of
     Some (Folder _) \<Rightarrow> (Inr (), n)
   | Some (RegFile _) \<Rightarrow> (Inl (OSError ''exists''), n)
   | None \<Rightarrow> (case graft p (Folder []) n of None \<Rightarrow> (Inl (OSError ''not a directory''), n) | Some n' \<Rightarrow> (Inr (), n')))"

text \<open>
  Reading through a path as the system does: \<open>..\<close> goes up, and every component passed must be
  a directory. (Only paths named by a manifest can hold \<open>..\<close>.)
\<close>

fun walk :: "node \<Rightarrow> path \<Rightarrow> path \<Rightarrow> path option" where
  "walk n acc [] = Some acc"
| "walk n acc (c # p) =
     (if \<not> is_folder n acc then None
      else if c = ''..'' then walk n (butlast acc) p else walk n (acc @ [c]) p)"

definition resolve_at :: "node \<Rightarrow> path \<Rightarrow> node option" where
  "resolve_at n p = (case walk n [] p of None \<Rightarrow> None | Some q \<Rightarrow> node_at n q)"

definition base_name :: "path \<Rightarrow> string" where
  "base_name p = (if p = [] then '''' else last p)"

text \<open>
  Copying a path, a directory with all it holds. A source that contains its own destination is
  copied as it was before.
\<close>

definition copy_node :: "path \<Rightarrow> path \<Rightarrow> node \<Rightarrow> unit res \<times> node" where
  "copy_node src dst n = (case resolve_at n src of
     None \<Rightarrow> (Inl (FileNotFoundError ''''), snd (make_folders (butlast dst) n))
   | Some m \<Rightarrow> (case copy_over (base_name src) m (node_at n dst) of (x, ok) \<Rightarrow>
       (case graft dst x n of
          None \<Rightarrow> (Inl (OSError ''not a directory''), n)
        | Some n' \<Rightarrow> (if ok then Inr () else Inl (OSError ''copytree''), n'))))"

definition write_text :: "path \<Rightarrow> string \<Rightarrow> node \<Rightarrow> unit res \<times> node" where
  "write_text p s n = (if is_folder n p then (Inl (OSError ''is a directory''), n)
     else if \<not> is_folder n (butlast p) then (Inl (FileNotFoundError ''''), n)
     else case graft p (RegFile s) n of None \<Rightarrow> (Inl (OSError ''not a directory''), n) | Some n' \<Rightarrow> (Inr (), n'))"

subsection \<open>Views\<close>

lemma view_Nil [simp]: "view n [] = Some (kind_of n)"
  by (simp add: view_def)

lemma view_Cons [simp]:
  "view (RegFile s) (c # p) = None"
  "view (Folder es) (c # p) = (case map_of es c of None \<Rightarrow> None | Some n \<Rightarrow> view n p)"
  by (simp_all add: view_def split: option.splits)

lemma view_empty [simp]: "view (Folder []) p = (if p = [] then Some IsFolder else None)"
  by (cases p) simp_all

lemma node_at_append: "node_at n (p @ q) = Option.bind (node_at n p) (\<lambda>m. node_at m q)"
  by (induction n p rule: node_at.induct) (auto split: option.splits)

lemma view_append: "node_at n p = Some m \<Longrightarrow> view n (p @ q) = view m q"
  by (simp add: view_def node_at_append)

lemma view_None_iff: "view n p = None \<longleftrightarrow> node_at n p = None"
  by (simp add: view_def)

lemma path_exists_view: "path_exists n p \<longleftrightarrow> view n p \<noteq> None"
  by (simp add: path_exists_def view_def)

lemma view_below: "view n p = None \<Longrightarrow> view n (p @ q) = None"
  by (simp add: view_def node_at_append)

lemma view_below': "view n p = None \<Longrightarrow> prefix p q \<Longrightarrow> view n q = None"
  by (auto elim: prefixE simp: view_below)

lemma view_file_below: "view n p = Some (IsFile s) \<Longrightarrow> q \<noteq> [] \<Longrightarrow> view n (p @ q) = None"
  by (cases q) (auto simp: view_def node_at_append elim: kind_of.elims)

lemma view_above: "view n p \<noteq> None \<Longrightarrow> strict_prefix q p \<Longrightarrow> view n q = Some IsFolder"
proof -
  assume "view n p \<noteq> None" "strict_prefix q p"
  then obtain r where "p = q @ r" "r \<noteq> []" by (auto elim: strict_prefixE')
  with \<open>view n p \<noteq> None\<close> view_below [of n q r] view_file_below [of n q _ r]
  show ?thesis by (metis kind.exhaust not_Some_eq)
qed

text \<open>Trees that give the same views hold the same; only the order of their listings differs.\<close>

lemma view_graft:
  "graft p m n = Some n' \<Longrightarrow> view n' q =
     (if prefix p q then view m (drop (length p) q) else if prefix q p then Some IsFolder else view n q)"
proof (induction p m n arbitrary: n' q rule: graft.induct)
  case (3 c p m es)
  then obtain x where x: "graft p m (case map_of es c of None \<Rightarrow> Folder [] | Some y \<Rightarrow> y) = Some x"
    and n': "n' = Folder (dset c x es)" by (auto split: option.splits)
  show ?case
  proof (cases q)
    case Nil
    then show ?thesis by (simp add: n')
  next
    case (Cons d q')
    from "3.IH" [OF x, of q'] show ?thesis
      by (auto simp: Cons n' split: option.splits)
  qed
qed auto

lemma view_cut: "p \<noteq> [] \<Longrightarrow> view (cut p n) q = (if prefix p q then None else view n q)"
proof (induction p n arbitrary: q rule: cut.induct)
  case (3 c p es)
  show ?case
  proof (cases q)
    case Nil
    then show ?thesis by (auto split: option.splits)
  next
    case (Cons d q')
    with "3.IH" show ?thesis by (auto split: option.splits)
  qed
qed (auto simp: prefix_def)

lemma graft_parents: "graft p m n \<noteq> None \<longleftrightarrow> (\<forall>q. strict_prefix q p \<longrightarrow> view n q = None \<or> view n q = Some IsFolder)"
proof (induction p m n rule: graft.induct)
  case (2 c p m s)
  show ?case by (auto intro!: exI [of _ "[]"])
next
  case (3 c p m es)
  let ?x = "case map_of es c of None \<Rightarrow> Folder [] | Some y \<Rightarrow> y"
  have "graft (c # p) m (Folder es) \<noteq> None \<longleftrightarrow> graft p m ?x \<noteq> None" by (auto split: option.splits)
  also have "\<dots> \<longleftrightarrow> (\<forall>q. strict_prefix q p \<longrightarrow> view ?x q = None \<or> view ?x q = Some IsFolder)" by (rule 3)
  also have "\<dots> \<longleftrightarrow> (\<forall>q. strict_prefix q (c # p) \<longrightarrow> view (Folder es) q = None \<or> view (Folder es) q = Some IsFolder)"
    (is "?L = ?R")
  proof
    assume L: ?L
    show ?R
    proof (intro allI impI)
      fix q assume q: "strict_prefix q (c # p)"
      show "view (Folder es) q = None \<or> view (Folder es) q = Some IsFolder"
      proof (cases q)
        case (Cons d q')
        with q have "d = c" "strict_prefix q' p" by auto
        with L Cons show ?thesis by (fastforce split: option.splits)
      qed simp
    qed
  next
    assume R: ?R
    show ?L
    proof (intro allI impI)
      fix q assume "strict_prefix q p"
      then have "strict_prefix (c # q) (c # p)" by simp
      with R have "view (Folder es) (c # q) = None \<or> view (Folder es) (c # q) = Some IsFolder" by blast
      then show "view ?x q = None \<or> view ?x q = Some IsFolder" by (auto split: option.splits)
    qed
  qed
  finally show ?case .
qed simp

lemma copy_fresh:
  "distinct_names m \<Longrightarrow> copy_over c m None = (m, True)"
  "distinct (map fst (ds @ es)) \<Longrightarrow> list_all (\<lambda>e. distinct_names (snd e)) es \<Longrightarrow> copy_entries es ds = (Folder (ds @ es), True)"
proof (induction c m "None :: node option" and es ds rule: copy_over_copy_entries.induct)
  case (4 c m es ds)
  then have new: "c \<notin> fst ` set ds" by auto
  then have "map_of ds c = None" by (simp add: map_of_eq_None_iff)
  moreover from new have d: "dset c m ds = ds @ [(c, m)]" by (rule dset_new)
  moreover have "copy_over c m None = (m, True)" using 4 calculation by simp
  moreover have "copy_entries es (dset c m ds) = (Folder (ds @ (c, m) # es), True)"
    using 4 calculation by (auto simp: d)
  ultimately show ?case by simp
qed auto

lemma distinct_names_node_at: "distinct_names n \<Longrightarrow> node_at n p = Some m \<Longrightarrow> distinct_names m"
proof (induction n p arbitrary: m rule: node_at.induct)
  case (3 es c p)
  then obtain x where x: "map_of es c = Some x" "node_at x p = Some m" by (auto split: option.splits)
  from map_of_SomeD [OF x(1)] "3.prems"(1) have "distinct_names x" by (fastforce simp: list_all_iff)
  with x "3.IH" show ?case by simp
qed auto

subsection \<open>Paths apart\<close>

text \<open>Neither path is at or below the other.\<close>

definition apart :: "path \<Rightarrow> path \<Rightarrow> bool" where
  "apart p q = (\<not> prefix p q \<and> \<not> prefix q p)"

lemma apart_sym: "apart p q \<Longrightarrow> apart q p"
  by (simp add: apart_def)

lemma apart_Cons [simp]: "apart (c # p) (d # q) \<longleftrightarrow> c \<noteq> d \<or> apart p q"
  by (auto simp: apart_def)

lemma apart_Nil [simp]: "\<not> apart [] q" "\<not> apart q []"
  by (simp_all add: apart_def)

lemma apart_append: "apart p q \<Longrightarrow> apart (p @ r) (q @ s)"
  by (auto simp: apart_def dest: append_prefixD) (metis append_prefixD prefix_same_cases prefixI)+

lemma apart_same [simp]: "apart (b @ p) (b @ q) \<longleftrightarrow> apart p q"
  by (simp add: apart_def)

lemma node_at_graft_self: "graft p m n = Some n' \<Longrightarrow> node_at n' (p @ q) = node_at m q"
  by (induction p m n arbitrary: n' rule: graft.induct) (auto split: option.splits)

lemma node_at_graft_apart: "graft p m n = Some n' \<Longrightarrow> apart p q \<Longrightarrow> node_at n' q = node_at n q"
proof (induction p m n arbitrary: n' q rule: graft.induct)
  case (3 c p m es)
  then obtain x where x: "graft p m (case map_of es c of None \<Rightarrow> Folder [] | Some y \<Rightarrow> y) = Some x"
    and n': "n' = Folder (dset c x es)" by (auto split: option.splits)
  obtain d q' where q: "q = d # q'" using "3.prems" by (cases q) auto
  show ?case
  proof (cases "d = c")
    case True
    with q "3.prems" have a: "apart p q'" by simp
    then have "q' \<noteq> []" by auto
    with "3.IH" [OF x a] show ?thesis
      by (cases q') (auto simp: q True n' split: option.splits)
  next
    case False
    then show ?thesis by (simp add: q n')
  qed
qed auto

lemma node_at_cut_apart: "apart p q \<Longrightarrow> node_at (cut p n) q = node_at n q"
proof (induction p n arbitrary: q rule: cut.induct)
  case (3 c p es)
  obtain d q' where q: "q = d # q'" using "3.prems" by (cases q) auto
  with 3 show ?case by (auto split: option.splits)
qed auto

lemma node_at_cut: "p \<noteq> [] \<Longrightarrow> prefix p q \<Longrightarrow> node_at (cut p n) q = None"
  by (simp add: view_cut flip: view_None_iff)

subsection \<open>Frames\<close>

text \<open>
  What an operation on the paths \<open>ps\<close> leaves alone: nothing apart from them changes, and above
  them directories may have been created, nothing else.
\<close>

definition frame :: "path list \<Rightarrow> node \<Rightarrow> node \<Rightarrow> bool" where
  "frame ps n n' = ((\<forall>q. (\<forall>p\<in>set ps. apart p q) \<longrightarrow> node_at n' q = node_at n q) \<and>
     (\<forall>q. (\<exists>p\<in>set ps. strict_prefix q p) \<longrightarrow> (\<forall>p\<in>set ps. \<not> prefix p q) \<longrightarrow>
        view n' q = view n q \<or> view n q = None \<and> view n' q = Some IsFolder))"

lemma frame_refl [simp]: "frame ps n n"
  by (simp add: frame_def)

lemma frame_trans: "frame ps n n' \<Longrightarrow> frame ps n' n'' \<Longrightarrow> frame ps n n''"
  unfolding frame_def by (metis option.distinct(1))

lemma frame_apart: "frame ps n n' \<Longrightarrow> (\<And>p. p \<in> set ps \<Longrightarrow> apart p q) \<Longrightarrow> node_at n' q = node_at n q"
  by (simp add: frame_def)

lemma frame_outside:
  assumes "frame ps n n'" "\<And>p. p \<in> set ps \<Longrightarrow> \<not> prefix p q"
  shows "view n' q = view n q \<or> view n q = None \<and> view n' q = Some IsFolder"
proof (cases "\<exists>p\<in>set ps. strict_prefix q p")
  case True
  with assms show ?thesis by (simp add: frame_def)
next
  case False
  with assms(2) have "\<forall>p\<in>set ps. apart p q" by (auto simp: apart_def strict_prefix_def)
  with assms(1) show ?thesis by (simp add: frame_def view_def)
qed

lemma frame_mono:
  assumes "frame ps n n'" "set ps \<subseteq> set ps'"
  shows "frame ps' n n'"
  unfolding frame_def
proof (intro conjI allI impI)
  fix q assume "\<forall>p\<in>set ps'. apart p q"
  with assms(2) have "p \<in> set ps \<Longrightarrow> apart p q" for p by blast
  with assms(1) show "node_at n' q = node_at n q" by (rule frame_apart)
next
  fix q assume "\<forall>p\<in>set ps'. \<not> prefix p q"
  with assms show "view n' q = view n q \<or> view n q = None \<and> view n' q = Some IsFolder"
    by (intro frame_outside [of ps]) auto
qed

text \<open>Directories outside the paths stay directories.\<close>

lemma frame_folder: "frame ps n n' \<Longrightarrow> is_folder n q \<Longrightarrow> (\<And>p. p \<in> set ps \<Longrightarrow> \<not> prefix p q) \<Longrightarrow> is_folder n' q"
  using frame_outside [of ps n n' q] by (auto simp: is_folder_def)

lemma frame_graft: "graft p m n = Some n' \<Longrightarrow> frame [p] n n'"
  using graft_parents [of p m n] by (auto simp: frame_def node_at_graft_apart view_graft strict_prefix_def)

lemma frame_cut: "p \<noteq> [] \<Longrightarrow> frame [p] n (cut p n)"
  by (auto simp: frame_def node_at_cut_apart view_cut)

lemma frame_leave: "p \<noteq> [] \<Longrightarrow> frame [p] n (leave p r n)"
  by (auto simp: leave_def frame_cut frame_graft split: option.splits)

lemma make_folders_frame:
  assumes "p \<noteq> []"
  shows "frame [p] n (snd (make_folders (butlast p) n))"
proof (cases "node_at n (butlast p)")
  case (Some m)
  then show ?thesis by (cases m) (simp_all add: make_folders_def)
next
  case None
  show ?thesis
  proof (cases "graft (butlast p) (Folder []) n")
    case None
    then show ?thesis using \<open>node_at n (butlast p) = None\<close> by (simp add: make_folders_def)
  next
    case (Some n')
    let ?b = "butlast p"
    have p: "p = ?b @ [last p]" using assms by simp
    have "node_at n' q = node_at n q" if q: "apart p q" for q
    proof (cases "prefix ?b q")
      case True
      then obtain r where r: "q = ?b @ r" by (auto elim: prefixE)
      with q p have "r \<noteq> []" by (metis apart_def append_Nil2 prefixI)
      with r node_at_graft_self [OF Some, of r] None show ?thesis
        by (cases r) (simp_all add: node_at_append)
    next
      case False
      moreover have "\<not> prefix q ?b" using q p by (metis apart_def prefix_order.order_trans prefixI)
      ultimately show ?thesis using node_at_graft_apart [OF Some] by (simp add: apart_def)
    qed
    moreover have "view n' q = view n q \<or> view n q = None \<and> view n' q = Some IsFolder"
      if q: "strict_prefix q p" for q
    proof (cases "q = ?b")
      case True
      with node_at_graft_self [OF Some, of "[]"] None show ?thesis by (simp add: view_def)
    next
      case False
      from q p have "prefix q ?b" by (metis prefix_snoc strict_prefix_def)
      with False have "strict_prefix q ?b" by (simp add: strict_prefix_def)
      with frame_graft [OF Some] show ?thesis by (auto simp: frame_def)
    qed
    ultimately show ?thesis using Some None by (auto simp: make_folders_def frame_def)
  qed
qed

lemma frame_copy_node: "dst \<noteq> [] \<Longrightarrow> frame [dst] n (snd (copy_node src dst n))"
  by (auto simp: copy_node_def make_folders_frame frame_graft split: option.splits prod.splits)

text \<open>Paths without \<open>..\<close> are read as they are.\<close>

lemma walk_plain:
  "''..'' \<notin> set p \<Longrightarrow> (case walk n acc p of None \<Rightarrow> None | Some q \<Rightarrow> node_at n q) = node_at n (acc @ p)"
proof (induction p arbitrary: acc)
  case (Cons c p)
  show ?case
  proof (cases "node_at n acc")
    case (Some m)
    with Cons Cons.IH [of "acc @ [c]"] show ?thesis
      by (cases m) (auto simp: is_folder_def view_def node_at_append)
  qed (simp add: is_folder_def view_def node_at_append)
qed simp

lemma resolve_at_plain: "''..'' \<notin> set p \<Longrightarrow> resolve_at n p = node_at n p"
  using walk_plain [of p n "[]"] by (simp add: resolve_at_def)

lemma copy_node_fresh:
  assumes "resolve_at n src = Some m" "distinct_names m" "node_at n dst = None"
  shows "copy_node src dst n = (case graft dst m n of
     None \<Rightarrow> (Inl (OSError ''not a directory''), n) | Some n' \<Rightarrow> (Inr (), n'))"
  using assms by (simp add: copy_node_def copy_fresh split: option.splits)

subsection \<open>What an operation keeps\<close>

text \<open>Whether it returns or raises, it only works on the paths \<open>ps\<close>.\<close>

definition keeps :: "path list \<Rightarrow> 'a fs \<Rightarrow> bool" where
  "keeps ps m = (\<forall>d. frame ps (d_root d) (d_root (snd (m d))) \<and> d_tick d \<le> d_tick (snd (m d)))"

named_theorems keeps_intros

lemma keepsD: "keeps ps m \<Longrightarrow> m d = (r, d') \<Longrightarrow> frame ps (d_root d) (d_root d') \<and> d_tick d \<le> d_tick d'"
  by (metis keeps_def snd_conv)

lemma keeps_quiet [keeps_intros]: "keeps ps (retF x)" "keeps ps (liftF r)" "keeps ps (getF g)"
  by (simp_all add: keeps_def retF_def liftF_def getF_def)

lemma keeps_bind [keeps_intros]:
  assumes "keeps ps m" "\<And>x. keeps ps (k x)"
  shows "keeps ps (bindF m k)"
  unfolding keeps_def
proof
  fix d
  show "frame ps (d_root d) (d_root (snd (bindF m k d))) \<and> d_tick d \<le> d_tick (snd (bindF m k d))"
  proof (cases "m d")
    case (Pair r d1)
    show ?thesis
    proof (cases r)
      case (Inl e)
      with keepsD [OF assms(1) Pair] Pair show ?thesis by (simp add: bindF_def)
    next
      case (Inr x)
      obtain r' d' where k: "k x d1 = (r', d')" by fastforce
      with keepsD [OF assms(1) Pair] keepsD [OF assms(2) k] Pair Inr show ?thesis
        by (auto simp: bindF_def intro: frame_trans)
    qed
  qed
qed

lemma keeps_then [keeps_intros]: "keeps ps m \<Longrightarrow> keeps ps k \<Longrightarrow> keeps ps (thenF m k)"
  by (simp add: thenF_def keeps_bind)

lemma keeps_for [keeps_intros]: "(\<And>x. x \<in> set xs \<Longrightarrow> keeps ps (g x)) \<Longrightarrow> keeps ps (forF g xs)"
  by (induction xs) (auto intro: keeps_intros)

lemma keeps_if [keeps_intros]: "(b \<Longrightarrow> keeps ps m) \<Longrightarrow> (\<not> b \<Longrightarrow> keeps ps k) \<Longrightarrow> keeps ps (if b then m else k)"
  by simp

lemma keeps_mono: "keeps ps m \<Longrightarrow> set ps \<subseteq> set ps' \<Longrightarrow> keeps ps' m"
  by (auto simp: keeps_def intro: frame_mono)

lemma keeps_guarded:
  assumes "keeps ps m" "keeps ps h" "keeps ps c"
  shows "keeps ps (guardedF m h c)"
  unfolding keeps_def
proof
  fix d
  obtain r1 d1 where 1: "m d = (r1, d1)" by fastforce
  obtain r2 d2 where 2: "h d1 = (r2, d2)" by fastforce
  obtain r3 d3 where 3: "c d1 = (r3, d3)" by fastforce
  obtain r4 d4 where 4: "c d2 = (r4, d4)" by fastforce
  note k = keepsD [OF assms(1) 1] keepsD [OF assms(2) 2] keepsD [OF assms(3) 3] keepsD [OF assms(3) 4]
  have "snd (guardedF m h c d) = (case r1 of Inr _ \<Rightarrow> d3 | Inl _ \<Rightarrow> d4)"
    by (auto simp: guardedF_def 1 2 3 4 split: sum.splits)
  with k show "frame ps (d_root d) (d_root (snd (guardedF m h c d))) \<and> d_tick d \<le> d_tick (snd (guardedF m h c d))"
    by (auto split: sum.splits intro: frame_trans)
qed

lemma keeps_attempt:
  assumes "p \<noteq> []" "\<And>n. frame [p] n (snd (g n))"
  shows "keeps [p] (attempt f p g)"
  using assms by (auto simp: keeps_def attempt_def frame_leave split: option.splits prod.splits)
    (metis snd_conv)

lemma thenF_Inr: "thenF m k d = (Inr x, d') \<longleftrightarrow> (\<exists>d1. m d = (Inr (), d1) \<and> k d1 = (Inr x, d'))"
  by (auto simp: thenF_def bindF_def split: prod.splits sum.splits)

lemma thenF_Inl: "thenF m k d = (Inl e, d') \<longleftrightarrow> m d = (Inl e, d') \<or> (\<exists>d1. m d = (Inr (), d1) \<and> k d1 = (Inl e, d'))"
  by (auto simp: thenF_def bindF_def split: prod.splits sum.splits)

lemma bindF_Inr: "bindF m k d = (Inr x, d') \<longleftrightarrow> (\<exists>y d1. m d = (Inr y, d1) \<and> k y d1 = (Inr x, d'))"
  by (auto simp: bindF_def split: prod.splits sum.splits)

lemma bindF_Inl: "bindF m k d = (Inl e, d') \<longleftrightarrow> m d = (Inl e, d') \<or> (\<exists>y d1. m d = (Inr y, d1) \<and> k y d1 = (Inl e, d'))"
  by (auto simp: bindF_def split: prod.splits sum.splits)

lemma bindF_getF [simp]: "bindF (getF g) k d = k (g (d_root d)) d"
  by (simp add: bindF_def getF_def)

lemma retF_simps [simp]: "thenF (retF ()) k = k" "bindF (retF x) h = h x" "thenF (Pair (Inr ())) k = k" "bindF (Pair (Inr x)) h = h x"
  "retF x d = (Inr x, d)"
  by (auto simp: thenF_def bindF_def retF_def)

subsection \<open>Removing and copying\<close>

text \<open>\<open>_remove_path\<close> and \<open>copy_path_to_archive\<close> of \<open>archives.py\<close>.\<close>

definition remove_path :: "faults \<Rightarrow> path \<Rightarrow> unit fs" where
  "remove_path f p = bindF (getF (\<lambda>n. path_exists n p)) (\<lambda>there.
     if there then attempt f p (\<lambda>n. (Inr (), cut p n)) else retF ())"

definition copy_path_to_archive :: "faults \<Rightarrow> path \<Rightarrow> path \<Rightarrow> unit fs" where
  "copy_path_to_archive f src dst = attempt f dst (copy_node src dst)"

lemma keeps_remove: "p \<noteq> [] \<Longrightarrow> keeps [p] (remove_path f p)"
  unfolding remove_path_def by (intro keeps_intros keeps_attempt) (auto simp: frame_cut)

lemma keeps_copy: "dst \<noteq> [] \<Longrightarrow> keeps [dst] (copy_path_to_archive f src dst)"
  unfolding copy_path_to_archive_def by (intro keeps_attempt frame_copy_node)

text \<open>A fault was met between two points of a run.\<close>

definition fault_met :: "faults \<Rightarrow> disk \<Rightarrow> disk \<Rightarrow> bool" where
  "fault_met f d d' = (\<exists>k. d_tick d \<le> k \<and> k < d_tick d' \<and> f k \<noteq> None)"

lemma fault_met_later: "fault_met f d1 d2 \<Longrightarrow> d_tick d \<le> d_tick d1 \<Longrightarrow> fault_met f d d2"
  "fault_met f d d1 \<Longrightarrow> d_tick d1 \<le> d_tick d2 \<Longrightarrow> fault_met f d d2"
  unfolding fault_met_def by (meson le_trans less_le_trans)+

lemma remove_path_result:
  assumes "remove_path f p d = (r, d')" "p \<noteq> []"
  shows "r = Inr () \<and> node_at (d_root d') p = None \<or> fault_met f d d' \<and> (\<exists>e. r = Inl e)"
  using assms by (auto simp: remove_path_def attempt_def path_exists_def fault_met_def node_at_cut
    split: option.splits if_splits)

lemma copy_result:
  assumes "copy_path_to_archive f src dst d = (r, d')" "dst \<noteq> []" "''..'' \<notin> set src"
    "node_at (d_root d) src = Some m" "distinct_names m" "node_at (d_root d) dst = None"
  shows "r = Inr () \<and> node_at (d_root d') dst = Some m \<or>
    (\<exists>e. r = Inl e) \<and> (fault_met f d d' \<or> graft dst m (d_root d) = None)"
  using assms node_at_graft_self [of dst m "d_root d" _ "[]"]
  by (auto simp: copy_path_to_archive_def attempt_def copy_node_fresh resolve_at_plain fault_met_def
    split: option.splits)

lemma copy_missing:
  assumes "copy_path_to_archive f src dst d = (Inr u, d')" "''..'' \<notin> set src"
  shows "node_at (d_root d) src \<noteq> None"
  using assms by (auto simp: copy_path_to_archive_def attempt_def copy_node_def resolve_at_plain split: option.splits)

text \<open>A path whose parents are directories or absent can be written.\<close>

definition placeable :: "node \<Rightarrow> path \<Rightarrow> bool" where
  "placeable n p = (graft p (Folder []) n \<noteq> None)"

lemma placeable_iff: "placeable n p \<longleftrightarrow> (\<forall>q. strict_prefix q p \<longrightarrow> view n q = None \<or> is_folder n q)"
  using graft_parents [of p "Folder []" n] unfolding placeable_def is_folder_def .

lemma placeable_graft: "placeable n p \<Longrightarrow> graft p m n \<noteq> None"
  using graft_parents by (metis placeable_def)

lemma placeable_frame:
  assumes "placeable n p" "frame ps n n'" "\<And>q. q \<in> set ps \<Longrightarrow> q = p \<or> apart q p"
  shows "placeable n' p"
  unfolding placeable_iff
proof (intro allI impI)
  fix q assume q: "strict_prefix q p"
  have "\<not> prefix r q" if "r \<in> set ps" for r
    using assms(3) [OF that] q by (auto simp: apart_def strict_prefix_def dest: prefix_order.order_trans)
  with frame_outside [OF assms(2)] have "view n' q = view n q \<or> view n' q = Some IsFolder" by blast
  with assms(1) q show "view n' q = None \<or> is_folder n' q" by (auto simp: placeable_iff is_folder_def)
qed

subsection \<open>Loops of copies and removals\<close>

text \<open>Copying into places that are free, none of them near a source or another place.\<close>

definition copyable :: "node \<Rightarrow> ('a \<Rightarrow> path) \<Rightarrow> ('a \<Rightarrow> path) \<Rightarrow> 'a list \<Rightarrow> bool" where
  "copyable n src dst es = (sorted_wrt (\<lambda>a b. apart (dst a) (dst b)) es \<and>
     list_all (\<lambda>a. ''..'' \<notin> set (src a) \<and> dst a \<noteq> [] \<and> node_at n (dst a) = None \<and>
       list_all (\<lambda>b. apart (dst b) (src a)) es \<and>
       (case node_at n (src a) of None \<Rightarrow> True | Some m \<Rightarrow> distinct_names m)) es)"

lemma copyable_step:
  assumes "copyable n src dst (e # es)" "frame [dst e] n n'"
  shows "copyable n' src dst es" "\<And>a. a \<in> set es \<Longrightarrow> node_at n' (src a) = node_at n (src a)"
    "\<And>a. a \<in> set es \<Longrightarrow> apart (dst e) (dst a)"
proof -
  show src: "node_at n' (src a) = node_at n (src a)" if "a \<in> set es" for a
    using assms that by (intro frame_apart [OF assms(2)]) (auto simp: copyable_def list_all_iff)
  show ap: "apart (dst e) (dst a)" if "a \<in> set es" for a
    using assms that by (auto simp: copyable_def)
  have "node_at n' (dst a) = node_at n (dst a)" if "a \<in> set es" for a
    using ap [OF that] by (intro frame_apart [OF assms(2)]) auto
  with assms(1) src show "copyable n' src dst es"
    by (auto simp: copyable_def list_all_iff)
qed

lemma copy_loop:
  assumes "forF (\<lambda>e. copy_path_to_archive f (src e) (dst e)) es d = (Inr (), d')" "copyable (d_root d) src dst es"
  shows "\<forall>e\<in>set es. node_at (d_root d') (dst e) = node_at (d_root d) (src e) \<and> node_at (d_root d) (src e) \<noteq> None"
  using assms
proof (induction es arbitrary: d)
  case (Cons e es)
  from Cons.prems(1) obtain d1 where c: "copy_path_to_archive f (src e) (dst e) d = (Inr (), d1)"
    and rest: "forF (\<lambda>e. copy_path_to_archive f (src e) (dst e)) es d1 = (Inr (), d')" by (auto simp: thenF_Inr)
  from Cons.prems(2) have e: "dst e \<noteq> []" "''..'' \<notin> set (src e)" "node_at (d_root d) (dst e) = None"
    "\<And>m. node_at (d_root d) (src e) = Some m \<Longrightarrow> distinct_names m"
    by (auto simp: copyable_def list_all_iff)
  obtain m where m: "node_at (d_root d) (src e) = Some m" using copy_missing [OF c e(2)] by blast
  from copy_result [OF c e(1,2) m e(4) [OF m] e(3)] have here: "node_at (d_root d1) (dst e) = Some m" by simp
  from keepsD [OF keeps_copy [OF e(1)] c] have fr: "frame [dst e] (d_root d) (d_root d1)" by simp
  note s = copyable_step [OF Cons.prems(2) fr]
  have "keeps (map dst es) (forF (\<lambda>e. copy_path_to_archive f (src e) (dst e)) es)"
    using Cons.prems(2) by (intro keeps_for keeps_mono [OF keeps_copy]) (auto simp: copyable_def list_all_iff)
  from keepsD [OF this rest] have "node_at (d_root d') (dst e) = node_at (d_root d1) (dst e)"
    by (auto intro!: frame_apart apart_sym [OF s(3)])
  with Cons.IH [OF rest s(1)] s(2) here m show ?case by auto
qed simp

lemma copy_loop_fails:
  assumes "forF (\<lambda>e. copy_path_to_archive f (src e) (dst e)) es d = (Inl x, d')" "copyable (d_root d) src dst es"
    "\<And>e. e \<in> set es \<Longrightarrow> node_at (d_root d) (src e) \<noteq> None" "\<And>e. e \<in> set es \<Longrightarrow> placeable (d_root d) (dst e)"
  shows "fault_met f d d'"
  using assms
proof (induction es arbitrary: d)
  case (Cons e es)
  from Cons.prems(2) have e: "dst e \<noteq> []" "''..'' \<notin> set (src e)" "node_at (d_root d) (dst e) = None"
    "\<And>m. node_at (d_root d) (src e) = Some m \<Longrightarrow> distinct_names m"
    by (auto simp: copyable_def list_all_iff)
  from Cons.prems(3) obtain m where m: "node_at (d_root d) (src e) = Some m" by fastforce
  have pl: "graft (dst e) m (d_root d) \<noteq> None" using Cons.prems(4) by (intro placeable_graft) simp
  from Cons.prems(1) consider "copy_path_to_archive f (src e) (dst e) d = (Inl x, d')"
    | d1 where "copy_path_to_archive f (src e) (dst e) d = (Inr (), d1)"
        "forF (\<lambda>e. copy_path_to_archive f (src e) (dst e)) es d1 = (Inl x, d')"
    by (auto simp: thenF_Inl)
  then show ?case
  proof cases
    case 1
    from copy_result [OF this e(1,2) m e(4) [OF m] e(3)] pl show ?thesis by simp
  next
    case 2
    from keepsD [OF keeps_copy [OF e(1)] 2(1)]
    have fr: "frame [dst e] (d_root d) (d_root d1)" and t: "d_tick d \<le> d_tick d1" by simp_all
    note s = copyable_step [OF Cons.prems(2) fr]
    have "placeable (d_root d1) (dst a)" if "a \<in> set es" for a
      using Cons.prems(4) that s(3) by (intro placeable_frame [OF _ fr]) auto
    with Cons.IH [OF 2(2) s(1)] s(2) Cons.prems(3) have "fault_met f d1 d'" by auto
    then show ?thesis using t by (rule fault_met_later)
  qed
qed (simp add: retF_def)

text \<open>Copying what is there is copying the entries that are there.\<close>

lemma copy_present:
  assumes "\<And>a b. a \<in> set es \<Longrightarrow> b \<in> set es \<Longrightarrow> apart (dst b) (src a)" "\<And>a. a \<in> set es \<Longrightarrow> dst a \<noteq> []"
  shows "forF (\<lambda>e. bindF (getF (\<lambda>n. path_exists n (src e))) (\<lambda>there.
      if there then copy_path_to_archive f (src e) (dst e) else retF ())) es d =
    forF (\<lambda>e. copy_path_to_archive f (src e) (dst e)) (filter (\<lambda>e. path_exists (d_root d) (src e)) es) d"
  using assms
proof (induction es arbitrary: d)
  case (Cons e es)
  show ?case
  proof (cases "path_exists (d_root d) (src e)")
    case True
    obtain r d1 where c: "copy_path_to_archive f (src e) (dst e) d = (r, d1)" by fastforce
    from keepsD [OF keeps_copy [OF Cons.prems(2)] c] have fr: "frame [dst e] (d_root d) (d_root d1)" by simp
    have "node_at (d_root d1) (src a) = node_at (d_root d) (src a)" if "a \<in> set es" for a
      using Cons.prems(1) [of a e] that by (intro frame_apart [OF fr]) auto
    then have "filter (\<lambda>e. path_exists (d_root d1) (src e)) es = filter (\<lambda>e. path_exists (d_root d) (src e)) es"
      by (intro filter_cong) (simp_all add: path_exists_def)
    with True Cons show ?thesis by (simp add: thenF_def bindF_def c getF_def split: sum.splits)
  next
    case False
    with Cons show ?thesis by (simp add: thenF_def bindF_def getF_def retF_def)
  qed
qed simp

lemma remove_loop:
  assumes "forF (\<lambda>e. remove_path f (dst e)) es d = (r, d')" "\<And>e. e \<in> set es \<Longrightarrow> dst e \<noteq> []"
    "sorted_wrt (\<lambda>a b. apart (dst a) (dst b)) es"
  shows "r = Inr () \<and> (\<forall>e\<in>set es. node_at (d_root d') (dst e) = None) \<or> fault_met f d d' \<and> (\<exists>x. r = Inl x)"
  using assms
proof (induction es arbitrary: d)
  case (Cons e es)
  obtain r1 d1 where c: "remove_path f (dst e) d = (r1, d1)" by fastforce
  note k = keepsD [OF keeps_remove [OF Cons.prems(2)] c]
  from remove_path_result [OF c Cons.prems(2)]
  have "r1 = Inr () \<and> node_at (d_root d1) (dst e) = None \<or> fault_met f d d1 \<and> (\<exists>x. r1 = Inl x)" by simp
  then show ?case
  proof (elim disjE conjE exE)
    assume r1: "r1 = Inr ()" and gone: "node_at (d_root d1) (dst e) = None"
    with Cons.prems(1) c have rest: "forF (\<lambda>e. remove_path f (dst e)) es d1 = (r, d')"
      by (simp add: thenF_def bindF_def)
    have "keeps (map dst es) (forF (\<lambda>e. remove_path f (dst e)) es)"
      using Cons.prems(2) by (intro keeps_for keeps_mono [OF keeps_remove]) auto
    from keepsD [OF this rest] have "node_at (d_root d') (dst e) = node_at (d_root d1) (dst e)"
      using Cons.prems(3) by (auto intro!: frame_apart apart_sym [of "dst e"])
    with gone Cons.IH [OF rest] Cons.prems(2,3) k show ?thesis by (auto intro: fault_met_later)
  next
    fix x assume "fault_met f d d1" "r1 = Inl x"
    with Cons.prems(1) c show ?thesis by (auto simp: thenF_def bindF_def)
  qed
qed (simp add: retF_def)

lemma frame_widen:
  assumes "frame ps n n'" "\<And>p. p \<in> set ps \<Longrightarrow> \<exists>r\<in>set rs. prefix r p"
  shows "frame rs n n'"
  unfolding frame_def
proof (intro conjI allI impI)
  fix q assume q: "\<forall>r\<in>set rs. apart r q"
  have "apart p q" if p: "p \<in> set ps" for p
  proof -
    from assms(2) [OF p] obtain r where "r \<in> set rs" "prefix r p" by blast
    with q show ?thesis unfolding apart_def by (metis prefix_order.order_trans prefix_same_cases)
  qed
  with assms(1) show "node_at n' q = node_at n q" by (rule frame_apart)
next
  fix q assume q: "\<forall>r\<in>set rs. \<not> prefix r q"
  have "\<not> prefix p q" if p: "p \<in> set ps" for p
    using assms(2) [OF p] q prefix_order.order_trans by blast
  with assms(1) show "view n' q = view n q \<or> view n q = None \<and> view n' q = Some IsFolder" by (rule frame_outside)
qed

lemma keeps_widen: "keeps ps m \<Longrightarrow> (\<And>p. p \<in> set ps \<Longrightarrow> \<exists>r\<in>set rs. prefix r p) \<Longrightarrow> keeps rs m"
  unfolding keeps_def using frame_widen [of ps _ _ rs] by simp

text \<open>The loops work below \<open>rs\<close> when their destinations are.\<close>

lemma keeps_copies:
  "(\<And>e. e \<in> set es \<Longrightarrow> dst e \<noteq> []) \<Longrightarrow> (\<And>e. e \<in> set es \<Longrightarrow> \<exists>r\<in>set rs. prefix r (dst e)) \<Longrightarrow>
   keeps rs (forF (\<lambda>e. copy_path_to_archive f (src e) (dst e)) es)"
  by (intro keeps_for keeps_widen [OF keeps_copy]) auto

lemma keeps_removals:
  "(\<And>e. e \<in> set es \<Longrightarrow> dst e \<noteq> []) \<Longrightarrow> (\<And>e. e \<in> set es \<Longrightarrow> \<exists>r\<in>set rs. prefix r (dst e)) \<Longrightarrow>
   keeps rs (forF (\<lambda>e. remove_path f (dst e)) es)"
  by (intro keeps_for keeps_widen [OF keeps_remove]) auto

end
