(* ===== verification/Archives.thy ===== *)
theory Archives
  imports FileTree Json
begin

text \<open>
  \<open>templates/_shared/archives.py\<close>: the runtime files of a campaign and the archives that
  \<open>reset\<close> makes of them, with their manifests; inspecting, listing, pruning and restoring
  archives; and the part of \<open>cmd_reset\<close> that archives and removes the files. Everything works
  on the file tree; every write may fail.
\<close>

subsection \<open>Paths\<close>

text \<open>The resolved runtime paths of a project.\<close>

record layout =
  l_root :: path
  l_state_file :: path
  l_observations_csv :: path
  l_acquisition_log :: path
  l_event_log :: path
  l_lock_file :: path
  l_report_json :: path
  l_report_md :: path
  l_trials_dir :: path
  l_optimizer_dir :: "path option"

text \<open>Paths as text: \<open>str(p)\<close>, \<open>Path(s)\<close> and \<open>base / s\<close>, where an absolute \<open>s\<close> replaces the base.\<close>

fun join_parts :: "path \<Rightarrow> string" where
  "join_parts [] = ''''"
| "join_parts [c] = c"
| "join_parts (c # p) = c @ CHR ''/'' # join_parts p"

definition path_parts :: "string \<Rightarrow> path" where
  "path_parts s = filter (\<lambda>c. c \<noteq> '''' \<and> c \<noteq> ''.'') (split_on CHR ''/'' s)"

definition path_under :: "path \<Rightarrow> string \<Rightarrow> path" where
  "path_under base s = (if s \<noteq> [] \<and> hd s = CHR ''/'' then path_parts s else base @ path_parts s)"

definition relative_path :: "path \<Rightarrow> path \<Rightarrow> string" where
  "relative_path base p = (if p = base then ''.''
     else if prefix base p then join_parts (drop (length base) p) else CHR ''/'' # join_parts p)"

fun first_of_path :: "path list \<Rightarrow> (string \<times> path) list \<Rightarrow> (string \<times> path) list" where
  "first_of_path seen [] = []"
| "first_of_path seen ((label, p) # cs) =
     (if List.member seen p then first_of_path seen cs else (label, p) # first_of_path (p # seen) cs)"

definition reset_artifact_paths :: "layout \<Rightarrow> (string \<times> path) list" where
  "reset_artifact_paths l = first_of_path []
     [(''state_file'', l_state_file l),
      (''observations_csv'', l_observations_csv l),
      (''acquisition_log_file'', l_acquisition_log l),
      (''event_log_file'', l_event_log l),
      (''lock_file'', l_lock_file l),
      (''report_json_file'', l_report_json l),
      (''report_md_file'', l_report_md l),
      (''trials_dir'', l_trials_dir l),
      (''optimizer_dir'', case l_optimizer_dir l of Some p \<Rightarrow> p | None \<Rightarrow> l_root l @ [''state'', ''optimizer'']),
      (''demo_result_file'', l_root l @ [''examples'', ''_demo_result.json''])]"

definition ignored_label :: "string \<Rightarrow> bool" where
  "ignored_label label = (label = ''lock_file'')"

definition restorable_artifact_paths :: "layout \<Rightarrow> (string \<times> path) list" where
  "restorable_artifact_paths l = filter (\<lambda>(label, _). \<not> ignored_label label) (reset_artifact_paths l)"

definition reset_archives_root :: "layout \<Rightarrow> path" where
  "reset_archives_root l = butlast (l_state_file l) @ [''reset_archives'']"

text \<open>\<open>Path(s).name\<close>\<close>

definition path_name :: "string \<Rightarrow> string" where
  "path_name s = base_name (path_parts s)"

definition resolve_reset_archive :: "layout \<Rightarrow> node \<Rightarrow> string \<Rightarrow> path res" where
  "resolve_reset_archive l n raw = (let i = py_strip raw; arch = reset_archives_root l @ [i] in
     if i = [] then Inl (ValueError ''restore requires --archive-id'')
     else if i \<noteq> path_name i \<or> i = ''.'' \<or> i = ''..'' then Inl (ValueError ''--archive-id must be a simple directory name'')
     else if \<not> is_folder n arch then Inl (ValueError ''archive_id not found'')
     else Inr arch)"

subsection \<open>Manifests\<close>

record archive_item =
  it_label :: string
  it_source :: string
  it_archive :: string
  it_type :: string

definition entry_path_type :: "node \<Rightarrow> path \<Rightarrow> string" where
  "entry_path_type n p = (if is_folder n p then ''directory'' else ''file'')"

definition item_json :: "archive_item \<Rightarrow> json" where
  "item_json it = JObj [(''label'', JStr (it_label it)), (''source_rel'', JStr (it_source it)),
     (''archive_rel'', JStr (it_archive it)), (''path_type'', JStr (it_type it))]"

definition archived_item :: "layout \<Rightarrow> node \<Rightarrow> string \<times> path \<Rightarrow> archive_item" where
  "archived_item l n = (\<lambda>(label, p). \<lparr>it_label = label, it_source = relative_path (l_root l) p,
     it_archive = relative_path (l_root l) p, it_type = entry_path_type n p\<rparr>)"

definition build_reset_archive_manifest :: "layout \<Rightarrow> node \<Rightarrow> path \<Rightarrow> (string \<times> path) list \<Rightarrow> pyfloat \<Rightarrow> jdict res" where
  "build_reset_archive_manifest l n arch archived created =
     (if \<not> is_finite created then Inl (ValueError ''created_at must be finite'')
      else Inr [(''manifest_version'', JInt 1), (''archive_type'', JStr ''reset''),
        (''archive_id'', JStr (base_name arch)), (''created_at'', JFloat created),
        (''source_root'', JStr (CHR ''/'' # join_parts (l_root l))),
        (''entries'', JArr (map (\<lambda>a. item_json (archived_item l n a)) archived))])"

definition manifest_path :: "path \<Rightarrow> path" where
  "manifest_path arch = arch @ [''archive_manifest.json'']"

definition write_archive_manifest :: "faults \<Rightarrow> (jdict \<Rightarrow> string) \<Rightarrow> path \<Rightarrow> jdict \<Rightarrow> unit fs" where
  "write_archive_manifest f dumps arch m =
     attempt f (manifest_path arch) (write_text (manifest_path arch) (dumps m @ [CHR 0x0A]))"

subsection \<open>Inspection\<close>

datatype integrity = Intact | LegacyArchive | InvalidManifest | MissingFiles

fun integrity_text :: "integrity \<Rightarrow> string" where
  "integrity_text Intact = ''ok''"
| "integrity_text LegacyArchive = ''legacy''"
| "integrity_text InvalidManifest = ''invalid_manifest''"
| "integrity_text MissingFiles = ''missing_files''"

record inspection =
  in_version :: "int option"
  in_id :: string
  in_created :: "pyfloat option"
  in_source_root :: "string option"
  in_entries :: "archive_item list"
  in_present :: bool
  in_legacy :: bool
  in_status :: integrity
  in_errors :: "string list"

definition inspect_legacy_reset_archive :: "layout \<Rightarrow> node \<Rightarrow> path \<Rightarrow> inspection" where
  "inspect_legacy_reset_archive l n arch =
     \<lparr>in_version = None, in_id = base_name arch, in_created = None, in_source_root = None,
      in_entries = map (\<lambda>(label, p). let rel = relative_path (l_root l) p in
           \<lparr>it_label = label, it_source = rel, it_archive = rel, it_type = entry_path_type n (path_under arch rel)\<rparr>)
         (filter (\<lambda>(_, p). path_exists n (path_under arch (relative_path (l_root l) p))) (reset_artifact_paths l)),
      in_present = False, in_legacy = True, in_status = LegacyArchive, in_errors = []\<rparr>"

definition string_field :: "jdict \<Rightarrow> string \<Rightarrow> string res" where
  "string_field d k = (case jget d k of
     JStr s \<Rightarrow> if s = [] then Inl (ValueError k) else Inr s | _ \<Rightarrow> Inl (ValueError k))"

text \<open>\<open>path_type not in {...}\<close> hashes the value, so a list or an object raises \<open>TypeError\<close>.\<close>

definition normalize_manifest_entry :: "json \<Rightarrow> archive_item res" where
  "normalize_manifest_entry e = (case e of
     JObj d \<Rightarrow>
       bindE (string_field d ''label'') (\<lambda>label.
       bindE (string_field d ''source_rel'') (\<lambda>src.
       bindE (string_field d ''archive_rel'') (\<lambda>arch.
       case jget d ''path_type'' of
         JArr _ \<Rightarrow> Inl (TypeError ''unhashable type'')
       | JObj _ \<Rightarrow> Inl (TypeError ''unhashable type'')
       | JStr t \<Rightarrow> if t = ''file'' \<or> t = ''directory''
           then Inr \<lparr>it_label = label, it_source = src, it_archive = arch, it_type = t\<rparr>
           else Inl (ValueError ''path_type'')
       | _ \<Rightarrow> Inl (ValueError ''path_type''))))
   | _ \<Rightarrow> Inl (ValueError ''archive manifest entry must be an object''))"

definition read_manifest :: "(string \<Rightarrow> json option) \<Rightarrow> string \<Rightarrow> node option \<Rightarrow> (pyfloat \<times> string \<times> archive_item list) res" where
  "read_manifest loads name m = (case m of
     Some (RegFile text) \<Rightarrow> (case loads text of
       None \<Rightarrow> Inl (ValueError ''JSONDecodeError'')
     | Some (JObj d) \<Rightarrow>
         if \<not> py_eq (jget d ''manifest_version'') (JInt 1) then Inl (ValueError ''manifest_version'')
         else if \<not> py_eq (jget d ''archive_type'') (JStr ''reset'') then Inl (ValueError ''archive_type'')
         else bindE (string_field d ''archive_id'') (\<lambda>i.
           if i \<noteq> name then Inl (ValueError ''archive_id'')
           else if \<not> strict_num (jget d ''created_at'') then Inl (ValueError ''created_at must be numeric'')
           else bindE (py_float (jget d ''created_at'')) (\<lambda>created.
             if \<not> is_finite created then Inl (ValueError ''created_at must be finite'')
             else bindE (string_field d ''source_root'') (\<lambda>src.
             case jget d ''entries'' of
               JArr es \<Rightarrow> bindE (mapE normalize_manifest_entry es) (\<lambda>items. Inr (created, src, items))
             | _ \<Rightarrow> Inl (ValueError ''entries must be a list''))))
     | Some _ \<Rightarrow> Inl (ValueError ''archive manifest root must be an object''))
   | _ \<Rightarrow> Inl (OSError ''is a directory''))"

fun is_manifest_error :: "exn \<Rightarrow> bool" where
  "is_manifest_error (OSError _) = True"
| "is_manifest_error (FileNotFoundError _) = True"
| "is_manifest_error e = is_value_error e"

fun exn_text :: "exn \<Rightarrow> string" where
  "exn_text (ValueError s) = s"
| "exn_text (OSError s) = s"
| "exn_text _ = ''''"

definition missing_items :: "node \<Rightarrow> path \<Rightarrow> archive_item list \<Rightarrow> archive_item list" where
  "missing_items n arch items = filter (\<lambda>it. resolve_at n (path_under arch (it_archive it)) = None) items"

definition missing_text :: "archive_item \<Rightarrow> string" where
  "missing_text it = ''missing archived path for '' @ it_label it @ '': '' @ it_archive it"

definition inspect_reset_archive :: "(string \<Rightarrow> json option) \<Rightarrow> layout \<Rightarrow> node \<Rightarrow> path \<Rightarrow> inspection res" where
  "inspect_reset_archive loads l n arch =
     (if \<not> path_exists n (manifest_path arch) then Inr (inspect_legacy_reset_archive l n arch)
      else case read_manifest loads (base_name arch) (node_at n (manifest_path arch)) of
        Inl e \<Rightarrow> if is_manifest_error e
          then Inr \<lparr>in_version = None, in_id = base_name arch, in_created = None, in_source_root = None,
             in_entries = [], in_present = True, in_legacy = False, in_status = InvalidManifest, in_errors = [exn_text e]\<rparr>
          else Inl e
      | Inr (created, src, items) \<Rightarrow>
          Inr \<lparr>in_version = Some 1, in_id = base_name arch, in_created = Some created, in_source_root = Some src,
             in_entries = items, in_present = True, in_legacy = False,
             in_status = (if missing_items n arch items = [] then Intact else MissingFiles),
             in_errors = map missing_text (missing_items n arch items)\<rparr>)"

subsection \<open>Listing\<close>

record entries_summary =
  es_entry_count :: nat
  es_file_count :: nat
  es_directory_count :: nat
  es_preview :: "string list"
  es_remaining :: nat

definition summarize_archive_entries :: "archive_item list \<Rightarrow> nat \<Rightarrow> entries_summary" where
  "summarize_archive_entries items limit =
     (let inventory = sort_by str_less (filter (\<lambda>s. s \<noteq> []) (map it_source items)) in
      \<lparr>es_entry_count = length inventory,
       es_file_count = length (filter (\<lambda>it. it_type it = ''file'') items),
       es_directory_count = length (filter (\<lambda>it. it_type it = ''directory'') items),
       es_preview = take limit inventory,
       es_remaining = length inventory - length (take limit inventory)\<rparr>)"

record listed_archive =
  la_inspection :: inspection
  la_rel :: string
  la_summary :: entries_summary

definition archive_created_at_seconds :: "inspection \<Rightarrow> pyfloat option" where
  "archive_created_at_seconds a = (case in_created a of
     Some t \<Rightarrow> if is_finite t then Some t else None | None \<Rightarrow> None)"

definition archive_sort_key :: "listed_archive \<Rightarrow> pyfloat \<times> string" where
  "archive_sort_key a = (case archive_created_at_seconds (la_inspection a) of
     Some t \<Rightarrow> (t, in_id (la_inspection a)) | None \<Rightarrow> (NInf, in_id (la_inspection a)))"

fun sort_key_less :: "pyfloat \<times> string \<Rightarrow> pyfloat \<times> string \<Rightarrow> bool" where
  "sort_key_less (t, i) (u, j) = (flt t u \<or> (feq t u \<and> str_less i j))"

fun folder_names :: "(string, node) dict \<Rightarrow> string list" where
  "folder_names [] = []"
| "folder_names ((c, Folder _) # es) = c # folder_names es"
| "folder_names ((c, RegFile _) # es) = folder_names es"

definition list_reset_archives :: "(string \<Rightarrow> json option) \<Rightarrow> layout \<Rightarrow> nat \<Rightarrow> node \<Rightarrow> listed_archive list res" where
  "list_reset_archives loads l limit n = (case node_at n (reset_archives_root l) of
     Some (Folder es) \<Rightarrow>
       bindE (mapE (\<lambda>c. let arch = reset_archives_root l @ [c] in
           bindE (inspect_reset_archive loads l n arch) (\<lambda>a.
           Inr \<lparr>la_inspection = a, la_rel = relative_path (l_root l) arch,
                la_summary = summarize_archive_entries (in_entries a) limit\<rparr>)) (folder_names es)) (\<lambda>as.
       Inr (sort_by (\<lambda>a b. sort_key_less (archive_sort_key b) (archive_sort_key a)) as))
   | _ \<Rightarrow> Inr [])"

text \<open>\<open>format_archive_created_at\<close>; \<open>strftime\<close> is \<open>time.strftime\<close> of a local time.\<close>

definition format_archive_created_at :: "(pyfloat \<Rightarrow> string) \<Rightarrow> inspection \<Rightarrow> string" where
  "format_archive_created_at strftime a =
     (case archive_created_at_seconds a of None \<Rightarrow> ''unknown'' | Some t \<Rightarrow> strftime t)"

fun comma_list :: "string list \<Rightarrow> string" where
  "comma_list [] = ''''"
| "comma_list [s] = s"
| "comma_list (s # ss) = s @ '', '' @ comma_list ss"

definition inventory_text :: "entries_summary \<Rightarrow> string" where
  "inventory_text sm = (if es_preview sm = [] then ''(empty)''
     else comma_list (es_preview sm) @
       (if 0 < es_remaining sm then '' (+'' @ int_str (int (es_remaining sm)) @ '' more)'' else ''''))"

definition listing_lines :: "(pyfloat \<Rightarrow> string) \<Rightarrow> listed_archive \<Rightarrow> string list" where
  "listing_lines strftime a = (let i = la_inspection a in
     [''- '' @ in_id i @ '' | status='' @ integrity_text (in_status i) @
      '' | kind='' @ (if in_legacy i then ''legacy'' else ''manifest'') @
      '' | created_at='' @ format_archive_created_at strftime i @
      '' | entries='' @ int_str (int (es_entry_count (la_summary a)))] @
     (if la_rel a = [] then [] else [''  path: '' @ la_rel a]) @
     [''  inventory: '' @ inventory_text (la_summary a)] @
     map (\<lambda>e. ''  integrity_error: '' @ e) (filter (\<lambda>e. e \<noteq> []) (in_errors i)))"

definition render_reset_archive_listing :: "(pyfloat \<Rightarrow> string) \<Rightarrow> listed_archive list \<Rightarrow> string \<Rightarrow> string list" where
  "render_reset_archive_listing strftime as root_rel = (if as = [] then [''No reset archives found under '' @ root_rel @ ''.'']
     else (''Found '' @ int_str (int (length as)) @ '' reset archive(s) under '' @ root_rel @ '':'') #
          concat (map (listing_lines strftime) as))"

subsection \<open>Pruning\<close>

record prune_plan =
  pp_archives :: "listed_archive list"
  pp_prunable :: "listed_archive list"
  pp_kept :: "listed_archive list"
  pp_unknown :: "listed_archive list"

datatype verdict = KeptByCount | KeptUnknownAge | KeptYoung | Prunable

definition prune_verdict :: "int option \<Rightarrow> pyfloat option \<Rightarrow> pyfloat \<Rightarrow> nat \<times> listed_archive \<Rightarrow> verdict" where
  "prune_verdict keep older now = (\<lambda>(i, a).
     if (case keep of Some k \<Rightarrow> int i < k | None \<Rightarrow> False) then KeptByCount
     else (case older of
         None \<Rightarrow> Prunable
       | Some limit \<Rightarrow> (case archive_created_at_seconds (la_inspection a) of
           None \<Rightarrow> KeptUnknownAge
         | Some t \<Rightarrow> if flt (py_max (Fin 0) (fsub now t)) limit then KeptYoung else Prunable)))"

fun plan_archives :: "(nat \<times> listed_archive \<Rightarrow> verdict) \<Rightarrow> (nat \<times> listed_archive) list \<Rightarrow> prune_plan \<Rightarrow> prune_plan" where
  "plan_archives v [] pp = pp"
| "plan_archives v ((i, a) # as) pp = plan_archives v as (case v (i, a) of
     Prunable \<Rightarrow> pp\<lparr>pp_prunable := pp_prunable pp @ [a]\<rparr>
   | KeptUnknownAge \<Rightarrow> pp\<lparr>pp_kept := pp_kept pp @ [a], pp_unknown := pp_unknown pp @ [a]\<rparr>
   | _ \<Rightarrow> pp\<lparr>pp_kept := pp_kept pp @ [a]\<rparr>)"

definition plan_reset_archive_prune ::
    "(string \<Rightarrow> json option) \<Rightarrow> layout \<Rightarrow> int option \<Rightarrow> pyfloat option \<Rightarrow> pyfloat \<Rightarrow> node \<Rightarrow> prune_plan res" where
  "plan_reset_archive_prune loads l keep older now n =
     (if keep = None \<and> older = None then Inl (ValueError ''prune-archives requires --keep-last and/or --older-than-seconds'')
      else if (case keep of Some k \<Rightarrow> k < 0 | None \<Rightarrow> False) then Inl (ValueError ''--keep-last must be >= 0'')
      else if (case older of Some x \<Rightarrow> \<not> is_finite x \<or> flt x (Fin 0) | None \<Rightarrow> False)
        then Inl (ValueError ''--older-than-seconds must be a finite value >= 0'')
      else if \<not> is_finite now then Inl (ValueError ''prune reference time must be finite'')
      else bindE (list_reset_archives loads l 5 n) (\<lambda>as.
        Inr (plan_archives (prune_verdict keep older now) (enum as)
          \<lparr>pp_archives = as, pp_prunable = [], pp_kept = [], pp_unknown = []\<rparr>)))"

fun prune_each :: "faults \<Rightarrow> layout \<Rightarrow> listed_archive list \<Rightarrow> string list fs" where
  "prune_each f l [] = retF []"
| "prune_each f l (a # as) =
     bindF (bindF (getF (\<lambda>n. resolve_reset_archive l n (in_id (la_inspection a)))) liftF) (\<lambda>arch.
     thenF (remove_path f arch)
     (bindF (prune_each f l as) (\<lambda>rels. retF (relative_path (l_root l) arch # rels))))"

definition prune_reset_archives ::
    "faults \<Rightarrow> (string \<Rightarrow> json option) \<Rightarrow> layout \<Rightarrow> int option \<Rightarrow> pyfloat option \<Rightarrow> pyfloat \<Rightarrow> (prune_plan \<times> string list) fs" where
  "prune_reset_archives f loads l keep older now =
     bindF (bindF (getF (plan_reset_archive_prune loads l keep older now)) liftF) (\<lambda>pp.
     bindF (prune_each f l (pp_prunable pp)) (\<lambda>rels. retF (pp, rels)))"

subsection \<open>Restoring\<close>

record restore_entry =
  re_label :: string
  re_source :: string
  re_archive :: string
  re_type :: string
  re_from :: path
  re_target :: path

definition restorable_path_map :: "layout \<Rightarrow> (string, string \<times> path) dict" where
  "restorable_path_map l =
     dict_of (map (\<lambda>(label, p). (relative_path (l_root l) p, (label, p))) (restorable_artifact_paths l))"

definition ignored_restore_paths :: "layout \<Rightarrow> string list" where
  "ignored_restore_paths l = map (\<lambda>(_, p). relative_path (l_root l) p)
     (filter (\<lambda>(label, _). ignored_label label) (reset_artifact_paths l))"

fun collect_entries :: "layout \<Rightarrow> path \<Rightarrow> archive_item list \<Rightarrow> restore_entry list \<Rightarrow> string list \<Rightarrow> nat
    \<Rightarrow> restore_entry list \<times> string list \<times> nat" where
  "collect_entries l arch [] es ignored errors = (es, ignored, errors)"
| "collect_entries l arch (it # items) es ignored errors =
     (if it_source it = [] \<or> it_archive it = [] then collect_entries l arch items es ignored (Suc errors)
      else if List.member (ignored_restore_paths l) (it_source it)
        then collect_entries l arch items es (ignored @ [it_source it]) errors
      else if List.member (map re_source es) (it_source it) then collect_entries l arch items es ignored (Suc errors)
      else case map_of (restorable_path_map l) (it_source it) of
        None \<Rightarrow> collect_entries l arch items es ignored (Suc errors)
      | Some (label, target) \<Rightarrow> collect_entries l arch items
          (es @ [\<lparr>re_label = label, re_source = it_source it, re_archive = it_archive it, re_type = it_type it,
                  re_from = path_under arch (it_archive it), re_target = target\<rparr>]) ignored errors)"

definition build_restore_entries :: "layout \<Rightarrow> path \<Rightarrow> archive_item list \<Rightarrow> (restore_entry list \<times> string list) res" where
  "build_restore_entries l arch items = (case collect_entries l arch items [] [] 0 of (es, ignored, errors) \<Rightarrow>
     if errors \<noteq> 0 then Inl (ValueError ''archive entries'')
     else if es = [] then Inl (ValueError ''archive contains no restorable runtime artifacts'')
     else Inr (es, sort_by str_less (remdups ignored)))"

definition staged_path :: "path \<Rightarrow> restore_entry \<Rightarrow> path" where
  "staged_path base e = path_under base (re_source e)"

definition stage_restore_entries :: "faults \<Rightarrow> path \<Rightarrow> restore_entry list \<Rightarrow> unit fs" where
  "stage_restore_entries f staging es = forF (\<lambda>e. copy_path_to_archive f (re_from e) (staged_path staging e)) es"

fun backup_restore_targets :: "faults \<Rightarrow> path \<Rightarrow> restore_entry list \<Rightarrow> string list fs" where
  "backup_restore_targets f backup [] = retF []"
| "backup_restore_targets f backup (e # es) =
     bindF (getF (\<lambda>n. path_exists n (re_target e))) (\<lambda>there.
     if \<not> there then backup_restore_targets f backup es
     else thenF (copy_path_to_archive f (re_target e) (staged_path backup e))
       (bindF (backup_restore_targets f backup es) (\<lambda>rels. retF (re_source e # rels))))"

definition remove_restore_targets :: "faults \<Rightarrow> restore_entry list \<Rightarrow> unit fs" where
  "remove_restore_targets f es = forF (\<lambda>e. remove_path f (re_target e)) es"

text \<open>\<open>inject\<close> is the value of \<open>LOOPTIMUM_TEST_RESTORE_FAIL_SOURCE_REL\<close>, empty when it is not set.\<close>

definition apply_restore_entries :: "faults \<Rightarrow> string \<Rightarrow> path \<Rightarrow> restore_entry list \<Rightarrow> unit fs" where
  "apply_restore_entries f inject staging es = forF (\<lambda>e.
     if py_strip inject \<noteq> [] \<and> re_source e = py_strip inject then liftF (Inl (OSError ''Injected restore failure''))
     else copy_path_to_archive f (staged_path staging e) (re_target e)) es"

definition restore_backup :: "faults \<Rightarrow> path \<Rightarrow> restore_entry list \<Rightarrow> unit fs" where
  "restore_backup f backup es = forF (\<lambda>e.
     bindF (getF (\<lambda>n. path_exists n (staged_path backup e))) (\<lambda>there.
     if there then copy_path_to_archive f (staged_path backup e) (re_target e) else retF ())) es"

text \<open>The directories a restore works in; \<open>nonce\<close> is made of the time and the process id.\<close>

definition staging_dir :: "layout \<Rightarrow> string \<Rightarrow> path" where
  "staging_dir l nonce = butlast (l_state_file l) @ [''.restore-staging-'' @ nonce]"

definition backup_dir :: "layout \<Rightarrow> string \<Rightarrow> path" where
  "backup_dir l nonce = butlast (l_state_file l) @ [''.restore-backup-'' @ nonce]"

record restore_result =
  rr_id :: string
  rr_rel :: string
  rr_legacy :: bool
  rr_status :: integrity
  rr_restored :: "string list"
  rr_overwritten :: "string list"
  rr_ignored :: "string list"

text \<open>The \<open>try\<close> block of \<open>restore_reset_archive\<close> on the planned entries.\<close>

definition restore_entries :: "faults \<Rightarrow> string \<Rightarrow> path \<Rightarrow> path \<Rightarrow> restore_entry list \<Rightarrow> string list fs" where
  "restore_entries f inject staging backup es =
     guardedF
       (thenF (stage_restore_entries f staging es)
       (bindF (backup_restore_targets f backup es) (\<lambda>overwritten.
        thenF (remove_restore_targets f es)
       (thenF (apply_restore_entries f inject staging es)
       (retF overwritten)))))
       (thenF (remove_restore_targets f es) (restore_backup f backup es))
       (thenF (remove_path f staging) (remove_path f backup))"

definition plan_restore :: "(string \<Rightarrow> json option) \<Rightarrow> layout \<Rightarrow> string \<Rightarrow> node
    \<Rightarrow> (path \<times> inspection \<times> restore_entry list \<times> string list) res" where
  "plan_restore loads l archive_id n =
     bindE (resolve_reset_archive l n archive_id) (\<lambda>arch.
     bindE (inspect_reset_archive loads l n arch) (\<lambda>a.
     if in_status a \<noteq> Intact \<and> in_status a \<noteq> LegacyArchive then Inl (ValueError ''is not restorable'')
     else bindE (build_restore_entries l arch (in_entries a)) (\<lambda>(es, ignored). Inr (arch, a, es, ignored))))"

definition restore_reset_archive :: "faults \<Rightarrow> (string \<Rightarrow> json option) \<Rightarrow> string \<Rightarrow> string \<Rightarrow> layout \<Rightarrow> string \<Rightarrow> restore_result fs" where
  "restore_reset_archive f loads inject nonce l archive_id =
     bindF (bindF (getF (plan_restore loads l archive_id)) liftF) (\<lambda>(arch, a, es, ignored).
     bindF (restore_entries f inject (staging_dir l nonce) (backup_dir l nonce) es) (\<lambda>overwritten.
     retF \<lparr>rr_id = in_id a, rr_rel = relative_path (l_root l) arch, rr_legacy = in_legacy a, rr_status = in_status a,
           rr_restored = map re_source es, rr_overwritten = overwritten, rr_ignored = ignored\<rparr>))"

subsection \<open>Resetting\<close>

text \<open>The archive of \<open>cmd_reset\<close>: a new directory, a copy of what there is, and the manifest.\<close>

fun archive_each :: "faults \<Rightarrow> layout \<Rightarrow> path \<Rightarrow> (string \<times> path) list \<Rightarrow> (string \<times> path) list fs" where
  "archive_each f l arch [] = retF []"
| "archive_each f l arch ((label, p) # ps) =
     bindF (getF (\<lambda>n. path_exists n p)) (\<lambda>there.
     if \<not> there then archive_each f l arch ps
     else thenF (copy_path_to_archive f p (path_under arch (relative_path (l_root l) p)))
       (bindF (archive_each f l arch ps) (\<lambda>rest. retF ((label, p) # rest))))"

definition make_archive :: "faults \<Rightarrow> (jdict \<Rightarrow> string) \<Rightarrow> layout \<Rightarrow> string \<Rightarrow> pyfloat \<Rightarrow> (string \<times> path) list fs" where
  "make_archive f dumps l archive_id now = (let arch = reset_archives_root l @ [archive_id] in
     thenF (attempt f arch (\<lambda>n. if path_exists n arch then (Inl (OSError ''exists''), n) else make_folders arch n))
     (bindF (archive_each f l arch (reset_artifact_paths l)) (\<lambda>archived.
      bindF (bindF (getF (\<lambda>n. build_reset_archive_manifest l n arch archived now)) liftF) (\<lambda>m.
      thenF (write_archive_manifest f dumps arch m) (retF archived)))))"

fun remove_each :: "faults \<Rightarrow> layout \<Rightarrow> (string \<times> path) list \<Rightarrow> (string list \<times> string list) fs" where
  "remove_each f l [] = retF ([], [])"
| "remove_each f l ((_, p) # ps) =
     bindF (getF (\<lambda>n. path_exists n p)) (\<lambda>there.
     if \<not> there then bindF (remove_each f l ps) (\<lambda>(gone, absent). retF (gone, relative_path (l_root l) p # absent))
     else thenF (attempt f p (\<lambda>n. (Inr (), cut p n)))
       (bindF (remove_each f l ps) (\<lambda>(gone, absent). retF (relative_path (l_root l) p # gone, absent))))"

text \<open>What \<open>cmd_reset\<close> does to the files; the result is what it prints.\<close>

definition reset_files :: "faults \<Rightarrow> (jdict \<Rightarrow> string) \<Rightarrow> layout \<Rightarrow> string option \<Rightarrow> pyfloat
    \<Rightarrow> ((string \<times> path) list \<times> string list \<times> string list) fs" where
  "reset_files f dumps l archive_id now =
     bindF (case archive_id of Some i \<Rightarrow> make_archive f dumps l i now | None \<Rightarrow> retF []) (\<lambda>archived.
     bindF (remove_each f l (reset_artifact_paths l)) (\<lambda>(gone, absent). retF (archived, gone, absent)))"

end
