(* ===== verification/Restoring.thy ===== *)
theory Restoring
  imports Archives
begin

text \<open>
  What a restore does to the files: the phases of \<open>restore_reset_archive\<close> one by one, and what
  is at the restored paths when it returns, when it fails after the backup, and when it fails
  before.
\<close>

subsection \<open>The entries of a restore\<close>

definition restore_ready :: "node \<Rightarrow> path \<Rightarrow> path \<Rightarrow> restore_entry list \<Rightarrow> bool" where
  "restore_ready n staging backup es = (distinct_names n \<and> apart staging backup \<and>
     placeable n staging \<and> placeable n backup \<and> ''..'' \<notin> set staging \<and> ''..'' \<notin> set backup \<and> node_at n staging = None \<and> node_at n backup = None \<and>
     sorted_wrt (\<lambda>a b. apart (re_target a) (re_target b)) es \<and>
     sorted_wrt (\<lambda>a b. apart (path_parts (re_source a)) (path_parts (re_source b))) es \<and>
     list_all (\<lambda>e. re_source e \<noteq> [] \<and> hd (re_source e) \<noteq> CHR ''/'' \<and> ''..'' \<notin> set (path_parts (re_source e)) \<and>
       ''..'' \<notin> set (re_from e) \<and> ''..'' \<notin> set (re_target e) \<and>
       apart staging (re_from e) \<and> apart staging (re_target e) \<and> apart backup (re_target e) \<and>
       placeable n (re_target e)) es)"

lemma staged_path_inside: "re_source e \<noteq> [] \<Longrightarrow> hd (re_source e) \<noteq> CHR ''/'' \<Longrightarrow> staged_path base e = base @ path_parts (re_source e)"
  by (simp add: staged_path_def path_under_def)

lemma apart_not_Nil: "apart p q \<Longrightarrow> p \<noteq> [] \<and> q \<noteq> []"
  by auto

lemma apart_below: "apart p q \<Longrightarrow> prefix p p' \<Longrightarrow> prefix q q' \<Longrightarrow> apart p' q'"
  by (auto simp: apart_append elim!: prefixE)

lemma readyD:
  assumes "restore_ready n staging backup es" "e \<in> set es"
  shows "staged_path base e = base @ path_parts (re_source e)" "''..'' \<notin> set (path_parts (re_source e))"
    "''..'' \<notin> set (re_from e)" "''..'' \<notin> set (re_target e)" "re_target e \<noteq> []"
    "apart staging (re_from e)" "apart staging (re_target e)" "apart backup (re_target e)" "placeable n (re_target e)"
proof -
  from assms have e: "re_source e \<noteq> []" "hd (re_source e) \<noteq> CHR ''/''" "''..'' \<notin> set (path_parts (re_source e))"
    "''..'' \<notin> set (re_from e)" "''..'' \<notin> set (re_target e)"
    "apart staging (re_from e)" "apart staging (re_target e)" "apart backup (re_target e)" "placeable n (re_target e)"
    by (simp_all add: restore_ready_def list_all_iff)
  with apart_not_Nil [OF e(7)] staged_path_inside [OF e(1,2)]
  show "staged_path base e = base @ path_parts (re_source e)" "''..'' \<notin> set (path_parts (re_source e))"
    "''..'' \<notin> set (re_from e)" "''..'' \<notin> set (re_target e)" "re_target e \<noteq> []"
    "apart staging (re_from e)" "apart staging (re_target e)" "apart backup (re_target e)" "placeable n (re_target e)"
    by simp_all
qed

lemma ready_staged_apart:
  assumes "restore_ready n staging backup es"
  shows "sorted_wrt (\<lambda>a b. apart (staged_path base a) (staged_path base b)) es"
proof -
  from assms have "sorted_wrt (\<lambda>a b. apart (path_parts (re_source a)) (path_parts (re_source b))) es"
    by (simp add: restore_ready_def)
  with readyD(1) [OF assms] show ?thesis by (auto elim!: sorted_wrt_mono_rel [rotated])
qed

lemma ready_basics:
  assumes "restore_ready n staging backup es"
  shows "staging \<noteq> []" "backup \<noteq> []" "apart staging backup" "distinct_names n"
    "''..'' \<notin> set staging" "''..'' \<notin> set backup" "node_at n staging = None" "node_at n backup = None"
    "sorted_wrt (\<lambda>a b. apart (re_target a) (re_target b)) es"
  using assms by (auto simp: restore_ready_def)

lemma pairwise_apart: "sorted_wrt (\<lambda>a b. apart (p a) (p b)) es \<Longrightarrow> a \<in> set es \<Longrightarrow> b \<in> set es \<Longrightarrow> a \<noteq> b \<Longrightarrow> apart (p a) (p b)"
  by (induction es) (auto intro: apart_sym)

lemma node_at_below_None: "node_at n p = None \<Longrightarrow> prefix p q \<Longrightarrow> node_at n q = None"
  by (auto simp: node_at_append elim: prefixE)

subsection \<open>Staging\<close>

lemma keeps_stage:
  assumes "restore_ready n staging backup es"
  shows "keeps [staging] (stage_restore_entries f staging es)"
  unfolding stage_restore_entries_def
  using readyD(1) [OF assms] ready_basics(1) [OF assms] by (intro keeps_copies) auto

lemma placeable_below:
  assumes "placeable n p" "node_at n p = None"
  shows "placeable n (p @ q)"
  unfolding placeable_iff
proof (intro allI impI)
  fix r assume "strict_prefix r (p @ q)"
  then have "strict_prefix r p \<or> prefix p r" by (auto simp: strict_prefix_def prefix_append)
  with assms show "view n r = None \<or> is_folder n r"
    by (auto simp: placeable_iff view_None_iff dest: node_at_below_None)
qed

lemma stage_copyable:
  assumes ready: "restore_ready n staging backup es"
  shows "copyable n re_from (staged_path staging) es"
  unfolding copyable_def
proof (intro conjI ready_staged_apart [OF ready], unfold list_all_iff, intro ballI conjI)
  note r = readyD [OF ready] and b = ready_basics [OF ready]
  fix e assume e: "e \<in> set es"
  show "''..'' \<notin> set (re_from e)" "staged_path staging e \<noteq> []" using r [OF e] b by auto
  show "node_at n (staged_path staging e) = None"
    using b(7) by (auto simp: r(1) [OF e] node_at_append)
  show "case node_at n (re_from e) of None \<Rightarrow> True | Some m \<Rightarrow> distinct_names m"
    by (auto split: option.splits intro: distinct_names_node_at b(4))
  show "apart (staged_path staging x) (re_from e)" if "x \<in> set es" for x
    using apart_append [OF r(6) [OF e], of _ "[]"] by (simp add: r(1) [OF that])
qed

lemma staged:
  assumes ready: "restore_ready (d_root d) staging backup es" and run: "stage_restore_entries f staging es d = (r, d1)"
  shows "r = Inr u \<Longrightarrow> \<forall>e\<in>set es. node_at (d_root d1) (staged_path staging e) = node_at (d_root d) (re_from e) \<and> node_at (d_root d) (re_from e) \<noteq> None"
    "r = Inl x \<Longrightarrow> \<forall>e\<in>set es. node_at (d_root d) (re_from e) \<noteq> None \<Longrightarrow> fault_met f d d1"
proof -
  note run' = run [unfolded stage_restore_entries_def]
  show "r = Inr u \<Longrightarrow> \<forall>e\<in>set es. node_at (d_root d1) (staged_path staging e) = node_at (d_root d) (re_from e) \<and> node_at (d_root d) (re_from e) \<noteq> None"
    using copy_loop [OF _ stage_copyable [OF ready]] run' by simp
  have pl: "placeable (d_root d) (staged_path staging e)" if "e \<in> set es" for e
    using ready ready_basics(7) [OF ready] by (simp add: readyD(1) [OF ready that] placeable_below restore_ready_def)
  show "r = Inl x \<Longrightarrow> \<forall>e\<in>set es. node_at (d_root d) (re_from e) \<noteq> None \<Longrightarrow> fault_met f d d1"
    by (rule copy_loop_fails [OF _ stage_copyable [OF ready]]) (use run' pl in auto)
qed

subsection \<open>Backup\<close>

definition present :: "node \<Rightarrow> restore_entry list \<Rightarrow> restore_entry list" where
  "present n es = filter (\<lambda>e. path_exists n (re_target e)) es"

lemma backup_as_copies:
  assumes "\<And>a b. a \<in> set es \<Longrightarrow> b \<in> set es \<Longrightarrow> apart (staged_path backup b) (re_target a)"
  shows "backup_restore_targets f backup es d =
    thenF (forF (\<lambda>e. copy_path_to_archive f (re_target e) (staged_path backup e)) (present (d_root d) es))
      (retF (map re_source (present (d_root d) es))) d"
  using assms
proof (induction es arbitrary: d)
  case Nil
  then show ?case by (simp add: present_def)
next
  case (Cons e es)
  show ?case
  proof (cases "path_exists (d_root d) (re_target e)")
    case True
    obtain r d1 where c: "copy_path_to_archive f (re_target e) (staged_path backup e) d = (r, d1)" by fastforce
    have ne: "staged_path backup e \<noteq> []" using Cons.prems [of e e] by auto
    from keepsD [OF keeps_copy [OF ne] c] have fr: "frame [staged_path backup e] (d_root d) (d_root d1)" by simp
    have "node_at (d_root d1) (re_target a) = node_at (d_root d) (re_target a)" if "a \<in> set es" for a
      using Cons.prems [of a e] that by (intro frame_apart [OF fr]) auto
    then have same: "present (d_root d1) es = present (d_root d) es"
      unfolding present_def by (intro filter_cong) (simp_all add: path_exists_def)
    with True Cons show ?thesis
      by (simp add: thenF_def bindF_def c present_def retF_def getF_def split: sum.splits prod.splits)
  next
    case False
    with Cons show ?thesis by (simp add: thenF_def bindF_def present_def getF_def)
  qed
qed

lemma backed_up:
  assumes ready: "restore_ready n staging backup es" and fr: "frame [staging] n (d_root d)"
    and run: "backup_restore_targets f backup es d = (r, d1)"
  shows "frame [backup] (d_root d) (d_root d1) \<and> d_tick d \<le> d_tick d1"
    "r = Inr rels \<Longrightarrow> e \<in> set es \<Longrightarrow> node_at (d_root d1) (staged_path backup e) = node_at n (re_target e)"
    "r = Inr rels \<Longrightarrow> rels = map re_source (present n es)"
    "r = Inl x \<Longrightarrow> fault_met f d d1"
proof -
  note r = readyD [OF ready] and b = ready_basics [OF ready]
  have ap: "apart (staged_path backup x) (re_target a)" if "a \<in> set es" "x \<in> set es" for a x
    using apart_append [OF r(8) [OF that(1)], of _ "[]"] by (simp add: r(1) [OF that(2)])
  have tgt: "node_at (d_root d) (re_target a) = node_at n (re_target a)" if "a \<in> set es" for a
    using r(7) [OF that] by (intro frame_apart [OF fr]) auto
  have none: "node_at (d_root d) (staged_path backup a) = None" if "a \<in> set es" for a
  proof -
    have "node_at (d_root d) backup = node_at n backup" using b(3) by (intro frame_apart [OF fr]) auto
    with b(8) show ?thesis by (simp add: r(1) [OF that] node_at_append)
  qed
  have pres: "present (d_root d) es = present n es"
    unfolding present_def using tgt by (intro filter_cong) (simp_all add: path_exists_def)
  let ?loop = "forF (\<lambda>e. copy_path_to_archive f (re_target e) (staged_path backup e)) (present n es)"
  have run': "thenF ?loop (retF (map re_source (present n es))) d = (r, d1)"
    using run backup_as_copies [OF ap, of es f d] by (simp add: pres)
  have cp: "copyable (d_root d) re_target (staged_path backup) (present n es)"
    unfolding copyable_def
  proof (intro conjI)
    show "sorted_wrt (\<lambda>a b. apart (staged_path backup a) (staged_path backup b)) (present n es)"
      unfolding present_def by (intro sorted_wrt_filter ready_staged_apart [OF ready])
    show "list_all (\<lambda>a. ''..'' \<notin> set (re_target a) \<and> staged_path backup a \<noteq> [] \<and> node_at (d_root d) (staged_path backup a) = None \<and>
       list_all (\<lambda>b. apart (staged_path backup b) (re_target a)) (present n es) \<and>
       (case node_at (d_root d) (re_target a) of None \<Rightarrow> True | Some m \<Rightarrow> distinct_names m)) (present n es)"
      using ap none tgt r b by (auto simp: list_all_iff present_def split: option.splits intro: distinct_names_node_at)
  qed
  have k: "keeps [backup] ?loop"
    using r b by (intro keeps_copies) (auto simp: present_def)
  obtain r2 where loop: "?loop d = (r2, d1)" and r2: "r = Inr rels \<Longrightarrow> r2 = Inr () \<and> rels = map re_source (present n es)" for rels
    using run' by (cases "?loop d") (auto simp: thenF_def bindF_def retF_def split: sum.splits)
  show fr1: "frame [backup] (d_root d) (d_root d1) \<and> d_tick d \<le> d_tick d1"
    using keepsD [OF k loop] .
  show "r = Inr rels \<Longrightarrow> rels = map re_source (present n es)" using r2 by blast
  have "placeable n backup" using ready by (simp add: restore_ready_def)
  then have pl: "placeable (d_root d) backup" by (rule placeable_frame [OF _ fr]) (use b(3) in simp)
  have bn: "node_at (d_root d) backup = None" using b(3,8) frame_apart [OF fr, of backup] by simp
  show "fault_met f d d1" if "r = Inl x"
  proof -
    have "?loop d = (Inl x, d1)" using run' that by (auto simp: thenF_Inl retF_def)
    then show ?thesis
    proof (rule copy_loop_fails [OF _ cp])
      fix a assume a: "a \<in> set (present n es)"
      then show "node_at (d_root d) (re_target a) \<noteq> None" using tgt by (simp add: present_def path_exists_def)
      show "placeable (d_root d) (staged_path backup a)"
        using a r(1) [of a backup] placeable_below [OF pl bn] by (simp add: present_def)
    qed
  qed
  assume R: "r = Inr rels" and e: "e \<in> set es"
  show "node_at (d_root d1) (staged_path backup e) = node_at n (re_target e)"
  proof (cases "e \<in> set (present n es)")
    case True
    with copy_loop [OF _ cp, of f d1] loop r2 [OF R] tgt [OF e] show ?thesis by simp
  next
    case False
    then have gone: "node_at n (re_target e) = None" using e by (auto simp: present_def path_exists_def)
    have "keeps (map (staged_path backup) (present n es)) ?loop"
      using r b by (intro keeps_copies) (auto simp: present_def)
    from keepsD [OF this loop] have fr: "frame (map (staged_path backup) (present n es)) (d_root d) (d_root d1)" by simp
    have "apart (staged_path backup a) (staged_path backup e)" if "a \<in> set (present n es)" for a
    proof -
      from that False have "a \<in> set es" "a \<noteq> e" by (auto simp: present_def)
      with pairwise_apart [OF ready_staged_apart [OF ready]] e show ?thesis by blast
    qed
    then have "node_at (d_root d1) (staged_path backup e) = node_at (d_root d) (staged_path backup e)"
      by (intro frame_apart [OF fr]) auto
    with none [OF e] gone show ?thesis by simp
  qed
qed

subsection \<open>Removing and applying\<close>

abbreviation targets :: "restore_entry list \<Rightarrow> path list" where
  "targets es \<equiv> map re_target es"

lemma keeps_targets:
  assumes "restore_ready n staging backup es"
  shows "keeps (targets es) (remove_restore_targets f es)" "keeps (targets es) (apply_restore_entries f inject staging es)"
    "keeps (targets es) (restore_backup f backup es)"
  unfolding remove_restore_targets_def apply_restore_entries_def restore_backup_def
proof -
  have rm: "keeps (targets es) (remove_path f (re_target e))" and cp: "keeps (targets es) (copy_path_to_archive f src (re_target e))"
    if "e \<in> set es" for e src
    using that readyD(5) [OF assms that] by (auto intro: keeps_mono [OF keeps_remove] keeps_mono [OF keeps_copy])
  show "keeps (targets es) (forF (\<lambda>e. remove_path f (re_target e)) es)"
    "keeps (targets es) (forF (\<lambda>e. if py_strip inject \<noteq> [] \<and> re_source e = py_strip inject
       then liftF (Inl (OSError ''Injected restore failure'')) else copy_path_to_archive f (staged_path staging e) (re_target e)) es)"
    "keeps (targets es) (forF (\<lambda>e. bindF (getF (\<lambda>n. path_exists n (staged_path backup e))) (\<lambda>there.
       if there then copy_path_to_archive f (staged_path backup e) (re_target e) else retF ())) es)"
    by (intro keeps_intros rm cp; assumption)+
qed

lemma removed:
  assumes "restore_ready n staging backup es" "remove_restore_targets f es d = (r, d1)"
  shows "r = Inr () \<and> (\<forall>e\<in>set es. node_at (d_root d1) (re_target e) = None) \<or> fault_met f d d1 \<and> (\<exists>x. r = Inl x)"
  using remove_loop [of f re_target es d r d1] assms ready_basics(9) [OF assms(1)] readyD(5) [OF assms(1)]
  by (simp add: remove_restore_targets_def)

lemma forF_skip:
  "forF (\<lambda>e. if P e then liftF (Inl x) else g e) es d = (Inr u, d') \<Longrightarrow> forF g es d = (Inr u, d')"
  by (induction es arbitrary: d) (auto simp: thenF_Inr liftF_def split: if_splits)

text \<open>The trees the rollback and the application start from: the copies are there, the targets can be placed.\<close>

definition copies_ready :: "node \<Rightarrow> path \<Rightarrow> path list \<Rightarrow> restore_entry list \<Rightarrow> bool" where
  "copies_ready n base free es = (list_all (\<lambda>e. placeable n (re_target e) \<and> apart base (re_target e) \<and>
     (case node_at n (staged_path base e) of None \<Rightarrow> True | Some m \<Rightarrow> distinct_names m)) es \<and>
     list_all (\<lambda>p. node_at n p = None) free)"

lemma copies_copyable:
  assumes ready: "restore_ready n0 staging backup es" and "copies_ready n base (targets es') es'"
    "set es' \<subseteq> set es" "sorted_wrt (\<lambda>a b. apart (re_target a) (re_target b)) es'" "''..'' \<notin> set base"
  shows "copyable n (staged_path base) re_target es'"
  unfolding copyable_def
proof (intro conjI assms(4), unfold list_all_iff, intro ballI conjI)
  fix a assume a: "a \<in> set es'"
  then have a': "a \<in> set es" using assms(3) by blast
  note r = readyD [OF ready a']
  show "''..'' \<notin> set (staged_path base a)" "re_target a \<noteq> []" using r assms(5) by auto
  show "node_at n (re_target a) = None"
    "case node_at n (staged_path base a) of None \<Rightarrow> True | Some m \<Rightarrow> distinct_names m"
    using assms(2) a by (auto simp: copies_ready_def list_all_iff)
  show "apart (re_target b) (staged_path base a)" if "b \<in> set es'" for b
    using apart_append [of base "re_target b" "path_parts (re_source a)" "[]"] assms(2) that r(1) [of base]
    by (auto simp: copies_ready_def list_all_iff intro: apart_sym)
qed

lemma applied:
  assumes ready: "restore_ready n0 staging backup es" and copies: "copies_ready (d_root d) staging (targets es) es"
    and src: "\<And>e. e \<in> set es \<Longrightarrow> node_at (d_root d) (staged_path staging e) \<noteq> None"
    and run: "apply_restore_entries f inject staging es d = (r, d1)"
  shows "r = Inr () \<Longrightarrow> e \<in> set es \<Longrightarrow> node_at (d_root d1) (re_target e) = node_at (d_root d) (staged_path staging e)"
    "r = Inl x \<Longrightarrow> fault_met f d d1 \<or> py_strip inject \<noteq> []"
proof -
  let ?loop = "forF (\<lambda>e. copy_path_to_archive f (staged_path staging e) (re_target e)) es"
  note b = ready_basics [OF ready]
  have cp: "copyable (d_root d) (staged_path staging) re_target es"
    by (rule copies_copyable [OF ready copies subset_refl b(9) b(5)])
  show "node_at (d_root d1) (re_target e) = node_at (d_root d) (staged_path staging e)" if r: "r = Inr ()" and e: "e \<in> set es"
  proof -
    from run r have "apply_restore_entries f inject staging es d = (Inr (), d1)" by simp
    from forF_skip [OF this [unfolded apply_restore_entries_def]] have "?loop d = (Inr (), d1)" .
    with copy_loop [OF _ cp] e show ?thesis by blast
  qed
  show "fault_met f d d1 \<or> py_strip inject \<noteq> []" if r: "r = Inl x"
  proof (cases "py_strip inject = []")
    case True
    with run r have "?loop d = (Inl x, d1)" by (simp add: apply_restore_entries_def)
    then have "fault_met f d d1"
      by (rule copy_loop_fails [OF _ cp src]) (use copies in \<open>auto simp: copies_ready_def list_all_iff\<close>)
    then show ?thesis by simp
  qed simp
qed

subsection \<open>Rolling back\<close>

lemma no_fault_met: "\<forall>k\<ge>d_tick d. f k = None \<Longrightarrow> \<not> fault_met f d d'"
  by (auto simp: fault_met_def)

lemma rolled_back:
  assumes ready: "restore_ready n0 staging backup es" and fr: "frame (targets es) n (d_root d)"
    and place: "\<And>e. e \<in> set es \<Longrightarrow> placeable n (re_target e)"
    and clean: "\<And>e m. e \<in> set es \<Longrightarrow> node_at n (staged_path backup e) = Some m \<Longrightarrow> distinct_names m"
    and quiet: "\<forall>k\<ge>d_tick d. f k = None"
    and run: "thenF (remove_restore_targets f es) (restore_backup f backup es) d = (r, d1)"
  shows "r = Inr ()" "e \<in> set es \<Longrightarrow> node_at (d_root d1) (re_target e) = node_at n (staged_path backup e)"
    "frame (targets es) (d_root d) (d_root d1)"
proof -
  note rd = readyD [OF ready] and b = ready_basics [OF ready] and kt = keeps_targets [OF ready]
  obtain r2 d2 where rm: "remove_restore_targets f es d = (r2, d2)" by fastforce
  from keepsD [OF kt(1) rm] have fr2: "frame (targets es) (d_root d) (d_root d2)" and t2: "d_tick d \<le> d_tick d2" by simp_all
  from removed [OF ready rm] no_fault_met [OF quiet] have r2: "r2 = Inr ()"
    and gone: "\<And>e. e \<in> set es \<Longrightarrow> node_at (d_root d2) (re_target e) = None" by auto
  from run rm r2 have rb: "restore_backup f backup es d2 = (r, d1)" by (simp add: thenF_def bindF_def)
  from keepsD [OF kt(3) rb] have fr3: "frame (targets es) (d_root d2) (d_root d1)" by simp
  from fr2 fr3 show "frame (targets es) (d_root d) (d_root d1)" by (rule frame_trans)
  have n2: "frame (targets es) n (d_root d2)" using fr fr2 by (rule frame_trans)
  have bapart: "apart (re_target a) (staged_path backup e)" if "a \<in> set es" "e \<in> set es" for a e
    using apart_append [OF rd(8) [OF that(1)], of _ "[]"] rd(1) [OF that(2)] by (auto intro: apart_sym)
  have bk: "node_at (d_root d2) (staged_path backup e) = node_at n (staged_path backup e)" if "e \<in> set es" for e
    using that bapart by (intro frame_apart [OF n2]) auto
  have pl: "placeable (d_root d2) (re_target e)" if e: "e \<in> set es" for e
  proof (rule placeable_frame [OF place [OF e] n2])
    fix q assume "q \<in> set (targets es)"
    then obtain a where a: "a \<in> set es" "q = re_target a" by auto
    with pairwise_apart [OF b(9)] e show "q = re_target e \<or> apart q (re_target e)" by blast
  qed
  let ?es = "filter (\<lambda>e. path_exists (d_root d2) (staged_path backup e)) es"
  let ?loop = "forF (\<lambda>e. copy_path_to_archive f (staged_path backup e) (re_target e)) ?es"
  have loop: "?loop d2 = (r, d1)"
    using rb copy_present [of es re_target "staged_path backup" f d2] bapart rd(5) by (simp add: restore_backup_def)
  have cr: "copies_ready (d_root d2) backup (targets ?es) ?es"
    using pl rd(8) gone bk clean by (auto simp: copies_ready_def list_all_iff split: option.splits)
  have cp: "copyable (d_root d2) (staged_path backup) re_target ?es"
    by (rule copies_copyable [OF ready cr _ sorted_wrt_filter [OF b(9)] b(6)]) auto
  show r: "r = Inr ()"
  proof (cases r)
    case (Inl x)
    with copy_loop_fails [OF loop [unfolded Inl] cp] pl have "fault_met f d2 d1" by (auto simp: path_exists_def)
    then show ?thesis using no_fault_met [of d2 f] quiet t2 by auto
  qed simp
  show "node_at (d_root d1) (re_target e) = node_at n (staged_path backup e)" if e: "e \<in> set es"
  proof (cases "e \<in> set ?es")
    case True
    with copy_loop [OF loop [unfolded r] cp] have "node_at (d_root d1) (re_target e) = node_at (d_root d2) (staged_path backup e)" by blast
    with bk [OF e] show ?thesis by simp
  next
    case False
    then have none: "node_at n (staged_path backup e) = None" using e bk [OF e] by (simp add: path_exists_def)
    have "keeps (targets ?es) ?loop" using rd(5) by (intro keeps_copies) auto
    from keepsD [OF this loop] have f3: "frame (targets ?es) (d_root d2) (d_root d1)" by simp
    have "apart (re_target a) (re_target e)" if "a \<in> set ?es" for a
    proof -
      from that False have "a \<in> set es" "a \<noteq> e" by auto
      with pairwise_apart [OF b(9)] e show ?thesis by blast
    qed
    then have "node_at (d_root d1) (re_target e) = node_at (d_root d2) (re_target e)"
      by (intro frame_apart [OF f3]) auto
    with none gone [OF e] show ?thesis by simp
  qed
qed

subsection \<open>The whole restore\<close>

definition clean_up :: "faults \<Rightarrow> path \<Rightarrow> path \<Rightarrow> unit fs" where
  "clean_up f staging backup = thenF (remove_path f staging) (remove_path f backup)"

lemma cleaned:
  assumes "clean_up f staging backup d = (r, d1)" "apart staging backup"
  shows "frame [staging, backup] (d_root d) (d_root d1) \<and> d_tick d \<le> d_tick d1"
    "r = Inr () \<and> node_at (d_root d1) staging = None \<and> node_at (d_root d1) backup = None \<or> fault_met f d d1 \<and> (\<exists>x. r = Inl x)"
proof -
  have ne: "staging \<noteq> []" "backup \<noteq> []" using assms(2) by auto
  have "keeps [staging, backup] (clean_up f staging backup)"
    unfolding clean_up_def by (intro keeps_intros keeps_mono [OF keeps_remove] ne) auto
  from keepsD [OF this assms(1)] show "frame [staging, backup] (d_root d) (d_root d1) \<and> d_tick d \<le> d_tick d1" .
  obtain r2 d2 where rm: "remove_path f staging d = (r2, d2)" by fastforce
  obtain r3 d3 where rm': "remove_path f backup d2 = (r3, d3)" by fastforce
  from keepsD [OF keeps_remove [OF ne(1)] rm] have t: "d_tick d \<le> d_tick d2" by simp
  from keepsD [OF keeps_remove [OF ne(2)] rm'] have "frame [backup] (d_root d2) (d_root d3)" and t3: "d_tick d2 \<le> d_tick d3" by simp_all
  then have "node_at (d_root d3) staging = node_at (d_root d2) staging"
    using assms(2) by (intro frame_apart) (auto intro: apart_sym)
  with remove_path_result [OF rm ne(1)] remove_path_result [OF rm' ne(2)] assms(1) t t3 rm rm'
  show "r = Inr () \<and> node_at (d_root d1) staging = None \<and> node_at (d_root d1) backup = None \<or> fault_met f d d1 \<and> (\<exists>x. r = Inl x)"
    by (auto simp: clean_up_def thenF_def bindF_def intro: fault_met_later)
qed

text \<open>The state after the staged copies and the backup.\<close>

definition prepared :: "node \<Rightarrow> path \<Rightarrow> path \<Rightarrow> restore_entry list \<Rightarrow> node \<Rightarrow> bool" where
  "prepared n staging backup es n2 = (frame [staging, backup] n n2 \<and>
     (\<forall>e\<in>set es. node_at n2 (staged_path staging e) = node_at n (re_from e) \<and> node_at n (re_from e) \<noteq> None \<and>
        node_at n2 (staged_path backup e) = node_at n (re_target e)))"

lemma prepare:
  assumes ready: "restore_ready (d_root d) staging backup es"
    and st: "stage_restore_entries f staging es d = (Inr (), d1)"
    and bk: "backup_restore_targets f backup es d1 = (Inr rels, d2)"
  shows "prepared (d_root d) staging backup es (d_root d2)" "rels = map re_source (present (d_root d) es)"
    "d_tick d \<le> d_tick d2"
proof -
  note b = ready_basics [OF ready] and rd = readyD [OF ready]
  from keepsD [OF keeps_stage [OF ready] st] have f1: "frame [staging] (d_root d) (d_root d1)" and t1: "d_tick d \<le> d_tick d1" by simp_all
  note bb = backed_up [OF ready f1 bk]
  from bb(1) have f2: "frame [backup] (d_root d1) (d_root d2)" and t2: "d_tick d1 \<le> d_tick d2" by simp_all
  show "d_tick d \<le> d_tick d2" using t1 t2 by simp
  show "rels = map re_source (present (d_root d) es)" using bb(3) by blast
  have "frame [staging, backup] (d_root d) (d_root d2)"
    by (rule frame_trans [OF frame_mono [OF f1] frame_mono [OF f2]]) auto
  moreover have "node_at (d_root d2) (staged_path staging e) = node_at (d_root d1) (staged_path staging e)" if "e \<in> set es" for e
    using apart_append [OF b(3), of "path_parts (re_source e)" "[]"] rd(1) [OF that]
    by (intro frame_apart [OF f2]) (auto intro: apart_sym)
  ultimately show "prepared (d_root d) staging backup es (d_root d2)"
    using staged(1) [OF ready st] bb(2) by (simp add: prepared_def)
qed

lemma prepared_targets:
  assumes ready: "restore_ready n staging backup es" and "prepared n staging backup es n2" and e: "e \<in> set es"
  shows "node_at n2 (re_target e) = node_at n (re_target e)" "placeable n2 (re_target e)"
proof -
  have fr: "frame [staging, backup] n n2" using assms(2) by (simp add: prepared_def)
  note rd = readyD [OF ready e]
  have ap: "apart p (re_target e)" if "p \<in> set [staging, backup]" for p using that rd by auto
  show "node_at n2 (re_target e) = node_at n (re_target e)" by (rule frame_apart [OF fr ap])
  show "placeable n2 (re_target e)" by (rule placeable_frame [OF rd(9) fr]) (use ap in blast)
qed

text \<open>The outcome of removing and applying, before any rollback.\<close>

lemma remove_apply:
  assumes ready: "restore_ready n staging backup es" and prep: "prepared n staging backup es (d_root d)"
    and run: "thenF (remove_restore_targets f es) (thenF (apply_restore_entries f inject staging es) (retF rels)) d = (r, d')"
  shows "frame (targets es) (d_root d) (d_root d') \<and> d_tick d \<le> d_tick d'"
    "r = Inr x \<Longrightarrow> x = rels \<and> (\<forall>e\<in>set es. node_at (d_root d') (re_target e) = node_at n (re_from e))"
    "r = Inl y \<Longrightarrow> fault_met f d d' \<or> py_strip inject \<noteq> []"
proof -
  note b = ready_basics [OF ready] and kt = keeps_targets [OF ready] and rd = readyD [OF ready]
  have "keeps (targets es) (thenF (remove_restore_targets f es) (thenF (apply_restore_entries f inject staging es) (retF rels)))"
    by (intro keeps_intros kt)
  from keepsD [OF this run] show "frame (targets es) (d_root d) (d_root d') \<and> d_tick d \<le> d_tick d'" .
  obtain r1 d1 where rm: "remove_restore_targets f es d = (r1, d1)" by fastforce
  obtain r2 d2 where ap: "apply_restore_entries f inject staging es d1 = (r2, d2)" by fastforce
  from keepsD [OF kt(1) rm] have f1: "frame (targets es) (d_root d) (d_root d1)" and t1: "d_tick d \<le> d_tick d1" by simp_all
  from keepsD [OF kt(2) ap] have t2: "d_tick d1 \<le> d_tick d2" by simp
  have st: "node_at (d_root d1) (staged_path staging e) = node_at n (re_from e)" "node_at n (re_from e) \<noteq> None" if e: "e \<in> set es" for e
  proof -
    have "apart (re_target a) (staged_path staging e)" if "a \<in> set es" for a
      using apart_append [OF rd(7) [OF that], of _ "[]"] rd(1) [OF e] by (auto intro: apart_sym)
    then have "node_at (d_root d1) (staged_path staging e) = node_at (d_root d) (staged_path staging e)"
      by (intro frame_apart [OF f1]) auto
    then show "node_at (d_root d1) (staged_path staging e) = node_at n (re_from e)" "node_at n (re_from e) \<noteq> None"
      using prep e by (auto simp: prepared_def)
  qed
  have "copies_ready (d_root d1) staging (targets es) es" if "\<forall>e\<in>set es. node_at (d_root d1) (re_target e) = None"
    unfolding copies_ready_def list_all_iff
  proof (intro conjI ballI)
    fix e assume e: "e \<in> set es"
    show "placeable (d_root d1) (re_target e)"
      using pairwise_apart [OF b(9) _ e] by (intro placeable_frame [OF prepared_targets(2) [OF ready prep e] f1]) auto
    show "apart staging (re_target e)" using rd(7) [OF e] .
    show "case node_at (d_root d1) (staged_path staging e) of None \<Rightarrow> True | Some m \<Rightarrow> distinct_names m"
      using st [OF e] b(4) by (auto split: option.splits intro: distinct_names_node_at)
  qed (use that in auto)
  then have ok: "copies_ready (d_root d1) staging (targets es) es" if "r1 = Inr ()"
    using removed [OF ready rm] that by auto
  note a = applied [OF ready ok _ ap, unfolded st]
  show "x = rels \<and> (\<forall>e\<in>set es. node_at (d_root d') (re_target e) = node_at n (re_from e))" if R: "r = Inr x"
  proof -
    have "r1 = Inr ()" "r2 = Inr ()" "d' = d2" "x = rels"
      using run R rm ap by (auto simp: thenF_def bindF_def split: sum.splits)
    with a(1) st show ?thesis by auto
  qed
  show "fault_met f d d' \<or> py_strip inject \<noteq> []" if R: "r = Inl y"
  proof (cases r1)
    case (Inl z)
    with removed [OF ready rm] run rm show ?thesis by (auto simp: thenF_def bindF_def)
  next
    case (Inr u)
    with run rm R ap have "r2 = Inl y" "d' = d2" by (auto simp: thenF_def bindF_def split: sum.splits)
    with a(2) Inr st t1 show ?thesis by (auto intro: fault_met_later)
  qed
qed

text \<open>\<open>restore_entries\<close> in three parts: preparation, replacement and rollback.\<close>

definition replace_targets :: "faults \<Rightarrow> string \<Rightarrow> path \<Rightarrow> restore_entry list \<Rightarrow> string list \<Rightarrow> string list fs" where
  "replace_targets f inject staging es rels =
     thenF (remove_restore_targets f es) (thenF (apply_restore_entries f inject staging es) (retF rels))"

definition roll_back :: "faults \<Rightarrow> path \<Rightarrow> restore_entry list \<Rightarrow> unit fs" where
  "roll_back f backup es = thenF (remove_restore_targets f es) (restore_backup f backup es)"

lemma restore_entries_parts:
  "restore_entries f inject staging backup es = guardedF
     (thenF (stage_restore_entries f staging es) (bindF (backup_restore_targets f backup es) (replace_targets f inject staging es)))
     (roll_back f backup es) (clean_up f staging backup)"
  by (simp add: restore_entries_def replace_targets_def [abs_def] roll_back_def clean_up_def)

lemma replaced:
  assumes "restore_ready n staging backup es" "prepared n staging backup es (d_root d)"
    "replace_targets f inject staging es rels d = (r, d')"
  shows "frame (targets es) (d_root d) (d_root d') \<and> d_tick d \<le> d_tick d'"
    "r = Inr x \<Longrightarrow> x = rels \<and> (\<forall>e\<in>set es. node_at (d_root d') (re_target e) = node_at n (re_from e))"
    "r = Inl y \<Longrightarrow> fault_met f d d' \<or> py_strip inject \<noteq> []"
  using remove_apply [OF assms(1,2) assms(3) [unfolded replace_targets_def]] by blast+

lemma keeps_roll_back:
  assumes "restore_ready n staging backup es"
  shows "keeps (targets es) (roll_back f backup es)"
  unfolding roll_back_def by (intro keeps_intros keeps_targets [OF assms])

text \<open>Cleaning up leaves the targets alone.\<close>

lemma cleaned_targets:
  assumes ready: "restore_ready n staging backup es" and "clean_up f staging backup d = (r, d')" "e \<in> set es"
  shows "node_at (d_root d') (re_target e) = node_at (d_root d) (re_target e)"
  using cleaned(1) [OF assms(2)] ready_basics(3) [OF ready] readyD(7,8) [OF ready assms(3)]
  by (intro frame_apart [of "[staging, backup]"]) auto

text \<open>A restore that returns.\<close>

lemma restore_returns:
  assumes ready: "restore_ready (d_root d) staging backup es"
    and run: "restore_entries f inject staging backup es d = (Inr rels, d')"
  shows "\<forall>e\<in>set es. node_at (d_root d') (re_target e) = node_at (d_root d) (re_from e) \<and> node_at (d_root d) (re_from e) \<noteq> None"
    "rels = map re_source (present (d_root d) es)"
    "node_at (d_root d') staging = None" "node_at (d_root d') backup = None"
    "frame (staging # backup # targets es) (d_root d) (d_root d')"
proof -
  from run obtain d3 where m: "thenF (stage_restore_entries f staging es)
      (bindF (backup_restore_targets f backup es) (replace_targets f inject staging es)) d = (Inr rels, d3)"
    and c: "clean_up f staging backup d3 = (Inr (), d')"
    by (auto simp: restore_entries_parts guardedF_def split: prod.splits sum.splits)
  from m obtain d1 ow d2 where st: "stage_restore_entries f staging es d = (Inr (), d1)"
    and bk: "backup_restore_targets f backup es d1 = (Inr ow, d2)"
    and rep: "replace_targets f inject staging es ow d2 = (Inr rels, d3)"
    by (auto simp: thenF_Inr bindF_Inr)
  note p = prepare [OF ready st bk]
  note r = replaced [OF ready p(1) rep]
  note cl = cleaned [OF c ready_basics(3) [OF ready]]
  show "rels = map re_source (present (d_root d) es)" using r(2) p(2) by simp
  show "node_at (d_root d') staging = None" "node_at (d_root d') backup = None" using cl(2) by auto
  show "\<forall>e\<in>set es. node_at (d_root d') (re_target e) = node_at (d_root d) (re_from e) \<and> node_at (d_root d) (re_from e) \<noteq> None"
    using r(2) p(1) cleaned_targets [OF ready c] by (auto simp: prepared_def)
  have "frame (staging # backup # targets es) (d_root d) (d_root d2)"
    using p(1) by (auto simp: prepared_def intro: frame_mono)
  moreover have "frame (staging # backup # targets es) (d_root d2) (d_root d3)" using r(1) by (auto intro: frame_mono)
  moreover have "frame (staging # backup # targets es) (d_root d3) (d_root d')" using cl(1) by (auto intro: frame_mono)
  ultimately show "frame (staging # backup # targets es) (d_root d) (d_root d')" by (blast intro: frame_trans)
qed

text \<open>At most one operation fails; the injected failure of the tests counts as one.\<close>

definition one_failure :: "faults \<Rightarrow> string \<Rightarrow> bool" where
  "one_failure f inject = ((\<forall>j k. f j \<noteq> None \<and> f k \<noteq> None \<longrightarrow> j = k) \<and> (py_strip inject \<noteq> [] \<longrightarrow> (\<forall>k. f k = None)))"

lemma one_failure_met:
  assumes "one_failure f inject" "fault_met f d d' \<or> py_strip inject \<noteq> []"
  shows "\<forall>k\<ge>d_tick d'. f k = None"
  using assms unfolding one_failure_def fault_met_def by (metis leD)

text \<open>Once everything is backed up, a restore replaces every target or none.\<close>

lemma restore_all_or_nothing:
  assumes ready: "restore_ready (d_root d) staging backup es"
    and st: "stage_restore_entries f staging es d = (Inr (), d1)" and bk: "backup_restore_targets f backup es d1 = (Inr ow, d2)"
    and once: "one_failure f inject" and run: "restore_entries f inject staging backup es d = (r, d')"
  shows "(\<forall>e\<in>set es. node_at (d_root d') (re_target e) = node_at (d_root d) (re_from e)) \<or>
    (\<exists>x. r = Inl x) \<and> (\<forall>e\<in>set es. node_at (d_root d') (re_target e) = node_at (d_root d) (re_target e))"
proof -
  note p = prepare [OF ready st bk]
  obtain r3 d3 where rep: "replace_targets f inject staging es ow d2 = (r3, d3)" by fastforce
  note rp = replaced [OF ready p(1) rep]
  obtain r4 d4 where rb: "roll_back f backup es d3 = (r4, d4)" by fastforce
  obtain r5 d5 where c3: "clean_up f staging backup d3 = (r5, d5)" by fastforce
  obtain r6 d6 where c4: "clean_up f staging backup d4 = (r6, d6)" by fastforce
  have m: "thenF (stage_restore_entries f staging es)
      (bindF (backup_restore_targets f backup es) (replace_targets f inject staging es)) d = (r3, d3)"
    by (simp add: thenF_def bindF_def st bk rep)
  show ?thesis
  proof (cases r3)
    case (Inr x)
    then have "d' = d5" using run m c3 by (auto simp: restore_entries_parts guardedF_def split: sum.splits)
    with rp(2) [OF Inr] cleaned_targets [OF ready c3] show ?thesis by simp
  next
    case (Inl x)
    then have out: "d' = d6" "\<exists>x. r = Inl x"
      using run m rb c4 by (auto simp: restore_entries_parts guardedF_def split: sum.splits)
    have quiet: "\<forall>k\<ge>d_tick d3. f k = None" using one_failure_met [OF once rp(3) [OF Inl]] .
    have clean: "distinct_names y" if "e \<in> set es" "node_at (d_root d2) (staged_path backup e) = Some y" for e y
      using that p(1) ready_basics(4) [OF ready] by (auto simp: prepared_def intro: distinct_names_node_at)
    have fr: "frame (targets es) (d_root d2) (d_root d3)" using rp(1) by simp
    have "node_at (d_root d4) (re_target e) = node_at (d_root d2) (staged_path backup e)" if e: "e \<in> set es" for e
      by (rule rolled_back(2) [OF ready fr prepared_targets(2) [OF ready p(1)] clean quiet rb [unfolded roll_back_def] e])
    with p(1) cleaned_targets [OF ready c4] have "\<forall>e\<in>set es. node_at (d_root d') (re_target e) = node_at (d_root d) (re_target e)"
      by (auto simp: out prepared_def)
    with out show ?thesis by simp
  qed
qed

text \<open>
  A restore that fails while staging: the \<open>except\<close> branch removes the targets, and there is no
  backup to put back yet.
\<close>

lemma restore_staging_failure:
  assumes ready: "restore_ready (d_root d) staging backup es"
    and st: "stage_restore_entries f staging es d = (Inl x, d1)" and quiet: "\<forall>k\<ge>d_tick d1. f k = None"
    and run: "restore_entries f inject staging backup es d = (r, d')"
  shows "r = Inl x \<and> (\<forall>e\<in>set es. node_at (d_root d') (re_target e) = None)"
proof -
  note b = ready_basics [OF ready] and rd = readyD [OF ready]
  from keepsD [OF keeps_stage [OF ready] st] have f1: "frame [staging] (d_root d) (d_root d1)" by simp
  obtain r2 d2 where rb: "roll_back f backup es d1 = (r2, d2)" by fastforce
  obtain r3 d3 where c: "clean_up f staging backup d2 = (r3, d3)" by fastforce
  obtain r4 d4 where rm: "remove_restore_targets f es d1 = (r4, d4)" by fastforce
  have r4: "r4 = Inr ()" and gone: "\<forall>e\<in>set es. node_at (d_root d4) (re_target e) = None"
    using removed [OF ready rm] no_fault_met [OF quiet] by auto
  from keepsD [OF keeps_targets(1) [OF ready] rm] have f4: "frame (targets es) (d_root d1) (d_root d4)" and t4: "d_tick d1 \<le> d_tick d4" by simp_all
  have absent: "\<not> path_exists (d_root d4) (staged_path backup e)" if e: "e \<in> set es" for e
  proof -
    have "node_at (d_root d1) backup = node_at (d_root d) backup" using b(3) by (intro frame_apart [OF f1]) auto
    moreover have "node_at (d_root d4) backup = node_at (d_root d1) backup"
      using rd(8) by (intro frame_apart [OF f4]) (auto intro: apart_sym)
    ultimately show ?thesis using b(8) by (simp add: path_exists_def rd(1) [OF e] node_at_append)
  qed
  have ap: "apart (re_target a) (staged_path backup e)" if "a \<in> set es" "e \<in> set es" for a e
    using apart_append [OF rd(8) [OF that(1)], of _ "[]"] rd(1) [OF that(2)] by (auto intro: apart_sym)
  from absent have "filter (\<lambda>e. path_exists (d_root d4) (staged_path backup e)) es = []" by (simp add: filter_False)
  with copy_present [of es re_target "staged_path backup" f d4, OF ap] rd(5)
  have "restore_backup f backup es d4 = (Inr (), d4)" by (simp add: restore_backup_def)
  with rb rm r4 have out: "r2 = Inr ()" "d2 = d4" by (auto simp: roll_back_def thenF_def bindF_def)
  from cleaned(2) [OF c b(3)] no_fault_met [of d2 f d3] quiet t4 out have "r3 = Inr ()" by auto
  with run st rb c out have "r = Inl x" "d' = d3" by (auto simp: restore_entries_parts guardedF_def thenF_def bindF_def)
  with gone cleaned_targets [OF ready c] out show ?thesis by simp
qed

text \<open>Without failures a restore returns.\<close>

lemma restore_succeeds:
  assumes ready: "restore_ready (d_root d) staging backup es" and quiet: "\<forall>k. f k = None" and "py_strip inject = []"
    and src: "\<forall>e\<in>set es. node_at (d_root d) (re_from e) \<noteq> None"
  shows "\<exists>rels d'. restore_entries f inject staging backup es d = (Inr rels, d')"
proof -
  have no: "\<not> fault_met f a b" for a b using quiet by (simp add: fault_met_def)
  obtain r1 d1 where st: "stage_restore_entries f staging es d = (r1, d1)" by fastforce
  with staged(2) [OF ready st _ src] no have r1: "r1 = Inr ()" by (cases r1) auto
  from keepsD [OF keeps_stage [OF ready] st] have f1: "frame [staging] (d_root d) (d_root d1)" by simp
  obtain r2 d2 where bk: "backup_restore_targets f backup es d1 = (r2, d2)" by fastforce
  with backed_up(4) [OF ready f1 bk] no obtain ow where r2: "r2 = Inr ow" by (cases r2) auto
  note p = prepare [OF ready st [unfolded r1] bk [unfolded r2]]
  obtain r3 d3 where rep: "replace_targets f inject staging es ow d2 = (r3, d3)" by fastforce
  with replaced(3) [OF ready p(1) rep] no assms(3) obtain rels where r3: "r3 = Inr rels" by (cases r3) auto
  obtain r4 d4 where c: "clean_up f staging backup d3 = (r4, d4)" by fastforce
  with cleaned(2) [OF c ready_basics(3) [OF ready]] no have r4: "r4 = Inr ()" by blast
  show ?thesis
    by (simp add: restore_entries_parts guardedF_def thenF_def bindF_def st r1 bk r2 rep r3 c r4)
qed

end
