(* ===== verification/ArchiveSafety.thy ===== *)
theory ArchiveSafety
  imports Restoring
begin

text \<open>
  Restoring an archive into a project: the layouts and file trees considered, the entries that
  \<open>restore_reset_archive\<close> plans, and what it guarantees about the campaign's files.
\<close>

subsection \<open>Paths as text\<close>

definition plain_name :: "string \<Rightarrow> bool" where
  "plain_name c = (c \<noteq> '''' \<and> CHR ''/'' \<notin> set c \<and> c \<noteq> ''.'' \<and> c \<noteq> ''..'')"

lemma split_join: "p \<noteq> [] \<Longrightarrow> list_all plain_name p \<Longrightarrow> split_on CHR ''/'' (join_parts p) = p"
  by (induction p rule: join_parts.induct) (auto simp: plain_name_def split_on_fresh split_on_append)

lemma parts_join: "list_all plain_name p \<Longrightarrow> path_parts (join_parts p) = p"
  by (cases "p = []") (auto simp: path_parts_def split_join list_all_iff plain_name_def intro!: filter_True)

lemma join_relative: "p \<noteq> [] \<Longrightarrow> list_all plain_name p \<Longrightarrow> join_parts p \<noteq> [] \<and> hd (join_parts p) \<noteq> CHR ''/''"
  by (induction p rule: join_parts.induct) (auto simp: plain_name_def hd_append dest: hd_in_set)

lemma relative_below: "q \<noteq> [] \<Longrightarrow> relative_path b (b @ q) = join_parts q"
  by (simp add: relative_path_def)

lemma under_join: "p \<noteq> [] \<Longrightarrow> list_all plain_name p \<Longrightarrow> path_under b (join_parts p) = b @ p"
  using join_relative by (simp add: path_under_def parts_join)

lemma join_inject: "list_all plain_name p \<Longrightarrow> list_all plain_name q \<Longrightarrow> join_parts p = join_parts q \<longleftrightarrow> p = q"
  by (metis parts_join)

subsection \<open>Projects\<close>

text \<open>
  The layouts considered: every runtime file lies inside the project, none inside another, and
  none is near the directories a reset or a restore works in. The default layout is one.
\<close>

definition project_layout :: "layout \<Rightarrow> string \<Rightarrow> bool" where
  "project_layout l nonce = (let ps = map snd (reset_artifact_paths l) in
     list_all (\<lambda>p. strict_prefix (l_root l) p \<and> list_all plain_name p \<and> apart (reset_archives_root l) p \<and>
       apart (staging_dir l nonce) p \<and> apart (backup_dir l nonce) p \<and>
       apart (l_root l @ [''archive_manifest.json'']) p) ps \<and>
     sorted_wrt apart ps \<and> list_all plain_name (l_state_file l))"

definition project_tree :: "layout \<Rightarrow> string \<Rightarrow> node \<Rightarrow> bool" where
  "project_tree l nonce n = (distinct_names n \<and> node_at n (staging_dir l nonce) = None \<and> node_at n (backup_dir l nonce) = None \<and>
     list_all (\<lambda>p. placeable n p) (map snd (reset_artifact_paths l)))"

text \<open>The paths a manifest names stay in its archive.\<close>

definition confined :: "path \<Rightarrow> restore_entry list \<Rightarrow> bool" where
  "confined arch es = list_all (\<lambda>e. prefix arch (re_from e) \<and> ''..'' \<notin> set (re_from e)) es"

lemma artifactD:
  assumes "project_layout l nonce" "(label, p) \<in> set (reset_artifact_paths l)"
  obtains q where "p = l_root l @ q" "q \<noteq> []" "list_all plain_name q" "relative_path (l_root l) p = join_parts q"
    "path_under b (relative_path (l_root l) p) = b @ q" "''..'' \<notin> set p"
    "apart (reset_archives_root l) p" "apart (staging_dir l nonce) p" "apart (backup_dir l nonce) p" "apart [''archive_manifest.json''] q"
proof -
  from assms have p: "strict_prefix (l_root l) p" "list_all plain_name p" "apart (reset_archives_root l) p"
    "apart (staging_dir l nonce) p" "apart (backup_dir l nonce) p" "apart (l_root l @ [''archive_manifest.json'']) p"
    by (auto simp: project_layout_def Let_def list_all_iff)
  from p(1) obtain q where q: "p = l_root l @ q" "q \<noteq> []" by (auto elim: strict_prefixE')
  with p(2) have pl: "list_all plain_name q" by simp
  have "''..'' \<notin> set p" using p(2) by (auto simp: list_all_iff plain_name_def)
  with that [of q] q pl p show thesis by (simp add: relative_below under_join)
qed

lemma artifacts_apart:
  assumes "project_layout l nonce" "a \<in> set (reset_artifact_paths l)" "b \<in> set (reset_artifact_paths l)" "snd a \<noteq> snd b"
  shows "apart (snd a) (snd b)"
  using assms pairwise_apart [of snd "reset_artifact_paths l" a b] by (auto simp: project_layout_def Let_def sorted_wrt_map)

lemma working_dirs:
  assumes "project_layout l nonce"
  shows "apart (staging_dir l nonce) (backup_dir l nonce)" "apart (staging_dir l nonce) (reset_archives_root l)"
    "apart (backup_dir l nonce) (reset_archives_root l)" "''..'' \<notin> set (staging_dir l nonce)" "''..'' \<notin> set (backup_dir l nonce)"
    "''..'' \<notin> set (reset_archives_root l)"
proof -
  have "''..'' \<notin> set (butlast (l_state_file l))"
    using assms by (auto simp: project_layout_def Let_def list_all_iff plain_name_def dest: in_set_butlastD)
  then show "''..'' \<notin> set (staging_dir l nonce)" "''..'' \<notin> set (backup_dir l nonce)" "''..'' \<notin> set (reset_archives_root l)"
    by (auto simp: staging_dir_def backup_dir_def reset_archives_root_def)
qed (simp_all add: staging_dir_def backup_dir_def reset_archives_root_def)

subsection \<open>The planned entries\<close>

definition planned_entry :: "layout \<Rightarrow> restore_entry \<Rightarrow> bool" where
  "planned_entry l e = ((re_label e, re_target e) \<in> set (restorable_artifact_paths l) \<and>
     re_source e = relative_path (l_root l) (re_target e))"

lemma map_of_dict_of_mem: "map_of (dict_of ps) k = Some v \<Longrightarrow> (k, v) \<in> set ps"
  by (auto simp: dict_of_def map_of_dict_update dest!: map_of_SomeD split: option.splits)

lemma collect_entries_planned:
  assumes "collect_entries l arch items es ig k = (es', ig', k')" "list_all (planned_entry l) es" "distinct (map re_source es)"
  shows "list_all (planned_entry l) es' \<and> distinct (map re_source es')"
  using assms
proof (induction l arch items es ig k rule: collect_entries.induct)
  case (2 l arch it items es ig k)
  let ?look = "map_of (restorable_path_map l) (it_source it)"
  show ?case
  proof (cases "it_source it = [] \<or> it_archive it = [] \<or> List.member (ignored_restore_paths l) (it_source it) \<or>
      List.member (map re_source es) (it_source it) \<or> ?look = None")
    case True
    with 2 show ?thesis by (auto split: if_splits)
  next
    case False
    then obtain label target where look: "?look = Some (label, target)" by auto
    let ?e = "\<lparr>re_label = label, re_source = it_source it, re_archive = it_archive it, re_type = it_type it,
      re_from = path_under arch (it_archive it), re_target = target\<rparr>"
    from map_of_dict_of_mem [OF look [unfolded restorable_path_map_def]] have "planned_entry l ?e"
      by (auto simp: planned_entry_def)
    moreover have "it_source it \<notin> re_source ` set es" using False by simp
    ultimately show ?thesis using 2 False look by auto
  qed
qed simp

lemma planned_ready:
  assumes lay: "project_layout l nonce" and tree: "project_tree l nonce n" and st: "is_folder n (reset_archives_root l)"
    and es: "list_all (planned_entry l) es" "distinct (map re_source es)"
    and "prefix (reset_archives_root l) arch" "confined arch es"
  shows "restore_ready n (staging_dir l nonce) (backup_dir l nonce) es"
proof -
  note w = working_dirs [OF lay]
  have art: "(re_label e, re_target e) \<in> set (reset_artifact_paths l)" "re_source e = relative_path (l_root l) (re_target e)"
    if "e \<in> set es" for e
    using that es(1) by (auto simp: list_all_iff planned_entry_def restorable_artifact_paths_def)
  have pl: "placeable n (butlast (l_state_file l) @ [c])" for c
    unfolding placeable_iff
  proof (intro allI impI)
    fix q assume "strict_prefix q (butlast (l_state_file l) @ [c])"
    then have "strict_prefix q (reset_archives_root l)" by (auto simp: reset_archives_root_def strict_prefix_def)
    then show "view n q = None \<or> is_folder n q" using st view_above [of n "reset_archives_root l" q] by (simp add: is_folder_def)
  qed
  have each: "re_source e \<noteq> [] \<and> hd (re_source e) \<noteq> CHR ''/'' \<and> ''..'' \<notin> set (path_parts (re_source e)) \<and>
       ''..'' \<notin> set (re_from e) \<and> ''..'' \<notin> set (re_target e) \<and>
       apart (staging_dir l nonce) (re_from e) \<and> apart (staging_dir l nonce) (re_target e) \<and>
       apart (backup_dir l nonce) (re_target e) \<and> placeable n (re_target e)" if e: "e \<in> set es" for e
  proof -
    obtain q where q: "re_target e = l_root l @ q" "q \<noteq> []" "list_all plain_name q"
      "relative_path (l_root l) (re_target e) = join_parts q" "''..'' \<notin> set (re_target e)"
      "apart (staging_dir l nonce) (re_target e)" "apart (backup_dir l nonce) (re_target e)"
      using artifactD [OF lay art(1) [OF e]] by metis
    have c: "prefix arch (re_from e)" "''..'' \<notin> set (re_from e)" using assms(7) e by (auto simp: confined_def list_all_iff)
    have "apart (staging_dir l nonce) (re_from e)"
      using apart_below [OF w(2), of "staging_dir l nonce" "re_from e"] assms(6) c(1) by (metis prefix_order.refl prefix_order.trans)
    moreover have "placeable n (re_target e)" using tree art(1) [OF e] by (auto simp: project_tree_def list_all_iff)
    ultimately show ?thesis
      using join_relative [OF q(2,3)] q c by (simp add: art(2) [OF e] parts_join)
  qed
  have pair: "apart (re_target a) (re_target b) \<and> apart (path_parts (re_source a)) (path_parts (re_source b))"
    if ab: "a \<in> set es" "b \<in> set es" "re_source a \<noteq> re_source b" for a b
  proof -
    obtain qa where qa: "re_target a = l_root l @ qa" "list_all plain_name qa" "relative_path (l_root l) (re_target a) = join_parts qa"
      using artifactD [OF lay art(1) [OF ab(1)]] by metis
    obtain qb where qb: "re_target b = l_root l @ qb" "list_all plain_name qb" "relative_path (l_root l) (re_target b) = join_parts qb"
      using artifactD [OF lay art(1) [OF ab(2)]] by metis
    have "re_target a \<noteq> re_target b" using ab art(2) by metis
    with artifacts_apart [OF lay art(1) [OF ab(1)] art(1) [OF ab(2)]] have "apart (re_target a) (re_target b)" by simp
    with qa qb show ?thesis by (simp add: art(2) [OF ab(1)] art(2) [OF ab(2)] parts_join)
  qed
  have "sorted_wrt (\<lambda>a b. apart (re_target a) (re_target b) \<and> apart (path_parts (re_source a)) (path_parts (re_source b))) es"
    using es(2) pair by (induction es) (auto simp: image_iff)
  then have "sorted_wrt (\<lambda>a b. apart (re_target a) (re_target b)) es"
    "sorted_wrt (\<lambda>a b. apart (path_parts (re_source a)) (path_parts (re_source b))) es"
    by (auto elim: sorted_wrt_mono_rel [rotated])
  moreover have "placeable n (staging_dir l nonce)" "placeable n (backup_dir l nonce)"
    unfolding staging_dir_def backup_dir_def by (rule pl)+
  ultimately show ?thesis using each w(1,4,5) tree
    by (simp add: restore_ready_def project_tree_def list_all_iff)
qed

lemma collect_entries_from:
  assumes "collect_entries l arch items es ig k = (es', ig', k')"
  shows "set es' \<subseteq> set es \<union> {e. \<exists>it\<in>set items. re_from e = path_under arch (it_archive it)}"
  using assms
proof (induction l arch items es ig k rule: collect_entries.induct)
  case (2 l arch it items es ig k)
  then show ?case by (simp split: if_splits option.splits prod.splits) (fastforce+)?
qed simp

lemma plan_restoreD:
  assumes "plan_restore loads l i n = Inr (arch, a, es, ignored)"
  obtains c where "arch = reset_archives_root l @ [c]" "is_folder n arch" "is_folder n (reset_archives_root l)"
    "inspect_reset_archive loads l n arch = Inr a" "in_status a = Intact \<or> in_status a = LegacyArchive"
    "list_all (planned_entry l) es" "distinct (map re_source es)" "es \<noteq> []"
    "\<And>e. e \<in> set es \<Longrightarrow> \<exists>it\<in>set (in_entries a). re_from e = path_under arch (it_archive it)"
proof -
  from assms have r: "resolve_reset_archive l n i = Inr arch" and ins: "inspect_reset_archive loads l n arch = Inr a"
    and status: "in_status a = Intact \<or> in_status a = LegacyArchive" and b: "build_restore_entries l arch (in_entries a) = Inr (es, ignored)"
    by (auto simp: plan_restore_def return_iff split: if_splits)
  from r have arch: "arch = reset_archives_root l @ [py_strip i]" and fo: "is_folder n arch"
    by (auto simp: resolve_reset_archive_def Let_def split: if_splits)
  have "is_folder n (reset_archives_root l)"
    using fo view_above [of n arch "reset_archives_root l"] by (auto simp: is_folder_def arch strict_prefix_def)
  moreover obtain ig k where c: "collect_entries l arch (in_entries a) [] [] 0 = (es, ig, k)" and "es \<noteq> []"
    using b by (auto simp: build_restore_entries_def split: prod.splits if_splits)
  ultimately show thesis
    using that arch fo ins status collect_entries_planned [OF c] collect_entries_from [OF c] by auto
qed

lemma item_path:
  assumes "inspect_reset_archive loads l n arch = Inr a" "in_status a = Intact \<or> in_status a = LegacyArchive"
    "it \<in> set (in_entries a)" "''..'' \<notin> set (path_under arch (it_archive it))"
  shows "node_at n (path_under arch (it_archive it)) \<noteq> None"
proof (cases "path_exists n (manifest_path arch)")
  case True
  then obtain created src items where a: "in_entries a = items" "missing_items n arch items = []"
    using assms(1,2) by (auto simp: inspect_reset_archive_def split: sum.splits if_splits)
  with assms(3,4) show ?thesis by (auto simp: missing_items_def filter_empty_conv resolve_at_plain)
next
  case False
  with assms(1) have "a = inspect_legacy_reset_archive l n arch" by (simp add: inspect_reset_archive_def)
  with assms(3) show ?thesis by (auto simp: inspect_legacy_reset_archive_def path_exists_def Let_def)
qed

text \<open>What a plan gives: entries of the campaign's own files, ready to be restored.\<close>

lemma plan_ready:
  assumes "project_layout l nonce" "project_tree l nonce n" "plan_restore loads l i n = Inr (arch, a, es, ignored)" "confined arch es"
  shows "restore_ready n (staging_dir l nonce) (backup_dir l nonce) es" "\<forall>e\<in>set es. node_at n (re_from e) \<noteq> None"
proof -
  obtain c where p: "arch = reset_archives_root l @ [c]" "is_folder n (reset_archives_root l)"
    "inspect_reset_archive loads l n arch = Inr a" "in_status a = Intact \<or> in_status a = LegacyArchive"
    "list_all (planned_entry l) es" "distinct (map re_source es)"
    "\<And>e. e \<in> set es \<Longrightarrow> \<exists>it\<in>set (in_entries a). re_from e = path_under arch (it_archive it)"
    by (rule plan_restoreD [OF assms(3)]) (rule that)
  show "restore_ready n (staging_dir l nonce) (backup_dir l nonce) es"
    by (rule planned_ready [OF assms(1,2) p(2,5,6) _ assms(4)]) (simp add: p(1))
  show "\<forall>e\<in>set es. node_at n (re_from e) \<noteq> None"
  proof
    fix e assume e: "e \<in> set es"
    then obtain it where it: "it \<in> set (in_entries a)" "re_from e = path_under arch (it_archive it)" using p(7) by blast
    have "''..'' \<notin> set (re_from e)" using assms(4) e by (simp add: confined_def list_all_iff)
    with item_path [OF p(3,4) it(1)] it(2) show "node_at n (re_from e) \<noteq> None" by simp
  qed
qed

lemma restore_run:
  assumes "plan_restore loads l i (d_root d) = Inr (arch, a, es, ignored)"
  shows "restore_reset_archive f loads inject nonce l i d =
    (case restore_entries f inject (staging_dir l nonce) (backup_dir l nonce) es d of
       (Inl e, d') \<Rightarrow> (Inl e, d')
     | (Inr ow, d') \<Rightarrow> (Inr \<lparr>rr_id = in_id a, rr_rel = relative_path (l_root l) arch, rr_legacy = in_legacy a,
         rr_status = in_status a, rr_restored = map re_source es, rr_overwritten = ow, rr_ignored = ignored\<rparr>, d'))"
  using assms by (simp add: restore_reset_archive_def bindF_def getF_def liftF_def split: prod.splits sum.splits)

subsection \<open>A project to restore\<close>

definition demo_layout :: layout where
  "demo_layout = (let st = (\<lambda>c. [''p'', ''state'', c]) in
     \<lparr>l_root = [''p''], l_state_file = st ''bo_state.json'', l_observations_csv = st ''observations.csv'',
      l_acquisition_log = st ''acquisition_log.jsonl'', l_event_log = st ''event_log.jsonl'', l_lock_file = st ''.looptimum.lock'',
      l_report_json = st ''report.json'', l_report_md = st ''report.md'', l_trials_dir = st ''trials'',
      l_optimizer_dir = Some (st ''optimizer'')\<rparr>)"

text \<open>A campaign with an archive of an earlier one; the archive is from before manifests were written.\<close>

definition demo_tree :: node where
  "demo_tree = Folder [(''p'', Folder [(''state'', Folder
     [(''bo_state.json'', RegFile ''new''),
      (''reset_archives'', Folder [(''r1'', Folder [(''state'', Folder
         [(''bo_state.json'', RegFile ''old''), (''trials'', Folder [(''trial_1'', RegFile ''m'')])])])])])])]"

definition demo_disk :: disk where
  "demo_disk = \<lparr>d_root = demo_tree, d_tick = 0\<rparr>"

lemma demo_project: "project_layout demo_layout ''7'' \<and> project_tree demo_layout ''7'' demo_tree"
  by code_simp

definition demo_entry :: "string \<Rightarrow> string \<Rightarrow> string \<Rightarrow> restore_entry" where
  "demo_entry label c t = \<lparr>re_label = label, re_source = ''state/'' @ c, re_archive = ''state/'' @ c, re_type = t,
     re_from = [''p'', ''state'', ''reset_archives'', ''r1'', ''state'', c], re_target = [''p'', ''state'', c]\<rparr>"

definition demo_entries :: "restore_entry list" where
  "demo_entries = [demo_entry ''state_file'' ''bo_state.json'' ''file'', demo_entry ''trials_dir'' ''trials'' ''directory'']"

definition demo_archive :: inspection where
  "demo_archive = inspect_legacy_reset_archive demo_layout demo_tree [''p'', ''state'', ''reset_archives'', ''r1'']"

lemma demo_plan: "plan_restore loads demo_layout ''r1'' demo_tree =
    Inr ([''p'', ''state'', ''reset_archives'', ''r1''], demo_archive, demo_entries, [])"
proof -
  have "\<not> path_exists demo_tree (manifest_path [''p'', ''state'', ''reset_archives'', ''r1''])" by code_simp
  then have "inspect_reset_archive loads demo_layout demo_tree [''p'', ''state'', ''reset_archives'', ''r1''] = Inr demo_archive"
    by (simp add: inspect_reset_archive_def demo_archive_def)
  moreover have "resolve_reset_archive demo_layout demo_tree ''r1'' = Inr [''p'', ''state'', ''reset_archives'', ''r1'']"
    "build_restore_entries demo_layout [''p'', ''state'', ''reset_archives'', ''r1''] (in_entries demo_archive) = Inr (demo_entries, [])"
    "in_status demo_archive = LegacyArchive"
    by code_simp+
  ultimately show ?thesis by (simp add: plan_restore_def)
qed

lemma demo_confined: "confined [''p'', ''state'', ''reset_archives'', ''r1''] demo_entries"
  by code_simp

abbreviation "no_faults \<equiv> \<lambda>_ :: nat. None :: node option option"

subsection \<open>Guarantees\<close>

lemma restore_result_facts:
  assumes lay: "project_layout l nonce" and tree: "project_tree l nonce (d_root d)"
    and plan: "plan_restore loads l i (d_root d) = Inr (arch, a, es, ignored)" and conf: "confined arch es"
    and run: "restore_reset_archive f loads inject nonce l i d = (Inr r, d')"
  shows "es \<noteq> []" "rr_restored r = map re_source es"
    "rr_overwritten r = map re_source (filter (\<lambda>e. path_exists (d_root d) (re_target e)) es)"
    "\<not> path_exists (d_root d') (staging_dir l nonce)" "\<not> path_exists (d_root d') (backup_dir l nonce)"
    "e \<in> set es \<Longrightarrow> (re_label e, re_target e) \<in> set (restorable_artifact_paths l) \<and>
       node_at (d_root d) (re_from e) \<noteq> None \<and> node_at (d_root d') (re_target e) = node_at (d_root d) (re_from e)"
    "(\<And>e. e \<in> set es \<Longrightarrow> \<not> prefix (re_target e) q) \<Longrightarrow>
       view (d_root d') q = view (d_root d) q \<or> view (d_root d) q = None \<and> view (d_root d') q = Some IsFolder"
proof -
  note ready = plan_ready [OF lay tree plan conf]
  from run obtain ow where out: "restore_entries f inject (staging_dir l nonce) (backup_dir l nonce) es d = (Inr ow, d')"
    and r: "rr_restored r = map re_source es" "rr_overwritten r = ow"
    by (auto simp: restore_run [OF plan] split: prod.splits sum.splits)
  note R = restore_returns [OF ready(1) out]
  show "rr_restored r = map re_source es" by (rule r)
  show "rr_overwritten r = map re_source (filter (\<lambda>e. path_exists (d_root d) (re_target e)) es)"
    using r R(2) by (simp add: present_def)
  show "\<not> path_exists (d_root d') (staging_dir l nonce)" "\<not> path_exists (d_root d') (backup_dir l nonce)"
    using R(3,4) by (simp_all add: path_exists_def)
  have planned: "list_all (planned_entry l) es" "es \<noteq> []" using plan by (auto elim: plan_restoreD)
  show "es \<noteq> []" by (rule planned)
  show "(re_label e, re_target e) \<in> set (restorable_artifact_paths l) \<and>
      node_at (d_root d) (re_from e) \<noteq> None \<and> node_at (d_root d') (re_target e) = node_at (d_root d) (re_from e)" if "e \<in> set es"
    using that planned R(1) by (auto simp: list_all_iff planned_entry_def)
  show "view (d_root d') q = view (d_root d) q \<or> view (d_root d) q = None \<and> view (d_root d') q = Some IsFolder"
    if q: "\<And>e. e \<in> set es \<Longrightarrow> \<not> prefix (re_target e) q"
  proof (cases "prefix (staging_dir l nonce) q \<or> prefix (backup_dir l nonce) q")
    case True
    with R(3,4) ready_basics(7,8) [OF ready(1)] have "view (d_root d) q = None" "view (d_root d') q = None"
      by (metis view_below' view_None_iff)+
    then show ?thesis by simp
  next
    case False
    with q show ?thesis by (intro frame_outside [OF R(5)]) auto
  qed
qed

text \<open>C24: a restore that returns has put the archived contents at every target and nothing else: the
  targets are restorable runtime files of the campaign, what it lists as restored and as overwritten is
  exact, whatever is outside the targets is as before (apart from parent directories it created),
  and its working directories are gone. When no file operation fails, it returns.\<close>

theorem restore_exact:
  assumes "project_layout l nonce" "project_tree l nonce (d_root d)"
    "plan_restore loads l i (d_root d) = Inr (arch, a, es, ignored)" "confined arch es"
    "restore_reset_archive f loads inject nonce l i d = (res, d')"
  shows "((\<forall>k. f k = None) \<and> py_strip inject = [] \<longrightarrow> res_ok res) \<and> (\<forall>r. res = Inr r \<longrightarrow>
      rr_restored r = map re_source es \<and> es \<noteq> [] \<and>
      rr_overwritten r = map re_source (filter (\<lambda>e. path_exists (d_root d) (re_target e)) es) \<and>
      (\<forall>e\<in>set es. (re_label e, re_target e) \<in> set (restorable_artifact_paths l) \<and>
         node_at (d_root d) (re_from e) \<noteq> None \<and> node_at (d_root d') (re_target e) = node_at (d_root d) (re_from e)) \<and>
      (\<forall>q. (\<forall>e\<in>set es. \<not> prefix (re_target e) q) \<longrightarrow>
         view (d_root d') q = view (d_root d) q \<or> view (d_root d) q = None \<and> view (d_root d') q = Some IsFolder) \<and>
      \<not> path_exists (d_root d') (staging_dir l nonce) \<and> \<not> path_exists (d_root d') (backup_dir l nonce))"
proof (rule conjI, rule impI)
  note ready = plan_ready [OF assms(1-4)]
  assume "(\<forall>k. f k = None) \<and> py_strip inject = []"
  then show "res_ok res"
    using restore_succeeds [OF ready(1), of f inject] ready(2) assms(5) by (auto simp: restore_run [OF assms(3)] res_ok_def)
next
  show "\<forall>r. res = Inr r \<longrightarrow> rr_restored r = map re_source es \<and> es \<noteq> [] \<and>
      rr_overwritten r = map re_source (filter (\<lambda>e. path_exists (d_root d) (re_target e)) es) \<and>
      (\<forall>e\<in>set es. (re_label e, re_target e) \<in> set (restorable_artifact_paths l) \<and>
         node_at (d_root d) (re_from e) \<noteq> None \<and> node_at (d_root d') (re_target e) = node_at (d_root d) (re_from e)) \<and>
      (\<forall>q. (\<forall>e\<in>set es. \<not> prefix (re_target e) q) \<longrightarrow>
         view (d_root d') q = view (d_root d) q \<or> view (d_root d) q = None \<and> view (d_root d') q = Some IsFolder) \<and>
      \<not> path_exists (d_root d') (staging_dir l nonce) \<and> \<not> path_exists (d_root d') (backup_dir l nonce)"
  proof (intro allI impI)
    fix r assume "res = Inr r"
    note F = restore_result_facts [OF assms(1-4) assms(5) [unfolded this]]
    show "rr_restored r = map re_source es \<and> es \<noteq> [] \<and>
      rr_overwritten r = map re_source (filter (\<lambda>e. path_exists (d_root d) (re_target e)) es) \<and>
      (\<forall>e\<in>set es. (re_label e, re_target e) \<in> set (restorable_artifact_paths l) \<and>
         node_at (d_root d) (re_from e) \<noteq> None \<and> node_at (d_root d') (re_target e) = node_at (d_root d) (re_from e)) \<and>
      (\<forall>q. (\<forall>e\<in>set es. \<not> prefix (re_target e) q) \<longrightarrow>
         view (d_root d') q = view (d_root d) q \<or> view (d_root d) q = None \<and> view (d_root d') q = Some IsFolder) \<and>
      \<not> path_exists (d_root d') (staging_dir l nonce) \<and> \<not> path_exists (d_root d') (backup_dir l nonce)"
      by (intro conjI allI impI ballI F(1-5) F(6) [THEN conjunct1] F(6) [THEN conjunct2, THEN conjunct1]
          F(6) [THEN conjunct2, THEN conjunct2] F(7)) blast+
  qed
qed

lemma restore_exact_witness:
  "\<exists>r d'. restore_reset_archive no_faults (\<lambda>_. None) '''' ''7'' demo_layout ''r1'' demo_disk = (Inr r, d') \<and>
     rr_overwritten r = [''state/bo_state.json''] \<and> node_at (d_root d') [''p'', ''state'', ''bo_state.json''] = Some (RegFile ''old'')"
proof -
  obtain res d' where run: "restore_reset_archive no_faults (\<lambda>_. None) '''' ''7'' demo_layout ''r1'' demo_disk = (res, d')"
    by fastforce
  have "project_layout demo_layout ''7''" "project_tree demo_layout ''7'' (d_root demo_disk)"
    using demo_project by (simp_all add: demo_disk_def)
  note ex = restore_exact [OF this, unfolded demo_disk_def disk.simps, OF demo_plan demo_confined,
      folded disk.simps demo_disk_def, OF run [folded demo_disk_def]]
  have "py_strip '''' = []" by code_simp
  with ex obtain r where r: "res = Inr r" by (auto simp: res_ok_def split: sum.splits)
  have "map re_source (filter (\<lambda>e. path_exists demo_tree (re_target e)) demo_entries) = [''state/bo_state.json'']"
    "demo_entry ''state_file'' ''bo_state.json'' ''file'' \<in> set demo_entries"
    "node_at demo_tree (re_from (demo_entry ''state_file'' ''bo_state.json'' ''file'')) = Some (RegFile ''old'')"
    "re_target (demo_entry ''state_file'' ''bo_state.json'' ''file'') = [''p'', ''state'', ''bo_state.json'']"
    by code_simp+
  with ex r run show ?thesis by (metis demo_disk_def)
qed

text \<open>C25: once the archive is staged and the targets are backed up, a restore is all or nothing under at
  most one failing file operation, wherever it strikes (the injected failure of the tests is one): at
  the end every target has the archived contents, or the restore raises and every target is as it was.\<close>

theorem restore_atomic:
  assumes "project_layout l nonce" "project_tree l nonce (d_root d)"
    and plan: "plan_restore loads l i (d_root d) = Inr (arch, a, es, ignored)" and "confined arch es"
    and "stage_restore_entries f (staging_dir l nonce) es d = (Inr (), d1)"
    and "backup_restore_targets f (backup_dir l nonce) es d1 = (Inr ow, d2)" and "one_failure f inject"
    and run: "restore_reset_archive f loads inject nonce l i d = (res, d')"
  shows "(\<forall>e\<in>set es. node_at (d_root d') (re_target e) = node_at (d_root d) (re_from e)) \<or>
    \<not> res_ok res \<and> (\<forall>e\<in>set es. node_at (d_root d') (re_target e) = node_at (d_root d) (re_target e))"
proof -
  note ready = plan_ready(1) [OF assms(1,2) plan assms(4)]
  obtain r where out: "restore_entries f inject (staging_dir l nonce) (backup_dir l nonce) es d = (r, d')"
    "res_ok r \<longleftrightarrow> res_ok res"
    using run by (auto simp: restore_run [OF plan] res_ok_def split: prod.splits sum.splits)
  from restore_all_or_nothing [OF ready assms(5,6,7) out(1)] show ?thesis using out(2) by (auto simp: res_ok_def)
qed

text \<open>
  Before that point it is not: when a copy fails while the archive is being staged, the \<open>except\<close>
  branch removes the live files of the campaign and finds no backup to put back.
\<close>

theorem restore_loses_targets:
  assumes "project_layout l nonce" "project_tree l nonce (d_root d)"
    and plan: "plan_restore loads l i (d_root d) = Inr (arch, a, es, ignored)" and "confined arch es"
    and "stage_restore_entries f (staging_dir l nonce) es d = (Inl x, d1)" and "\<forall>k\<ge>d_tick d1. f k = None"
    and run: "restore_reset_archive f loads inject nonce l i d = (res, d')"
  shows "res = Inl x \<and> (\<forall>e\<in>set es. \<not> path_exists (d_root d') (re_target e))"
proof -
  note ready = plan_ready(1) [OF assms(1,2) plan assms(4)]
  obtain r d3 where out: "restore_entries f inject (staging_dir l nonce) (backup_dir l nonce) es d = (r, d3)" by fastforce
  from restore_staging_failure [OF ready assms(5,6) out] run out show ?thesis
    by (auto simp: restore_run [OF plan] path_exists_def)
qed

text \<open>An apply step that fails in the demo project leaves junk, and then the campaign is as it was.\<close>

definition apply_fault :: faults where
  "apply_fault = no_faults(5 := Some (Some (RegFile ''junk'')))"

lemma restore_atomic_witness:
  "\<exists>res d'. restore_reset_archive apply_fault (\<lambda>_. None) '''' ''7'' demo_layout ''r1'' demo_disk = (res, d') \<and>
     \<not> res_ok res \<and> node_at (d_root d') [''p'', ''state'', ''bo_state.json''] = Some (RegFile ''new'')"
proof -
  obtain res d' where run: "restore_reset_archive apply_fault (\<lambda>_. None) '''' ''7'' demo_layout ''r1'' demo_disk = (res, d')"
    by fastforce
  have pr: "project_layout demo_layout ''7''" "project_tree demo_layout ''7'' (d_root demo_disk)"
    using demo_project by (simp_all add: demo_disk_def)
  have plan: "plan_restore (\<lambda>_. None) demo_layout ''r1'' (d_root demo_disk) =
      Inr ([''p'', ''state'', ''reset_archives'', ''r1''], demo_archive, demo_entries, [])"
    by (simp add: demo_disk_def demo_plan)
  obtain x d1 where st: "stage_restore_entries apply_fault (staging_dir demo_layout ''7'') demo_entries demo_disk = (x, d1)" by fastforce
  obtain y d2 where bk: "backup_restore_targets apply_fault (backup_dir demo_layout ''7'') demo_entries d1 = (y, d2)" by fastforce
  have "fst (stage_restore_entries apply_fault (staging_dir demo_layout ''7'') demo_entries demo_disk) = Inr ()"
    "fst (backup_restore_targets apply_fault (backup_dir demo_layout ''7'') demo_entries
       (snd (stage_restore_entries apply_fault (staging_dir demo_layout ''7'') demo_entries demo_disk))) = Inr [''state/bo_state.json'']"
    by code_simp+
  with st bk have x: "x = Inr ()" and y: "y = Inr [''state/bo_state.json'']" by simp_all
  have "one_failure apply_fault ''''"
    by (auto simp: one_failure_def apply_fault_def py_strip_def split: if_splits)
  note at = restore_atomic [OF pr plan demo_confined st [unfolded x] bk [unfolded y] this run]
  have "node_at (d_root (snd (restore_entries apply_fault '''' (staging_dir demo_layout ''7'') (backup_dir demo_layout ''7'') demo_entries demo_disk)))
      [''p'', ''state'', ''trials''] = None"
    by code_simp
  with run have "node_at (d_root d') [''p'', ''state'', ''trials''] = None"
    by (simp add: restore_run [OF plan] split: prod.splits sum.splits)
  moreover have "demo_entry ''trials_dir'' ''trials'' ''directory'' \<in> set demo_entries"
    "re_target (demo_entry ''trials_dir'' ''trials'' ''directory'') = [''p'', ''state'', ''trials'']"
    "node_at (d_root demo_disk) (re_from (demo_entry ''trials_dir'' ''trials'' ''directory'')) \<noteq> None"
    "demo_entry ''state_file'' ''bo_state.json'' ''file'' \<in> set demo_entries"
    "re_target (demo_entry ''state_file'' ''bo_state.json'' ''file'') = [''p'', ''state'', ''bo_state.json'']"
    "node_at (d_root demo_disk) [''p'', ''state'', ''bo_state.json''] = Some (RegFile ''new'')"
    by code_simp+
  ultimately show ?thesis using at run by metis
qed

text \<open>A first copy that fails: the state file was there, and is gone.\<close>

definition stage_fault :: faults where
  "stage_fault = no_faults(0 := Some None)"

lemma restore_loses_campaign:
  "\<exists>d'. restore_reset_archive stage_fault (\<lambda>_. None) '''' ''7'' demo_layout ''r1'' demo_disk = (Inl (OSError ''''), d') \<and>
     path_exists (d_root demo_disk) [''p'', ''state'', ''bo_state.json''] \<and>
     \<not> path_exists (d_root d') [''p'', ''state'', ''bo_state.json'']"
proof -
  have pr: "project_layout demo_layout ''7''" "project_tree demo_layout ''7'' (d_root demo_disk)"
    using demo_project by (simp_all add: demo_disk_def)
  have plan: "plan_restore (\<lambda>_. None) demo_layout ''r1'' (d_root demo_disk) =
      Inr ([''p'', ''state'', ''reset_archives'', ''r1''], demo_archive, demo_entries, [])"
    by (simp add: demo_disk_def demo_plan)
  obtain res d' where run: "restore_reset_archive stage_fault (\<lambda>_. None) '''' ''7'' demo_layout ''r1'' demo_disk = (res, d')" by fastforce
  obtain x d1 where st: "stage_restore_entries stage_fault (staging_dir demo_layout ''7'') demo_entries demo_disk = (x, d1)" by fastforce
  have "fst (stage_restore_entries stage_fault (staging_dir demo_layout ''7'') demo_entries demo_disk) = Inl (OSError '''')"
    "d_tick (snd (stage_restore_entries stage_fault (staging_dir demo_layout ''7'') demo_entries demo_disk)) = 1"
    by code_simp+
  with st have x: "x = Inl (OSError '''')" and "\<forall>k\<ge>d_tick d1. stage_fault k = None" by (auto simp: stage_fault_def)
  from restore_loses_targets [OF pr plan demo_confined st [unfolded x] this(2) run]
  have "res = Inl (OSError '''') \<and> (\<forall>e\<in>set demo_entries. \<not> path_exists (d_root d') (re_target e))" .
  moreover have "demo_entry ''state_file'' ''bo_state.json'' ''file'' \<in> set demo_entries"
    "re_target (demo_entry ''state_file'' ''bo_state.json'' ''file'') = [''p'', ''state'', ''bo_state.json'']"
    "path_exists (d_root demo_disk) [''p'', ''state'', ''bo_state.json'']"
    by code_simp+
  ultimately show ?thesis using run by metis
qed

end
