(* ===== verification/ArchiveCycle.thy ===== *)
theory ArchiveCycle
  imports ArchiveSafety
begin

text \<open>
  Resetting a campaign and restoring it: what \<open>reset\<close> archives and removes, that its archive is
  recognised as intact, and that restoring it brings back every file; and what pruning removes.
\<close>

subsection \<open>Archiving\<close>

definition existing :: "node \<Rightarrow> (string \<times> path) list \<Rightarrow> (string \<times> path) list" where
  "existing n ps = filter (\<lambda>a. path_exists n (snd a)) ps"

abbreviation archived_at :: "layout \<Rightarrow> path \<Rightarrow> string \<times> path \<Rightarrow> path" where
  "archived_at l arch a \<equiv> path_under arch (relative_path (l_root l) (snd a))"

lemma archive_as_copies:
  assumes "\<And>a b. a \<in> set ps \<Longrightarrow> b \<in> set ps \<Longrightarrow> apart (archived_at l arch b) (snd a)"
  shows "archive_each f l arch ps d =
    thenF (forF (\<lambda>a. copy_path_to_archive f (snd a) (archived_at l arch a)) (existing (d_root d) ps))
      (retF (existing (d_root d) ps)) d"
  using assms
proof (induction ps arbitrary: d)
  case Nil
  then show ?case by (simp add: existing_def)
next
  case (Cons a ps)
  obtain label p where a: "a = (label, p)" by fastforce
  show ?case
  proof (cases "path_exists (d_root d) p")
    case True
    obtain r d1 where c: "copy_path_to_archive f p (archived_at l arch a) d = (r, d1)" by fastforce
    have ne: "archived_at l arch a \<noteq> []" using Cons.prems [of a a] by auto
    from keepsD [OF keeps_copy [OF ne] c] have fr: "frame [archived_at l arch a] (d_root d) (d_root d1)" by simp
    have "node_at (d_root d1) (snd b) = node_at (d_root d) (snd b)" if "b \<in> set ps" for b
      using Cons.prems [of b a] that by (intro frame_apart [OF fr]) auto
    then have same: "existing (d_root d1) ps = existing (d_root d) ps"
      unfolding existing_def by (intro filter_cong) (simp_all add: path_exists_def)
    have IH: "archive_each f l arch ps d1 = thenF (forF (\<lambda>a. copy_path_to_archive f (snd a) (archived_at l arch a)) (existing (d_root d1) ps))
      (retF (existing (d_root d1) ps)) d1"
      by (rule Cons.IH) (use Cons.prems in auto)
    show ?thesis using True c
      by (simp add: a thenF_def bindF_def existing_def retF_def getF_def split: sum.splits prod.splits)
        (use IH same in \<open>auto simp: existing_def thenF_def bindF_def retF_def split: prod.splits sum.splits\<close>)
  next
    case False
    with Cons show ?thesis by (simp add: a existing_def)
  qed
qed

lemma remove_each_gone:
  assumes "remove_each f l ps d = (Inr x, d')" "\<And>a. a \<in> set ps \<Longrightarrow> snd a \<noteq> []" "sorted_wrt (\<lambda>a b. apart (snd a) (snd b)) ps"
  shows "frame (map snd ps) (d_root d) (d_root d') \<and> (\<forall>a\<in>set ps. node_at (d_root d') (snd a) = None)"
  using assms
proof (induction ps arbitrary: d x)
  case (Cons a ps)
  obtain label p where a: "a = (label, p)" by fastforce
  have "\<exists>d1 y. remove_path f p d = (Inr (), d1) \<and> remove_each f l ps d1 = (Inr y, d')"
    using Cons.prems(1) by (auto simp: a remove_path_def bindF_Inr thenF_Inr split: if_splits)
  then obtain d1 y where c: "remove_path f p d = (Inr (), d1)" and rest: "remove_each f l ps d1 = (Inr y, d')" by blast
  have ne: "p \<noteq> []" using Cons.prems(2) [of a] by (simp add: a)
  from remove_path_result [OF c ne] have gone: "node_at (d_root d1) p = None" by simp
  from keepsD [OF keeps_remove [OF ne] c] have f1: "frame [p] (d_root d) (d_root d1)" by simp
  from Cons.IH [OF rest] Cons.prems(2,3) have f2: "frame (map snd ps) (d_root d1) (d_root d')"
    and gone2: "\<forall>a\<in>set ps. node_at (d_root d') (snd a) = None" by auto
  have "node_at (d_root d') p = node_at (d_root d1) p"
    using Cons.prems(3) by (intro frame_apart [OF f2]) (auto simp: a intro: apart_sym)
  with gone gone2 have "\<forall>b\<in>set (a # ps). node_at (d_root d') (snd b) = None" by (simp add: a)
  moreover have "frame (map snd (a # ps)) (d_root d) (d_root d')"
    by (rule frame_trans [OF frame_mono [OF f1] frame_mono [OF f2]]) (auto simp: a)
  ultimately show ?case by blast
qed simp

lemma artifact_paths_wf:
  assumes "project_layout l nonce"
  shows "sorted_wrt (\<lambda>a b. apart (snd a) (snd b)) (reset_artifact_paths l)" "distinct (map snd (reset_artifact_paths l))"
    "a \<in> set (reset_artifact_paths l) \<Longrightarrow> snd a \<noteq> []"
proof -
  from assms show s: "sorted_wrt (\<lambda>a b. apart (snd a) (snd b)) (reset_artifact_paths l)"
    by (simp add: project_layout_def Let_def sorted_wrt_map)
  then have "distinct (map snd xs)" if "sorted_wrt (\<lambda>a b. apart (snd a) (snd b)) xs" for xs :: "(string \<times> path) list"
    using that by (induction xs) (auto simp: apart_def)
  with s show "distinct (map snd (reset_artifact_paths l))" by blast
  show "a \<in> set (reset_artifact_paths l) \<Longrightarrow> snd a \<noteq> []"
    using assms by (auto simp: project_layout_def Let_def list_all_iff)
qed

text \<open>What a reset that returns has done.\<close>

definition archive_of :: "layout \<Rightarrow> string \<Rightarrow> path" where
  "archive_of l i = reset_archives_root l @ [i]"

lemma reset_result:
  assumes lay: "project_layout l nonce" and dn: "distinct_names (d_root d)" and i: "plain_name i"
    and run: "reset_files f dumps l (Some i) now d = (Inr (archived, gone, absent), d1)"
  obtains n m where "archived = existing (d_root d) (reset_artifact_paths l)"
    "build_reset_archive_manifest l n (archive_of l i) archived now = Inr m"
    "node_at (d_root d1) (manifest_path (archive_of l i)) = Some (RegFile (dumps m @ [CHR 0x0A]))"
    "\<And>a. a \<in> set archived \<Longrightarrow> node_at n (snd a) = node_at (d_root d) (snd a)"
    "\<And>a. a \<in> set archived \<Longrightarrow> node_at (d_root d1) (archived_at l (archive_of l i) a) = node_at (d_root d) (snd a)"
    "\<And>a. a \<in> set (reset_artifact_paths l) \<Longrightarrow> node_at (d_root d1) (snd a) = None"
    "is_folder (d_root d1) (archive_of l i)"
proof -
  let ?arch = "archive_of l i" and ?ps = "reset_artifact_paths l" and ?mp = "manifest_path (archive_of l i)"
  from run obtain d4 where mk: "make_archive f dumps l i now d = (Inr archived, d4)"
    and rm: "remove_each f l ?ps d4 = (Inr (gone, absent), d1)"
    by (auto simp: reset_files_def bindF_Inr)
  from mk obtain d2 d3 m where dir: "attempt f ?arch (\<lambda>n. if path_exists n ?arch then (Inl (OSError ''exists''), n) else make_folders ?arch n) d = (Inr (), d2)"
    and cp: "archive_each f l ?arch ?ps d2 = (Inr archived, d3)"
    and m: "build_reset_archive_manifest l (d_root d3) ?arch archived now = Inr m"
    and wr: "write_archive_manifest f dumps ?arch m d3 = (Inr (), d4)"
    unfolding make_archive_def Let_def archive_of_def by (auto simp: thenF_Inr bindF_Inr getF_def liftF_def)
  have fresh: "node_at (d_root d) ?arch = None" and mkd: "graft ?arch (Folder []) (d_root d) = Some (d_root d2)"
    using dir by (auto simp: attempt_def path_exists_def make_folders_def split: option.splits if_splits)
  have fr2: "frame [?arch] (d_root d) (d_root d2)" by (rule frame_graft [OF mkd])
  have arch2: "node_at (d_root d2) (?arch @ q) = node_at (Folder []) q" for q by (rule node_at_graft_self [OF mkd])
  have inside: "archived_at l ?arch a = ?arch @ q" if "a \<in> set ?ps" "snd a = l_root l @ q" "q \<noteq> []" "list_all plain_name q" for a q
    using that by (simp add: relative_below under_join)
  have at: "\<exists>q. archived_at l ?arch a = ?arch @ q \<and> q \<noteq> [] \<and> snd a = l_root l @ q \<and> apart [''archive_manifest.json''] q \<and> apart ?arch (snd a) \<and> ''..'' \<notin> set (snd a)"
    if a: "a \<in> set ?ps" for a
  proof -
    obtain q where q: "snd a = l_root l @ q" "q \<noteq> []" "list_all plain_name q" "''..'' \<notin> set (snd a)" "apart [''archive_manifest.json''] q"
      "apart (reset_archives_root l) (snd a)"
      using artifactD [OF lay, of "fst a" "snd a"] a by (metis prod.collapse)
    moreover have "apart ?arch (snd a)" using apart_append [OF q(6), of "[i]" "[]"] by (simp add: archive_of_def)
    ultimately show ?thesis using inside [OF a] by metis
  qed
  have ap: "apart (archived_at l ?arch b) (snd a)" if "a \<in> set ?ps" "b \<in> set ?ps" for a b
    using at [OF that(1)] at [OF that(2)] apart_append [of ?arch "snd a" _ "[]"] by fastforce
  have src2: "node_at (d_root d2) (snd a) = node_at (d_root d) (snd a)" if "a \<in> set ?ps" for a
    using at [OF that] by (intro frame_apart [OF fr2]) auto
  have ex: "existing (d_root d2) ?ps = existing (d_root d) ?ps"
    unfolding existing_def by (intro filter_cong) (auto simp: path_exists_def src2)
  let ?es = "existing (d_root d) ?ps"
  have loop: "forF (\<lambda>a. copy_path_to_archive f (snd a) (archived_at l ?arch a)) ?es d2 = (Inr (), d3)" and ar: "archived = ?es"
    using cp archive_as_copies [OF ap, of ?ps f d2] by (auto simp: ex thenF_Inr)
  have sub: "set ?es \<subseteq> set ?ps" by (auto simp: existing_def)
  have "apart (archived_at l ?arch a) (archived_at l ?arch b)" if "a \<in> set ?ps" "b \<in> set ?ps" "apart (snd a) (snd b)" for a b
    using at [OF that(1)] at [OF that(2)] that(3) by auto
  with artifact_paths_wf(1) [OF lay] have "sorted_wrt (\<lambda>a b. apart (archived_at l ?arch a) (archived_at l ?arch b)) ?ps"
    by (auto elim: sorted_wrt_mono_rel [rotated])
  then have sw: "sorted_wrt (\<lambda>a b. apart (archived_at l ?arch a) (archived_at l ?arch b)) ?es"
    unfolding existing_def by (rule sorted_wrt_filter)
  have cpb: "copyable (d_root d2) snd (archived_at l ?arch) ?es"
    unfolding copyable_def list_all_iff
  proof (intro conjI sw ballI)
    fix a assume a: "a \<in> set ?es"
    then have a': "a \<in> set ?ps" using sub by blast
    obtain q where q: "archived_at l ?arch a = ?arch @ q" "q \<noteq> []" "''..'' \<notin> set (snd a)" using at [OF a'] by blast
    show "''..'' \<notin> set (snd a)" "archived_at l ?arch a \<noteq> []" using q by auto
    show "node_at (d_root d2) (archived_at l ?arch a) = None" using q by (cases q) (simp_all add: arch2)
    show "case node_at (d_root d2) (snd a) of None \<Rightarrow> True | Some m \<Rightarrow> distinct_names m"
      using dn by (auto simp: src2 [OF a'] split: option.splits intro: distinct_names_node_at)
    show "apart (archived_at l ?arch b) (snd a)" if "b \<in> set ?es" for b using ap [OF a'] that sub by blast
  qed
  from copy_loop [OF loop cpb] have got3: "node_at (d_root d3) (archived_at l ?arch a) = node_at (d_root d) (snd a)" if "a \<in> set ?es" for a
    using that src2 [of a] subsetD [OF sub that] by simp
  have "keeps [?arch] (forF (\<lambda>a. copy_path_to_archive f (snd a) (archived_at l ?arch a)) ?es)"
    using at sub by (intro keeps_copies) fastforce+
  from keepsD [OF this loop] have fr3: "frame [?arch] (d_root d2) (d_root d3)" by simp
  have src3: "node_at (d_root d3) (snd a) = node_at (d_root d) (snd a)" if "a \<in> set ?ps" for a
    using at [OF that] frame_apart [OF fr3, of "snd a"] src2 [OF that] by auto
  have mp: "?mp = ?arch @ [''archive_manifest.json'']" by (simp add: manifest_path_def)
  from wr have wgr: "graft ?mp (RegFile (dumps m @ [CHR 0x0A])) (d_root d3) = Some (d_root d4)"
    by (auto simp: write_archive_manifest_def attempt_def write_text_def split: option.splits if_splits)
  have fr4: "frame [?mp] (d_root d3) (d_root d4)" by (rule frame_graft [OF wgr])
  have man4: "node_at (d_root d4) ?mp = Some (RegFile (dumps m @ [CHR 0x0A]))" using node_at_graft_self [OF wgr, of "[]"] by simp
  have got4: "node_at (d_root d4) (archived_at l ?arch a) = node_at (d_root d) (snd a)" if "a \<in> set ?es" for a
  proof -
    note a = subsetD [OF sub that]
    obtain q where "archived_at l ?arch a = ?arch @ q" "apart [''archive_manifest.json''] q"
      using at [OF a] by blast
    then have "node_at (d_root d4) (archived_at l ?arch a) = node_at (d_root d3) (archived_at l ?arch a)"
      by (intro frame_apart [OF fr4]) (simp add: mp)
    with got3 [OF that] show ?thesis by simp
  qed
  from remove_each_gone [OF rm artifact_paths_wf(3,1) [OF lay]] have fr1: "frame (map snd ?ps) (d_root d4) (d_root d1)"
    and gone: "\<forall>a\<in>set ?ps. node_at (d_root d1) (snd a) = None" by auto
  have keep1: "node_at (d_root d1) (?arch @ q) = node_at (d_root d4) (?arch @ q)" for q
  proof (rule frame_apart [OF fr1])
    fix p assume "p \<in> set (map snd ?ps)"
    then obtain a where "a \<in> set ?ps" "p = snd a" by auto
    with at [of a] show "apart p (?arch @ q)" using apart_append [of ?arch p q "[]"] by (auto intro: apart_sym)
  qed
  have "view (d_root d4) ?arch = Some IsFolder"
    using view_above [of "d_root d4" ?mp ?arch] man4 by (auto simp: view_def mp strict_prefix_def)
  then have fo: "is_folder (d_root d1) ?arch" using keep1 [of "[]"] by (simp add: is_folder_def view_def)
  have man1: "node_at (d_root d1) ?mp = Some (RegFile (dumps m @ [CHR 0x0A]))" using man4 keep1 by (simp add: mp)
  have got1: "node_at (d_root d1) (archived_at l ?arch a) = node_at (d_root d) (snd a)" if "a \<in> set archived" for a
    using got4 [of a] that at [OF subsetD [OF sub that [unfolded ar]]] keep1 ar by metis
  have kinds: "node_at (d_root d3) (snd a) = node_at (d_root d) (snd a)" if "a \<in> set archived" for a
    by (rule src3 [OF subsetD [OF sub that [unfolded ar]]])
  show thesis by (rule that [OF ar m man1 kinds got1 _ fo]) (use gone in auto)
qed

subsection \<open>Reading the archive\<close>

lemma string_field_Some [simp]: "map_of d k = Some (JStr s) \<Longrightarrow> s \<noteq> [] \<Longrightarrow> string_field d k = Inr s"
  by (simp add: string_field_def jget_def)

lemma normalize_item:
  assumes "it_label it \<noteq> []" "it_source it \<noteq> []" "it_archive it \<noteq> []" "it_type it = ''file'' \<or> it_type it = ''directory''"
  shows "normalize_manifest_entry (item_json it) = Inr it"
proof -
  have "jget [(''label'', JStr (it_label it)), (''source_rel'', JStr (it_source it)),
     (''archive_rel'', JStr (it_archive it)), (''path_type'', JStr (it_type it))] ''path_type'' = JStr (it_type it)"
    by (simp add: jget_def)
  with assms show ?thesis by (simp add: normalize_manifest_entry_def item_json_def)
qed

lemma artifact_label: "a \<in> set (reset_artifact_paths l) \<Longrightarrow> fst a \<noteq> []"
proof -
  have sub: "set (first_of_path seen cs) \<subseteq> set cs" for seen cs
    by (induction seen cs rule: first_of_path.induct) auto
  show "a \<in> set (reset_artifact_paths l) \<Longrightarrow> fst a \<noteq> []"
    unfolding reset_artifact_paths_def by (drule subsetD [OF sub]) auto
qed

text \<open>The manifest that a reset writes is read back as its items.\<close>

lemma manifest_read:
  assumes lay: "project_layout l nonce" and m: "build_reset_archive_manifest l n (archive_of l i) archived now = Inr m"
    and sub: "set archived \<subseteq> set (reset_artifact_paths l)" and i: "i \<noteq> []"
    and law: "loads (dumps m @ [CHR 0x0A]) = Some (JObj m)"
  shows "read_manifest loads i (Some (RegFile (dumps m @ [CHR 0x0A]))) =
    Inr (now, CHR ''/'' # join_parts (l_root l), map (archived_item l n) archived)"
proof -
  from m have fin: "is_finite now" and md: "m = [(''manifest_version'', JInt 1), (''archive_type'', JStr ''reset''),
        (''archive_id'', JStr i), (''created_at'', JFloat now),
        (''source_root'', JStr (CHR ''/'' # join_parts (l_root l))),
        (''entries'', JArr (map (\<lambda>a. item_json (archived_item l n a)) archived))]"
    by (auto simp: build_reset_archive_manifest_def archive_of_def base_name_def split: if_splits)
  have item: "normalize_manifest_entry (item_json (archived_item l n a)) = Inr (archived_item l n a)" if a: "a \<in> set archived" for a
  proof (rule normalize_item)
    obtain label p where ap: "a = (label, p)" by fastforce
    from a sub have a': "(label, p) \<in> set (reset_artifact_paths l)" by (auto simp: ap)
    obtain q where q: "q \<noteq> []" "list_all plain_name q" "relative_path (l_root l) p = join_parts q"
      using artifactD [OF lay a'] by metis
    show "it_label (archived_item l n a) \<noteq> []" using artifact_label [OF a'] by (simp add: archived_item_def ap)
    show "it_source (archived_item l n a) \<noteq> []" "it_archive (archived_item l n a) \<noteq> []"
      using join_relative [OF q(1,2)] by (simp_all add: archived_item_def ap q)
    show "it_type (archived_item l n a) = ''file'' \<or> it_type (archived_item l n a) = ''directory''"
      by (simp add: archived_item_def ap entry_path_type_def)
  qed
  have "mapE normalize_manifest_entry (map (\<lambda>a. item_json (archived_item l n a)) archived) = Inr (map (archived_item l n) archived)"
    using item by (induction archived) auto
  moreover have "jget m ''entries'' = JArr (map (\<lambda>a. item_json (archived_item l n a)) archived)"
    "jget m ''created_at'' = JFloat now" "jget m ''manifest_version'' = JInt 1" "jget m ''archive_type'' = JStr ''reset''"
    "string_field m ''archive_id'' = Inr i" "string_field m ''source_root'' = Inr (CHR ''/'' # join_parts (l_root l))"
    using i by (simp_all add: md jget_def)
  moreover have "py_eq (JInt 1) (JInt 1)" by code_simp
  ultimately show ?thesis using law fin by (simp add: read_manifest_def)
qed

subsection \<open>Planning its restore\<close>

definition entry_of :: "layout \<Rightarrow> path \<Rightarrow> archive_item \<Rightarrow> string \<times> path \<Rightarrow> restore_entry" where
  "entry_of l arch it a = \<lparr>re_label = fst a, re_source = it_source it, re_archive = it_archive it, re_type = it_type it,
     re_from = path_under arch (it_archive it), re_target = snd a\<rparr>"

lemma relative_inject:
  assumes "project_layout l nonce" "a \<in> set (reset_artifact_paths l)" "b \<in> set (reset_artifact_paths l)"
  shows "relative_path (l_root l) (snd a) = relative_path (l_root l) (snd b) \<longleftrightarrow> snd a = snd b"
proof -
  obtain p where p: "snd a = l_root l @ p" "list_all plain_name p" "relative_path (l_root l) (snd a) = join_parts p"
    using artifactD [OF assms(1), of "fst a" "snd a"] assms(2) by (metis prod.collapse)
  obtain q where q: "snd b = l_root l @ q" "list_all plain_name q" "relative_path (l_root l) (snd b) = join_parts q"
    using artifactD [OF assms(1), of "fst b" "snd b"] assms(3) by (metis prod.collapse)
  show ?thesis using join_inject [OF p(2) q(2)] unfolding p(3) q(3) by (simp add: p(1) q(1))
qed

lemma artifact_eq:
  assumes "project_layout l nonce" "a \<in> set (reset_artifact_paths l)" "b \<in> set (reset_artifact_paths l)" "snd a = snd b"
  shows "a = b"
  using artifact_paths_wf(2) [OF assms(1)] assms(2-4) by (auto simp: distinct_map dest: inj_onD)

lemma ignored_iff:
  assumes lay: "project_layout l nonce" and a: "a \<in> set (reset_artifact_paths l)"
  shows "relative_path (l_root l) (snd a) \<in> set (ignored_restore_paths l) \<longleftrightarrow> ignored_label (fst a)"
proof
  assume "relative_path (l_root l) (snd a) \<in> set (ignored_restore_paths l)"
  then obtain b where b: "b \<in> set (reset_artifact_paths l)" "ignored_label (fst b)"
    "relative_path (l_root l) (snd a) = relative_path (l_root l) (snd b)"
    by (auto simp: ignored_restore_paths_def)
  with relative_inject [OF lay a b(1)] artifact_eq [OF lay a b(1)] show "ignored_label (fst a)" by simp
next
  assume "ignored_label (fst a)"
  with a have "a \<in> set (filter (\<lambda>(label, _). ignored_label label) (reset_artifact_paths l))" by (auto simp: case_prod_beta)
  then show "relative_path (l_root l) (snd a) \<in> set (ignored_restore_paths l)"
    unfolding ignored_restore_paths_def set_map by (rule rev_image_eqI) (simp add: case_prod_beta)
qed

lemma restorable_look:
  assumes lay: "project_layout l nonce" and a: "a \<in> set (reset_artifact_paths l)" "\<not> ignored_label (fst a)"
  shows "map_of (restorable_path_map l) (relative_path (l_root l) (snd a)) = Some a"
proof -
  let ?g = "\<lambda>b. (relative_path (l_root l) (snd b), b)"
  have eq: "map (\<lambda>(label, p). (relative_path (l_root l) p, label, p)) xs = map ?g xs" for xs by auto
  have sub: "set (restorable_artifact_paths l) \<subseteq> set (reset_artifact_paths l)" by (auto simp: restorable_artifact_paths_def)
  have "inj_on (\<lambda>b. relative_path (l_root l) (snd b)) (set (restorable_artifact_paths l))"
    using sub relative_inject [OF lay] artifact_eq [OF lay] by (intro inj_onI) blast
  moreover have "distinct (restorable_artifact_paths l)"
    using artifact_paths_wf(2) [OF lay] by (simp add: restorable_artifact_paths_def distinct_map)
  ultimately have "distinct (map fst (map ?g (restorable_artifact_paths l)))"
    by (simp add: distinct_map comp_def)
  moreover have "?g a \<in> set (map ?g (restorable_artifact_paths l))" using a by (cases a) (auto simp: restorable_artifact_paths_def)
  ultimately show ?thesis
    by (simp add: restorable_path_map_def eq map_of_dict_of del: map_map set_map)
qed

lemma collect_archived:
  assumes lay: "project_layout l nonce" and "set as \<subseteq> set (reset_artifact_paths l)" "distinct as"
    and "\<And>a. a \<in> set as \<Longrightarrow> it_source (it a) = relative_path (l_root l) (snd a) \<and> it_archive (it a) \<noteq> []"
    and "\<And>a. a \<in> set as \<Longrightarrow> relative_path (l_root l) (snd a) \<notin> re_source ` set es"
  shows "\<exists>ig'. collect_entries l arch (map it as) es ig k =
    (es @ map (\<lambda>a. entry_of l arch (it a) a) (filter (\<lambda>a. \<not> ignored_label (fst a)) as), ig', k)"
  using assms(2-)
proof (induction as arbitrary: es ig)
  case (Cons a as)
  have a: "a \<in> set (reset_artifact_paths l)" using Cons.prems(1) by simp
  have src: "it_source (it a) = relative_path (l_root l) (snd a)" "it_archive (it a) \<noteq> []" using Cons.prems(3) by auto
  obtain q where q: "q \<noteq> []" "list_all plain_name q" "relative_path (l_root l) (snd a) = join_parts q"
    using artifactD [OF lay, of "fst a" "snd a"] a by (metis prod.collapse)
  from join_relative [OF q(1,2)] src have ne: "it_source (it a) \<noteq> []" by (simp add: q)
  show ?case
  proof (cases "ignored_label (fst a)")
    case True
    with ignored_iff [OF lay a] src have "List.member (ignored_restore_paths l) (it_source (it a))" by simp
    with Cons ne src True show ?thesis by auto
  next
    case False
    let ?e = "entry_of l arch (it a) a"
    have "relative_path (l_root l) (snd b) \<notin> re_source ` set (es @ [?e])" if b: "b \<in> set as" for b
    proof -
      have "b \<in> set (reset_artifact_paths l)" using b Cons.prems(1) by auto
      with relative_inject [OF lay this a] artifact_eq [OF lay this a] b Cons.prems(2)
      have "relative_path (l_root l) (snd b) \<noteq> relative_path (l_root l) (snd a)" by auto
      then show ?thesis using Cons.prems(4) b by (auto simp: entry_of_def src)
    qed
    with Cons.IH [of "es @ [?e]" ig] Cons.prems obtain ig' where "collect_entries l arch (map it as) (es @ [?e]) ig k =
        (es @ [?e] @ map (\<lambda>a. entry_of l arch (it a) a) (filter (\<lambda>a. \<not> ignored_label (fst a)) as), ig', k)"
      by auto
    moreover have "collect_entries l arch (map it (a # as)) es ig k = collect_entries l arch (map it as) (es @ [?e]) ig k"
      using False ne src ignored_iff [OF lay a] restorable_look [OF lay a False] Cons.prems(4) [of a]
      by (simp add: entry_of_def) (cases a, auto)
    ultimately show ?thesis using False by simp
  qed
qed simp

lemma same_manifest:
  assumes "\<And>a. a \<in> set archived \<Longrightarrow> node_at n (snd a) = node_at n' (snd a)"
  shows "build_reset_archive_manifest l n arch archived now = build_reset_archive_manifest l n' arch archived now"
proof -
  have "archived_item l n a = archived_item l n' a" if "a \<in> set archived" for a
    using assms [OF that] by (cases a) (simp add: archived_item_def entry_path_type_def is_folder_def view_def)
  then have "map (\<lambda>a. item_json (archived_item l n a)) archived = map (\<lambda>a. item_json (archived_item l n' a)) archived" by simp
  then show ?thesis by (simp add: build_reset_archive_manifest_def)
qed

lemma resolve_plain:
  assumes "plain_name i" "py_strip i = i" "is_folder n (archive_of l i)"
  shows "resolve_reset_archive l n i = Inr (archive_of l i)"
proof -
  from assms(1) have "path_parts i = [i]" by (simp add: path_parts_def split_on_fresh plain_name_def)
  with assms show ?thesis
    by (simp add: resolve_reset_archive_def archive_of_def plain_name_def path_name_def base_name_def)
qed

text \<open>The archive of a reset, read again when nothing in it has changed.\<close>

lemma plan_of_reset:
  assumes lay: "project_layout l nonce" and dn: "distinct_names (d_root d)" and i: "plain_name i" "py_strip i = i"
    and reset: "reset_files f dumps l (Some i) now d = (Inr (archived, gone, absent), d1)"
    and law: "\<And>m. build_reset_archive_manifest l (d_root d) (archive_of l i) archived now = Inr m \<Longrightarrow>
      loads (dumps m @ [CHR 0x0A]) = Some (JObj m)"
    and kept: "node_at n2 (archive_of l i) = node_at (d_root d1) (archive_of l i)"
    and some: "a0 \<in> set (restorable_artifact_paths l)" "path_exists (d_root d) (snd a0)"
  obtains a es ignored where "plan_restore loads l i n2 = Inr (archive_of l i, a, es, ignored)" "confined (archive_of l i) es"
    "\<And>a. a \<in> set (restorable_artifact_paths l) \<Longrightarrow> path_exists (d_root d) (snd a) \<Longrightarrow>
      \<exists>e\<in>set es. re_target e = snd a \<and> node_at n2 (re_from e) = node_at (d_root d) (snd a)"
proof -
  let ?arch = "archive_of l i" and ?ps = "reset_artifact_paths l"
  obtain n m where ar: "archived = existing (d_root d) ?ps"
    and m: "build_reset_archive_manifest l n ?arch archived now = Inr m"
    and man: "node_at (d_root d1) (manifest_path ?arch) = Some (RegFile (dumps m @ [CHR 0x0A]))"
    and kinds: "\<And>a. a \<in> set archived \<Longrightarrow> node_at n (snd a) = node_at (d_root d) (snd a)"
    and got: "\<And>a. a \<in> set archived \<Longrightarrow> node_at (d_root d1) (archived_at l ?arch a) = node_at (d_root d) (snd a)"
    and fo: "is_folder (d_root d1) ?arch"
    using reset_result [OF lay dn i(1) reset] by metis
  have same: "node_at n2 (?arch @ q) = node_at (d_root d1) (?arch @ q)" for q
    using kept by (simp add: node_at_append)
  have sub: "set archived \<subseteq> set ?ps" by (auto simp: ar existing_def)
  have at: "\<exists>q. archived_at l ?arch a = ?arch @ q \<and> ''..'' \<notin> set q \<and> relative_path (l_root l) (snd a) \<noteq> []" if a: "a \<in> set ?ps" for a
  proof -
    obtain q where q: "q \<noteq> []" "list_all plain_name q" "relative_path (l_root l) (snd a) = join_parts q"
      "path_under ?arch (relative_path (l_root l) (snd a)) = ?arch @ q"
      using artifactD [OF lay, of "fst a" "snd a" ?arch] a by (metis prod.collapse)
    with join_relative [OF q(1,2)] show ?thesis by (auto simp: list_all_iff plain_name_def)
  qed
  have dots: "''..'' \<notin> set ?arch" using working_dirs(6) [OF lay] i(1) by (auto simp: archive_of_def plain_name_def)
  let ?it = "archived_item l n"
  have it: "it_source (?it a) = relative_path (l_root l) (snd a)" "it_archive (?it a) = relative_path (l_root l) (snd a)" for a
    by (simp_all add: archived_item_def split: prod.splits)
  have mi: "missing_items n2 ?arch (map ?it archived) = []"
    unfolding missing_items_def filter_empty_conv
  proof
    fix t assume "t \<in> set (map ?it archived)"
    then obtain a where a: "a \<in> set archived" "t = ?it a" by auto
    obtain q where q: "archived_at l ?arch a = ?arch @ q" "''..'' \<notin> set q" using at [of a] a(1) sub by auto
    have "node_at (d_root d) (snd a) \<noteq> None" using a(1) by (simp add: ar existing_def path_exists_def)
    with got [OF a(1)] q dots same show "\<not> resolve_at n2 (path_under ?arch (it_archive t)) = None"
      by (simp add: a(2) it resolve_at_plain)
  qed
  have "loads (dumps m @ [CHR 0x0A]) = Some (JObj m)"
    using law m same_manifest [of archived n "d_root d" l ?arch now] kinds by metis
  then have rd: "read_manifest loads i (Some (RegFile (dumps m @ [CHR 0x0A]))) =
      Inr (now, CHR ''/'' # join_parts (l_root l), map ?it archived)"
    using i(1) by (intro manifest_read [OF lay m sub]) (auto simp: plain_name_def)
  have man2: "node_at n2 (manifest_path ?arch) = Some (RegFile (dumps m @ [CHR 0x0A]))"
    using man same by (simp add: manifest_path_def)
  have bn: "base_name ?arch = i" by (simp add: base_name_def archive_of_def)
  obtain a where ins: "inspect_reset_archive loads l n2 ?arch = Inr a" "in_entries a = map ?it archived" "in_status a = Intact"
    by (simp add: inspect_reset_archive_def man2 path_exists_def rd bn mi)
  have da: "distinct archived" using artifact_paths_wf(2) [OF lay] by (simp add: ar existing_def distinct_map)
  let ?es = "map (\<lambda>a. entry_of l ?arch (?it a) a) (filter (\<lambda>a. \<not> ignored_label (fst a)) archived)"
  have "it_source (?it a) = relative_path (l_root l) (snd a) \<and> it_archive (?it a) \<noteq> []" if "a \<in> set archived" for a
    using at [of a] that sub by (auto simp: it)
  with collect_archived [OF lay sub da, of ?it "[]" ?arch "[]" 0] obtain ig where
    col: "collect_entries l ?arch (map ?it archived) [] [] 0 = (?es, ig, 0)" by auto
  have mem: "a \<in> set archived \<and> \<not> ignored_label (fst a)"
    if "a \<in> set (restorable_artifact_paths l)" "path_exists (d_root d) (snd a)" for a
    using that by (auto simp: ar existing_def restorable_artifact_paths_def)
  from mem [OF some] have "?es \<noteq> []" by (auto simp: filter_empty_conv)
  with col ins have "build_restore_entries l ?arch (in_entries a) = Inr (?es, sort_by str_less (remdups ig))"
    by (simp add: build_restore_entries_def)
  moreover have "is_folder n2 ?arch" using fo same [of "[]"] by (simp add: is_folder_def view_def)
  ultimately have "plan_restore loads l i n2 = Inr (?arch, a, ?es, sort_by str_less (remdups ig))"
    using ins resolve_plain [OF i] by (simp add: plan_restore_def)
  moreover have "confined ?arch ?es"
    using at sub dots by (fastforce simp: confined_def list_all_iff entry_of_def it)
  moreover have "\<exists>e\<in>set ?es. re_target e = snd b \<and> node_at n2 (re_from e) = node_at (d_root d) (snd b)"
    if b: "b \<in> set (restorable_artifact_paths l)" "path_exists (d_root d) (snd b)" for b
  proof (rule bexI)
    note b' = mem [OF b]
    then show "entry_of l ?arch (?it b) b \<in> set ?es" by simp
    obtain q where "archived_at l ?arch b = ?arch @ q" using at [of b] b' sub by auto
    then show "re_target (entry_of l ?arch (?it b) b) = snd b \<and>
        node_at n2 (re_from (entry_of l ?arch (?it b) b)) = node_at (d_root d) (snd b)"
      using got [of b] b' same by (simp add: entry_of_def it)
  qed
  ultimately show thesis by (rule that)
qed

text \<open>C23: resetting a campaign and restoring its archive brings every file back. A reset that returns has
  removed all runtime files; as long as the archive itself is left alone, whatever happens to the project
  in between, restoring it succeeds when no file operation fails, and a restore that returns leaves at
  every restorable path that existed before the reset exactly what was there.\<close>

theorem reset_then_restore:
  assumes lay: "project_layout l nonce" and "distinct_names (d_root d)" and "plain_name i" "py_strip i = i"
    and reset: "reset_files f dumps l (Some i) now d = (Inr (archived, gone, absent), d1)"
    and law: "\<forall>m. build_reset_archive_manifest l (d_root d) (archive_of l i) archived now = Inr m \<longrightarrow>
      loads (dumps m @ [CHR 0x0A]) = Some (JObj m)"
    and kept: "node_at (d_root d2) (archive_of l i) = node_at (d_root d1) (archive_of l i)" "project_tree l nonce (d_root d2)"
    and run: "restore_reset_archive f' loads inject nonce l i d2 = (res, d3)"
    and some: "\<exists>a\<in>set (restorable_artifact_paths l). path_exists (d_root d) (snd a)"
  shows "(\<forall>a\<in>set (reset_artifact_paths l). \<not> path_exists (d_root d1) (snd a)) \<and>
    ((\<forall>k. f' k = None) \<and> py_strip inject = [] \<longrightarrow> res_ok res) \<and>
    (res_ok res \<longrightarrow> (\<forall>a\<in>set (restorable_artifact_paths l). path_exists (d_root d) (snd a) \<longrightarrow>
       node_at (d_root d3) (snd a) = node_at (d_root d) (snd a)))"
proof (intro conjI impI)
  show "\<forall>a\<in>set (reset_artifact_paths l). \<not> path_exists (d_root d1) (snd a)"
    using reset_result [OF lay assms(2,3) reset] by (metis path_exists_def)
  obtain a0 where a0: "a0 \<in> set (restorable_artifact_paths l)" "path_exists (d_root d) (snd a0)" using some by blast
  obtain a es ignored where plan: "plan_restore loads l i (d_root d2) = Inr (archive_of l i, a, es, ignored)"
    and conf: "confined (archive_of l i) es"
    and all: "\<And>a. a \<in> set (restorable_artifact_paths l) \<Longrightarrow> path_exists (d_root d) (snd a) \<Longrightarrow>
      \<exists>e\<in>set es. re_target e = snd a \<and> node_at (d_root d2) (re_from e) = node_at (d_root d) (snd a)"
    using plan_of_reset [OF lay assms(2-4) reset law [rule_format] kept(1) a0] by metis
  note ready = plan_ready [OF lay kept(2) plan conf]
  show "res_ok res" if "(\<forall>k. f' k = None) \<and> py_strip inject = []"
    using restore_succeeds [OF ready(1), of f' inject] that ready(2) run by (auto simp: restore_run [OF plan] res_ok_def)
  show "\<forall>a\<in>set (restorable_artifact_paths l). path_exists (d_root d) (snd a) \<longrightarrow> node_at (d_root d3) (snd a) = node_at (d_root d) (snd a)"
    if ok: "res_ok res"
  proof (intro ballI impI)
    fix b assume "b \<in> set (restorable_artifact_paths l)" "path_exists (d_root d) (snd b)"
    then obtain e where e: "e \<in> set es" "re_target e = snd b" "node_at (d_root d2) (re_from e) = node_at (d_root d) (snd b)"
      using all by blast
    obtain r where "res = Inr r" using ok by (rule res_okE)
    with restore_result_facts(6) [OF lay kept(2) plan conf _ e(1), of f' inject r d3] run e
    show "node_at (d_root d3) (snd b) = node_at (d_root d) (snd b)" by simp
  qed
qed

text \<open>The demo project reset, and restored after something else was written to its state file.\<close>

definition cycle_reset :: "((string \<times> path) list \<times> string list \<times> string list) res \<times> disk" where
  "cycle_reset = reset_files no_faults (\<lambda>_. ''{}'') demo_layout (Some ''r2'') (Fin 5) demo_disk"

definition cycle_between :: disk where
  "cycle_between = (case write_text [''p'', ''state'', ''bo_state.json''] ''other'' (d_root (snd cycle_reset)) of
     (_, n) \<Rightarrow> \<lparr>d_root = n, d_tick = 0\<rparr>)"

definition cycle_loads :: "string \<Rightarrow> json option" where
  "cycle_loads s = (case build_reset_archive_manifest demo_layout demo_tree (archive_of demo_layout ''r2'')
     [(''state_file'', [''p'', ''state'', ''bo_state.json''])] (Fin 5) of Inr m \<Rightarrow> Some (JObj m) | Inl _ \<Rightarrow> None)"

lemma reset_then_restore_witness:
  "\<exists>r d3. restore_reset_archive no_faults cycle_loads '''' ''7'' demo_layout ''r2'' cycle_between = (Inr r, d3) \<and>
     node_at (d_root cycle_between) [''p'', ''state'', ''bo_state.json''] = Some (RegFile ''other'') \<and>
     node_at (d_root d3) [''p'', ''state'', ''bo_state.json''] = Some (RegFile ''new'')"
proof -
  obtain x d1 where c: "cycle_reset = (x, d1)" by fastforce
  have "fst cycle_reset = Inr ([(''state_file'', [''p'', ''state'', ''bo_state.json''])], [''state/bo_state.json''],
     map (\<lambda>a. relative_path [''p''] (snd a)) (tl (reset_artifact_paths demo_layout)))"
    by code_simp
  with c obtain gone absent where run: "reset_files no_faults (\<lambda>_. ''{}'') demo_layout (Some ''r2'') (Fin 5) demo_disk =
      (Inr ([(''state_file'', [''p'', ''state'', ''bo_state.json''])], gone, absent), d1)"
    by (simp add: cycle_reset_def)
  have "project_layout demo_layout ''7''" "distinct_names (d_root demo_disk)" "plain_name ''r2''" "py_strip ''r2'' = ''r2''"
    by code_simp+
  moreover have "\<forall>m. build_reset_archive_manifest demo_layout (d_root demo_disk) (archive_of demo_layout ''r2'')
      [(''state_file'', [''p'', ''state'', ''bo_state.json''])] (Fin 5) = Inr m \<longrightarrow>
      cycle_loads (''{}'' @ [CHR 0x0A]) = Some (JObj m)"
    by (simp add: cycle_loads_def demo_disk_def)
  moreover have "node_at (d_root cycle_between) (archive_of demo_layout ''r2'') = node_at (d_root (snd cycle_reset)) (archive_of demo_layout ''r2'')"
    "project_tree demo_layout ''7'' (d_root cycle_between)"
    by code_simp+
  moreover obtain res d3 where rs: "restore_reset_archive no_faults cycle_loads '''' ''7'' demo_layout ''r2'' cycle_between = (res, d3)"
    by fastforce
  moreover have st: "(''state_file'', [''p'', ''state'', ''bo_state.json'']) \<in> set (restorable_artifact_paths demo_layout)"
    "path_exists (d_root demo_disk) [''p'', ''state'', ''bo_state.json'']" "py_strip '''' = []"
    "node_at (d_root demo_disk) [''p'', ''state'', ''bo_state.json''] = Some (RegFile ''new'')"
    "node_at (d_root cycle_between) [''p'', ''state'', ''bo_state.json''] = Some (RegFile ''other'')"
    by code_simp+
  moreover have "\<exists>a\<in>set (restorable_artifact_paths demo_layout). path_exists (d_root demo_disk) (snd a)"
    using st(1,2) by force
  ultimately have R: "(\<forall>a\<in>set (reset_artifact_paths demo_layout). \<not> path_exists (d_root d1) (snd a)) \<and>
    ((\<forall>k. no_faults k = None) \<and> py_strip '''' = [] \<longrightarrow> res_ok res) \<and>
    (res_ok res \<longrightarrow> (\<forall>a\<in>set (restorable_artifact_paths demo_layout). path_exists (d_root demo_disk) (snd a) \<longrightarrow>
       node_at (d_root d3) (snd a) = node_at (d_root demo_disk) (snd a)))"
    by (intro reset_then_restore [OF _ _ _ _ run]) (simp_all add: c)
  then have ok: "res_ok res" using st(3) by simp
  obtain r where "res = Inr r" using ok by (rule res_okE)
  moreover have "node_at (d_root d3) [''p'', ''state'', ''bo_state.json''] = Some (RegFile ''new'')"
    using R ok st by fastforce
  ultimately show ?thesis using rs st(5) by blast
qed

end
