(* ===== verification/ArchivePrune.thy ===== *)
theory ArchivePrune
  imports ArchiveSafety Measurements
begin

text \<open>
  Pruning archives: the order of the listing, which archives \<open>plan_reset_archive_prune\<close> selects
  and which it keeps, and what \<open>prune_reset_archives\<close> does to the files.
\<close>

subsection \<open>The order of the listing\<close>

lemma str_less_irrefl: "\<not> str_less s s"
  by (induction s) auto

lemma str_less_trans: "str_less s t \<Longrightarrow> str_less t u \<Longrightarrow> str_less s u"
proof (induction s t arbitrary: u rule: str_less.induct)
  case (3 a as b bs)
  then show ?case by (cases u) auto
qed (auto elim: str_less.elims)

lemma str_less_total: "s \<noteq> t \<Longrightarrow> str_less s t \<or> str_less t s"
proof (induction s t rule: str_less.induct)
  case (1 s)
  then show ?case by (cases s) auto
next
  case (3 a as b bs)
  show ?case
  proof (cases "a = b")
    case False
    then have "(of_char a :: nat) \<noteq> of_char b" by simp
    then have "(of_char a :: nat) < of_char b \<or> (of_char b :: nat) < of_char a" by linarith
    then show ?thesis by auto
  qed (use 3 in auto)
qed auto

definition newer :: "listed_archive \<Rightarrow> listed_archive \<Rightarrow> bool" where
  "newer a b = sort_key_less (archive_sort_key b) (archive_sort_key a)"

lemma sort_key_number: "fst (archive_sort_key a) \<noteq> NaN"
  by (auto simp: archive_sort_key_def archive_created_at_seconds_def split: option.splits)

abbreviation key_time :: "listed_archive \<Rightarrow> int \<times> rat" where
  "key_time a \<equiv> fkey (fst (archive_sort_key a))"

abbreviation key_name :: "listed_archive \<Rightarrow> string" where
  "key_name a \<equiv> snd (archive_sort_key a)"

lemma newer_iff: "newer a b \<longleftrightarrow> key_time b < key_time a \<or> key_time b = key_time a \<and> str_less (key_name b) (key_name a)"
proof -
  have "sort_key_less x y \<longleftrightarrow> flt (fst x) (fst y) \<or> feq (fst x) (fst y) \<and> str_less (snd x) (snd y)" for x y
    by (cases x; cases y) simp
  with sort_key_number [of a] sort_key_number [of b] show ?thesis by (simp add: newer_def flt_def feq_def)
qed

lemma not_newer_iff: "\<not> newer a b \<longleftrightarrow> key_time a < key_time b \<or> key_time a = key_time b \<and> (key_name a = key_name b \<or> str_less (key_name a) (key_name b))"
proof (cases "key_time a" "key_time b" rule: linorder_cases)
  case equal
  have "\<not> str_less (key_name b) (key_name a) \<longleftrightarrow> key_name a = key_name b \<or> str_less (key_name a) (key_name b)"
    using str_less_total str_less_irrefl str_less_trans by metis
  with equal show ?thesis by (simp add: newer_iff)
qed (auto simp: newer_iff)

interpretation archive_order: key_order newer "\<lambda>_. True"
proof
  show "\<not> newer x x" for x by (simp add: newer_iff str_less_irrefl)
  show "newer x y \<Longrightarrow> newer y z \<Longrightarrow> newer x z" for x y z
    unfolding newer_iff by (elim disjE conjE) (auto intro: str_less_trans)
  show "\<not> newer y x \<Longrightarrow> \<not> newer z y \<Longrightarrow> \<not> newer z x" for x y z
    unfolding not_newer_iff by (elim disjE conjE) (auto intro: str_less_trans)
qed

abbreviation id_of :: "listed_archive \<Rightarrow> string" where
  "id_of a \<equiv> in_id (la_inspection a)"

lemma inspection_id: "inspect_reset_archive loads l n arch = Inr a \<Longrightarrow> in_id a = base_name arch"
  by (auto simp: inspect_reset_archive_def inspect_legacy_reset_archive_def split: sum.splits if_splits)

lemma folder_names_distinct: "distinct (map fst es) \<Longrightarrow> distinct (folder_names es)"
proof -
  have "set (folder_names es) \<subseteq> fst ` set es" for es by (induction es rule: folder_names.induct) auto
  then show "distinct (map fst es) \<Longrightarrow> distinct (folder_names es)"
    by (induction es rule: folder_names.induct) auto
qed

lemma listed:
  assumes "list_reset_archives loads l limit n = Inr as" "node_at n (reset_archives_root l) = Some (Folder dirs)"
  shows "mset (map id_of as) = mset (folder_names dirs)" "sorted_wrt (\<lambda>a b. \<not> newer b a) as"
    "a \<in> set as \<Longrightarrow> la_rel a = relative_path (l_root l) (reset_archives_root l @ [id_of a])"
proof -
  let ?g = "\<lambda>c. let arch = reset_archives_root l @ [c] in
     bindE (inspect_reset_archive loads l n arch) (\<lambda>a. Inr \<lparr>la_inspection = a, la_rel = relative_path (l_root l) arch,
        la_summary = summarize_archive_entries (in_entries a) limit\<rparr>)"
  from assms obtain bs where bs: "mapE ?g (folder_names dirs) = Inr bs" and as: "as = sort_by newer bs"
    by (auto simp: list_reset_archives_def return_iff newer_def [abs_def])
  have one: "id_of b = c \<and> la_rel b = relative_path (l_root l) (reset_archives_root l @ [c])" if "?g c = Inr b" for c b
    using that by (auto simp: Let_def return_iff base_name_def dest: inspection_id)
  have ids: "mapE ?g cs = Inr bs \<Longrightarrow> map id_of bs = cs" for cs bs
    using one by (induction cs arbitrary: bs) (fastforce simp: return_iff)+
  have rels: "mapE ?g cs = Inr bs \<Longrightarrow> b \<in> set bs \<Longrightarrow> la_rel b = relative_path (l_root l) (reset_archives_root l @ [id_of b])" for cs bs b
    using one by (induction cs arbitrary: bs) (fastforce simp: return_iff)+
  show "mset (map id_of as) = mset (folder_names dirs)"
    using ids [OF bs] by (simp add: as) (metis mset_map)
  show "sorted_wrt (\<lambda>a b. \<not> newer b a) as" unfolding as by (rule archive_order.sort_by_sorted) simp
  show "a \<in> set as \<Longrightarrow> la_rel a = relative_path (l_root l) (reset_archives_root l @ [id_of a])"
    using rels [OF bs] by (simp add: as)
qed

subsection \<open>The plan\<close>

lemma plan_archives_split:
  "pp_archives (plan_archives v as pp) = pp_archives pp"
  "pp_prunable (plan_archives v as pp) = pp_prunable pp @ map snd (filter (\<lambda>x. v x = Prunable) as)"
  "pp_kept (plan_archives v as pp) = pp_kept pp @ map snd (filter (\<lambda>x. v x \<noteq> Prunable) as)"
  "pp_unknown (plan_archives v as pp) = pp_unknown pp @ map snd (filter (\<lambda>x. v x = KeptUnknownAge) as)"
  by (induction v as pp rule: plan_archives.induct) (auto split: verdict.splits)

lemma filter_enum_nth: "map snd (filter P (enum xs)) = map ((!) xs) (filter (\<lambda>i. P (i, xs ! i)) [0..<length xs])"
proof -
  have "enum xs = map (\<lambda>i. (i, xs ! i)) [0..<length xs]" by (intro nth_equalityI) (auto simp: enum_def)
  then show ?thesis by (simp add: filter_map comp_def)
qed

text \<open>
  Which archive of the listing is due: it is not one of the newest \<open>keep\<close>, and with an age limit
  its creation time is known and at least the limit ago (a time in the future is no age).
\<close>

definition prune_due :: "int option \<Rightarrow> pyfloat option \<Rightarrow> pyfloat \<Rightarrow> listed_archive list \<Rightarrow> nat \<Rightarrow> bool" where
  "prune_due keep older now as i \<longleftrightarrow> (\<forall>k. keep = Some k \<longrightarrow> k \<le> int i) \<and>
     (\<forall>limit. older = Some limit \<longrightarrow>
        (\<exists>t. archive_created_at_seconds (la_inspection (as ! i)) = Some t \<and> fle limit (py_max (Fin 0) (fsub now t))))"

lemma created_not_NaN: "archive_created_at_seconds a \<noteq> Some NaN"
  by (auto simp: archive_created_at_seconds_def split: option.splits)

lemma prunable_iff_due:
  assumes "is_finite now" "\<forall>limit. older = Some limit \<longrightarrow> is_finite limit"
  shows "prune_verdict keep older now (i, as ! i) = Prunable \<longleftrightarrow> prune_due keep older now as i"
proof -
  have "\<not> flt (py_max (Fin 0) (fsub now t)) limit \<longleftrightarrow> fle limit (py_max (Fin 0) (fsub now t))"
    if "older = Some limit" "archive_created_at_seconds a = Some t" for limit t a
  proof -
    have "t \<noteq> NaN" using that(2) created_not_NaN by blast
    then have "fsub now t \<noteq> NaN" using assms(1) by (auto simp: fsub_NaN_iff)
    then have "py_max (Fin 0) (fsub now t) \<noteq> NaN" by (simp add: py_max_def)
    moreover have "limit \<noteq> NaN" using assms(2) that(1) by auto
    ultimately show ?thesis by (rule not_flt)
  qed
  then show ?thesis by (auto simp: prune_verdict_def prune_due_def not_less split: option.splits if_splits)
qed

lemma planned_prune:
  assumes "plan_reset_archive_prune loads l keep older now n = Inr pp"
  shows "list_reset_archives loads l 5 n = Inr (pp_archives pp)"
    "mset (pp_prunable pp) + mset (pp_kept pp) = mset (pp_archives pp)"
    "pp_prunable pp = map ((!) (pp_archives pp)) (filter (prune_due keep older now (pp_archives pp)) [0..<length (pp_archives pp)])"
    "pp_kept pp = map ((!) (pp_archives pp)) (filter (\<lambda>i. \<not> prune_due keep older now (pp_archives pp) i) [0..<length (pp_archives pp)])"
proof -
  from assms obtain as where as: "list_reset_archives loads l 5 n = Inr as"
    and pp: "pp = plan_archives (prune_verdict keep older now) (enum as) \<lparr>pp_archives = as, pp_prunable = [], pp_kept = [], pp_unknown = []\<rparr>"
    and fin: "is_finite now" "\<forall>limit. older = Some limit \<longrightarrow> is_finite limit"
    by (auto simp: plan_reset_archive_prune_def return_iff split: if_splits option.splits)
  let ?v = "prune_verdict keep older now"
  have f: "pp_archives pp = as" "pp_prunable pp = map snd (filter (\<lambda>x. ?v x = Prunable) (enum as))"
    "pp_kept pp = map snd (filter (\<lambda>x. ?v x \<noteq> Prunable) (enum as))"
    by (simp_all add: pp plan_archives_split)
  show "list_reset_archives loads l 5 n = Inr (pp_archives pp)" by (simp add: f as)
  have "mset (map snd (filter P xs)) + mset (map snd (filter (\<lambda>x. \<not> P x) xs)) = mset (map snd xs)" for P and xs :: "(nat \<times> listed_archive) list"
    by (induction xs) auto
  from this [of "\<lambda>x. ?v x = Prunable" "enum as"] show "mset (pp_prunable pp) + mset (pp_kept pp) = mset (pp_archives pp)"
    by (simp only: f enum_snd)
  show "pp_prunable pp = map ((!) (pp_archives pp)) (filter (prune_due keep older now (pp_archives pp)) [0..<length (pp_archives pp)])"
    "pp_kept pp = map ((!) (pp_archives pp)) (filter (\<lambda>i. \<not> prune_due keep older now (pp_archives pp) i) [0..<length (pp_archives pp)])"
    by (simp_all add: f filter_enum_nth prunable_iff_due [OF fin])
qed

subsection \<open>The files\<close>

abbreviation archive_dir_of :: "layout \<Rightarrow> listed_archive \<Rightarrow> path" where
  "archive_dir_of l a \<equiv> reset_archives_root l @ [id_of a]"

lemma prune_each_result:
  assumes "prune_each f l as d = (Inr rels, d')" "\<And>a. a \<in> set as \<Longrightarrow> py_strip (id_of a) = id_of a" "distinct (map id_of as)"
  shows "frame (map (archive_dir_of l) as) (d_root d) (d_root d') \<and> (\<forall>a\<in>set as. node_at (d_root d') (archive_dir_of l a) = None) \<and>
    rels = map (\<lambda>a. relative_path (l_root l) (archive_dir_of l a)) as"
  using assms
proof (induction as arbitrary: d rels)
  case (Cons a as)
  from Cons.prems(1) obtain arch d1 rels' where res: "resolve_reset_archive l (d_root d) (id_of a) = Inr arch"
    and rm: "remove_path f arch d = (Inr (), d1)" and rest: "prune_each f l as d1 = (Inr rels', d')"
    and rels: "rels = relative_path (l_root l) arch # rels'"
    by (auto simp: bindF_Inr thenF_Inr getF_def liftF_def)
  from res Cons.prems(2) have arch: "arch = archive_dir_of l a"
    by (auto simp: resolve_reset_archive_def Let_def split: if_splits)
  have ne: "arch \<noteq> []" by (simp add: arch)
  from keepsD [OF keeps_remove [OF ne] rm] have f1: "frame [arch] (d_root d) (d_root d1)" by simp
  from remove_path_result [OF rm ne] have gone: "node_at (d_root d1) arch = None" by simp
  from Cons.IH [OF rest] Cons.prems(2,3) have IH: "frame (map (archive_dir_of l) as) (d_root d1) (d_root d')"
    "\<forall>a\<in>set as. node_at (d_root d') (archive_dir_of l a) = None" "rels' = map (\<lambda>a. relative_path (l_root l) (archive_dir_of l a)) as"
    by auto
  have "node_at (d_root d') arch = node_at (d_root d1) arch"
    using Cons.prems(3) by (intro frame_apart [OF IH(1)]) (auto simp: arch rev_image_eqI)
  with gone IH(2) have "\<forall>b\<in>set (a # as). node_at (d_root d') (archive_dir_of l b) = None" by (simp add: arch)
  moreover have "frame (map (archive_dir_of l) (a # as)) (d_root d) (d_root d')"
    by (rule frame_trans [OF frame_mono [OF f1] frame_mono [OF IH(1)]]) (auto simp: arch)
  ultimately show ?case by (simp add: rels IH(3) arch)
qed simp

text \<open>C26: a prune that returns has removed exactly the archives that are due, of those listed newest first:
  the ones after the newest \<open>keep\<close> whose age, with an age limit, is known and has reached it. All
  others are kept. The directories of the pruned ones are gone, those of the kept ones untouched,
  nothing outside the pruned directories has changed, and the report names the pruned ones.\<close>

theorem prune_exact:
  assumes "distinct_names (d_root d)" and dirs: "node_at (d_root d) (reset_archives_root l) = Some (Folder dirs)"
    and solid: "list_all (\<lambda>c. py_strip c = c) (folder_names dirs)"
    and run: "prune_reset_archives f loads l keep older now d = (Inr (pp, rels), d')"
  shows "mset (map id_of (pp_archives pp)) = mset (folder_names dirs) \<and>
    sorted_wrt (\<lambda>a b. \<not> newer b a) (pp_archives pp) \<and>
    pp_prunable pp = map ((!) (pp_archives pp)) (filter (prune_due keep older now (pp_archives pp)) [0..<length (pp_archives pp)]) \<and>
    pp_kept pp = map ((!) (pp_archives pp)) (filter (\<lambda>i. \<not> prune_due keep older now (pp_archives pp) i) [0..<length (pp_archives pp)]) \<and>
    (\<forall>a\<in>set (pp_prunable pp). \<not> path_exists (d_root d') (archive_dir_of l a)) \<and>
    (\<forall>a\<in>set (pp_kept pp). node_at (d_root d') (archive_dir_of l a) = node_at (d_root d) (archive_dir_of l a)) \<and>
    rels = map la_rel (pp_prunable pp) \<and> frame (map (archive_dir_of l) (pp_prunable pp)) (d_root d) (d_root d')"
proof -
  from run have plan: "plan_reset_archive_prune loads l keep older now (d_root d) = Inr pp"
    and each: "prune_each f l (pp_prunable pp) d = (Inr rels, d')"
    by (auto simp: prune_reset_archives_def bindF_Inr getF_def liftF_def)
  note P = planned_prune [OF plan]
  note L = listed [OF P(1) dirs]
  have ids: "mset (map id_of (pp_prunable pp)) + mset (map id_of (pp_kept pp)) = mset (folder_names dirs)"
    using P(2) L(1) by (metis image_mset_union mset_map)
  have "distinct (map fst dirs)" using distinct_names_node_at [OF assms(1) dirs] by simp
  then have "distinct (folder_names dirs)" by (rule folder_names_distinct)
  moreover have "mset (map id_of (pp_prunable pp) @ map id_of (pp_kept pp)) = mset (folder_names dirs)" using ids by simp
  ultimately have dist: "distinct (map id_of (pp_prunable pp) @ map id_of (pp_kept pp))"
    by (metis distinct_count_atmost_1 mset_eq_setD)
  have mem: "id_of a \<in> set (folder_names dirs)" if "a \<in> set (pp_prunable pp)" for a
    using ids that by (metis UnCI image_eqI in_multiset_in_set set_map set_mset_union)
  have st: "py_strip (id_of a) = id_of a" if "a \<in> set (pp_prunable pp)" for a
    using solid mem [OF that] by (auto simp: list_all_iff)
  have "distinct (map id_of (pp_prunable pp))" using dist by simp
  note E = prune_each_result [OF each st this]
  have sub: "set (pp_prunable pp) \<subseteq> set (pp_archives pp)" using P(2) by (metis Un_upper1 set_mset_mset set_mset_union)
  have kept: "node_at (d_root d') (archive_dir_of l a) = node_at (d_root d) (archive_dir_of l a)" if a: "a \<in> set (pp_kept pp)" for a
  proof (rule frame_apart [OF conjunct1 [OF E]])
    fix p assume "p \<in> set (map (archive_dir_of l) (pp_prunable pp))"
    then obtain b where b: "b \<in> set (pp_prunable pp)" "p = archive_dir_of l b" by auto
    with dist a have "id_of b \<noteq> id_of a" by auto
    then show "apart p (archive_dir_of l a)" by (simp add: b(2))
  qed
  have rels: "rels = map la_rel (pp_prunable pp)" using E L(3) sub by (auto intro!: map_cong)
  have gone: "\<not> path_exists (d_root d') (archive_dir_of l a)" if "a \<in> set (pp_prunable pp)" for a
    using E that by (simp add: path_exists_def)
  show ?thesis
    by (intro conjI L(1,2) rels conjunct1 [OF E] ballI P(3,4) gone kept; assumption)
qed

lemma prune_exact_witness:
  "\<exists>pp d'. prune_reset_archives no_faults (\<lambda>_. None) demo_layout (Some 0) None (Fin 0) demo_disk = (Inr (pp, [''state/reset_archives/r1'']), d') \<and>
     \<not> path_exists (d_root d') [''p'', ''state'', ''reset_archives'', ''r1'']"
proof -
  let ?run = "prune_reset_archives no_faults (\<lambda>_. None) demo_layout (Some 0) None (Fin 0) demo_disk"
  obtain r d' where run: "?run = (r, d')" by fastforce
  have "case fst ?run of Inl _ \<Rightarrow> False | Inr (pp, rels) \<Rightarrow> rels = [''state/reset_archives/r1''] \<and> map id_of (pp_prunable pp) = [''r1'']"
    by code_simp
  with run obtain pp where r: "r = Inr (pp, [''state/reset_archives/r1''])" "map id_of (pp_prunable pp) = [''r1'']"
    by (auto split: sum.splits)
  have w: "distinct_names (d_root demo_disk)"
    "node_at (d_root demo_disk) (reset_archives_root demo_layout) = Some (Folder [(''r1'', Folder [(''state'', Folder
         [(''bo_state.json'', RegFile ''old''), (''trials'', Folder [(''trial_1'', RegFile ''m'')])])])])"
    "list_all (\<lambda>c. py_strip c = c) (folder_names [(''r1'', Folder [(''state'', Folder
         [(''bo_state.json'', RegFile ''old''), (''trials'', Folder [(''trial_1'', RegFile ''m'')])])])])"
    "reset_archives_root demo_layout = [''p'', ''state'', ''reset_archives'']"
    by code_simp+
  from r(2) obtain a where "a \<in> set (pp_prunable pp)" "id_of a = ''r1''" by (cases "pp_prunable pp") auto
  with prune_exact [OF w(1-3) run [unfolded r(1)]] have "\<not> path_exists (d_root d') (reset_archives_root demo_layout @ [''r1''])" by metis
  with run r w(4) show ?thesis by auto
qed

end
