(* ===== verification/Validate.thy ===== *)
theory Validate
  imports Guarantees
begin

text \<open>
  The \<open>validate\<close>, \<open>status\<close> and \<open>report\<close> commands of the controller, as far as they judge or
  summarise the state document: the hard checks of \<open>_validate_state_hard_checks\<close>, the
  counts of a status, the health of a campaign and the ranking of a report.
\<close>

subsection \<open>Errors\<close>

text \<open>
  The messages, with the position of the entry they are about; what a message interpolates
  beyond that is kept when it comes from the state, and left out when it is the text of an
  exception.
\<close>

datatype state_error =
    StateError string
  | ObsError nat string
  | NotNull nat string string
  | PendingError nat string
  | Overlap "int list" bool

text \<open>\<open>try: r except ValueError\<close>\<close>

definition on_value_error :: "'a res \<Rightarrow> 'b \<Rightarrow> ('a \<Rightarrow> 'b) \<Rightarrow> 'b res" where
  "on_value_error r h k = (case r of
     Inr x \<Rightarrow> Inr (k x)
   | Inl e \<Rightarrow> if is_value_error e then Inr h else Inl e)"

definition error_if :: "bool \<Rightarrow> state_error \<Rightarrow> state_error list" where
  "error_if b e = (if b then [e] else [])"

text \<open>\<open>int(v)\<close> of what \<open>isinstance(v, int)\<close> accepts\<close>

fun inst_int_value :: "json \<Rightarrow> int option" where
  "inst_int_value (JBool b) = Some (of_bool b)"
| "inst_int_value (JInt i) = Some i"
| "inst_int_value _ = None"

fun json_items :: "json \<Rightarrow> json list" where
  "json_items (JArr xs) = xs"
| "json_items _ = []"

subsection \<open>Entries\<close>

type_synonym ranked = "int \<times> rank_key \<times> vector"

text \<open>The objectives of an observation: the errors, and its place in the ranking when it is \<open>ok\<close>.\<close>

definition check_objectives :: "objective_cfg \<Rightarrow> nat \<Rightarrow> jdict \<Rightarrow> (state_error list \<times> ranked list) res" where
  "check_objectives cfg idx obs = (case jget obs ''objectives'' of
     JObj objectives \<Rightarrow>
       let status = py_str (dict_get obs ''status'' (JStr ''ok''));
           bad = error_if (\<not> List.member canonical_statuses status) (ObsError idx ''status must be one of ok|failed|killed|timeout'') in
       if status = ''ok'' then
         on_value_error (canonical_objective_vector (JObj objectives) cfg) (bad @ [ObsError idx ''objectives invalid''], [])
           (\<lambda>v. (bad, case inst_int_value (jget obs ''trial_id'') of None \<Rightarrow> [] | Some t \<Rightarrow> [(t, best_rank_key v cfg t, v)]))
       else Inr (bad @ map (\<lambda>n. NotNull idx n status) (filter (\<lambda>n. jget objectives n \<noteq> JNull) (objective_names cfg)), [])
   | _ \<Rightarrow> Inr ([ObsError idx ''objectives must be an object''], []))"

text \<open>One observation: its errors, its id when it has one, and its place in the ranking.\<close>

definition check_observation :: "objective_cfg \<Rightarrow> nat \<times> json \<Rightarrow> (state_error list \<times> int list \<times> ranked list) res" where
  "check_observation cfg x = (case snd x of
     JObj obs \<Rightarrow>
       bindE (on_value_error (normalize_lease_token (jget obs ''lease_token'') ''lease_token'') [ObsError (fst x) ''lease_token''] (\<lambda>_. []))
         (\<lambda>lease.
       bindE (check_objectives cfg (fst x) obs) (\<lambda>(objs, ranked).
       Inr (error_if (inst_int_value (jget obs ''trial_id'') = None) (ObsError (fst x) ''trial_id must be an integer'') @
            error_if (\<not> is_dict (jget obs ''params'')) (ObsError (fst x) ''params must be an object'') @ lease @ objs,
            (case inst_int_value (jget obs ''trial_id'') of None \<Rightarrow> [] | Some t \<Rightarrow> [t]), ranked)))
   | _ \<Rightarrow> Inr ([ObsError (fst x) ''must be an object''], [], []))"

definition check_pending :: "nat \<times> json \<Rightarrow> (state_error list \<times> int list) res" where
  "check_pending x = (case snd x of
     JObj row \<Rightarrow>
       bindE (on_value_error (normalize_lease_token (jget row ''lease_token'') ''lease_token'') [PendingError (fst x) ''lease_token''] (\<lambda>_. []))
         (\<lambda>lease.
       Inr (error_if (inst_int_value (jget row ''trial_id'') = None) (PendingError (fst x) ''trial_id must be an integer'') @
            error_if (\<not> is_dict (jget row ''params'')) (PendingError (fst x) ''params must be an object'') @
            error_if (\<not> inst_num (jget row ''suggested_at'')) (PendingError (fst x) ''suggested_at must be numeric'') @ lease,
            (case inst_int_value (jget row ''trial_id'') of None \<Rightarrow> [] | Some t \<Rightarrow> [t])))
   | _ \<Rightarrow> Inr ([PendingError (fst x) ''must be an object''], []))"

definition check_overlap :: "int list \<Rightarrow> int list \<Rightarrow> state_error list" where
  "check_overlap obs pend = (let overlap = sort (remdups (filter (List.member pend) obs)) in
     error_if (overlap \<noteq> []) (Overlap (take 5 overlap) (5 < length overlap)))"

subsection \<open>The best record\<close>

text \<open>\<open>abs(a - b) > 1e-12\<close>\<close>

definition scalar_differs :: "pyfloat \<Rightarrow> pyfloat \<Rightarrow> bool" where
  "scalar_differs a b = flt (mk_float False (1 / 10 ^ 12)) (fabs (fsub a b))"

definition refers_to :: "int \<Rightarrow> json \<Rightarrow> bool" where
  "refers_to t v = (case v of
     JObj obs \<Rightarrow> inst_int_value (jget obs ''trial_id'') = Some t \<and> py_str (dict_get obs ''status'' (JStr [])) = ''ok''
   | _ \<Rightarrow> False)"

text \<open>The best record against the observation it refers to; \<open>value\<close> is the value of a number.\<close>

definition check_best_row :: "objective_cfg \<Rightarrow> jdict \<Rightarrow> pyfloat option \<Rightarrow> json \<Rightarrow> state_error list res" where
  "check_best_row cfg best val row =
     bindE (on_value_error (canonical_objective_vector (case row of JObj obs \<Rightarrow> jget obs ''objectives'' | _ \<Rightarrow> JNull) cfg)
       [StateError ''best references an observation with invalid objectives'']
       (\<lambda>v. error_if (case val of None \<Rightarrow> False | Some x \<Rightarrow> scalar_differs (scalarize_objectives v cfg) x)
              (StateError ''best.objective_value must match the scalarized objective'') @
            error_if (jget best ''objective_vector'' \<noteq> JNull \<and> \<not> py_eq (jget best ''objective_vector'') (vector_json v))
              (StateError ''best.objective_vector must match the observation'') @
            error_if (1 < length (objective_names cfg) \<and> \<not> is_dict (jget best ''objective_vector''))
              (StateError ''best.objective_vector must be present for multi-objective campaigns'')))
       (\<lambda>errors. Inr (errors @ error_if (case val of None \<Rightarrow> False | Some x \<Rightarrow> \<not> is_finite x)
          (StateError ''best.objective_value must be a finite number'')))"

text \<open>The errors of the best record, its id when that is an integer, and its value when that is finite.\<close>

definition check_best :: "objective_cfg \<Rightarrow> json list \<Rightarrow> json \<Rightarrow> (state_error list \<times> int option \<times> pyfloat option) res" where
  "check_best cfg observations b = (case b of
     JNull \<Rightarrow> Inr ([], None, None)
   | JObj best \<Rightarrow>
       let t = inst_int_value (jget best ''trial_id''); raw = jget best ''objective_value'' in
       bindE (if strict_num raw then bindE (py_float raw) (\<lambda>x. Inr (Some x)) else Inr None) (\<lambda>val.
       let fin = (case val of None \<Rightarrow> False | Some x \<Rightarrow> is_finite x) in
       bindE (case t of None \<Rightarrow> Inr []
              | Some i \<Rightarrow> (case find (refers_to i) observations of
                  None \<Rightarrow> Inr [StateError ''best.trial_id must reference an observed ok trial'']
                | Some row \<Rightarrow> check_best_row cfg best val row)) (\<lambda>errors.
       Inr (error_if (t = None) (StateError ''best.trial_id must be an integer'') @
            error_if (\<not> py_eq (jget best ''objective_name'') (JStr (best_objective_name cfg))) (StateError ''best.objective_name'') @
            error_if (\<not> fin) (StateError ''best.objective_value must be a finite number'') @ errors,
            t, if fin then val else None)))
   | _ \<Rightarrow> Inr ([StateError ''best must be null or an object''], None, None))"

text \<open>The best record against the minimum of the ranking.\<close>

definition check_ranking :: "objective_cfg \<Rightarrow> json \<Rightarrow> ranked list \<Rightarrow> int option \<Rightarrow> pyfloat option \<Rightarrow> state_error list" where
  "check_ranking cfg best ranked t val = (case ranked of [] \<Rightarrow> []
     | r # rs \<Rightarrow>
        (case min_by (\<lambda>a b. rank_lt (fst (snd a)) (fst (snd b))) r rs of (expected, _, v) \<Rightarrow>
         if best = JNull then [StateError ''best must be set when at least one ok observation exists'']
         else if (case t of None \<Rightarrow> False | Some i \<Rightarrow> i \<noteq> expected) then [StateError ''best.trial_id must reference the optimal ok trial'']
         else error_if (case val of None \<Rightarrow> False | Some x \<Rightarrow> scalar_differs x (scalarize_objectives v cfg))
           (StateError ''best.objective_value must match the optimal value'')))"

subsection \<open>The hard checks\<close>

definition required_state_keys :: "string list" where
  "required_state_keys = [''schema_version'', ''meta'', ''observations'', ''pending'', ''next_trial_id'', ''best'']"

definition check_shape :: "jdict \<Rightarrow> state_error list" where
  "check_shape state =
     map (\<lambda>k. StateError (''missing required state key: '' @ k)) (filter (\<lambda>k. \<not> has_key state k) required_state_keys) @
     error_if (\<not> is_dict (jget state ''meta'')) (StateError ''meta must be an object'') @
     error_if (\<not> is_list (jget state ''observations'')) (StateError ''observations must be a list'') @
     error_if (\<not> is_list (jget state ''pending'')) (StateError ''pending must be a list'') @
     (case inst_int_value (jget state ''next_trial_id'') of
        None \<Rightarrow> [StateError ''next_trial_id must be an integer'']
      | Some n \<Rightarrow> error_if (n < 1) (StateError ''next_trial_id must be >= 1''))"

text \<open>\<open>max(ids, default=0)\<close>\<close>

definition highest_id :: "int list \<Rightarrow> int" where
  "highest_id ids = (case ids of [] \<Rightarrow> 0 | i # is \<Rightarrow> foldl max i is)"

definition validate_state_hard_checks :: "jdict \<Rightarrow> objective_cfg \<Rightarrow> state_error list res" where
  "validate_state_hard_checks state cfg =
     bindE (mapE (check_observation cfg) (enum (json_items (jget state ''observations'')))) (\<lambda>obs.
     bindE (mapE check_pending (enum (json_items (jget state ''pending'')))) (\<lambda>pend.
     bindE (check_best cfg (json_items (jget state ''observations'')) (jget state ''best'')) (\<lambda>(best, t, val).
     let obs_ids = concat (map (\<lambda>x. fst (snd x)) obs); pend_ids = concat (map snd pend) in
     Inr (check_shape state @ concat (map fst obs) @
          error_if (\<not> distinct obs_ids) (StateError ''observations contains duplicate trial_id values'') @
          concat (map fst pend) @
          error_if (\<not> distinct pend_ids) (StateError ''pending contains duplicate trial_id values'') @
          check_overlap obs_ids pend_ids @
          (case inst_int_value (jget state ''next_trial_id'') of None \<Rightarrow> []
           | Some n \<Rightarrow> error_if (n \<le> highest_id (obs_ids @ pend_ids))
               (StateError ''next_trial_id must be greater than any observed/pending trial_id'')) @
          best @ check_ranking cfg (jget state ''best'') (concat (map (\<lambda>x. snd (snd x)) obs)) t val))))"

subsection \<open>Reachable states\<close>

lemma error_if_False [simp]: "error_if False e = []" and error_if_True [simp]: "error_if True e = [e]"
  by (simp_all add: error_if_def)

lemma on_value_error_Inr [simp]: "on_value_error (Inr x) h k = Inr (k x)"
  by (simp add: on_value_error_def)

lemma map_enum: "map (\<lambda>x. f (snd x)) (enum xs) = map f xs"
  by (metis (no_types, lifting) enum_snd list.map_comp comp_apply map_eq_conv)

lemma token_ok_normal: "token_ok e \<Longrightarrow> \<exists>t. normalize_lease_token (jget e ''lease_token'') f = Inr t"
  by (auto simp: token_ok_def normalize_lease_token_def split: json.splits)

lemma has_tid_value: "has_tid e \<Longrightarrow> inst_int_value (jget e ''trial_id'') = Some (tid e)"
  by (simp add: has_tid_def)

lemma all_null_get: "all_null d \<Longrightarrow> jget d n = JNull"
proof (cases "map_of d n")
  case (Some v)
  then have "n \<in> fst ` set d" by (rule map_of_SomeD [THEN image_eqI [rotated]]) simp
  moreover assume "all_null d"
  ultimately show ?thesis by (auto simp: all_null_def list_all_iff)
qed simp

text \<open>The place of a row in the ranking.\<close>

definition rank_of :: "objective_cfg \<Rightarrow> prepared \<Rightarrow> ranked" where
  "rank_of cfg p = (fst (snd p), prepared_key cfg p, prepared_vector p)"

lemma check_observation_row:
  assumes "row_wf r" "row_ok r \<Longrightarrow> ranked_row cfg r = Inr p"
  shows "check_observation cfg (i, JObj r) = Inr ([], [tid r], if row_ok r then [rank_of cfg p] else [])"
proof -
  obtain d st where d: "jget r ''objectives'' = JObj d" and st: "map_of r ''status'' = Some (JStr st)" "List.member canonical_statuses st"
    and tid: "has_tid r" and params: "is_dict (jget r ''params'')" and nulls: "\<not> row_ok r \<Longrightarrow> all_null d"
    using assms(1) by (auto simp: row_wf_def is_dict_iff split: option.splits json.splits)
  obtain t where t: "normalize_lease_token (jget r ''lease_token'') ''lease_token'' = Inr t"
    using assms(1) token_ok_normal by (force simp: row_wf_def)
  note val = has_tid_value [OF tid]
  have ok: "row_ok r \<longleftrightarrow> st = ''ok''" using st(1) by (simp add: row_ok_def dict_get_def)
  have "check_objectives cfg i r = Inr ([], if row_ok r then [rank_of cfg p] else [])"
  proof (cases "row_ok r")
    case True
    with assms(2) have "ranked_row cfg r = Inr p" by simp
    moreover have "dict_get r ''objectives'' (JObj []) = JObj d" using d by (auto simp: dict_get_def jget_def split: option.splits)
    ultimately obtain v where "canonical_objective_vector (JObj d) cfg = Inr v" "p = (r, tid r, v)"
      using tid by (auto simp: ranked_row_def return_iff)
    with True ok st d val show ?thesis
      by (simp add: check_objectives_def dict_get_def rank_of_def prepared_key_def prepared_vector_def Let_def)
  next
    case False
    with nulls have "jget d n = JNull" for n by (simp add: all_null_get)
    with False ok st d show ?thesis by (simp add: check_objectives_def dict_get_def Let_def)
  qed
  with t val params show ?thesis by (simp add: check_observation_def)
qed

lemma check_pending_entry: "entry_wf e \<Longrightarrow> check_pending (i, JObj e) = Inr ([], [tid e])"
  using token_ok_normal [of e "''lease_token''"] has_tid_value [of e]
  by (auto simp: entry_wf_def check_pending_def)

lemma mapE_enum:
  assumes "\<And>i x. x \<in> set xs \<Longrightarrow> f (i, x) = Inr (g x)"
  shows "mapE f (enum xs) = Inr (map g xs)"
proof -
  have "mapE f (enum xs) = Inr (map (\<lambda>x. g (snd x)) (enum xs))"
    by (rule mapE_total) (auto simp: enum_def intro!: assms dest: set_zip_rightD)
  then show ?thesis by (simp add: map_enum)
qed

lemma concat_single: "concat (map (\<lambda>x. [f x]) xs) = map f xs" "concat (map (\<lambda>x. []) xs) = []"
  "concat (map (\<lambda>x. if P x then [f x] else []) xs) = map f (filter P xs)"
  by (induction xs) auto

lemma mapE_Inr_all: "mapE f xs = Inr ys \<Longrightarrow> x \<in> set xs \<Longrightarrow> \<exists>y. f x = Inr y"
  by (induction xs arbitrary: ys) (auto simp: return_iff)

lemma check_rows:
  assumes "list_all row_wf rows" "mapE (ranked_row cfg) (filter row_ok rows) = Inr ps"
  shows "\<exists>xs. mapE (check_observation cfg) (enum (map JObj rows)) = Inr xs \<and> concat (map fst xs) = [] \<and>
    concat (map (\<lambda>x. fst (snd x)) xs) = map tid rows \<and> concat (map (\<lambda>x. snd (snd x)) xs) = map (rank_of cfg) ps"
proof -
  define k where "k r = projr (ranked_row cfg r)" for r
  have ranked: "ranked_row cfg r = Inr (k r)" if "r \<in> set rows" "row_ok r" for r
    using mapE_Inr_all [OF assms(2), of r] that by (auto simp: k_def)
  then have ps: "ps = map k (filter row_ok rows)"
    using mapE_total [of "filter row_ok rows" "ranked_row cfg" k] assms(2) by simp
  define g where "g v = (case v of JObj r \<Rightarrow> ([] :: state_error list, [tid r], if row_ok r then [rank_of cfg (k r)] else []) | _ \<Rightarrow> ([], [], []))" for v
  have "mapE (check_observation cfg) (enum (map JObj rows)) = Inr (map g (map JObj rows))"
  proof (rule mapE_enum)
    fix i x assume "x \<in> set (map JObj rows)"
    then obtain r where r: "x = JObj r" "r \<in> set rows" by auto
    with assms(1) have "row_wf r" by (simp add: list_all_iff)
    from check_observation_row [OF this ranked [OF r(2)], of i]
    show "check_observation cfg (i, x) = Inr (g x)" by (simp add: g_def r(1))
  qed
  then show ?thesis by (simp add: comp_def g_def concat_single ps)
qed

lemma check_entries:
  assumes "list_all entry_wf es"
  shows "\<exists>xs. mapE check_pending (enum (map JObj es)) = Inr xs \<and> concat (map fst xs) = [] \<and> concat (map snd xs) = map tid es"
proof -
  define g where "g v = (case v of JObj r \<Rightarrow> ([] :: state_error list, [tid r]) | _ \<Rightarrow> ([], []))" for v
  have "mapE check_pending (enum (map JObj es)) = Inr (map g (map JObj es))"
    using assms by (intro mapE_enum) (auto simp: g_def list_all_iff intro!: check_pending_entry)
  then show ?thesis by (simp add: comp_def g_def concat_single)
qed

lemma foldl_max: "(\<forall>i\<in>set is. i < n) \<Longrightarrow> m < n \<Longrightarrow> foldl max m is < (n :: int)"
  by (induction "is" arbitrary: m) auto

lemma check_ids:
  assumes "ids_exact c"
  shows "distinct (map tid (cp_observations c))" "distinct (map tid (cp_pending c))"
    "check_overlap (map tid (cp_observations c)) (map tid (cp_pending c)) = []"
    "\<not> cp_next c \<le> highest_id (trial_ids c)" "1 \<le> cp_next c"
proof -
  from assms have n: "1 \<le> cp_next c" and d: "distinct (trial_ids c)" and s: "set (trial_ids c) = {1..<cp_next c}"
    by (simp_all add: ids_exact_iff)
  show "distinct (map tid (cp_observations c))" "distinct (map tid (cp_pending c))" using d by (simp_all add: trial_ids_def)
  have "filter (List.member (map tid (cp_pending c))) (map tid (cp_observations c)) = []"
    using d by (auto simp: trial_ids_def filter_empty_conv)
  then show "check_overlap (map tid (cp_observations c)) (map tid (cp_pending c)) = []"
    by (simp add: check_overlap_def del: filter_map)
  have "highest_id ids < cp_next c" if "\<forall>i\<in>set ids. i < cp_next c" for ids
    using that n by (cases ids) (auto simp: highest_id_def intro!: foldl_max)
  then show "\<not> cp_next c \<le> highest_id (trial_ids c)" using s by (simp add: not_le)
qed (use assms in \<open>simp add: ids_exact_iff\<close>)

subsection \<open>The best record of a reachable state\<close>

lemma canonical_vector_parts:
  assumes "canonical_objective_vector raw cfg = Inr v"
  shows "map fst v = objective_names cfg" "\<forall>x\<in>set v. is_finite (snd x)"
proof -
  from assms obtain d where m: "mapE (\<lambda>n. bindE (obj_require_finite (jget d n) (''objectives.'' @ n)) (\<lambda>v. Inr (n, v))) (objective_names cfg) = Inr v"
    by (auto simp: canonical_objective_vector_def return_iff Let_def)
  show "map fst v = objective_names cfg" by (rule mapE_pairs(1) [OF m])
  show "\<forall>x\<in>set v. is_finite (snd x)"
    using mapE_pairs(2) [OF m] by (auto simp: return_iff)
qed

lemma vector_json_wf: "canonical_objective_vector raw cfg = Inr v \<Longrightarrow> distinct (objective_names cfg) \<Longrightarrow> json_wf (vector_json v)"
  using canonical_vector_parts [of raw cfg v]
  by (auto simp: vector_json_def list_all_iff comp_def split_beta)

lemma scalar_same: "is_finite x \<Longrightarrow> \<not> scalar_differs x x"
proof -
  assume f: "is_finite x"
  then have "x \<noteq> NaN" by (cases x) auto
  then have "fsub x x = mk_float (sign_bit x \<and> sign_bit (fneg x)) 0"
    using f by (simp add: fsub_def fadd_def)
  then have "fabs (fsub x x) = Fin 0" by (simp add: mk_float_def rnd_def)
  moreover have "\<not> flt (mk_float False (1 / 10 ^ 12)) (Fin 0)" by code_simp
  ultimately show ?thesis by (simp add: scalar_differs_def)
qed

lemma best_json_get:
  "jget d ''trial_id'' = JInt (br_trial_id b)" "jget d ''objective_name'' = JStr (br_objective_name b)"
  "jget d ''objective_value'' = JFloat (br_objective_value b)"
  "jget d ''objective_vector'' = (case br_view b of None \<Rightarrow> JNull | Some (_, v) \<Rightarrow> vector_json v)"
  if "best_json b = JObj d"
  using that by (auto simp: best_json_def jget_def split: option.splits)

lemma find_unique: "x \<in> set xs \<Longrightarrow> P x \<Longrightarrow> \<forall>y\<in>set xs. P y \<longrightarrow> y = x \<Longrightarrow> find P xs = Some x"
proof (induction xs)
  case (Cons y ys)
  show ?case
  proof (cases "P y")
    case True
    with Cons.prems(3) show ?thesis by simp
  next
    case False
    with Cons.prems have "find P ys = Some x" by (intro Cons.IH) auto
    with False show ?thesis by simp
  qed
qed simp

lemma check_best_current_record:
  assumes "ranked_row cfg r = Inr (r, t, v)" "has_tid r" "build_best_record r cfg u = Inr b" "distinct (objective_names cfg)"
    and "find (refers_to t) observations = Some (JObj r)" "is_dict (jget r ''objectives'')"
  shows "\<exists>errors. check_best cfg observations (best_json b) =
    Inr (errors, Some t, if is_finite (br_objective_value b) then Some (br_objective_value b) else None) \<and>
    br_objective_value b = scalarize_objectives v cfg \<and> (errors = [] \<longleftrightarrow> is_finite (br_objective_value b))"
proof -
  from assms(6) have o': "dict_get r ''objectives'' (JObj []) = jget r ''objectives''"
    by (auto simp: dict_get_def jget_def split: option.splits)
  with assms(1) have v: "canonical_objective_vector (jget r ''objectives'') cfg = Inr v" and t: "t = tid r"
    using assms(2) by (auto simp: ranked_row_def return_iff)
  from assms(3) v o' assms(2) have b: "br_trial_id b = t" "br_objective_name b = best_objective_name cfg"
      "br_objective_value b = scalarize_objectives v cfg"
      "br_view b = (if multi_view cfg then Some (scalarization_policy cfg, v) else None)"
    by (auto simp: build_best_record_def return_iff t has_tid_def)
  obtain d where d: "best_json b = JObj d" by (simp add: best_json_def)
  note get = best_json_get [OF d, unfolded b]
  have eq: "py_eq (vector_json v) (vector_json v)" by (rule py_eq_refl [OF vector_json_wf [OF v assms(4)]])
  have dict: "is_dict (vector_json v)" "vector_json v \<noteq> JNull" by (simp_all add: vector_json_def)
  show ?thesis
    using assms(5) scalar_same [of "scalarize_objectives v cfg"]
    by (cases "multi_view cfg")
      (auto simp: check_best_def d get check_best_row_def v b eq dict Let_def error_if_def multi_view_def)
qed

lemma mapped_min:
  "min_by (\<lambda>a b. rank_lt (fst (snd a)) (fst (snd b))) (rank_of cfg p) (map (rank_of cfg) ps) =
   rank_of cfg (min_by (\<lambda>a b. rank_lt (prepared_key cfg a) (prepared_key cfg b)) p ps)"
proof -
  have "f (min_by (\<lambda>a b. lt (f a) (f b)) x xs) = min_by lt (f x) (map f xs)" for f :: "prepared \<Rightarrow> ranked" and lt x xs
    by (induction xs arbitrary: x) (simp_all add: if_distrib [of f])
  from this [of "rank_of cfg" "\<lambda>a b. rank_lt (fst (snd a)) (fst (snd b))" p ps] show ?thesis by (simp add: rank_of_def)
qed

text \<open>The checks of a state whose entries are well-formed and whose best record is current.\<close>

lemma hard_checks_current:
  assumes "cp_wf c" "ids_exact c" "best_current cfg c" "distinct (objective_names cfg)"
  shows "\<exists>errors. validate_state_hard_checks (state_json c) cfg = Inr errors \<and>
    (errors = [] \<longleftrightarrow> (case cp_best c of None \<Rightarrow> True | Some b \<Rightarrow> is_finite (br_objective_value b)))"
proof -
  let ?best = "jopt (map_option best_json (cp_best c))"
  obtain ps where ps: "mapE (ranked_row cfg) (ok_rows c) = Inr ps"
    and best: "case (best_ranked cfg ps, cp_best c) of (None, None) \<Rightarrow> True
       | (Some p, Some b) \<Rightarrow> build_best_record (fst p) cfg (br_updated_at b) = Inr b | _ \<Rightarrow> False"
    using assms(3) by (auto simp: best_current_def split: sum.splits)
  obtain xs where xs: "mapE (check_observation cfg) (enum (map JObj (cp_observations c))) = Inr xs" "concat (map fst xs) = []"
    "concat (map (\<lambda>x. fst (snd x)) xs) = map tid (cp_observations c)" "concat (map (\<lambda>x. snd (snd x)) xs) = map (rank_of cfg) ps"
    using check_rows [OF _ ps [unfolded ok_rows_def]] assms(1) by (auto simp: cp_wf_def)
  obtain ys where ys: "mapE check_pending (enum (map JObj (cp_pending c))) = Inr ys" "concat (map fst ys) = []"
    "concat (map snd ys) = map tid (cp_pending c)"
    using check_entries assms(1) by (auto simp: cp_wf_def)
  note ids = check_ids [OF assms(2)]
  have get: "jget (state_json c) ''observations'' = JArr (map JObj (cp_observations c))" "jget (state_json c) ''pending'' = JArr (map JObj (cp_pending c))"
    "jget (state_json c) ''best'' = ?best" "jget (state_json c) ''next_trial_id'' = JInt (cp_next c)"
    by (simp_all add: state_json_def jget_def)
  have shape: "check_shape (state_json c) = []"
    using ids(5) by (simp add: check_shape_def get required_state_keys_def, simp add: state_json_def jget_def error_if_def)
  have checks: "validate_state_hard_checks (state_json c) cfg =
      bindE (check_best cfg (map JObj (cp_observations c)) ?best) (\<lambda>(errors, t, val).
        Inr (errors @ check_ranking cfg ?best (map (rank_of cfg) ps) t val))"
    using ids(1-4) by (simp add: validate_state_hard_checks_def get xs ys shape Let_def trial_ids_def)
  show ?thesis
  proof (cases "best_ranked cfg ps")
    case None
    then have "ps = []" "cp_best c = None" using best by (auto simp: best_ranked_def split: list.splits option.splits)
    then show ?thesis by (simp add: checks check_best_def check_ranking_def)
  next
    case (Some m)
    then obtain b where b: "cp_best c = Some b" "build_best_record (fst m) cfg (br_updated_at b) = Inr b"
      using best by (auto split: option.splits)
    obtain p qs where p: "ps = p # qs" "m = min_by (\<lambda>a b. rank_lt (prepared_key cfg a) (prepared_key cfg b)) p qs"
      using Some by (auto simp: best_ranked_def split: list.splits)
    have "m \<in> set ps" using prepared_order.min_by_in [of cfg p qs] p by auto
    from mapE_Inr_set [OF ps this] obtain r where r: "r \<in> set (ok_rows c)" "ranked_row cfg r = Inr m" by blast
    then have mem: "r \<in> set (cp_observations c)" "row_ok r" by (simp_all add: ok_rows_def)
    have wf: "row_wf r" by (rule cp_wf_members(2) [OF assms(1) mem(1)])
    then have tid: "has_tid r" and dict: "is_dict (jget r ''objectives'')" by (simp_all add: row_wf_def)
    obtain v where m: "m = (r, tid r, v)" using r(2) tid by (auto simp: ranked_row_def return_iff)
    have status: "py_str (dict_get r' ''status'' (JStr [])) = ''ok'' \<longleftrightarrow> row_ok r'" if "row_wf r'" for r'
      using that by (auto simp: row_wf_def row_ok_def dict_get_def split: option.splits)
    have "find (refers_to (tid r)) (map JObj (cp_observations c)) = Some (JObj r)"
    proof (rule find_unique)
      show "JObj r \<in> set (map JObj (cp_observations c))" using mem by simp
      show "refers_to (tid r) (JObj r)" using status [OF wf] mem(2) has_tid_value [OF tid] by (simp add: refers_to_def)
      have "r' = r" if "r' \<in> set (cp_observations c)" "refers_to (tid r) (JObj r')" for r'
      proof -
        have "has_tid r'" using cp_wf_members(2) [OF assms(1) that(1)] by (simp add: row_wf_def)
        with that(2) have "tid r' = tid r" using has_tid_value [of r'] by (simp add: refers_to_def)
        with ids(1) that(1) mem(1) show ?thesis by (simp add: distinct_map inj_on_def)
      qed
      then show "\<forall>y\<in>set (map JObj (cp_observations c)). refers_to (tid r) y \<longrightarrow> y = JObj r" by auto
    qed
    from check_best_current_record [OF r(2) [unfolded m] tid b(2) [unfolded m fst_conv] assms(4) this dict]
    obtain errors where e: "check_best cfg (map JObj (cp_observations c)) (best_json b) =
        Inr (errors, Some (tid r), if is_finite (br_objective_value b) then Some (br_objective_value b) else None)"
      "br_objective_value b = scalarize_objectives v cfg" "errors = [] \<longleftrightarrow> is_finite (br_objective_value b)" by blast
    have "min_by (\<lambda>a b. rank_lt (fst (snd a)) (fst (snd b))) (rank_of cfg p) (map (rank_of cfg) qs) = (tid r, prepared_key cfg m, v)"
      by (simp add: mapped_min p(2) [symmetric]) (simp add: rank_of_def m prepared_vector_def)
    then have "check_ranking cfg (best_json b) (map (rank_of cfg) ps) (Some (tid r))
        (if is_finite (br_objective_value b) then Some (br_objective_value b) else None) = []"
      using scalar_same [of "scalarize_objectives v cfg"] by (simp add: check_ranking_def p(1) e(2) best_json_def)
    with e show ?thesis by (simp add: checks b(1))
  qed
qed

text \<open>C6: the controller never writes a state its own validation rejects, a value that overflowed
  apart. For every state a campaign with one objective configuration can reach, the hard checks
  raise nothing, and they report an error exactly when the scalarized value of the best record
  is not finite.\<close>

theorem reachable_state_valid:
  assumes "reachable (\<lambda>s. s_objective s = cfg) w" "w_state w = Some c" "distinct (objective_names cfg)"
  shows "\<exists>errors. validate_state_hard_checks (state_json c) cfg = Inr errors \<and>
    (errors = [] \<longleftrightarrow> (case cp_best c of None \<Rightarrow> True | Some b \<Rightarrow> is_finite (br_objective_value b)))"
proof (rule hard_checks_current [OF _ _ _ assms(3)])
  show "best_current cfg c" using best.reachable_inv [OF assms(1)] assms(2) by (simp add: best_inv_def core_def)
qed (rule reachable_stored [OF assms(1,2)])+

theorem reachable_state_valid_witness: "validate_state_hard_checks (state_json (persisted final1)) loss_cfg = Inr []"
proof -
  have "reachable (\<lambda>s :: unit settings. s_objective s = loss_cfg) demo2" by (rule demo2_reachable) simp
  moreover have "distinct (objective_names loss_cfg)" by code_simp
  ultimately obtain errors where "validate_state_hard_checks (state_json (persisted final1)) loss_cfg = Inr errors"
    "errors = [] \<longleftrightarrow> (case cp_best (persisted final1) of None \<Rightarrow> True | Some b \<Rightarrow> is_finite (br_objective_value b))"
    using reachable_state_valid [OF _ demo2_state] by blast
  moreover have "case cp_best (persisted final1) of None \<Rightarrow> True | Some b \<Rightarrow> is_finite (br_objective_value b)" by code_simp
  ultimately show ?thesis by simp
qed

end
