(* ===== verification/Reports.thy ===== *)
theory Reports
  imports Validate
begin

text \<open>
  What \<open>status\<close>, \<open>health\<close> and \<open>report\<close> say of a state: the counts of
  \<open>_status_counts\<close> and \<open>_status_payload\<close>, the warnings, the health of the campaign, and the
  rankings of \<open>_build_report_payload\<close>. The Ax fields of a status, the metadata of the objective
  configuration, the summary of the run times and the outcome summary of a report are left out.
\<close>

subsection \<open>Status\<close>

definition status_text :: "jdict \<Rightarrow> string" where
  "status_text obs = py_lower (py_str (dict_get obs ''status'' (JStr [])))"

definition count_status :: "jdict \<Rightarrow> (string, nat) dict \<Rightarrow> (string, nat) dict" where
  "count_status obs counts = dset (status_text obs) (dict_get counts (status_text obs) 0 + 1) counts"

definition status_counts :: "jdict list \<Rightarrow> (string, nat) dict" where
  "status_counts observations = fold count_status observations [(''ok'', 0), (''failed'', 0), (''killed'', 0), (''timeout'', 0)]"

definition stale_count :: "jdict list \<Rightarrow> pyfloat \<Rightarrow> pyfloat option \<Rightarrow> nat res" where
  "stale_count pending now max_age = (case max_age of
     None \<Rightarrow> Inr 0
   | Some limit \<Rightarrow> bindE (filterE (\<lambda>p. bindE (pending_age_seconds p now) (\<lambda>age. Inr (flt limit age))) pending) (\<lambda>ps. Inr (length ps)))"

definition leased_count :: "jdict list \<Rightarrow> nat" where
  "leased_count pending = length (filter (\<lambda>p. case jget p ''lease_token'' of JStr t \<Rightarrow> t \<noteq> [] | _ \<Rightarrow> False) pending)"

record status_payload =
  sp_version :: string
  sp_observations :: nat
  sp_pending :: nat
  sp_leased :: nat
  sp_next :: int
  sp_best :: "best_record option"
  sp_stale :: nat
  sp_by_status :: "(string, nat) dict"

definition build_status :: "campaign \<Rightarrow> pyfloat \<Rightarrow> pyfloat option \<Rightarrow> status_payload res" where
  "build_status c now max_age =
     bindE (stale_count (cp_pending c) now max_age) (\<lambda>stale.
     bindE (campaign_version c) (\<lambda>version.
     Inr \<lparr>sp_version = version, sp_observations = length (cp_observations c), sp_pending = length (cp_pending c),
          sp_leased = leased_count (cp_pending c), sp_next = cp_next c, sp_best = cp_best c, sp_stale = stale,
          sp_by_status = status_counts (cp_observations c)\<rparr>))"

subsection \<open>Warnings and health\<close>

datatype state_warning = StalePending nat pyfloat | TooManyPending nat int | PathMissing string

definition optional_paths :: "string list" where
  "optional_paths = [''acquisition_log_file'', ''event_log_file'', ''observations_csv'', ''trials_dir'']"

definition validate_state_warnings :: "jdict list \<Rightarrow> (string \<Rightarrow> bool) \<Rightarrow> pyfloat \<Rightarrow> pyfloat option \<Rightarrow> int option \<Rightarrow> state_warning list res" where
  "validate_state_warnings pending exists now max_age max_pending =
     bindE (stale_count pending now max_age) (\<lambda>stale.
     Inr ((case max_age of Some limit \<Rightarrow> if 0 < stale then [StalePending stale limit] else [] | None \<Rightarrow> []) @
          (case max_pending of Some n \<Rightarrow> if n < int (length pending) then [TooManyPending (length pending) n] else [] | None \<Rightarrow> []) @
          map PathMissing (filter (\<lambda>k. \<not> exists k) optional_paths)))"

datatype health = Healthy | Warning | Failing

text \<open>The governance payload is an object with two lists, or absent.\<close>

definition health_state :: "state_error list \<Rightarrow> state_warning list \<Rightarrow> ('w list \<times> 'v list) option \<Rightarrow> health" where
  "health_state hard_errors warnings_out governance =
     (if hard_errors \<noteq> [] then Failing
      else if warnings_out \<noteq> [] \<or> (case governance of None \<Rightarrow> False | Some (ws, vs) \<Rightarrow> ws \<noteq> [] \<or> vs \<noteq> []) then Warning
      else Healthy)"

subsection \<open>Reports\<close>

text \<open>\<open>int(best["trial_id"])\<close> is the id; the first observation with that id decides.\<close>

fun best_params_in :: "jdict list \<Rightarrow> int \<Rightarrow> jdict option res" where
  "best_params_in [] t = Inr None"
| "best_params_in (obs # rest) t =
     bindE (py_int (dict_get obs ''trial_id'' (JInt (- 1)))) (\<lambda>i.
     if i = t then Inr (case jget obs ''params'' of JObj d \<Rightarrow> Some d | _ \<Rightarrow> None) else best_params_in rest t)"

definition best_params_from_state :: "campaign \<Rightarrow> jdict option res" where
  "best_params_from_state c = (case cp_best c of None \<Rightarrow> Inr None | Some b \<Rightarrow> best_params_in (cp_observations c) (br_trial_id b))"

definition report_row :: "objective_cfg \<Rightarrow> bool \<Rightarrow> jdict \<Rightarrow> jdict res" where
  "report_row cfg include_params obs =
     bindE (build_objective_metadata (jget obs ''objectives'') cfg) (\<lambda>om.
     bindE (entry_id obs) (\<lambda>t.
     bindE (normalize_measurements obs cfg) (\<lambda>m.
     Inr (dict_update
       ([(''trial_id'', JInt t), (''status'', jget obs ''status''), (''objective_name'', JStr (om_name om)),
         (''objective_value'', jfloat_opt (om_value om)), (''objective_vector'', nullable_json (om_vector om)),
         (''scalarized_objective'', jfloat_opt (om_scalarized om)), (''penalty_objective'', jget obs ''penalty_objective''),
         (''suggested_at'', jget obs ''suggested_at''), (''completed_at'', jget obs ''completed_at''),
         (''artifact_path'', jget obs ''artifact_path''), (''terminal_reason'', jget obs ''terminal_reason'')] @
        (case om_policy om of None \<Rightarrow> [] | Some p \<Rightarrow> [(''scalarization_policy'', JStr p)]) @
        (if include_params then [(''params'', jget obs ''params'')] else []))
       (measured_json m)))))"

definition report_ok :: "jdict \<Rightarrow> bool" where
  "report_ok obs = (py_str (dict_get obs ''status'' (JStr [])) = ''ok'')"

definition report_terminal :: "jdict \<Rightarrow> bool" where
  "report_terminal obs = List.member [''failed'', ''killed'', ''timeout''] (py_str (dict_get obs ''status'' (JStr [])))"

text \<open>The key of \<open>ranked_ok\<close>: the vector is that of \<open>obs["objectives"]\<close>.\<close>

definition report_ranked :: "objective_cfg \<Rightarrow> jdict \<Rightarrow> prepared res" where
  "report_ranked cfg obs =
     bindE (jitem obs ''objectives'') (\<lambda>raw.
     bindE (entry_id obs) (\<lambda>t.
     bindE (canonical_objective_vector raw cfg) (\<lambda>v. Inr (obs, t, v))))"

definition rank_ok_rows :: "objective_cfg \<Rightarrow> jdict list \<Rightarrow> jdict list res" where
  "rank_ok_rows cfg ok = bindE (mapE (report_ranked cfg) ok) (\<lambda>ps.
     Inr (map fst (sort_by (\<lambda>p q. rank_lt (prepared_key cfg p) (prepared_key cfg q)) ps)))"

text \<open>\<open>sorted(observations, key=lambda row: int(row.get("trial_id", 0)))\<close>\<close>

definition by_trial :: "jdict list \<Rightarrow> jdict list res" where
  "by_trial observations =
     bindE (mapE (\<lambda>obs. bindE (py_int (dict_get obs ''trial_id'' (JInt 0))) (\<lambda>t. Inr (t, obs))) observations) (\<lambda>ps.
     Inr (map snd (sort_by (\<lambda>p q. fst p < fst q) ps)))"

record report =
  rp_by_status :: "(string, nat) dict"
  rp_observations :: nat
  rp_pending :: nat
  rp_failure_rate :: pyfloat
  rp_best :: "best_record option"
  rp_best_params :: "jdict option"
  rp_top :: "jdict list"
  rp_terminal :: "jdict list"
  rp_trace :: "jdict list"
  rp_pareto_ids :: "int list"
  rp_pareto :: "jdict list"

definition failure_rate :: "(string, nat) dict \<Rightarrow> nat \<Rightarrow> pyfloat" where
  "failure_rate counts n =
     (if n = 0 then Fin 0 else mk_float False (of_int (int n - int (dict_get counts ''ok'' 0)) / of_nat n))"

definition build_report :: "objective_cfg \<Rightarrow> int \<Rightarrow> campaign \<Rightarrow> report res" where
  "build_report cfg top_n c =
     (let observations = cp_observations c; counts = status_counts observations; ok = filter report_ok observations in
     bindE (rank_ok_rows cfg ok) (\<lambda>ranked.
     bindE (mapE (report_row cfg True) (take (nat (max 1 top_n)) ranked)) (\<lambda>top.
     bindE (by_trial observations) (\<lambda>ordered.
     bindE (mapE (report_row cfg False) (filter report_terminal ordered)) (\<lambda>terminal.
     bindE (mapE (report_row cfg False) ordered) (\<lambda>trace.
     bindE (pareto_front_records (map JObj ok) cfg) (\<lambda>front.
     bindE (best_params_from_state c) (\<lambda>params.
     bindE (mapE entry_id front) (\<lambda>ids.
     bindE (mapE (report_row cfg True) front) (\<lambda>rows.
     Inr \<lparr>rp_by_status = counts, rp_observations = length observations, rp_pending = length (cp_pending c),
          rp_failure_rate = failure_rate counts (length observations), rp_best = cp_best c, rp_best_params = params,
          rp_top = top, rp_terminal = terminal, rp_trace = trace, rp_pareto_ids = ids, rp_pareto = rows\<rparr>))))))))))"

subsection \<open>Counts and orders\<close>

lemma count_status_sum: "sum_list (map snd (count_status obs counts)) = Suc (sum_list (map snd counts))"
proof -
  have "sum_list (map snd (dset k (dict_get d k 0 + 1) d)) = Suc (sum_list (map snd d))" for k and d :: "(string, nat) dict"
    by (induction d) (auto simp: dict_get_def)
  then show ?thesis by (simp add: count_status_def)
qed

lemma status_counts_sum: "sum_list (map snd (status_counts rows)) = length rows"
proof -
  have "sum_list (map snd (fold count_status rows d)) = sum_list (map snd d) + length rows" for d
    by (induction rows arbitrary: d) (simp_all add: count_status_sum)
  then show ?thesis by (simp add: status_counts_def)
qed

interpretation trial_order: key_order "\<lambda>p q :: int \<times> jdict. fst p < fst q" "\<lambda>_. True"
  by unfold_locales auto

lemma by_trial_rows:
  assumes "list_all has_tid rows"
  shows "\<exists>ordered. by_trial rows = Inr ordered \<and> mset ordered = mset rows \<and> map tid ordered = sort (map tid rows)"
proof -
  let ?lt = "\<lambda>p q :: int \<times> jdict. fst p < fst q" and ?ps = "map (\<lambda>r. (tid r, r)) rows"
  have "mapE (\<lambda>obs. bindE (py_int (dict_get obs ''trial_id'' (JInt 0))) (\<lambda>t. Inr (t, obs))) rows = Inr ?ps"
    using assms by (intro mapE_total) (auto simp: list_all_iff has_tid_def dict_get_def)
  then have o': "by_trial rows = Inr (map snd (sort_by ?lt ?ps))" by (simp add: by_trial_def)
  have "tid (snd p) = fst p" if "p \<in> set (sort_by ?lt ?ps)" for p using that by auto
  then have ids: "map tid (map snd (sort_by ?lt ?ps)) = map fst (sort_by ?lt ?ps)" by simp
  have "sorted (map fst (sort_by ?lt ?ps))"
    using trial_order.sort_by_sorted [of ?ps] by (simp add: sorted_map not_less)
  moreover have "mset (map fst (sort_by ?lt ?ps)) = mset (map tid rows)" by (simp add: multiset.map_comp comp_def)
  ultimately have "sort (map tid rows) = map fst (sort_by ?lt ?ps)" by (intro properties_for_sort)
  moreover have "mset (map snd (sort_by ?lt ?ps)) = mset rows" by (simp add: multiset.map_comp comp_def)
  ultimately show ?thesis using o' ids by auto
qed

subsection \<open>Rows of a report\<close>

lemma report_row_fields:
  assumes "report_row cfg b obs = Inr row"
  shows "map_of row ''trial_id'' = Some (JInt t) \<longleftrightarrow> entry_id obs = Inr t"
    "b \<Longrightarrow> jget row ''params'' = jget obs ''params''"
    "\<exists>om. build_objective_metadata (jget obs ''objectives'') cfg = Inr om \<and> map_of row ''scalarized_objective'' = Some (jfloat_opt (om_scalarized om))"
proof -
  from assms obtain om i m where om: "build_objective_metadata (jget obs ''objectives'') cfg = Inr om" and i: "entry_id obs = Inr i"
    and row: "row = dict_update
       ([(''trial_id'', JInt i), (''status'', jget obs ''status''), (''objective_name'', JStr (om_name om)),
         (''objective_value'', jfloat_opt (om_value om)), (''objective_vector'', nullable_json (om_vector om)),
         (''scalarized_objective'', jfloat_opt (om_scalarized om)), (''penalty_objective'', jget obs ''penalty_objective''),
         (''suggested_at'', jget obs ''suggested_at''), (''completed_at'', jget obs ''completed_at''),
         (''artifact_path'', jget obs ''artifact_path''), (''terminal_reason'', jget obs ''terminal_reason'')] @
        (case om_policy om of None \<Rightarrow> [] | Some p \<Rightarrow> [(''scalarization_policy'', JStr p)]) @
        (if b then [(''params'', jget obs ''params'')] else []))
       (measured_json m)"
    by (auto simp: report_row_def return_iff)
  have get: "map_of row k = map_of
       ([(''trial_id'', JInt i), (''status'', jget obs ''status''), (''objective_name'', JStr (om_name om)),
         (''objective_value'', jfloat_opt (om_value om)), (''objective_vector'', nullable_json (om_vector om)),
         (''scalarized_objective'', jfloat_opt (om_scalarized om)), (''penalty_objective'', jget obs ''penalty_objective''),
         (''suggested_at'', jget obs ''suggested_at''), (''completed_at'', jget obs ''completed_at''),
         (''artifact_path'', jget obs ''artifact_path''), (''terminal_reason'', jget obs ''terminal_reason'')] @
        (case om_policy om of None \<Rightarrow> [] | Some p \<Rightarrow> [(''scalarization_policy'', JStr p)]) @
        (if b then [(''params'', jget obs ''params'')] else [])) k" if "k \<notin> set measurement_fields" for k
    using measured_json_get(5) [OF that] by (simp add: row map_of_dict_update_distinct [OF measured_json_keys(2)])
  show "map_of row ''trial_id'' = Some (JInt t) \<longleftrightarrow> entry_id obs = Inr t"
    using i by (auto simp: get measurement_fields_def)
  show "jget row ''params'' = jget obs ''params''" if b
    using that by (simp add: jget_def get measurement_fields_def map_add_def split: option.splits)
  show "\<exists>om. build_objective_metadata (jget obs ''objectives'') cfg = Inr om \<and> map_of row ''scalarized_objective'' = Some (jfloat_opt (om_scalarized om))"
    using om by (simp add: get measurement_fields_def)
qed

lemma canonical_metadata:
  assumes "canonical_objective_vector raw cfg = Inr v" "build_objective_metadata raw cfg = Inr om"
  shows "om_scalarized om = Some (scalarize_objectives v cfg)"
proof -
  let ?f = "\<lambda>d n. bindE (obj_require_finite (jget d n) (''objectives.'' @ n)) (\<lambda>v. Inr (n, v))"
  let ?g = "\<lambda>d n. if jget d n = JNull then Inr (n, None)
     else bindE (obj_require_finite (jget d n) (''objectives.'' @ n)) (\<lambda>v. Inr (n, Some v))"
  have step: "mapE (?g d) ns = Inr (map (\<lambda>(n, x). (n, Some x)) v)" if "mapE (?f d) ns = Inr v" for d ns v
    using that by (induction ns arbitrary: v) (auto simp: return_iff)
  from assms(1) have "nullable_objective_vector raw cfg = Inr (map (\<lambda>(n, x). (n, Some x)) v)"
    by (auto simp: canonical_objective_vector_def nullable_objective_vector_def Let_def obj_require_object_def return_iff
        split: json.splits intro!: step)
  moreover have "map (\<lambda>(n, x). (n, the x)) (map (\<lambda>(n, x). (n, Some x)) v) = v" by (simp add: comp_def split_beta)
  moreover have "list_all (\<lambda>(_, x). x \<noteq> None) (map (\<lambda>(n, x). (n, Some x)) v)" by (auto simp: list_all_iff)
  ultimately show ?thesis using assms(2) by (auto simp: build_objective_metadata_def return_iff Let_def)
qed

subsection \<open>A report leads with the best trial\<close>

lemma row_wf_report:
  assumes "row_wf r"
  shows "report_ok r = row_ok r" "report_ranked cfg r = ranked_row cfg r" "entry_id r = Inr (tid r)" "has_tid r"
proof -
  from assms obtain st where st: "map_of r ''status'' = Some (JStr st)" by (auto simp: row_wf_def split: option.splits json.splits)
  then show "report_ok r = row_ok r" by (simp add: report_ok_def row_ok_def dict_get_def)
  show tid: "has_tid r" using assms by (simp add: row_wf_def)
  then show "entry_id r = Inr (tid r)" by simp
  obtain d where d: "map_of r ''objectives'' = Some (JObj d)"
    using assms by (auto simp: row_wf_def is_dict_iff jget_def split: option.splits)
  with tid show "report_ranked cfg r = ranked_row cfg r"
    by (simp add: report_ranked_def ranked_row_def jitem_def dict_get_def)
qed

lemma ranked_head:
  assumes "list_all row_wf rows" "distinct (map tid rows)" "cfg_wf cfg" "list_all (in_range cfg) (filter row_ok rows)"
    and ps: "mapE (ranked_row cfg) (filter row_ok rows) = Inr (p # qs)"
  shows "\<exists>rest. rank_ok_rows cfg (filter report_ok rows) =
    Inr (fst (min_by (\<lambda>a b. rank_lt (prepared_key cfg a) (prepared_key cfg b)) p qs) # rest)"
proof -
  let ?lt = "\<lambda>a b. rank_lt (prepared_key cfg a) (prepared_key cfg b)" and ?n = "length (objective_names cfg)"
  define m where "m = min_by ?lt p qs"
  have wf: "row_wf r" if "r \<in> set rows" for r using assms(1) that by (simp add: list_all_iff)
  have elem: "\<exists>r v. r \<in> set rows \<and> x = (r, tid r, v) \<and> ranked_row cfg r = Inr x \<and> rank_ok ?n (prepared_key cfg x)"
    if x: "x \<in> set (p # qs)" for x
  proof -
    from mapE_Inr_set [OF ps x] obtain r where r: "r \<in> set rows" "row_ok r" "ranked_row cfg r = Inr x" by auto
    with row_wf_report(3) [OF wf [OF r(1)]] obtain v where v: "x = (r, tid r, v)" "row_vector cfg r = Inr v"
      by (auto simp: ranked_row_def return_iff row_vector_def)
    with assms(4) r(1,2) have "rank_ok ?n (best_rank_key v cfg (tid r))"
      by (auto simp: list_all_iff in_range_def intro!: best_rank_key_ok [OF assms(3)])
    with r v show ?thesis by (auto simp: prepared_key_def prepared_vector_def)
  qed
  have rk: "rank_ok ?n (prepared_key cfg x)" if "x \<in> set (p # qs)" for x using elem [OF that] by blast
  have "filter report_ok rows = filter row_ok rows" using wf by (intro filter_cong) (simp_all add: row_wf_report)
  moreover have "mapE (report_ranked cfg) (filter row_ok rows) = mapE (ranked_row cfg) (filter row_ok rows)"
    using wf by (intro mapE_cong) (auto simp: row_wf_report)
  ultimately have ranked: "rank_ok_rows cfg (filter report_ok rows) = Inr (map fst (sort_by ?lt (p # qs)))"
    using ps by (simp add: rank_ok_rows_def)
  obtain h rest where h: "sort_by ?lt (p # qs) = h # rest" by (cases "sort_by ?lt (p # qs)") (metis length_sort_by length_Cons list.size(3) nat.simps(3), blast)
  have sorted: "sorted_wrt (\<lambda>a b. \<not> ?lt b a) (h # rest)"
    using prepared_order.sort_by_sorted [of "p # qs" ?n cfg] rk by (simp add: h [symmetric])
  have set: "set (h # rest) = set (p # qs)" using set_sort_by [of ?lt "p # qs"] by (simp add: h)
  have mem: "m \<in> set (p # qs)" "h \<in> set (p # qs)"
    using prepared_order.min_by_in [of cfg p qs] set by (auto simp: m_def)
  have "\<not> ?lt h m" unfolding m_def using rk mem(2) by (intro prepared_order.min_by_least [of ?n]) auto
  moreover have "\<not> ?lt m h"
  proof (cases "m = h")
    case True
    then show ?thesis using rank_order.lt_irrefl [OF rk [OF mem(2)]] by simp
  next
    case False
    with mem(1) set have "m \<in> set rest" by auto
    with sorted show ?thesis by simp
  qed
  ultimately have "rank_ord (prepared_key cfg h) = rank_ord (prepared_key cfg m)"
    using rk [OF mem(1)] rk [OF mem(2)] by (simp add: rank_lt_ord)
  then have "fst (snd h) = fst (snd m)" by (simp add: rank_ord_def prepared_key_def best_rank_key_def Let_def)
  with elem [OF mem(1)] elem [OF mem(2)] assms(2) have "fst h = fst m" by (auto simp: distinct_map inj_on_def)
  with ranked h show ?thesis by (simp add: m_def)
qed

lemma best_params_found:
  assumes "list_all row_wf rows" "distinct (map tid rows)" "r \<in> set rows" "jget r ''params'' = JObj d"
  shows "best_params_in rows (tid r) = Inr (Some d)"
  using assms
proof (induction rows)
  case (Cons x rows)
  then have "has_tid x" by (simp add: row_wf_def)
  then have "py_int (dict_get x ''trial_id'' (JInt (- 1))) = Inr (tid x)" by (simp add: has_tid_def dict_get_def)
  moreover have "x = r \<or> tid x \<noteq> tid r" using Cons.prems by force
  ultimately show ?case using Cons by auto
qed simp

lemma report_parts:
  assumes "build_report cfg n c = Inr rep"
  shows "\<exists>ranked ordered. rank_ok_rows cfg (filter report_ok (cp_observations c)) = Inr ranked \<and>
    mapE (report_row cfg True) (take (nat (max 1 n)) ranked) = Inr (rp_top rep) \<and>
    by_trial (cp_observations c) = Inr ordered \<and> mapE (report_row cfg False) ordered = Inr (rp_trace rep) \<and>
    best_params_from_state c = Inr (rp_best_params rep) \<and>
    rp_by_status rep = status_counts (cp_observations c) \<and> rp_observations rep = length (cp_observations c)"
  using assms by (auto simp: build_report_def return_iff Let_def)

lemma trace_ids:
  assumes "mapE (report_row cfg b) rows = Inr out" "list_all has_tid rows"
  shows "map (\<lambda>r. jget r ''trial_id'') out = map (\<lambda>r. JInt (tid r)) rows"
  using assms
proof (induction rows arbitrary: out)
  case (Cons r rows)
  then obtain x xs where x: "report_row cfg b r = Inr x" "mapE (report_row cfg b) rows = Inr xs" "out = x # xs"
    by (auto simp: return_iff)
  with Cons report_row_fields(1) [OF x(1), of "tid r"] show ?case by simp
qed simp

text \<open>C7: a report tells the truth about a reachable campaign. Its first trial is the best record's:
  it has that record's id and scalarized value, and its parameters are the best parameters of the
  report; its trace lists every finished trial once, by ascending id; and the counts by status
  add up to the number of observations (for rows whose values do not overflow in the
  scalarization).\<close>

theorem report_leads_with_best:
  assumes "reachable (\<lambda>s. s_objective s = cfg) w" "w_state w = Some c"
    and "cfg_wf cfg" "list_all (in_range cfg) (ok_rows c)" "build_report cfg n c = Inr rep"
  shows "(case cp_best c of None \<Rightarrow> rp_top rep = []
     | Some b \<Rightarrow> (\<exists>row rest d. rp_top rep = row # rest \<and> jget row ''trial_id'' = JInt (br_trial_id b) \<and>
         jget row ''scalarized_objective'' = JFloat (br_objective_value b) \<and>
         jget row ''params'' = JObj d \<and> rp_best_params rep = Some d)) \<and>
    map (\<lambda>r. jget r ''trial_id'') (rp_trace rep) = map JInt (sort (map tid (cp_observations c))) \<and>
    sum_list (map snd (rp_by_status rep)) = length (cp_observations c)"
proof -
  note stored = reachable_stored [OF assms(1,2)]
  have wf: "list_all row_wf (cp_observations c)" using stored(1) by (simp add: cp_wf_def)
  have tids: "list_all has_tid (cp_observations c)" using wf by (auto simp: list_all_iff row_wf_def)
  note distinct = check_ids(1) [OF stored(3)]
  from report_parts [OF assms(5)] obtain ranked ordered where
    ranked: "rank_ok_rows cfg (filter report_ok (cp_observations c)) = Inr ranked"
    and top: "mapE (report_row cfg True) (take (nat (max 1 n)) ranked) = Inr (rp_top rep)"
    and ordered: "by_trial (cp_observations c) = Inr ordered" and trace: "mapE (report_row cfg False) ordered = Inr (rp_trace rep)"
    and params: "best_params_from_state c = Inr (rp_best_params rep)"
    and counts: "rp_by_status rep = status_counts (cp_observations c)" by blast
  have "best_current cfg c" using best.reachable_inv [OF assms(1)] assms(2) by (simp add: best_inv_def core_def)
  then obtain ps where ps: "mapE (ranked_row cfg) (filter row_ok (cp_observations c)) = Inr ps"
    and best: "case (best_ranked cfg ps, cp_best c) of (None, None) \<Rightarrow> True
       | (Some p, Some b) \<Rightarrow> build_best_record (fst p) cfg (br_updated_at b) = Inr b | _ \<Rightarrow> False"
    by (auto simp: best_current_def ok_rows_def split: sum.splits)
  have lead: "case cp_best c of None \<Rightarrow> rp_top rep = []
     | Some b \<Rightarrow> (\<exists>row rest d. rp_top rep = row # rest \<and> jget row ''trial_id'' = JInt (br_trial_id b) \<and>
         jget row ''scalarized_objective'' = JFloat (br_objective_value b) \<and>
         jget row ''params'' = JObj d \<and> rp_best_params rep = Some d)"
  proof (cases ps)
    case Nil
    with ps have "filter row_ok (cp_observations c) = []" by (cases "filter row_ok (cp_observations c)") (auto simp: return_iff)
    moreover have "filter report_ok (cp_observations c) = filter row_ok (cp_observations c)"
      using wf by (intro filter_cong) (auto simp: row_wf_report list_all_iff)
    ultimately have "ranked = []" using ranked by (simp add: rank_ok_rows_def sort_by_def)
    with Nil best top show ?thesis by (auto simp: best_ranked_def split: option.splits)
  next
    case (Cons p qs)
    define m where "m = min_by (\<lambda>a b. rank_lt (prepared_key cfg a) (prepared_key cfg b)) p qs"
    from best obtain b where b: "cp_best c = Some b" "build_best_record (fst m) cfg (br_updated_at b) = Inr b"
      by (auto simp: best_ranked_def Cons m_def split: option.splits)
    have "m \<in> set ps" using prepared_order.min_by_in [of cfg p qs] by (auto simp: m_def Cons)
    from mapE_Inr_set [OF ps this] obtain r where r: "r \<in> set (cp_observations c)" "ranked_row cfg r = Inr m" by auto
    have rwf: "row_wf r" using wf r(1) by (simp add: list_all_iff)
    note facts = row_wf_report [OF rwf]
    obtain v d where m: "m = (r, tid r, v)" and v: "row_vector cfg r = Inr v" and d: "jget r ''params'' = JObj d"
      using r(2) rwf facts(3) by (auto simp: ranked_row_def return_iff row_vector_def row_wf_def is_dict_iff)
    have raw: "dict_get r ''objectives'' (JObj []) = jget r ''objectives''"
      using rwf by (auto simp: row_wf_def dict_get_def jget_def split: option.splits)
    have "has_tid (fst m)" "row_vector cfg (fst m) = Inr v" using facts(4) v by (simp_all add: m)
    from build_best_fields [OF b(2) this]
    have rec: "br_trial_id b = tid r" "br_objective_value b = scalarize_objectives v cfg" by (simp_all add: m)
    obtain rest where "ranked = r # rest"
      using ranked_head [OF wf distinct assms(3) assms(4) [unfolded ok_rows_def] ps [unfolded Cons]] ranked
      by (auto simp: m_def [symmetric] m)
    moreover obtain k where "nat (max 1 n) = Suc k" by (cases "nat (max 1 n)") auto
    ultimately obtain row rows where row: "report_row cfg True r = Inr row" "row # rows = rp_top rep"
      using top by (auto simp: return_iff)
    note rf = report_row_fields [OF row(1)]
    from rf(3) canonical_metadata [OF v [unfolded row_vector_def raw]]
    have "jget row ''scalarized_objective'' = JFloat (br_objective_value b)" by (auto simp: rec jfloat_opt_def)
    moreover have "rp_best_params rep = Some d"
      using params best_params_found [OF wf distinct r(1) d] by (simp add: best_params_from_state_def b(1) rec)
    ultimately show ?thesis using b(1) row(2) [symmetric] rf(1) [of "tid r"] rf(2) facts(3) d by (simp add: rec)
  qed
  obtain o' where "by_trial (cp_observations c) = Inr o'" "mset o' = mset (cp_observations c)" "map tid o' = sort (map tid (cp_observations c))"
    using by_trial_rows [OF tids] by blast
  with ordered have o': "mset ordered = mset (cp_observations c)" "map tid ordered = sort (map tid (cp_observations c))" by simp_all
  have "list_all has_tid ordered" using tids mset_eq_setD [OF o'(1)] by (simp add: list_all_iff)
  from trace_ids [OF trace this] have "map (\<lambda>r. jget r ''trial_id'') (rp_trace rep) = map JInt (map tid ordered)" by simp
  with lead o'(2) counts status_counts_sum show ?thesis by simp
qed

definition demo_report :: report where
  "demo_report = (case build_report loss_cfg 3 (persisted final1) of Inr r \<Rightarrow> r)"

theorem report_leads_with_best_witness:
  "(\<exists>row. rp_top demo_report = [row] \<and> jget row ''trial_id'' = JInt 1 \<and> jget row ''scalarized_objective'' = JFloat (Fin 3)) \<and>
   rp_best_params demo_report = Some [(''tuned'', JBool False)] \<and>
   map (\<lambda>r. jget r ''trial_id'') (rp_trace demo_report) = [JInt 1]"
proof -
  have r: "reachable (\<lambda>s :: unit settings. s_objective s = loss_cfg) demo2" by (rule demo2_reachable) simp
  have cfg: "cfg_wf loss_cfg" by code_simp
  have range: "list_all (in_range loss_cfg) (ok_rows (persisted final1))" by (simp add: demo_ok_rows) code_simp
  have "res_ok (build_report loss_cfg 3 (persisted final1))" by code_simp
  then have rep: "build_report loss_cfg 3 (persisted final1) = Inr demo_report" by (auto simp: demo_report_def elim!: res_okE)
  obtain b where b: "cp_best (persisted final1) = Some b" "br_trial_id b = 1" "br_objective_value b = Fin 3"
  proof -
    have "case cp_best (persisted final1) of None \<Rightarrow> False | Some b \<Rightarrow> br_trial_id b = 1 \<and> br_objective_value b = Fin 3" by code_simp
    then show thesis using that by (auto split: option.splits)
  qed
  have ids: "sort (map tid (cp_observations (persisted final1))) = [1]" by code_simp
  have top: "length (rp_top demo_report) = 1" by code_simp
  have params: "rp_best_params demo_report = Some [(''tuned'', JBool False)]" by code_simp
  from report_leads_with_best [OF r demo2_state cfg range rep] b ids top params show ?thesis
    by (auto simp: length_Suc_conv)
qed

end
