(* ===== verification/Spec2Isabelle.thy ===== *)
theory Spec2Isabelle
  imports Prelude PyFloat FloatRanges Json Measurements Objectives Pareto Hypervolume SearchSpace SpacePoints Constraints Contract RuntimeCfg Governance Surrogate Campaign Commands
    Lifecycle Ledger Refinement Machine Scenario Guarantees Replay AxSpace
    ObsImport ImportCommands ImportGuarantees ObsRoundTrip
    FileTree Archives Restoring ArchiveSafety ArchiveCycle ArchivePrune Validate Reports
begin

text \<open>
  \<^bold>\<open>The program.\<close> Looptimum drives a black-box optimisation campaign from the command line:
  \<open>suggest\<close> proposes the parameters of the next trials, the user evaluates them, \<open>ingest\<close>
  records the results, and further commands cancel, retire and refresh pending trials and move
  observations between campaigns. Everything is kept in files of the project: a state file, a
  table of observations, a manifest per trial, event and acquisition logs. Each command takes
  an exclusive lock, loads the state, checks its input against JSON contracts and writes the
  files again; so the commands of several processes form one sequence, and what is written
  before an exception stays written. A campaign can be put aside (\<open>reset\<close> copies its files to
  an archive and removes them), brought back (\<open>restore\<close>) and the archives listed and pruned;
  \<open>validate\<close>, \<open>status\<close> and \<open>report\<close> judge and summarise the state.

  The sources are \<open>src/templates/_shared/*.py\<close> (the core shared by all controllers) and
  \<open>src/templates/bo_client/run_bo.py\<close> (the controller itself, with the acquisition and
  surrogate modules beside it).

  \<^bold>\<open>Conventions.\<close> A Python function that may raise is a function into \<open>'a res = exn + 'a\<close>;
  every \<open>raise\<close> and early return is a branch, and the exception keeps its class and a text of
  its own (messages that repeat values are abbreviated). A dict is an association list in
  insertion order (\<open>dict\<close>, read by \<open>map_of\<close> or \<open>dict_get\<close>, written by \<open>dset\<close>), a JSON document
  is a \<open>json\<close>, Python's int is \<open>int\<close>, and a float is a \<open>pyfloat\<close>: IEEE 754 binary64 computed
  exactly with round to nearest even, infinities, NaN and overflow included. Strings are lists
  of 8-bit characters. A random generator is a record of operations on a state passed along;
  the clock, the process id, the random bits of a lease token and directory listings are
  numbered observations of the outside world. Code that is not under \<open>src/\<close> (the sampler of Python's
  \<open>random\<close>, \<open>re.fullmatch\<close>, \<open>math.exp\<close>, \<open>json.loads\<close> on text, BoTorch, Ax) is a parameter.

  \<^bold>\<open>Theories, in the order of the code.\<close>
  \<^item> \<open>Prelude\<close>: exceptions as values and their sequencing, dicts, strings, sorting and minima,
    with the rules the component proofs share.
  \<^item> \<open>PyFloat\<close> and \<open>FloatRanges\<close>: floats; rounding is monotone and exact on integers up to
    \<open>2 ^ 53\<close>; the error of a rounding, and where \<open>lo + unit * (hi - lo)\<close> may land.
  \<^item> \<open>Json\<close>: documents, \<open>==\<close> of Python values (\<open>py_eq\<close>), type tests.
  \<^item> \<open>Measurements\<close> (\<open>ax_contract.py\<close>), \<open>Objectives\<close>, \<open>Pareto\<close> and \<open>Hypervolume\<close> (\<open>objectives.py\<close>): the
    objective schema, vectors and ranking of results, the best record; dominance, the front,
    the hypervolume and the summary of outcome constraints. Shown: normalized schemas are
    well-formed, ranking is a strict total order, fronts are exact, and for integer values the
    hypervolume is the number of unit cells that some record covers.
  \<^item> \<open>SearchSpace\<close>, \<open>SpacePoints\<close> (\<open>search_space.py\<close>) and \<open>Constraints\<close> (\<open>constraints.py\<close>): parameters
    with conditions, their ordering, sampling, encoding and decoding; bound, linear and forbidden
    rules and rejection sampling. Shown: normal forms are well-formed, ordering and the cycle
    check are exact, sampled and decoded values lie in the domains of their parameters as far as
    rounding lets them, decoding inverts encoding on discrete spaces, a candidate breaks exactly
    the rules whose requirement it does not meet, tightening and evaluation agree.
  \<^item> \<open>Contract\<close> (\<open>contract.py\<close>): schema validation, document lookup, ingest payloads,
    observation contracts and their diff. Shown: the normal form of a payload, its idempotence,
    exactness of the diff.
  \<^item> \<open>RuntimeCfg\<close> (\<open>runtime.py\<close>, \<open>runtime_paths.py\<close>): schema versions, limits, the age of a
    pending trial, paths, and the loop that takes the lock. Shown: when it returns, and that it
    returns whenever the clock reaches the deadline.
  \<^item> \<open>Governance\<close> (\<open>governance.py\<close>): policies, age buckets, footprints, violations.
  \<^item> \<open>Surrogate\<close> (\<open>acquisition.py\<close>, \<open>surrogate_proxy.py\<close>): acquisition scores and the proxy.
  \<^item> \<open>AxSpace\<close> (\<open>ax_space.py\<close>): the codec between points and Ax parameters, with its round trip.
  \<^item> \<open>Campaign\<close> (\<open>run_bo.py\<close>): the state record, pending and finished trials, leases, the best
    record, manifests, table rows, and the proposal of the built-in optimizer.
  \<^item> \<open>Commands\<close> (\<open>cmd_suggest\<close>, \<open>cmd_ingest\<close>, \<open>cmd_cancel\<close>, \<open>cmd_retire\<close>, \<open>cmd_heartbeat\<close> of
    \<open>run_bo.py\<close> and \<open>controller_operations.py\<close>): each whole command as a function of the \<open>world\<close>,
    the record of all files, through the operators \<open>bindC\<close>, \<open>thenC\<close> and \<open>finallyC\<close>.
  \<^item> \<open>ObsImport\<close> (\<open>observations_io.py\<close>) and \<open>ImportCommands\<close> (\<open>cmd_import_observations\<close>,
    \<open>cmd_export_observations\<close>): observations as JSON lines and tables, strict and permissive
    imports with their reports, and exports.
  \<^item> \<open>Lifecycle\<close>, \<open>Ledger\<close>, \<open>Refinement\<close>, \<open>Machine\<close>: what the commands may do to the trials,
    as an inductive step relation (allocate, finish, refresh, record) and as an abstract ledger
    of open and closed trials; the proof, per command, that all it writes is reached by such
    steps, even when it raises halfway; and the machine of all command sequences with the
    locale that carries invariants to its reachable states, interpreted for each invariant.
  \<^item> \<open>Scenario\<close>: a campaign run through the model, which witnesses the guarantees.
  \<^item> \<open>Guarantees\<close>, \<open>Replay\<close>, \<open>ImportGuarantees\<close>, \<open>ObsRoundTrip\<close>: the properties that span
    components: trial ids, finished rows, the best record and the observation table in every
    reachable state, ingesting twice, what imports add or leave alone, and the round trip of an
    observation through export and import.
  \<^item> \<open>Validate\<close> and \<open>Reports\<close> (\<open>_validate_state_hard_checks\<close>, \<open>_validate_state_warnings\<close>,
    \<open>_health_state\<close>, \<open>_status_payload\<close>, \<open>_build_report_payload\<close> of \<open>run_bo.py\<close>): judgements
    and summaries of a state document. Shown: a reachable state passes the hard checks unless its
    best value overflowed, and a report leads with the best record and accounts for every row.
  \<^item> \<open>FileTree\<close>: files and directories as a tree, the copying and removing operations of
    \<open>shutil\<close>, and what an operation leaves alone. Every writing operation is numbered and an
    argument says which of them fail, and what they leave behind.
  \<^item> \<open>Archives\<close> and \<open>Restoring\<close> (\<open>archives.py\<close>, the file part of \<open>cmd_reset\<close>): making,
    inspecting, listing and pruning archives; staging, backup, replacement and rollback of a
    restore. \<open>ArchiveSafety\<close>, \<open>ArchiveCycle\<close>, \<open>ArchivePrune\<close>: a restore is exact and, once the
    backup is made, all or nothing under one failing operation; before that a failure loses
    the live files, which is proved too; a reset followed by a restore gives the files back; a
    prune removes exactly the archives that are due under its policy and keeps the others.

  \<^bold>\<open>Bounds and fuel.\<close> The loops of the code have their own bounds as recursion arguments
  (attempts of rejection sampling, trials of a batch, rounds of the lock). The searches over
  parameter dependencies (\<open>dfs_visit\<close>, \<open>tree_visit\<close>, \<open>ancestors_of\<close>) carry fuel; they start with
  more fuel than there are parameters, and it is proved that they fail only on a cycle or an
  unknown name, never for lack of fuel. The lock loop may run for ever and is a partial function
  whose definedness is characterized. Nothing else is bounded: campaigns, batches, files and
  numbers are of any size; where a property holds only while floats are exact (integers of at
  most \<open>2 ^ 49\<close> through the encoding, hypervolumes below \<open>2 ^ 53\<close> cells) its statement says so.

  \<^bold>\<open>Not modelled.\<close>
  \<^item> The Ax backend (\<open>optimizer_ax.py\<close>, its worker, \<open>ax_install.py\<close>, \<open>gp_fit.py\<close>,
    \<open>optimizer_backend.py\<close>): it drives third-party packages in another process. The commands
    are those of campaigns of the built-in optimizer with contract version 1; the branches of
    \<open>run_bo.py\<close> that call the backend or use its codec are left out.
  \<^item> The parts of \<open>status\<close>, \<open>health\<close>, \<open>metrics\<close>, \<open>report\<close>, \<open>validate\<close>, \<open>doctor\<close> and \<open>demo\<close> not
    listed above: loading and printing, the checks of the manifest and log files, the run time
    summary; and the recovery of an Ax campaign.
  \<^item> Symbolic links, permissions and times of files; the confirmation prompts and the log
    entries of \<open>reset\<close>, \<open>restore\<close> and \<open>prune-archives\<close>, whose commands are the functions of
    \<open>Archives\<close> and \<open>Restoring\<close> under the lock.
  \<^item> The other controllers (\<open>bo_client_demo\<close>, \<open>bo_client_full\<close>), which are copies of this one with
    other defaults; the HTTP service, which runs the controller as a process; the evaluator
    harness, benchmarks, examples and scripts.
  \<^item> Texts: the exact digits of a printed float, CSV quoting, characters beyond 8 bits, and the
    wording of messages. Conversions of text are parameters where imports read files.
  \<^item> Crashes of the process: in the commands on trials a write is atomic, as the code's
    write-then-rename makes it, and a command may stop by an exception anywhere; in the archive
    operations a failed write may leave anything at its own path.
\<close>

end
